(* ===== verification/Ryu_Prelude.thy ===== *)
theory Ryu_Prelude
  imports Main "HOL-Library.Word" "HOL-Library.Char_ord" "HOL-Library.List_Lexorder"
    "HOL-Library.Product_Lexorder" "HOL-Library.Sublist" "HOL-Library.Multiset"
begin

section \<open>Prelude: the Rust standard library as the components use it\<close>

text \<open>
  What every component of the development shares: the machine types, saturating arithmetic on
  \<open>usize\<close> and \<open>u64\<close>, the \<open>str\<close> operations the code calls (prefixes, suffixes, substring search,
  \<open>split\<close>, ASCII classes, decimal printing and parsing), and the two ordered containers
  \<open>BTreeSet\<close> and \<open>BTreeMap\<close> as sorted lists.

  A Rust \<open>String\<close> is a \<open>string\<close>, the list of its UTF-8 bytes, so \<open>length\<close> is \<open>str::len\<close> (bytes)
  and the order on \<open>string\<close> is the byte-wise order of \<open>str\<close>.  A \<open>BTreeSet\<close> is the sorted,
  duplicate-free list of its elements and \<open>insort_insert\<close> is its \<open>insert\<close>; a \<open>BTreeMap\<close> is an
  association list sorted by key, so iterating over either is iterating over the list.
\<close>

subsection \<open>Named collections\<close>

text \<open>
  \<open>clean_simps\<close> collects, for each checker that pushes findings, the equation that says when it
  leaves no blocking finding.  \<open>frame_simps\<close> collects what an operation leaves alone.
\<close>

named_theorems clean_simps
named_theorems frame_simps

subsection \<open>Machine integers\<close>

type_synonym byte = "8 word"
type_synonym u32 = "32 word"
type_synonym u64 = "64 word"

abbreviation usize_max :: nat where
  "usize_max \<equiv> 18446744073709551615"

text \<open>\<open>usize::saturating_add\<close>, on the numbers a \<open>usize\<close> can hold.\<close>

definition sat_add :: "nat \<Rightarrow> nat \<Rightarrow> nat" where
  "sat_add a b = min (a + b) usize_max"

lemma sat_add_le: "sat_add a b \<le> usize_max"
  by (simp add: sat_add_def)

lemma sat_add_small: "a + b \<le> usize_max \<Longrightarrow> sat_add a b = a + b"
  by (simp add: sat_add_def)

lemma sat_add_below: "sat_add a b \<le> m \<Longrightarrow> m < usize_max \<Longrightarrow> a + b \<le> m \<and> sat_add a b = a + b"
  by (simp add: sat_add_def min_def split: if_splits)

text \<open>\<open>u64::saturating_add\<close> on words.\<close>

definition sat_add_u64 :: "u64 \<Rightarrow> u64 \<Rightarrow> u64" where
  "sat_add_u64 a b = (if unat a + unat b < 2 ^ 64 then a + b else - 1)"

lemma unat_max_u64: "unat (- 1 :: u64) = 2 ^ 64 - 1"
  by (simp add: unsigned_minus_1_eq_mask mask_eq_exp_minus_1)

lemma unat_sat_add_u64: "unat (sat_add_u64 a b) = min (unat a + unat b) (2 ^ 64 - 1)"
  by (auto simp: sat_add_u64_def unat_max_u64 unat_word_ariths)

subsection \<open>Loops that stop at the first error\<close>

text \<open>\<open>for x in xs { f(x)?; }\<close> over a body that returns \<open>Result<(), E>\<close>.\<close>

fun try_all :: "('a \<Rightarrow> 'e + unit) \<Rightarrow> 'a list \<Rightarrow> 'e + unit" where
  "try_all f [] = Inr ()"
| "try_all f (x # xs) = (case f x of Inl e \<Rightarrow> Inl e | Inr u \<Rightarrow> try_all f xs)"

text \<open>\<open>xs.iter().map(f).collect::<Result<Vec<_>, E>>()\<close>.\<close>

fun try_map :: "('a \<Rightarrow> 'e + 'b) \<Rightarrow> 'a list \<Rightarrow> 'e + 'b list" where
  "try_map f [] = Inr []"
| "try_map f (x # xs) =
     (case f x of Inl e \<Rightarrow> Inl e
      | Inr y \<Rightarrow> (case try_map f xs of Inl e \<Rightarrow> Inl e | Inr ys \<Rightarrow> Inr (y # ys)))"

lemma try_all_cong [fundef_cong]:
  "xs = ys \<Longrightarrow> (\<And>x. x \<in> set ys \<Longrightarrow> f x = g x) \<Longrightarrow> try_all f xs = try_all g ys"
  by (induction xs arbitrary: ys) (auto split: sum.splits)

lemma try_map_cong [fundef_cong]:
  "xs = ys \<Longrightarrow> (\<And>x. x \<in> set ys \<Longrightarrow> f x = g x) \<Longrightarrow> try_map f xs = try_map g ys"
  by (induction xs arbitrary: ys) (auto split: sum.splits)

lemma try_all_ok [simp]: "try_all f xs = Inr u \<longleftrightarrow> (\<forall>x \<in> set xs. f x = Inr ())"
  by (induction xs) (auto split: sum.splits)

lemma try_all_err: "try_all f xs = Inl e \<Longrightarrow> \<exists>x \<in> set xs. f x = Inl e"
  by (induction xs) (auto split: sum.splits)

lemma try_map_ok: "try_map f xs = Inr ys \<longleftrightarrow> list_all2 (\<lambda>x y. f x = Inr y) xs ys"
proof (induction xs arbitrary: ys)
  case (Cons x xs)
  show ?case
  proof (cases ys)
    case (Cons y zs)
    then show ?thesis using Cons.IH [of zs]
      by (cases "f x"; cases "try_map f xs") auto
  qed (auto split: sum.splits)
qed auto

lemma try_map_err: "try_map f xs = Inl e \<Longrightarrow> \<exists>x \<in> set xs. f x = Inl e"
  by (induction xs) (auto split: sum.splits)

subsection \<open>Strings\<close>

definition strip_prefix :: "string \<Rightarrow> string \<Rightarrow> string option" where
  "strip_prefix p s = (if take (length p) s = p then Some (drop (length p) s) else None)"

definition strip_suffix :: "string \<Rightarrow> string \<Rightarrow> string option" where
  "strip_suffix p s = (if length p \<le> length s \<and> drop (length s - length p) s = p
     then Some (take (length s - length p) s) else None)"

definition starts_with :: "string \<Rightarrow> string \<Rightarrow> bool" where
  "starts_with p s \<longleftrightarrow> take (length p) s = p"

definition ends_with :: "string \<Rightarrow> string \<Rightarrow> bool" where
  "ends_with p s \<longleftrightarrow> length p \<le> length s \<and> drop (length s - length p) s = p"

text \<open>\<open>str::contains\<close> with a string pattern.\<close>

fun contains_str :: "string \<Rightarrow> string \<Rightarrow> bool" where
  "contains_str p [] = (p = [])"
| "contains_str p (c # cs) = (starts_with p (c # cs) \<or> contains_str p cs)"

text \<open>\<open>str::split\<close> with a character pattern: always at least one segment.\<close>

fun split_on :: "char \<Rightarrow> string \<Rightarrow> string list" where
  "split_on d [] = [[]]"
| "split_on d (c # cs) =
     (if c = d then [] # split_on d cs
      else (case split_on d cs of [] \<Rightarrow> [[c]] | seg # segs \<Rightarrow> (c # seg) # segs))"

fun join_with :: "char \<Rightarrow> string list \<Rightarrow> string" where
  "join_with d [] = []"
| "join_with d [s] = s"
| "join_with d (s # t # ss) = s @ d # join_with d (t # ss)"

lemma strip_prefix_Some: "strip_prefix p s = Some t \<longleftrightarrow> s = p @ t"
  by (auto simp: strip_prefix_def) (metis append_take_drop_id)

lemma strip_suffix_Some: "strip_suffix p s = Some t \<longleftrightarrow> s = t @ p"
  by (auto simp: strip_suffix_def) (metis append_take_drop_id)

lemma strip_suffix_None: "strip_suffix p s = None \<longleftrightarrow> \<not> (\<exists>t. s = t @ p)"
  by (metis not_None_eq strip_suffix_Some)

lemma starts_with_iff: "starts_with p s \<longleftrightarrow> (\<exists>t. s = p @ t)"
  by (auto simp: starts_with_def) (metis append_take_drop_id)

lemma ends_with_iff: "ends_with p s \<longleftrightarrow> (\<exists>t. s = t @ p)"
  by (auto simp: ends_with_def) (metis append_take_drop_id)

lemma contains_str_iff: "contains_str p s \<longleftrightarrow> (\<exists>u v. s = u @ p @ v)"
proof (induction s)
  case Nil
  then show ?case by simp
next
  case (Cons c cs)
  show ?case
  proof
    assume "contains_str p (c # cs)"
    then consider "starts_with p (c # cs)" | "contains_str p cs" by auto
    then show "\<exists>u v. c # cs = u @ p @ v"
    proof cases
      case 1
      then have "\<exists>v. c # cs = [] @ p @ v" by (simp add: starts_with_iff)
      then show ?thesis by blast
    next
      case 2
      with Cons.IH obtain u v where "c # cs = (c # u) @ p @ v" by auto
      then show ?thesis by blast
    qed
  next
    assume "\<exists>u v. c # cs = u @ p @ v"
    then show "contains_str p (c # cs)"
      using Cons.IH by (auto simp: starts_with_iff Cons_eq_append_conv)
  qed
qed

lemma split_on_nonempty [simp]: "split_on d s \<noteq> []"
  by (induction s) (auto split: list.splits)

lemma split_on_segments: "seg \<in> set (split_on d s) \<Longrightarrow> d \<notin> set seg"
  by (induction s arbitrary: seg) (fastforce split: if_splits list.splits)+

lemma join_split: "join_with d (split_on d s) = s"
proof (induction s)
  case Nil
  then show ?case by simp
next
  case (Cons c cs)
  then show ?case by (cases "split_on d cs" rule: list.exhaust; cases "tl (split_on d cs)") auto
qed

lemma split_on_free: "d \<notin> set s \<Longrightarrow> split_on d s = [s]"
  by (induction s) auto

lemma split_on_append_sep:
  "split_on d (s @ d # t) = split_on d s @ split_on d t"
  by (induction s) (auto split: list.splits)

lemma split_on_join:
  assumes "ss \<noteq> []" and "\<forall>s \<in> set ss. d \<notin> set s"
  shows "split_on d (join_with d ss) = ss"
  using assms
  by (induction d ss rule: join_with.induct) (auto simp: split_on_free split_on_append_sep)

subsection \<open>ASCII classes\<close>

abbreviation ord_of :: "char \<Rightarrow> nat" where
  "ord_of c \<equiv> of_char c"

definition is_ascii_digit :: "char \<Rightarrow> bool" where
  "is_ascii_digit c \<longleftrightarrow> 48 \<le> ord_of c \<and> ord_of c \<le> 57"

definition is_ascii_alphanumeric :: "char \<Rightarrow> bool" where
  "is_ascii_alphanumeric c \<longleftrightarrow>
     is_ascii_digit c \<or> (65 \<le> ord_of c \<and> ord_of c \<le> 90) \<or> (97 \<le> ord_of c \<and> ord_of c \<le> 122)"

definition is_ascii_graphic :: "char \<Rightarrow> bool" where
  "is_ascii_graphic c \<longleftrightarrow> 33 \<le> ord_of c \<and> ord_of c \<le> 126"

definition is_ascii :: "string \<Rightarrow> bool" where
  "is_ascii s \<longleftrightarrow> list_all (\<lambda>c. ord_of c < 128) s"

definition ascii_lower :: "char \<Rightarrow> char" where
  "ascii_lower c = (if 65 \<le> ord_of c \<and> ord_of c \<le> 90 then char_of (ord_of c + 32) else c)"

definition to_ascii_lowercase :: "string \<Rightarrow> string" where
  "to_ascii_lowercase s = map ascii_lower s"

lemma ascii_lower_idem: "ascii_lower (ascii_lower c) = ascii_lower c"
  by (auto simp: ascii_lower_def)

lemma ascii_lower_eq_iff:
  assumes "\<not> (97 \<le> ord_of d \<and> ord_of d \<le> 122)" and "\<not> (65 \<le> ord_of d \<and> ord_of d \<le> 90)"
  shows "ascii_lower c = d \<longleftrightarrow> c = d"
proof -
  have "of_char (ascii_lower c) = (of_char c + 32 :: nat)" if "65 \<le> ord_of c" "ord_of c \<le> 90"
    using that by (simp add: ascii_lower_def)
  with assms show ?thesis by (auto simp: ascii_lower_def)
qed

subsection \<open>Decimal numbers\<close>

text \<open>What \<open>format!\<close> prints for an unsigned integer.\<close>

fun show_nat :: "nat \<Rightarrow> string" where
  "show_nat n = (if n < 10 then [char_of (48 + n)] else show_nat (n div 10) @ [char_of (48 + n mod 10)])"

declare show_nat.simps [simp del]

text \<open>
  \<open>str::parse::<usize>\<close>: an optional leading \<open>+\<close>, then at least one decimal digit and nothing
  else, with an error when the value does not fit.
\<close>

definition digits_value :: "string \<Rightarrow> nat" where
  "digits_value s = foldl (\<lambda>n c. 10 * n + (ord_of c - 48)) 0 s"

definition parse_usize :: "string \<Rightarrow> nat option" where
  "parse_usize s =
     (let ds = (case s of c # cs \<Rightarrow> (if c = CHR ''+'' then cs else s) | [] \<Rightarrow> s)
      in if ds \<noteq> [] \<and> list_all is_ascii_digit ds \<and> digits_value ds \<le> usize_max
         then Some (digits_value ds) else None)"

lemma digits_value_snoc: "digits_value (s @ [c]) = 10 * digits_value s + (ord_of c - 48)"
  by (simp add: digits_value_def)

lemma show_nat_digits: "list_all is_ascii_digit (show_nat n) \<and> digits_value (show_nat n) = n \<and> show_nat n \<noteq> []"
proof (induction n rule: show_nat.induct)
  case (1 n)
  show ?case
  proof (cases "n < 10")
    case True
    then show ?thesis by (simp add: show_nat.simps [of n] is_ascii_digit_def digits_value_def)
  next
    case False
    with "1.IH" show ?thesis
      by (auto simp: show_nat.simps [of n] is_ascii_digit_def digits_value_snoc)
  qed
qed

lemma parse_show_nat: "n \<le> usize_max \<Longrightarrow> parse_usize (show_nat n) = Some n"
proof -
  assume n: "n \<le> usize_max"
  obtain c cs where s: "show_nat n = c # cs" using show_nat_digits [of n] by (cases "show_nat n") auto
  have "is_ascii_digit c" using show_nat_digits [of n] s by simp
  then have "c \<noteq> CHR ''+''" by (auto simp: is_ascii_digit_def)
  with s n show_nat_digits [of n] show ?thesis by (simp add: parse_usize_def)
qed

subsection \<open>Ordered maps\<close>

text \<open>\<open>BTreeMap::insert\<close> on the sorted association list: replace in place, or insert in order.\<close>

fun bt_insert :: "'k::linorder \<Rightarrow> 'v \<Rightarrow> ('k \<times> 'v) list \<Rightarrow> ('k \<times> 'v) list" where
  "bt_insert k v [] = [(k, v)]"
| "bt_insert k v ((a, b) # m) =
     (if k < a then (k, v) # (a, b) # m
      else if k = a then (k, v) # m
      else (a, b) # bt_insert k v m)"

definition bt_get :: "('k \<times> 'v) list \<Rightarrow> 'k \<Rightarrow> 'v option" where
  "bt_get m k = map_of m k"

definition bt_keys :: "('k \<times> 'v) list \<Rightarrow> 'k list" where
  "bt_keys m = map fst m"

definition bt_wf :: "('k::linorder \<times> 'v) list \<Rightarrow> bool" where
  "bt_wf m \<longleftrightarrow> sorted_wrt (<) (bt_keys m)"

text \<open>
  The interface the components rely on when they keep a map: lookup after insert, and an
  invariant every insert keeps.
\<close>

locale map_store =
  fixes lookup :: "'m \<Rightarrow> 'k \<Rightarrow> 'v option"
    and insert_at :: "'k \<Rightarrow> 'v \<Rightarrow> 'm \<Rightarrow> 'm"
    and empty_store :: "'m"
    and ok :: "'m \<Rightarrow> bool"
  assumes lookup_insert: "ok m \<Longrightarrow> lookup (insert_at k v m) j = (if j = k then Some v else lookup m j)"
    and lookup_empty: "lookup empty_store j = None"
    and ok_insert: "ok m \<Longrightarrow> ok (insert_at k v m)"
    and ok_empty: "ok empty_store"
begin

lemma lookup_insert_same: "ok m \<Longrightarrow> lookup (insert_at k v m) k = Some v"
  by (simp add: lookup_insert)

lemma lookup_insert_other: "ok m \<Longrightarrow> j \<noteq> k \<Longrightarrow> lookup (insert_at k v m) j = lookup m j"
  by (simp add: lookup_insert)

lemma ok_fold: "ok m \<Longrightarrow> ok (fold (\<lambda>(k, v). insert_at k v) kvs m)"
  by (induction kvs arbitrary: m) (auto intro: ok_insert)

lemma lookup_fold:
  "ok m \<Longrightarrow> lookup (fold (\<lambda>(k, v). insert_at k v) kvs m) j =
     (case map_of (rev kvs) j of Some v \<Rightarrow> Some v | None \<Rightarrow> lookup m j)"
  by (induction kvs arbitrary: m)
    (auto simp: lookup_insert ok_insert map_add_def split: option.splits)

lemma insert_twice: "ok m \<Longrightarrow> lookup (insert_at k v (insert_at k u m)) j = lookup (insert_at k v m) j"
  by (simp add: lookup_insert ok_insert)

end

lemma bt_insert_keys: "set (bt_keys (bt_insert k v m)) = insert k (set (bt_keys m))"
  by (induction k v m rule: bt_insert.induct) (auto simp: bt_keys_def)

lemma bt_wf_insert: "bt_wf m \<Longrightarrow> bt_wf (bt_insert k v m)"
proof (induction k v m rule: bt_insert.induct)
  case (2 k v a b m)
  have "set (bt_keys (bt_insert k v m)) = insert k (set (bt_keys m))" by (rule bt_insert_keys)
  with 2 show ?case by (auto simp: bt_wf_def bt_keys_def)
qed (simp add: bt_wf_def bt_keys_def)

lemma bt_get_insert: "bt_get (bt_insert k v m) j = (if j = k then Some v else bt_get m j)"
  by (induction k v m rule: bt_insert.induct) (auto simp: bt_get_def)

lemma bt_get_None: "bt_get m k = None \<longleftrightarrow> k \<notin> set (bt_keys m)"
  by (force simp: bt_get_def bt_keys_def map_of_eq_None_iff)

interpretation btree: map_store bt_get bt_insert "[]" bt_wf
  by unfold_locales (simp_all add: bt_get_insert bt_wf_insert, simp_all add: bt_get_def bt_wf_def bt_keys_def)

lemma bt_wf_distinct: "bt_wf m \<Longrightarrow> distinct (bt_keys m)"
  by (simp add: bt_wf_def strict_sorted_iff)

text \<open>Two maps with the same lookups are the same list: the representation is canonical.\<close>

lemma bt_wf_ext:
  assumes "bt_wf m" and "bt_wf n" and "\<And>k. bt_get m k = bt_get n k"
  shows "m = n"
proof -
  have mn: "map_of m = map_of n" using assms(3) by (auto simp: bt_get_def fun_eq_iff)
  have d: "distinct (map fst m)" "distinct (map fst n)"
    using assms(1,2) bt_wf_distinct unfolding bt_keys_def by blast+
  have s: "set m = set n" using d mn by (metis map_of_inject_set)
  have "sorted (map fst m)" "sorted (map fst n)"
    using assms(1,2) by (auto simp: bt_wf_def bt_keys_def strict_sorted_iff)
  then show ?thesis
    using s d by (intro map_sorted_distinct_set_unique [where f = fst]) (auto simp: distinct_map)
qed

end
