(* ===== verification/Ryu_Json.thy ===== *)
theory Ryu_Json
  imports Ryu_Prelude
begin

section \<open>JSON values and their canonical form\<close>

text \<open>
  \<open>serde_json::Value\<close> as a datatype, the accessors the code uses, and
  \<open>crates/core/safe-actions/src/canonical.rs\<close>: the recursive key sort behind every hash of the
  Safe Actions subsystem, and the lower-case hexadecimal rendering of a digest.

  An object is the list of its entries in iteration order, with distinct keys (\<open>json_wf\<close>), so the
  model covers both of \<open>serde_json\<close>'s map types.  A number is an integer (what \<open>is_i64\<close> or \<open>is_u64\<close>
  accepts) or a float, kept as its 64 bits.  What \<open>serde_json\<close> and \<open>sha2\<close> compute (\<open>to_value\<close> of a
  typed value, \<open>to_vec\<close>, the SHA-256 digest) are parameters: functions of the record
  \<open>canonicalizer\<close> and arguments of the definitions here; \<open>None\<close> is a serialization error.
\<close>

subsection \<open>Values\<close>

datatype json_num = JInt int | JFloat u64

datatype json =
    JNull
  | JBool bool
  | JNum json_num
  | JString string
  | JArray "json list"
  | JObject "(string \<times> json) list"

text \<open>\<open>Value::get\<close> with a string key, \<open>as_object\<close>, \<open>as_array\<close>, \<open>as_str\<close>.\<close>

definition jget :: "json \<Rightarrow> string \<Rightarrow> json option" where
  "jget j k = (case j of JObject kvs \<Rightarrow> map_of kvs k | _ \<Rightarrow> None)"

definition as_object :: "json \<Rightarrow> (string \<times> json) list option" where
  "as_object j = (case j of JObject kvs \<Rightarrow> Some kvs | _ \<Rightarrow> None)"

definition as_array :: "json \<Rightarrow> json list option" where
  "as_array j = (case j of JArray xs \<Rightarrow> Some xs | _ \<Rightarrow> None)"

definition as_str :: "json \<Rightarrow> string option" where
  "as_str j = (case j of JString s \<Rightarrow> Some s | _ \<Rightarrow> None)"

lemma as_object_Some [simp]: "as_object j = Some kvs \<longleftrightarrow> j = JObject kvs"
  by (cases j) (auto simp: as_object_def)

lemma as_array_Some [simp]: "as_array j = Some xs \<longleftrightarrow> j = JArray xs"
  by (cases j) (auto simp: as_array_def)

lemma as_str_Some [simp]: "as_str j = Some s \<longleftrightarrow> j = JString s"
  by (cases j) (auto simp: as_str_def)

lemma jget_Some: "jget j k = Some v \<longleftrightarrow> (\<exists>kvs. j = JObject kvs \<and> map_of kvs k = Some v)"
  by (cases j) (auto simp: jget_def)

lemma jget_JObject [simp]: "jget (JObject kvs) k = map_of kvs k"
  by (simp add: jget_def)

text \<open>A value selected by a key is smaller: what the schema recursions terminate on.\<close>

lemma entry_size: "(k, v) \<in> set kvs \<Longrightarrow> size v \<le> size_list (size_prod (\<lambda>x. 0) size) kvs"
  by (induction kvs) auto

lemma entry_size_object: "(k, v) \<in> set kvs \<Longrightarrow> size v < size (JObject kvs)"
  using entry_size [of k v kvs] by simp

lemma jget_size: "jget j k = Some v \<Longrightarrow> size v < size j"
  by (auto simp: jget_Some dest!: map_of_SomeD entry_size_object)

lemma item_size: "x \<in> set xs \<Longrightarrow> size x < size (JArray xs)"
  by (induction xs) auto

text \<open>The same facts in the form the termination proofs meet them.\<close>

lemma entry_size_less: "(k, v) \<in> set kvs \<Longrightarrow> size v < Suc (size_list (size_prod (\<lambda>x. 0) size) kvs)"
  using entry_size [of k v kvs] by simp

lemma nested_size_less:
  "(k, JObject ps) \<in> set kvs \<Longrightarrow> (a, b) \<in> set ps \<Longrightarrow>
     size b < Suc (size_list (size_prod (\<lambda>x. 0) size) kvs)"
  using entry_size_less [of k "JObject ps" kvs] entry_size_less [of a b ps] by simp

lemma item_size_less:
  "(n, x) \<in> set (List.enumerate m xs) \<Longrightarrow> size (x :: json) < Suc (size_list size xs)"
  using item_size [of x xs] by (auto simp: in_set_enumerate_eq)

text \<open>Distinct keys in every object: what any value held in a \<open>serde_json::Map\<close> satisfies.\<close>

fun json_wf :: "json \<Rightarrow> bool" where
  "json_wf (JArray xs) \<longleftrightarrow> list_all json_wf xs"
| "json_wf (JObject kvs) \<longleftrightarrow> distinct (map fst kvs) \<and> list_all (\<lambda>(k, v). json_wf v) kvs"
| "json_wf _ \<longleftrightarrow> True"

lemma json_wf_get: "json_wf j \<Longrightarrow> jget j k = Some v \<Longrightarrow> json_wf v"
  by (auto simp: jget_Some list_all_iff dest!: map_of_SomeD)

subsection \<open>The canonical form\<close>

text \<open>\<open>normalize\<close>: sort the entries of an object by key, then normalize each value.\<close>

function normalize :: "json \<Rightarrow> json" where
  "normalize (JObject kvs) = JObject (map (\<lambda>(k, v). (k, normalize v)) (sort_key fst kvs))"
| "normalize (JArray xs) = JArray (map normalize xs)"
| "normalize JNull = JNull"
| "normalize (JBool b) = JBool b"
| "normalize (JNum n) = JNum n"
| "normalize (JString s) = JString s"
  by pat_completeness auto
termination
proof (relation "measure size", goal_cases)
  case (2 kvs x k v)
  then have "(k, v) \<in> set kvs" by (metis set_sort)
  then show ?case using entry_size_object by simp
qed (use item_size in auto)

text \<open>Every object of the value lists its keys in strictly ascending order.\<close>

fun json_sorted :: "json \<Rightarrow> bool" where
  "json_sorted (JArray xs) \<longleftrightarrow> list_all json_sorted xs"
| "json_sorted (JObject kvs) \<longleftrightarrow> sorted_wrt (<) (map fst kvs) \<and> list_all (\<lambda>(k, v). json_sorted v) kvs"
| "json_sorted _ \<longleftrightarrow> True"

lemma map_fst_map_prod: "map fst (map (\<lambda>(k, v). (k, f v)) kvs) = map fst kvs"
  by (induction kvs) auto

lemma distinct_sort_key_fst: "distinct (map fst (sort_key fst kvs)) = distinct (map fst kvs)"
  by (rule mset_eq_imp_distinct_iff) simp

lemma normalize_sorted: "json_wf j \<Longrightarrow> json_sorted (normalize j)"
proof (induction j rule: normalize.induct)
  case (1 kvs)
  have "sorted (map fst (sort_key fst kvs))" by simp
  moreover have "distinct (map fst (sort_key fst kvs))"
    using 1 by (simp add: distinct_sort_key_fst)
  ultimately have "sorted_wrt (<) (map fst (sort_key fst kvs))"
    by (simp add: strict_sorted_iff)
  moreover have "json_sorted (normalize v)" if "(k, v) \<in> set kvs" for k v
    using 1 that by (fastforce simp: list_all_iff)
  ultimately show ?case
    by (auto simp: list_all_iff case_prod_beta' comp_def)
qed (auto simp: list_all_iff)

lemma normalize_id: "json_sorted j \<Longrightarrow> normalize j = j"
proof (induction j rule: json_sorted.induct)
  case (2 kvs)
  then have "sorted (map fst kvs)" by (simp add: strict_sorted_iff)
  then have s: "sort_key fst kvs = kvs" by (simp add: sorted_sort_id sort_key_id_if_sorted)
  have "map (\<lambda>(k, v). (k, normalize v)) kvs = map id kvs"
    using 2 by (intro map_cong) (fastforce simp: list_all_iff)+
  with s show ?case by simp
qed (auto simp: list_all_iff map_idI)

lemma normalize_idem: "json_wf j \<Longrightarrow> normalize (normalize j) = normalize j"
  by (simp add: normalize_id normalize_sorted)

text \<open>Sorting entries with distinct keys forgets the order they came in.\<close>

lemma sort_key_fst_perm:
  assumes "distinct (map fst kvs)" and "mset kvs = mset lvs"
  shows "sort_key fst kvs = sort_key fst lvs"
proof (rule map_sorted_distinct_set_unique [where f = fst])
  have "set kvs = set lvs" using assms(2) by (metis set_mset_mset)
  then show "set (sort_key fst kvs) = set (sort_key fst lvs)" by simp
  show "distinct (map fst (sort_key fst kvs))" "distinct (map fst (sort_key fst lvs))"
    using assms by (simp add: distinct_sort_key_fst, metis distinct_sort_key_fst mset_map
        mset_eq_imp_distinct_iff)
  show "inj_on fst (set (sort_key fst kvs) \<union> set (sort_key fst lvs))"
    using assms(1) \<open>set kvs = set lvs\<close> by (simp add: distinct_map)
qed simp_all

lemma normalize_perm:
  assumes "distinct (map fst kvs)" and "mset kvs = mset lvs"
  shows "normalize (JObject kvs) = normalize (JObject lvs)"
  using sort_key_fst_perm [OF assms] by simp

subsection \<open>Digests\<close>

definition hex_digits :: string where
  "hex_digits = ''0123456789abcdef''"

definition to_lower_hex :: "byte list \<Rightarrow> string" where
  "to_lower_hex bytes =
     concat (map (\<lambda>b. [hex_digits ! unat (drop_bit 4 b), hex_digits ! unat (and b 15)]) bytes)"

text \<open>
  \<open>canonical_json\<close> and \<open>sha256_canonical\<close>: \<open>v\<close> is the outcome of \<open>serde_json::to_value\<close> on the value
  at hand.
\<close>

record canonicalizer =
  to_vec :: "json \<Rightarrow> byte list option"
  sha256 :: "byte list \<Rightarrow> byte list"

definition canonical_json :: "canonicalizer \<Rightarrow> json option \<Rightarrow> byte list option" where
  "canonical_json c v = (case v of None \<Rightarrow> None | Some j \<Rightarrow> to_vec c (normalize j))"

definition sha256_canonical :: "canonicalizer \<Rightarrow> json option \<Rightarrow> string option" where
  "sha256_canonical c v = map_option (\<lambda>bytes. to_lower_hex (sha256 c bytes)) (canonical_json c v)"

lemma hex_pair_inj:
  assumes "drop_bit 4 a = drop_bit 4 b" and "and a 15 = and b 15"
  shows "a = (b :: byte)"
proof -
  have low: "and c 15 = take_bit 4 c" for c :: byte
    by (simp add: take_bit_eq_mask mask_eq_exp_minus_1)
  have "push_bit 4 (drop_bit 4 c) + take_bit 4 c = c" for c :: byte
    by (rule bits_ident)
  with assms show ?thesis unfolding low by metis
qed

lemma hex_digit_inj: "i < 16 \<Longrightarrow> j < 16 \<Longrightarrow> hex_digits ! i = hex_digits ! j \<longleftrightarrow> i = j"
  by (subst nth_eq_iff_index_eq) (simp_all add: hex_digits_def)

lemma hex_digit_bounds: "unat (drop_bit 4 (b :: byte)) < 16" "unat (and b (15 :: byte)) < 16"
proof -
  have "unat b < 256" using unsigned_less [of b] by simp
  then show "unat (drop_bit 4 b) < 16"
    by (simp add: drop_bit_eq_div unat_div)
  have "unat (and b 15) \<le> unat (15 :: byte)"
    using word_and_le1 [of b 15] by (simp only: word_le_nat_alt)
  then show "unat (and b 15) < 16" by simp
qed

lemma to_lower_hex_inj: "to_lower_hex xs = to_lower_hex ys \<longleftrightarrow> xs = ys"
proof (induction xs arbitrary: ys)
  case Nil
  then show ?case by (cases ys) (auto simp: to_lower_hex_def)
next
  case (Cons x xs)
  show ?case
  proof (cases ys)
    case Nil
    then show ?thesis by (simp add: to_lower_hex_def)
  next
    case (Cons y ys')
    then show ?thesis
      using Cons.IH [of ys'] hex_digit_bounds
      by (auto simp: to_lower_hex_def hex_digit_inj dest: hex_pair_inj [OF word_unat_eq_iff [THEN iffD2]
            word_unat_eq_iff [THEN iffD2]])
  qed
qed

lemma length_to_lower_hex: "length (to_lower_hex bytes) = 2 * length bytes"
  by (induction bytes) (auto simp: to_lower_hex_def)

end
