(* ===== verification/SafeActions_Model.thy ===== *)
theory SafeActions_Model
  imports Ryu_Json
begin

section \<open>The Safe Actions data model\<close>

text \<open>
  The types of \<open>crates/core/safe-actions/src/model.rs\<close>: a typed tool plan (a tree of calls,
  sequences, parallel groups and conditionals), the policy it is checked against, the attested
  catalog of tools with their effect contracts, and the report of a verification.  Constructor
  and field names follow the source, with a prefix where HOL has the name already.

  Two fields of the report are not modelled: the human-readable \<open>message\<close> of a finding and, for
  the same reason, \<open>PointerError\<close>'s texts.  Everything a program can branch on (severity, code,
  node id, path) is.
\<close>

subsection \<open>Plans\<close>

definition TOOL_PLAN_SCHEMA_VERSION :: nat where
  "TOOL_PLAN_SCHEMA_VERSION = 1"

datatype json_type = TNull | TBoolean | TNumber | TInteger | TString | TArray | TObject

datatype comparison_op =
    Equal | NotEqual | LessThan | LessThanOrEqual | GreaterThan | GreaterThanOrEqual

datatype plan_value =
    PLiteral json
  | PObject "(string \<times> plan_value) list"
  | PArray "plan_value list"
  | PStepOutput string string json_type

datatype predicate =
    PCompare plan_value comparison_op plan_value
  | PAll "predicate list"
  | PAny "predicate list"
  | PNot predicate
  | PExists plan_value

datatype plan_node =
    Call string string plan_value
  | Sequence string "plan_node list"
  | Parallel string "plan_node list"
  | IfNode string predicate plan_node plan_node

fun node_id :: "plan_node \<Rightarrow> string" where
  "node_id (Call i tool args) = i"
| "node_id (Sequence i nodes) = i"
| "node_id (Parallel i nodes) = i"
| "node_id (IfNode i p th el) = i"

record tool_plan =
  schema_version :: nat
  root :: plan_node

subsection \<open>Effects and contracts\<close>

datatype effect_kind = Read | Write | Delete | Communicate | Spend | Network | Execute

definition is_read_only :: "effect_kind \<Rightarrow> bool" where
  "is_read_only e \<longleftrightarrow> (case e of Read \<Rightarrow> True | _ \<Rightarrow> False)"

text \<open>The derived \<open>Ord\<close> of the enum: the order of declaration, which a \<open>BTreeSet\<close> iterates in.\<close>

fun effect_rank :: "effect_kind \<Rightarrow> nat" where
  "effect_rank Read = 0"
| "effect_rank Write = 1"
| "effect_rank Delete = 2"
| "effect_rank Communicate = 3"
| "effect_rank Spend = 4"
| "effect_rank Network = 5"
| "effect_rank Execute = 6"

lemma effect_rank_inj: "effect_rank a = effect_rank b \<longleftrightarrow> a = b"
  by (cases a; cases b) simp_all

instantiation effect_kind :: linorder
begin

definition less_eq_effect_kind :: "effect_kind \<Rightarrow> effect_kind \<Rightarrow> bool" where
  "less_eq_effect_kind a b \<longleftrightarrow> effect_rank a \<le> effect_rank b"

definition less_effect_kind :: "effect_kind \<Rightarrow> effect_kind \<Rightarrow> bool" where
  "less_effect_kind a b \<longleftrightarrow> effect_rank a < effect_rank b"

instance
  by standard (auto simp: less_eq_effect_kind_def less_effect_kind_def effect_rank_inj)

end

datatype contract_trust = CoreAttested | ManifestAttested | OperatorAttested | Untrusted

definition is_verifiable :: "contract_trust \<Rightarrow> bool" where
  "is_verifiable t \<longleftrightarrow>
     (case t of CoreAttested \<Rightarrow> True | ManifestAttested \<Rightarrow> True | OperatorAttested \<Rightarrow> True
      | Untrusted \<Rightarrow> False)"

record resource_binding =
  rb_pointer :: string
  rb_prefix :: string

record effect_contract =
  trust :: contract_trust
  effects :: "effect_kind list"
  resources :: "string list"
  resource_bindings :: "resource_binding list"
  arguments_independent :: bool

record tool_descriptor =
  td_name :: string
  input_schema :: json
  output_schema :: json
  implementation_hash :: string
  dispatch_chain :: "string list"
  contract :: "effect_contract option"

subsection \<open>Policies\<close>

record policy_limits =
  max_plan_bytes :: nat
  max_nodes :: nat
  max_depth :: nat

definition default_limits :: policy_limits where
  "default_limits = \<lparr>max_plan_bytes = 64 * 1024, max_nodes = 128, max_depth = 16\<rparr>"

text \<open>Every \<open>BTreeSet\<close> is the sorted list of its elements.\<close>

record policy =
  allow_tools :: "string list"
  deny_tools :: "string list"
  allowed_effects :: "effect_kind list"
  allowed_resources :: "string list"
  review_tools :: "string list"
  review_effects :: "effect_kind list"
  allow_parallel_reads :: bool
  limits :: policy_limits

definition default_policy :: policy where
  "default_policy =
     \<lparr>allow_tools = [], deny_tools = [], allowed_effects = [], allowed_resources = [],
      review_tools = [], review_effects = [], allow_parallel_reads = False,
      limits = default_limits\<rparr>"

record verifier_input =
  plan :: tool_plan
  policy_of :: policy
  catalog :: "tool_descriptor list"
  agent_revision :: string

subsection \<open>Reports\<close>

datatype verification_decision = Proved | NeedsReview | Denied

datatype finding_severity = SevError | SevReview

datatype finding_code =
    UnsupportedSchemaVersion | PlanTooLarge | TooManyNodes | PlanTooDeep | EmptyPlan
  | InvalidNodeId | DuplicateNodeId | InvalidToolName | InvalidToolPattern
  | InvalidResourcePattern | InvalidPolicyLimits | PolicyTooComplex | CatalogTooLarge
  | DuplicateToolDescriptor | UnknownTool | MissingEffectContract | UntrustedEffectContract
  | MissingEffects | MissingResources | MissingResourceBindings | InvalidResourceBinding
  | UnresolvedResourceBinding | InvalidResource | UnsupportedToolSchema | ToolDenied
  | ToolNotAllowed | EffectNotAllowed | ResourceNotAllowed | ReviewRequired | ParallelDisabled
  | ParallelMutation | InvalidReference | ReferenceNotDominating | InvalidJsonPointer
  | OutputPointerMismatch | TypeMismatch | InvalidPredicate | InputShapeMismatch
  | InternalCanonicalization

record verification_finding =
  severity :: finding_severity
  code :: finding_code
  finding_node :: "string option"
  finding_path :: string

text \<open>The constant texts of \<open>Counterexample::reason\<close>.\<close>

datatype denial_reason =
    DenyPrecedence | DefaultDeny | EffectOutsideAllowSet | ResourceOutsideAllowSet
  | ParallelOnlyReads

record counterexample =
  cx_node :: string
  cx_tool :: string
  cx_effect :: "effect_kind option"
  cx_resource :: "string option"
  cx_reason :: denial_reason

record verification_bindings =
  plan_hash :: string
  policy_hash :: string
  catalog_hash :: string
  vb_agent_revision :: string
  verifier_version :: string

record verification_report =
  decision :: verification_decision
  bindings :: verification_bindings
  findings :: "verification_finding list"
  counterexamples :: "counterexample list"
  argument_hashes :: "(string \<times> string) list"
  invocation_resources :: "(string \<times> string list) list"
  report_node_count :: nat
  report_max_depth :: nat
  canonical_plan_bytes :: nat

subsection \<open>Reading a plan\<close>

text \<open>
  What the theorems say of a plan: its calls, in the order the verifier visits them, its node ids,
  its size and its depth.
\<close>

fun plan_calls :: "plan_node \<Rightarrow> (string \<times> string \<times> plan_value) list" where
  "plan_calls (Call i tool args) = [(i, tool, args)]"
| "plan_calls (Sequence i nodes) = concat (map plan_calls nodes)"
| "plan_calls (Parallel i nodes) = concat (map plan_calls nodes)"
| "plan_calls (IfNode i p th el) = plan_calls th @ plan_calls el"

fun plan_ids :: "plan_node \<Rightarrow> string list" where
  "plan_ids (Call i tool args) = [i]"
| "plan_ids (Sequence i nodes) = i # concat (map plan_ids nodes)"
| "plan_ids (Parallel i nodes) = i # concat (map plan_ids nodes)"
| "plan_ids (IfNode i p th el) = i # plan_ids th @ plan_ids el"

definition plan_size :: "plan_node \<Rightarrow> nat" where
  "plan_size n = length (plan_ids n)"

fun plan_depth :: "plan_node \<Rightarrow> nat" where
  "plan_depth (Call i tool args) = 1"
| "plan_depth (Sequence i nodes) = Suc (fold max (map plan_depth nodes) 0)"
| "plan_depth (Parallel i nodes) = Suc (fold max (map plan_depth nodes) 0)"
| "plan_depth (IfNode i p th el) = Suc (max (plan_depth th) (plan_depth el))"

lemma plan_calls_ids: "(i, tool, args) \<in> set (plan_calls n) \<Longrightarrow> i \<in> set (plan_ids n)"
  by (induction n rule: plan_calls.induct) fastforce+

lemma plan_depth_pos: "0 < plan_depth n"
  by (cases n) auto

end
