(* ===== verification/SafeActions_Text.thy ===== *)
theory SafeActions_Text
  imports SafeActions_Model
begin

section \<open>Identifiers, patterns and JSON pointers\<close>

text \<open>
  The string predicates at the end of \<open>crates/core/safe-actions/src/verifier.rs\<close>: what a node id,
  a tool name, a resource identifier and the two kinds of pattern may look like, what a pattern
  matches, and the decoding of an RFC 6901 pointer.  The lemmas say that patterns match whole
  segments only, that a resource inside a granted prefix cannot climb out of it, and that decoding
  a pointer is the inverse of writing one.
\<close>

subsection \<open>The predicates of the source\<close>

abbreviation MAX_IDENTIFIER_BYTES :: nat where "MAX_IDENTIFIER_BYTES \<equiv> 128"
abbreviation MAX_TOOL_NAME_BYTES :: nat where "MAX_TOOL_NAME_BYTES \<equiv> 256"

definition identifier_char :: "char \<Rightarrow> bool" where
  "identifier_char c \<longleftrightarrow> is_ascii_alphanumeric c \<or> c \<in> {CHR ''.'', CHR ''_'', CHR ''-''}"

definition tool_char :: "char \<Rightarrow> bool" where
  "tool_char c \<longleftrightarrow>
     is_ascii_alphanumeric c \<or> c \<in> {CHR ''.'', CHR ''_'', CHR ''-'', CHR '':'', CHR ''/''}"

definition valid_identifier :: "string \<Rightarrow> bool" where
  "valid_identifier v \<longleftrightarrow>
     v \<noteq> [] \<and> length v \<le> MAX_IDENTIFIER_BYTES \<and> list_all identifier_char v"

definition valid_tool_name :: "string \<Rightarrow> bool" where
  "valid_tool_name v \<longleftrightarrow>
     v \<noteq> [] \<and> length v \<le> MAX_TOOL_NAME_BYTES \<and> \<not> starts_with ''.'' v \<and> \<not> ends_with ''.'' v
     \<and> \<not> contains_str ''..'' v \<and> list_all tool_char v"

definition valid_tool_pattern :: "string \<Rightarrow> bool" where
  "valid_tool_pattern p =
     (case strip_suffix ''.*'' p of
        Some pre \<Rightarrow> valid_tool_name pre \<and> CHR ''*'' \<notin> set pre
      | None \<Rightarrow> valid_tool_name p \<and> CHR ''*'' \<notin> set p)"

definition tool_matches :: "string \<Rightarrow> string \<Rightarrow> bool" where
  "tool_matches p tool =
     (case strip_suffix ''.*'' p of
        None \<Rightarrow> p = tool
      | Some pre \<Rightarrow>
          (case strip_prefix pre tool of
             None \<Rightarrow> False
           | Some suf \<Rightarrow> starts_with ''.'' suf \<and> 1 < length suf))"

definition contains_unsafe_resource_path :: "string \<Rightarrow> bool" where
  "contains_unsafe_resource_path v =
     (let lowered = to_ascii_lowercase v in
      if contains_str [CHR 0x5C] lowered \<or> contains_str ''%2e'' lowered
         \<or> contains_str ''%2f'' lowered \<or> contains_str ''%5c'' lowered
      then True
      else list_ex (\<lambda>seg. seg = ''.'' \<or> seg = ''..'') (split_on (CHR ''/'') lowered))"

definition valid_resource_pattern :: "string \<Rightarrow> bool" where
  "valid_resource_pattern p \<longleftrightarrow>
     p \<noteq> [] \<and> length p \<le> 1024 \<and> is_ascii p \<and> list_all is_ascii_graphic p
     \<and> \<not> contains_unsafe_resource_path p
     \<and> (case strip_suffix ''/*'' p of
          Some pre \<Rightarrow> pre \<noteq> [] \<and> CHR ''*'' \<notin> set pre
        | None \<Rightarrow> CHR ''*'' \<notin> set p)"

definition valid_resource_identifier :: "string \<Rightarrow> bool" where
  "valid_resource_identifier r \<longleftrightarrow>
     r \<noteq> [] \<and> length r \<le> 1024 \<and> is_ascii r \<and> list_all is_ascii_graphic r
     \<and> CHR ''*'' \<notin> set r \<and> \<not> contains_unsafe_resource_path r"

definition resource_matches :: "string \<Rightarrow> string \<Rightarrow> bool" where
  "resource_matches p resource =
     (case strip_suffix ''/*'' p of
        None \<Rightarrow> p = resource
      | Some pre \<Rightarrow>
          (case strip_prefix pre resource of
             None \<Rightarrow> False
           | Some suf \<Rightarrow> starts_with ''/'' suf \<and> 1 < length suf))"

subsection \<open>JSON pointers\<close>

datatype pointer_error = InvalidSyntax | SchemaMismatch

text \<open>The inner loop: \<open>~0\<close> and \<open>~1\<close> are the only escapes.\<close>

fun decode_token :: "string \<Rightarrow> pointer_error + string" where
  "decode_token [] = Inr []"
| "decode_token (c # cs) =
     (if c \<noteq> CHR ''~'' then map_sum id (Cons c) (decode_token cs)
      else (case cs of
              [] \<Rightarrow> Inl InvalidSyntax
            | d # ds \<Rightarrow>
                if d = CHR ''0'' then map_sum id (Cons (CHR ''~'')) (decode_token ds)
                else if d = CHR ''1'' then map_sum id (Cons (CHR ''/'')) (decode_token ds)
                else Inl InvalidSyntax))"

fun decode_tokens :: "string list \<Rightarrow> pointer_error + string list" where
  "decode_tokens [] = Inr []"
| "decode_tokens (t # ts) =
     (case decode_token t of
        Inl e \<Rightarrow> Inl e
      | Inr d \<Rightarrow> map_sum id (Cons d) (decode_tokens ts))"

definition parse_json_pointer :: "string \<Rightarrow> pointer_error + string list" where
  "parse_json_pointer pointer =
     (if pointer = [] then Inr []
      else if \<not> starts_with ''/'' pointer then Inl InvalidSyntax
      else decode_tokens (split_on (CHR ''/'') (tl pointer)))"

subsection \<open>Patterns match whole segments\<close>

lemma tool_char_star: "\<not> tool_char (CHR ''*'')"
  by (simp add: tool_char_def is_ascii_alphanumeric_def is_ascii_digit_def)

lemma valid_tool_name_no_star: "valid_tool_name v \<Longrightarrow> CHR ''*'' \<notin> set v"
  using tool_char_star by (auto simp: valid_tool_name_def list_all_iff)

lemma tool_matches_iff:
  "tool_matches p tool \<longleftrightarrow>
     (if \<exists>pre. p = pre @ ''.*''
      then \<exists>pre suf. p = pre @ ''.*'' \<and> tool = pre @ ''.'' @ suf \<and> suf \<noteq> []
      else p = tool)"
proof (cases "strip_suffix ''.*'' p")
  case None
  then have "\<nexists>pre. p = pre @ ''.*''" by (simp add: strip_suffix_None)
  with None show ?thesis by (simp add: tool_matches_def)
next
  case (Some pre)
  then have p: "p = pre @ ''.*''" by (simp add: strip_suffix_Some)
  have "(\<exists>s. strip_prefix pre tool = Some s \<and> starts_with ''.'' s \<and> 1 < length s) \<longleftrightarrow>
     (\<exists>suf. tool = pre @ ''.'' @ suf \<and> suf \<noteq> [])"
    by (auto simp: strip_prefix_Some starts_with_iff)
  then show ?thesis
    using Some p by (auto simp: tool_matches_def split: option.splits)
qed

lemma resource_matches_iff:
  "resource_matches p r \<longleftrightarrow>
     (if \<exists>pre. p = pre @ ''/*''
      then \<exists>pre suf. p = pre @ ''/*'' \<and> r = pre @ ''/'' @ suf \<and> suf \<noteq> []
      else p = r)"
proof (cases "strip_suffix ''/*'' p")
  case None
  then have "\<nexists>pre. p = pre @ ''/*''" by (simp add: strip_suffix_None)
  with None show ?thesis by (simp add: resource_matches_def)
next
  case (Some pre)
  then have p: "p = pre @ ''/*''" by (simp add: strip_suffix_Some)
  have "(\<exists>s. strip_prefix pre r = Some s \<and> starts_with ''/'' s \<and> 1 < length s) \<longleftrightarrow>
     (\<exists>suf. r = pre @ ''/'' @ suf \<and> suf \<noteq> [])"
    by (auto simp: strip_prefix_Some starts_with_iff)
  then show ?thesis
    using Some p by (auto simp: resource_matches_def split: option.splits)
qed

subsection \<open>A granted resource prefix cannot be left\<close>

lemma split_on_lower:
  "split_on (CHR ''/'') (to_ascii_lowercase s) = map to_ascii_lowercase (split_on (CHR ''/'') s)"
proof (induction s)
  case Nil
  then show ?case by (simp add: to_ascii_lowercase_def)
next
  case (Cons c cs)
  have "ascii_lower c = CHR ''/'' \<longleftrightarrow> c = CHR ''/''"
    by (rule ascii_lower_eq_iff) simp_all
  with Cons show ?case
    by (cases "split_on (CHR ''/'') cs") (auto simp: to_ascii_lowercase_def)
qed

lemma lower_dots:
  "to_ascii_lowercase s = ''.'' \<longleftrightarrow> s = ''.''" "to_ascii_lowercase s = ''..'' \<longleftrightarrow> s = ''..''"
proof -
  have d: "ascii_lower c = CHR ''.'' \<longleftrightarrow> c = CHR ''.''" for c
    by (rule ascii_lower_eq_iff) simp_all
  show "to_ascii_lowercase s = ''.'' \<longleftrightarrow> s = ''.''"
    by (auto simp: to_ascii_lowercase_def map_eq_Cons_conv d)
  show "to_ascii_lowercase s = ''..'' \<longleftrightarrow> s = ''..''"
    by (auto simp: to_ascii_lowercase_def map_eq_Cons_conv d)
qed

text \<open>No segment of an accepted resource is a dot segment, encoded or not.\<close>

lemma safe_resource_segments:
  assumes "\<not> contains_unsafe_resource_path r" and "seg \<in> set (split_on (CHR ''/'') r)"
  shows "seg \<noteq> ''.'' \<and> seg \<noteq> ''..''"
  using assms
  by (auto simp: contains_unsafe_resource_path_def Let_def split_on_lower list_ex_iff lower_dots
      split: if_splits)

lemma resource_match_contained:
  assumes "valid_resource_pattern p" and "valid_resource_identifier r" and "resource_matches p r"
  shows "p = r \<or>
    (\<exists>dir suf. p = dir @ ''/*'' \<and> dir \<noteq> [] \<and> r = dir @ ''/'' @ suf \<and> suf \<noteq> []
       \<and> (\<forall>seg \<in> set (split_on (CHR ''/'') suf). seg \<noteq> ''.'' \<and> seg \<noteq> ''..''))"
proof (cases "\<exists>pre. p = pre @ ''/*''")
  case False
  with assms(3) show ?thesis by (simp add: resource_matches_iff)
next
  case True
  with assms(3) obtain dir suf where p: "p = dir @ ''/*''" and r: "r = dir @ ''/'' @ suf" "suf \<noteq> []"
    by (auto simp: resource_matches_iff)
  have "strip_suffix ''/*'' p = Some dir" using p by (simp add: strip_suffix_Some)
  with assms(1) have "dir \<noteq> []" by (simp add: valid_resource_pattern_def)
  have "split_on (CHR ''/'') r = split_on (CHR ''/'') dir @ split_on (CHR ''/'') suf"
    using r split_on_append_sep [of "CHR ''/''" dir suf] by simp
  then have "seg \<noteq> ''.'' \<and> seg \<noteq> ''..''" if "seg \<in> set (split_on (CHR ''/'') suf)" for seg
    using that assms(2) safe_resource_segments [of r seg]
    by (simp add: valid_resource_identifier_def)
  with p r \<open>dir \<noteq> []\<close> show ?thesis by blast
qed

subsection \<open>Decoding a pointer inverts writing one\<close>

text \<open>The writer of RFC 6901: escape each token, put a slash before it.\<close>

definition escape_char :: "char \<Rightarrow> string" where
  "escape_char c = (if c = CHR ''~'' then ''~0'' else if c = CHR ''/'' then ''~1'' else [c])"

definition escape_token :: "string \<Rightarrow> string" where
  "escape_token t = concat (map escape_char t)"

definition pointer_of :: "string list \<Rightarrow> string" where
  "pointer_of ts = concat (map (\<lambda>t. CHR ''/'' # escape_token t) ts)"

lemma decode_escape: "decode_token (escape_token t) = Inr t"
  by (induction t) (auto simp: escape_token_def escape_char_def)

lemma decode_escaped:
  "decode_token s = Inr t \<Longrightarrow> CHR ''/'' \<notin> set s \<Longrightarrow> escape_token t = s"
proof (induction s arbitrary: t rule: decode_token.induct)
  case 1
  then show ?case by (simp add: escape_token_def)
next
  case (2 c cs)
  show ?case
  proof (cases "c = CHR ''~''")
    case False
    with "2.prems" obtain u where "decode_token cs = Inr u" "t = c # u"
      by (cases "decode_token cs") auto
    with "2.IH"(1) [OF False] "2.prems" False show ?thesis
      by (auto simp: escape_token_def escape_char_def)
  next
    case True
    then obtain d ds where cs: "cs = d # ds" using "2.prems" by (cases cs) auto
    have d: "d = CHR ''0'' \<or> d = CHR ''1''" using "2.prems" True cs by (auto split: if_splits)
    then obtain u where u: "decode_token ds = Inr u"
      using "2.prems" True cs by (cases "decode_token ds") auto
    have "escape_token u = ds"
      using d "2.IH"(2,3) True cs u "2.prems" by auto
    then show ?thesis
      using d u True cs "2.prems" by (auto simp: escape_token_def escape_char_def)
  qed
qed

lemma escape_no_slash: "CHR ''/'' \<notin> set (escape_token t)"
  by (auto simp: escape_token_def escape_char_def split: if_splits)

lemma decode_tokens_iff:
  "(\<forall>s \<in> set ss. CHR ''/'' \<notin> set s) \<Longrightarrow>
     decode_tokens ss = Inr ts \<longleftrightarrow> ss = map escape_token ts"
proof (induction ss arbitrary: ts)
  case Nil
  then show ?case by auto
next
  case (Cons s ss)
  show ?case
  proof (cases "decode_token s")
    case (Inl e)
    then have "s \<noteq> escape_token t" for t using decode_escape [of t] by auto
    with Inl show ?thesis by auto
  next
    case (Inr d)
    have s: "escape_token d = s" using Inr Cons.prems by (intro decode_escaped) auto
    have IH: "decode_tokens ss = Inr us \<longleftrightarrow> ss = map escape_token us" for us
      using Cons by auto
    show ?thesis
    proof
      assume "decode_tokens (s # ss) = Inr ts"
      with Inr obtain us where "decode_tokens ss = Inr us" "ts = d # us"
        by (cases "decode_tokens ss") auto
      with IH [of us] s show "s # ss = map escape_token ts" by simp
    next
      assume "s # ss = map escape_token ts"
      then obtain t us where ts: "ts = t # us" "s = escape_token t" "ss = map escape_token us"
        by (cases ts) auto
      then have "d = t" using Inr decode_escape [of t] by simp
      with ts IH [of us] Inr show "decode_tokens (s # ss) = Inr ts" by simp
    qed
  qed
qed

lemma pointer_of_join:
  "ts \<noteq> [] \<Longrightarrow> pointer_of ts = CHR ''/'' # join_with (CHR ''/'') (map escape_token ts)"
  by (induction ts rule: induct_list012) (auto simp: pointer_of_def)

text \<open>
  A string decodes to a token list exactly when it is the written form of that list: decoding is
  total on written pointers, and no two pointers denote the same path.
\<close>

lemma parse_pointer_iff: "parse_json_pointer p = Inr ts \<longleftrightarrow> p = pointer_of ts"
proof (cases "starts_with ''/'' p")
  case False
  then show ?thesis
    by (cases ts) (auto simp: parse_json_pointer_def pointer_of_def starts_with_iff)
next
  case True
  then obtain q where p: "p = CHR ''/'' # q" by (auto simp: starts_with_iff)
  have seg: "\<forall>s \<in> set (split_on (CHR ''/'') q). CHR ''/'' \<notin> set s"
    using split_on_segments by blast
  have "parse_json_pointer p = Inr ts \<longleftrightarrow> split_on (CHR ''/'') q = map escape_token ts"
    using True p decode_tokens_iff [OF seg] by (simp add: parse_json_pointer_def)
  also have "\<dots> \<longleftrightarrow> p = pointer_of ts"
  proof (cases "ts = []")
    case True
    then show ?thesis using p by (simp add: pointer_of_def)
  next
    case False
    have "split_on (CHR ''/'') q = map escape_token ts \<longleftrightarrow>
       q = join_with (CHR ''/'') (map escape_token ts)"
      using False join_split [of "CHR ''/''" q]
        split_on_join [of "map escape_token ts" "CHR ''/''"] escape_no_slash by auto
    then show ?thesis using False p by (simp add: pointer_of_join)
  qed
  finally show ?thesis .
qed

end
