(* ===== verification/SafeActions_Schema.thy ===== *)
theory SafeActions_Schema
  imports SafeActions_Text
begin

section \<open>The JSON Schema subset of the verifier\<close>

text \<open>
  The schema functions of \<open>crates/core/safe-actions/src/verifier.rs\<close>: which schemas the verifier
  supports, when one schema is assignable to another, the run-time validation of a value, and the
  schema a JSON pointer selects.  The lemmas give each a declarative reading (\<open>supported\<close>,
  \<open>accepts\<close>) and relate the static check to the run-time one.
\<close>

subsection \<open>Findings\<close>

definition finding ::
  "finding_severity \<Rightarrow> finding_code \<Rightarrow> string option \<Rightarrow> string \<Rightarrow> verification_finding" where
  "finding sev c node path =
     \<lparr>severity = sev, code = c, finding_node = node, finding_path = path\<rparr>"

text \<open>No finding of error severity; no finding at all that asks for a review.\<close>

definition no_errors :: "verification_finding list \<Rightarrow> bool" where
  "no_errors fs \<longleftrightarrow> list_all (\<lambda>f. severity f \<noteq> SevError) fs"

definition no_reviews :: "verification_finding list \<Rightarrow> bool" where
  "no_reviews fs \<longleftrightarrow> list_all (\<lambda>f. severity f \<noteq> SevReview) fs"

lemma no_errors_simps [simp]:
  "no_errors []" "no_errors (fs @ gs) \<longleftrightarrow> no_errors fs \<and> no_errors gs"
  "no_errors (f # fs) \<longleftrightarrow> severity f \<noteq> SevError \<and> no_errors fs"
  by (simp_all add: no_errors_def)

lemma no_reviews_simps [simp]:
  "no_reviews []" "no_reviews (fs @ gs) \<longleftrightarrow> no_reviews fs \<and> no_reviews gs"
  "no_reviews (f # fs) \<longleftrightarrow> severity f \<noteq> SevReview \<and> no_reviews fs"
  by (simp_all add: no_reviews_def)

lemma finding_simps [simp]:
  "severity (finding sev c node path) = sev" "code (finding sev c node path) = c"
  "finding_node (finding sev c node path) = node" "finding_path (finding sev c node path) = path"
  by (simp_all add: finding_def)

subsection \<open>Types\<close>

definition json_type_from_name :: "string \<Rightarrow> json_type option" where
  "json_type_from_name n =
     (if n = ''null'' then Some TNull
      else if n = ''boolean'' then Some TBoolean
      else if n = ''number'' then Some TNumber
      else if n = ''integer'' then Some TInteger
      else if n = ''string'' then Some TString
      else if n = ''array'' then Some TArray
      else if n = ''object'' then Some TObject
      else None)"

fun json_value_type :: "json \<Rightarrow> json_type" where
  "json_value_type JNull = TNull"
| "json_value_type (JBool b) = TBoolean"
| "json_value_type (JNum (JInt i)) = TInteger"
| "json_value_type (JNum (JFloat f)) = TNumber"
| "json_value_type (JString s) = TString"
| "json_value_type (JArray xs) = TArray"
| "json_value_type (JObject kvs) = TObject"

definition schema_type_accepts :: "json_type \<Rightarrow> json_type \<Rightarrow> bool" where
  "schema_type_accepts actual expected \<longleftrightarrow>
     actual = expected \<or> (actual = TInteger \<and> expected = TNumber)"

definition comparison_types_compatible :: "json_type \<Rightarrow> json_type \<Rightarrow> bool" where
  "comparison_types_compatible l r \<longleftrightarrow>
     l = r \<or> (l = TInteger \<and> r = TNumber) \<or> (l = TNumber \<and> r = TInteger)"

definition schema_types :: "json \<Rightarrow> json_type list option" where
  "schema_types schema =
     (case jget schema ''type'' of
        None \<Rightarrow> None
      | Some (JString name) \<Rightarrow> map_option (\<lambda>t. [t]) (json_type_from_name name)
      | Some (JArray items) \<Rightarrow>
          (let types = List.map_filter json_type_from_name (List.map_filter as_str items)
           in if types \<noteq> [] then Some types else None)
      | Some j \<Rightarrow> None)"

lemma schema_type_accepts_trans:
  "schema_type_accepts a b \<Longrightarrow> schema_type_accepts b c \<Longrightarrow> schema_type_accepts a c"
  by (auto simp: schema_type_accepts_def)

lemma schema_type_accepts_container:
  "schema_type_accepts TObject t \<longleftrightarrow> t = TObject" "schema_type_accepts TArray t \<longleftrightarrow> t = TArray"
  by (auto simp: schema_type_accepts_def)

subsection \<open>Properties\<close>

datatype schema_lookup = Known json | Unknown | Forbidden

fun lookup_schema :: "schema_lookup \<Rightarrow> json option" where
  "lookup_schema (Known schema) = Some schema"
| "lookup_schema Unknown = None"
| "lookup_schema Forbidden = None"

definition property_schema :: "json option \<Rightarrow> string \<Rightarrow> schema_lookup" where
  "property_schema os key =
     (case os of
        None \<Rightarrow> Unknown
      | Some schema \<Rightarrow>
          (case Option.bind (Option.bind (jget schema ''properties'') as_object) (\<lambda>ps. map_of ps key) of
             Some property \<Rightarrow> Known property
           | None \<Rightarrow>
               (case jget schema ''additionalProperties'' of
                  Some (JBool b) \<Rightarrow> (if b then Unknown else Forbidden)
                | Some (JObject kvs) \<Rightarrow> Known (JObject kvs)
                | _ \<Rightarrow> Unknown)))"

text \<open>\<open>schema_required\<close>: the strings of \<open>required\<close>, as a \<open>BTreeSet\<close>.\<close>

definition schema_required :: "json \<Rightarrow> string list" where
  "schema_required schema =
     (case Option.bind (jget schema ''required'') as_array of
        None \<Rightarrow> []
      | Some items \<Rightarrow> fold insort_insert (List.map_filter as_str items) [])"

lemma property_schema_size: "property_schema (Some s) k = Known p \<Longrightarrow> size p < size s"
  by (auto simp: property_schema_def bind_eq_Some_conv dest!: map_of_SomeD entry_size_object
      split: option.splits json.splits if_splits) (use jget_size in fastforce)+

subsection \<open>Run-time validation\<close>

datatype runtime_error =
    ForbiddenBySchema string
  | UnsupportedSchema string
  | WrongType string json_type
  | MissingProperty string string
  | ForbiddenProperty string string

function validate_runtime_value_at :: "json \<Rightarrow> json \<Rightarrow> string \<Rightarrow> runtime_error + unit" where
  "validate_runtime_value_at v schema path =
     (if schema = JBool True then Inr ()
      else if schema = JBool False then Inl (ForbiddenBySchema path)
      else
        (case schema_types schema of
           None \<Rightarrow> Inl (UnsupportedSchema path)
         | Some expected \<Rightarrow>
             if \<not> list_ex (\<lambda>t. schema_type_accepts (json_value_type v) t) expected
             then Inl (WrongType path (json_value_type v))
             else
               (case v of
                  JObject object \<Rightarrow>
                    (case try_all (\<lambda>req. if map_of object req = None
                             then Inl (MissingProperty path req) else Inr ())
                          (schema_required schema) of
                       Inl e \<Rightarrow> Inl e
                     | Inr u \<Rightarrow>
                         try_all (\<lambda>(key, child).
                             case property_schema (Some schema) key of
                               Known child_schema \<Rightarrow>
                                 validate_runtime_value_at child child_schema (path @ ''/'' @ key)
                             | Forbidden \<Rightarrow> Inl (ForbiddenProperty path key)
                             | Unknown \<Rightarrow> Inr ()) object)
                | JArray items \<Rightarrow>
                    (case jget schema ''items'' of
                       None \<Rightarrow> Inr ()
                     | Some item_schema \<Rightarrow>
                         try_all (\<lambda>(index, item).
                             validate_runtime_value_at item item_schema (path @ ''/'' @ show_nat index))
                           (List.enumerate 0 items))
                | _ \<Rightarrow> Inr ())))"
  by pat_completeness auto
termination
  by (relation "measure (\<lambda>(v, schema, path). size v)") (auto dest: entry_size_less item_size_less)

declare validate_runtime_value_at.simps [simp del]

definition validate_runtime_value :: "json \<Rightarrow> json \<Rightarrow> runtime_error + unit" where
  "validate_runtime_value v schema = validate_runtime_value_at v schema ''$''"

text \<open>The declarative reading: the values a schema describes.\<close>

function conforms :: "json \<Rightarrow> json \<Rightarrow> bool" where
  "conforms v schema \<longleftrightarrow>
     schema = JBool True \<or>
     (\<exists>expected. schema_types schema = Some expected
        \<and> (\<exists>t \<in> set expected. schema_type_accepts (json_value_type v) t))
     \<and> (case v of
          JObject object \<Rightarrow>
            (\<forall>req \<in> set (schema_required schema). map_of object req \<noteq> None)
            \<and> (\<forall>(key, child) \<in> set object.
                 case property_schema (Some schema) key of
                   Known child_schema \<Rightarrow> conforms child child_schema
                 | Forbidden \<Rightarrow> False
                 | Unknown \<Rightarrow> True)
        | JArray items \<Rightarrow>
            (case jget schema ''items'' of
               None \<Rightarrow> True
             | Some item_schema \<Rightarrow> \<forall>item \<in> set items. conforms item item_schema)
        | _ \<Rightarrow> True)"
  by pat_completeness auto
termination
  by (relation "measure (\<lambda>(v, schema). size v)")
    (auto dest: entry_size_less item_size)

declare conforms.simps [simp del]

lemma schema_types_bool: "schema_types (JBool b) = None"
  by (simp add: schema_types_def jget_def)

lemma ball_enumerate: "(\<forall>(i, x) \<in> set (List.enumerate n xs). P x) \<longleftrightarrow> (\<forall>x \<in> set xs. P x)"
proof -
  have "set xs = snd ` set (List.enumerate n xs)"
    by (metis list.set_map map_snd_enumerate)
  then show ?thesis by auto
qed

lemma validate_conforms: "validate_runtime_value_at v schema path = Inr () \<longleftrightarrow> conforms v schema"
proof (induction v arbitrary: schema path rule: measure_induct_rule [where f = size])
  case (less v)
  show ?case
  proof (cases "schema_types schema")
    case None
    then show ?thesis
      by (subst validate_runtime_value_at.simps, subst conforms.simps) auto
  next
    case (Some ts)
    then have nb: "schema \<noteq> JBool b" for b by (auto simp: schema_types_bool)
    show ?thesis
    proof (cases v)
      case (JObject object)
      have "size child < size v" if "(key, child) \<in> set object" for key child
        using that JObject entry_size_less by simp
      then have IH: "validate_runtime_value_at child s p = Inr () \<longleftrightarrow> conforms child s"
        if "(key, child) \<in> set object" for key child s p using that less by blast
      have "(\<forall>(key, child) \<in> set object. (case property_schema (Some schema) key of
              Known child_schema \<Rightarrow>
                validate_runtime_value_at child child_schema (path @ ''/'' @ key)
            | Unknown \<Rightarrow> Inr () | Forbidden \<Rightarrow> Inl (ForbiddenProperty path key)) = Inr ()) \<longleftrightarrow>
          (\<forall>(key, child) \<in> set object. case property_schema (Some schema) key of
              Known child_schema \<Rightarrow> conforms child child_schema
            | Unknown \<Rightarrow> True | Forbidden \<Rightarrow> False)"
        using IH by (fastforce split: schema_lookup.splits)
      then show ?thesis
        using Some nb JObject
        by (subst validate_runtime_value_at.simps, subst conforms.simps)
          (auto simp: list_ex_iff case_prod_beta' dest!: try_all_err split: sum.splits if_splits)
    next
      case (JArray items)
      have "size item < size v" if "item \<in> set items" for item
        using that JArray item_size by simp
      then have IH: "(\<forall>(i, item) \<in> set (List.enumerate 0 items).
            validate_runtime_value_at item s (path @ ''/'' @ show_nat i) = Inr ()) \<longleftrightarrow>
          (\<forall>item \<in> set items. conforms item s)" for s
        using less ball_enumerate [of 0 items "\<lambda>item. conforms item s"]
        by (force simp: in_set_enumerate_eq)
      then show ?thesis
        using Some nb JArray
        by (subst validate_runtime_value_at.simps, subst conforms.simps)
          (auto simp: list_ex_iff case_prod_beta' split: option.splits)
    qed (use Some nb in \<open>auto simp: validate_runtime_value_at.simps [of _ schema path]
        conforms.simps [of _ schema] list_ex_iff\<close>)
  qed
qed

lemma accepts_conforms: "validate_runtime_value v schema = Inr () \<longleftrightarrow> conforms v schema"
  by (simp add: validate_runtime_value_def validate_conforms)

lemma conforms_true [simp]: "conforms v (JBool True)"
  by (subst conforms.simps) simp

lemma conforms_false [simp]: "\<not> conforms v (JBool False)"
  by (subst conforms.simps) (simp add: schema_types_bool)

subsection \<open>Supported schemas\<close>

definition SUPPORTED_KEYS :: "string list" where
  "SUPPORTED_KEYS =
     [''$id'', ''$schema'', ''additionalProperties'', ''default'', ''deprecated'', ''description'',
      ''examples'', ''items'', ''properties'', ''readOnly'', ''required'', ''title'', ''type'',
      ''writeOnly'']"

text \<open>\<open>collect::<BTreeSet<_>>().len() == items.len()\<close> over the strings of an array.\<close>

definition distinct_strs :: "json list \<Rightarrow> bool" where
  "distinct_strs items \<longleftrightarrow> card (set (List.map_filter as_str items)) = length items"

definition valid_type_keyword :: "json \<Rightarrow> bool" where
  "valid_type_keyword t =
     (case t of
        JString name \<Rightarrow> json_type_from_name name \<noteq> None
      | JArray items \<Rightarrow>
          items \<noteq> []
          \<and> list_all (\<lambda>item. Option.bind (as_str item) json_type_from_name \<noteq> None) items
          \<and> distinct_strs items
      | _ \<Rightarrow> False)"

definition valid_required_keyword :: "json \<Rightarrow> bool" where
  "valid_required_keyword r =
     (case as_array r of
        None \<Rightarrow> False
      | Some items \<Rightarrow> list_all (\<lambda>item. as_str item \<noteq> None) items \<and> distinct_strs items)"

abbreviation unsupported :: "string \<Rightarrow> verification_finding" where
  "unsupported path \<equiv> finding SevError UnsupportedToolSchema None path"

text \<open>
  The findings the checker pushes, in order; \<open>let ... else return\<close> and the early returns of the
  source are the branches that end a list.
\<close>

function validate_supported_schema :: "json \<Rightarrow> string \<Rightarrow> verification_finding list" where
  "validate_supported_schema schema path =
     (if schema = JBool True then []
      else
        (case schema of
           JObject object \<Rightarrow>
             concat (map (\<lambda>(key, child). if key \<in> set SUPPORTED_KEYS then []
                            else [unsupported (path @ ''.'' @ key)]) object)
             @ (case map_of object ''type'' of
                  None \<Rightarrow> [unsupported path]
                | Some type_value \<Rightarrow>
                    (if valid_type_keyword type_value then []
                     else [unsupported (path @ ''.type'')])
                    @ (case map_of object ''properties'' of
                         None \<Rightarrow> []
                       | Some properties \<Rightarrow>
                           (case as_object properties of
                              None \<Rightarrow> [unsupported (path @ ''.properties'')]
                            | Some ps \<Rightarrow>
                                concat (map (\<lambda>(name, child).
                                    validate_supported_schema child (path @ ''.properties.'' @ name)) ps)))
                    @ (if Option.bind (map_of object ''properties'') as_object = None
                          \<and> map_of object ''properties'' \<noteq> None then []
                       else
                         (case map_of object ''required'' of
                            None \<Rightarrow> []
                          | Some r \<Rightarrow> if valid_required_keyword r then []
                                      else [unsupported (path @ ''.required'')])
                         @ (case map_of object ''additionalProperties'' of
                              None \<Rightarrow> []
                            | Some additional \<Rightarrow>
                                (case additional of
                                   JBool b \<Rightarrow> []
                                 | JObject kvs \<Rightarrow>
                                     validate_supported_schema additional
                                       (path @ ''.additionalProperties'')
                                 | _ \<Rightarrow> [unsupported (path @ ''.additionalProperties'')]))
                         @ (case map_of object ''items'' of
                              None \<Rightarrow> []
                            | Some items \<Rightarrow>
                                validate_supported_schema items (path @ ''.items''))))
         | _ \<Rightarrow> [unsupported path]))"
  by pat_completeness auto
termination
  by (relation "measure (\<lambda>(schema, path). size schema)")
    (auto dest!: map_of_SomeD dest: entry_size_less nested_size_less)

declare validate_supported_schema.simps [simp del]

text \<open>The schemas without a finding, read declaratively.\<close>

function supported :: "json \<Rightarrow> bool" where
  "supported schema \<longleftrightarrow>
     schema = JBool True \<or>
     (case schema of
        JObject object \<Rightarrow>
          set (map fst object) \<subseteq> set SUPPORTED_KEYS
          \<and> (case map_of object ''type'' of None \<Rightarrow> False | Some t \<Rightarrow> valid_type_keyword t)
          \<and> (case map_of object ''properties'' of
                None \<Rightarrow> True
              | Some (JObject ps) \<Rightarrow> \<forall>(name, child) \<in> set ps. supported child
              | Some j \<Rightarrow> False)
          \<and> (case map_of object ''required'' of None \<Rightarrow> True | Some r \<Rightarrow> valid_required_keyword r)
          \<and> (case map_of object ''additionalProperties'' of
                None \<Rightarrow> True
              | Some (JBool b) \<Rightarrow> True
              | Some (JObject kvs) \<Rightarrow> supported (JObject kvs)
              | Some j \<Rightarrow> False)
          \<and> (case map_of object ''items'' of None \<Rightarrow> True | Some items \<Rightarrow> supported items)
      | _ \<Rightarrow> False)"
  by pat_completeness auto
termination
  by (relation "measure size") (auto dest!: map_of_SomeD dest: entry_size_less nested_size_less)

declare supported.simps [simp del]

lemma supported_findings: "validate_supported_schema schema path = [] \<longleftrightarrow> supported schema"
proof (induction schema arbitrary: path rule: measure_induct_rule [where f = size])
  case (less schema)
  show ?case
  proof (cases schema)
    case (JObject object)
    have keys: "concat (map (\<lambda>(key, child). if key \<in> set SUPPORTED_KEYS then []
         else [unsupported (path @ ''.'' @ key)]) object) = []
       \<longleftrightarrow> set (map fst object) \<subseteq> set SUPPORTED_KEYS"
      by (auto split: if_splits)
    have child: "validate_supported_schema c p = [] \<longleftrightarrow> supported c"
      if "map_of object k = Some c" for k c p
      using that JObject by (intro less) (auto dest!: map_of_SomeD entry_size_less)
    have props: "(concat (map (\<lambda>(name, c). validate_supported_schema c (path @ ''.properties.'' @ name)) ps)
         = []) \<longleftrightarrow> (\<forall>(name, c) \<in> set ps. supported c)"
      if "map_of object ''properties'' = Some (JObject ps)" for ps
    proof -
      have "validate_supported_schema c p = [] \<longleftrightarrow> supported c" if "(name, c) \<in> set ps" for name c p
        using that \<open>map_of object ''properties'' = Some (JObject ps)\<close> JObject
        by (intro less) (auto dest!: map_of_SomeD dest: nested_size_less)
      then show ?thesis by fastforce
    qed
    let ?P = "map_of object ''properties''" and ?A = "map_of object ''additionalProperties''"
    have add: "((case ?A of None \<Rightarrow> []
         | Some additional \<Rightarrow>
             (case additional of
                JBool b \<Rightarrow> []
              | JObject kvs \<Rightarrow> validate_supported_schema additional (path @ ''.additionalProperties'')
              | _ \<Rightarrow> [unsupported (path @ ''.additionalProperties'')])) = [])
       \<longleftrightarrow> (case ?A of None \<Rightarrow> True
         | Some (JBool b) \<Rightarrow> True
         | Some (JObject kvs) \<Rightarrow> supported (JObject kvs)
         | Some j \<Rightarrow> False)"
      using child [of "''additionalProperties''"]
      by (auto split: option.splits json.splits)
    have items: "((case map_of object ''items'' of None \<Rightarrow> []
         | Some items \<Rightarrow> validate_supported_schema items (path @ ''.items'')) = [])
       \<longleftrightarrow> (case map_of object ''items'' of None \<Rightarrow> True | Some items \<Rightarrow> supported items)"
      using child [of "''items''"] by (auto split: option.splits)
    have req: "((case map_of object ''required'' of None \<Rightarrow> []
         | Some r \<Rightarrow> if valid_required_keyword r then [] else [unsupported (path @ ''.required'')]) = [])
       \<longleftrightarrow> (case map_of object ''required'' of None \<Rightarrow> True | Some r \<Rightarrow> valid_required_keyword r)"
      by (auto split: option.splits)
    have ty: "((if valid_type_keyword t then [] else [unsupported (path @ ''.type'')]) = [])
       \<longleftrightarrow> valid_type_keyword t" for t by simp
    show ?thesis
    proof (cases "?P = None \<or> (\<exists>ps. ?P = Some (JObject ps))")
      case True
      then have nb: "\<not> (Option.bind ?P as_object = None \<and> ?P \<noteq> None)" by (auto simp: as_object_def)
      have pr: "((case ?P of None \<Rightarrow> []
           | Some properties \<Rightarrow>
               (case as_object properties of None \<Rightarrow> [unsupported (path @ ''.properties'')]
                | Some ps \<Rightarrow> concat (map (\<lambda>(name, child).
                    validate_supported_schema child (path @ ''.properties.'' @ name)) ps))) = [])
         \<longleftrightarrow> (case ?P of None \<Rightarrow> True
           | Some (JObject ps) \<Rightarrow> \<forall>(name, child) \<in> set ps. supported child
           | Some j \<Rightarrow> False)"
        using True props by (auto simp: as_object_def)
      show ?thesis
        unfolding JObject validate_supported_schema.simps [of "JObject object" path]
          supported.simps [of "JObject object"]
        by (cases "map_of object ''type''")
          (simp_all only: option.case json.case json.distinct if_False nb append_is_Nil_conv keys pr req
            add items ty simp_thms not_Cons_self2 list.distinct)
    next
      case False
      then obtain j where j: "?P = Some j" "as_object j = None" "\<nexists>ps. j = JObject ps"
        by (cases ?P) (auto simp: as_object_def split: json.splits)
      then have np: "\<not> (case j of JObject ps \<Rightarrow> \<forall>(name, child) \<in> set ps. supported child
           | _ \<Rightarrow> False)"
        by (auto split: json.splits)
      show ?thesis
        unfolding JObject validate_supported_schema.simps [of "JObject object" path]
          supported.simps [of "JObject object"]
        by (cases "map_of object ''type''")
          (simp_all only: option.case json.case json.distinct np j append_is_Nil_conv simp_thms
            list.distinct if_False)
    qed
  qed (auto simp: validate_supported_schema.simps [of _ path] supported.simps)
qed

lemma supported_findings_errors: "f \<in> set (validate_supported_schema schema path) \<Longrightarrow> severity f = SevError"
proof (induction schema arbitrary: path rule: measure_induct_rule [where f = size])
  case (less schema)
  show ?case
  proof (cases schema)
    case (JObject object)
    have child: "severity f = SevError"
      if "map_of object k = Some c" "f \<in> set (validate_supported_schema c p)" for k c p
      using that JObject less.IH by (auto dest!: map_of_SomeD entry_size_less)
    have props: "severity f = SevError"
      if "map_of object ''properties'' = Some (JObject ps)" "(name, c) \<in> set ps"
        "f \<in> set (validate_supported_schema c p)" for ps name c p
      using that JObject less.IH by (auto dest!: map_of_SomeD dest: nested_size_less)
    show ?thesis
      using less.prems JObject
      by (subst (asm) validate_supported_schema.simps)
        (auto dest: child [OF sym] props [OF sym] split: if_splits option.splits json.splits)
  qed (use less.prems in \<open>auto simp: validate_supported_schema.simps [of _ path] split: if_splits\<close>)
qed

lemma no_errors_supported [clean_simps]:
  "no_errors (validate_supported_schema schema path) \<longleftrightarrow> supported schema"
proof -
  have "no_errors fs \<longleftrightarrow> fs = []" if "\<forall>f \<in> set fs. severity f = SevError" for fs
    using that by (cases fs) auto
  then show ?thesis using supported_findings supported_findings_errors by blast
qed

lemma map_filter_nonempty:
  "items \<noteq> [] \<Longrightarrow> list_all (\<lambda>x. Option.bind (g x) f \<noteq> None) items \<Longrightarrow>
     List.map_filter f (List.map_filter g items) \<noteq> []"
  by (cases items) (auto simp: List.map_filter_def)

text \<open>A supported schema always has types to check against.\<close>

lemma supported_types: "supported schema \<Longrightarrow> schema \<noteq> JBool True \<Longrightarrow> schema_types schema \<noteq> None"
proof -
  assume sup: "supported schema" and nt: "schema \<noteq> JBool True"
  then obtain object t where o: "schema = JObject object" and t: "map_of object ''type'' = Some t"
    and v: "valid_type_keyword t"
    by (subst (asm) supported.simps) (auto split: json.splits option.splits)
  show ?thesis
  proof (cases t)
    case (JArray items)
    with v map_filter_nonempty [of items as_str json_type_from_name] o t show ?thesis
      by (simp add: valid_type_keyword_def schema_types_def Let_def)
  qed (use v o t in \<open>auto simp: valid_type_keyword_def schema_types_def\<close>)
qed

end
