(* ===== verification/SafeActions_Assign.thy ===== *)
theory SafeActions_Assign
  imports SafeActions_Schema
begin

section \<open>Schema assignability and pointers into schemas\<close>

text \<open>
  \<open>schema_assignable\<close> is the static check that the output schema of one step fits the input schema
  of another.  Its comment promises that it holds only when every value of the source schema is a
  value of the destination schema.  The theorem here proves that promise for the schemas where the
  source declares, or closes itself against, every property the destination constrains
  (\<open>declares_constrained\<close>), and a counterexample shows that the code accepts pairs outside it
  for which the promise fails.  \<open>schema_at_pointer\<close> finds the schema a JSON pointer selects.
\<close>

subsection \<open>The assignability check\<close>

definition schema_properties :: "json \<Rightarrow> (string \<times> json) list" where
  "schema_properties schema =
     (case Option.bind (jget schema ''properties'') as_object of None \<Rightarrow> [] | Some ps \<Rightarrow> ps)"

lemma schema_properties_size: "(k, p) \<in> set (schema_properties s) \<Longrightarrow> size p < size s"
  by (auto simp: schema_properties_def jget_def as_object_def split: option.splits json.splits Option.bind_splits
      dest!: map_of_SomeD dest: nested_size_less)

lemma jget_size_less: "jget s k = Some v \<Longrightarrow> size v < size s"
  by (rule jget_size)

lemma lookup_properties_size: "map_of (schema_properties s) k = Some p \<Longrightarrow> size p < size s"
  using map_of_SomeD schema_properties_size by fastforce

function schema_assignable :: "json \<Rightarrow> json \<Rightarrow> bool" where
  "schema_assignable source destination =
     (if destination = JBool True then True
      else if source = JBool True \<or> source = JBool False then False
      else if destination = JBool False then False
      else
        (case schema_types source of
           None \<Rightarrow> False
         | Some source_types \<Rightarrow>
             (case schema_types destination of
                None \<Rightarrow> False
              | Some destination_types \<Rightarrow>
                  list_all (\<lambda>s. list_ex (\<lambda>d. schema_type_accepts s d) destination_types) source_types
                  \<and> (TObject \<in> set source_types \<longrightarrow>
                       list_all (\<lambda>key.
                           key \<in> set (schema_required source)
                           \<and> (case map_of (schema_properties source) key of
                                None \<Rightarrow> False
                              | Some sp \<Rightarrow>
                                  (case map_of (schema_properties destination) key of
                                     None \<Rightarrow> False
                                   | Some dp \<Rightarrow> schema_assignable sp dp)))
                         (schema_required destination)
                       \<and> list_all (\<lambda>(key, sp).
                           case property_schema (Some destination) key of
                             Known dp \<Rightarrow> schema_assignable sp dp
                           | Forbidden \<Rightarrow> False
                           | Unknown \<Rightarrow> True)
                         (schema_properties source)
                       \<and> (if jget destination ''additionalProperties'' = Some (JBool False)
                          then jget source ''additionalProperties'' = Some (JBool False)
                            \<and> \<not> list_ex (\<lambda>(key, sp).
                                map_of (schema_properties destination) key = None)
                              (schema_properties source)
                          else
                            (case jget destination ''additionalProperties'' of
                               Some (JObject da) \<Rightarrow>
                                 (case jget source ''additionalProperties'' of
                                    Some (JObject sa) \<Rightarrow> schema_assignable (JObject sa) (JObject da)
                                  | Some (JBool b) \<Rightarrow> \<not> b
                                  | _ \<Rightarrow> False)
                             | _ \<Rightarrow> True)))
                  \<and> (TArray \<in> set source_types \<longrightarrow>
                       (case jget destination ''items'' of
                          None \<Rightarrow> True
                        | Some di \<Rightarrow>
                            (case jget source ''items'' of
                               Some si \<Rightarrow> schema_assignable si di
                             | None \<Rightarrow> False))))))"
  by pat_completeness auto
termination
  by (relation "measure (\<lambda>(source, destination). size source)")
    (auto dest: schema_properties_size lookup_properties_size jget_size_less)

declare schema_assignable.simps [simp del]

subsection \<open>When the check is sound\<close>

text \<open>
  The condition the code does not check: at every level, a property that the destination
  constrains by name is declared by the source, or the source admits no undeclared property.
\<close>

function declares_constrained :: "json \<Rightarrow> json \<Rightarrow> bool" where
  "declares_constrained source destination \<longleftrightarrow>
     (jget source ''additionalProperties'' = Some (JBool False)
        \<or> fst ` set (schema_properties destination) \<subseteq> fst ` set (schema_properties source))
     \<and> (\<forall>(key, sp) \<in> set (schema_properties source).
          case property_schema (Some destination) key of
            Known dp \<Rightarrow> declares_constrained sp dp
          | _ \<Rightarrow> True)
     \<and> (case jget source ''additionalProperties'' of
          None \<Rightarrow> True
        | Some sa \<Rightarrow>
            (case jget destination ''additionalProperties'' of
               None \<Rightarrow> True
             | Some da \<Rightarrow> declares_constrained sa da))
     \<and> (case jget source ''items'' of
          None \<Rightarrow> True
        | Some si \<Rightarrow>
            (case jget destination ''items'' of
               None \<Rightarrow> True
             | Some di \<Rightarrow> declares_constrained si di))"
  by pat_completeness auto
termination
  by (relation "measure (\<lambda>(source, destination). size source)")
    (auto dest: schema_properties_size jget_size_less)

declare declares_constrained.simps [simp del]

text \<open>What a schema says of a property it does not declare.\<close>

definition undeclared_schema :: "json \<Rightarrow> schema_lookup" where
  "undeclared_schema schema =
     (case jget schema ''additionalProperties'' of
        Some (JBool b) \<Rightarrow> (if b then Unknown else Forbidden)
      | Some (JObject kvs) \<Rightarrow> Known (JObject kvs)
      | _ \<Rightarrow> Unknown)"

lemma property_schema_cases:
  "property_schema (Some schema) key =
     (case map_of (schema_properties schema) key of
        Some p \<Rightarrow> Known p
      | None \<Rightarrow> undeclared_schema schema)"
  by (cases "Option.bind (jget schema ''properties'') as_object")
    (simp_all add: property_schema_def schema_properties_def undeclared_schema_def split: option.split)

lemma map_of_declared: "map_of m k = None \<longleftrightarrow> k \<notin> fst ` set m"
  by (simp add: map_of_eq_None_iff)

text \<open>One property of an object, from the source's view of it to the destination's.\<close>

lemma assignable_property:
  assumes obj: "TObject \<in> set sts" "schema_types s = Some sts"
    and asg: "schema_assignable s d" and dec: "declares_constrained s d"
    and nt: "d \<noteq> JBool True"
    and IH: "\<And>s' d'. size s' < size s \<Longrightarrow> schema_assignable s' d' \<Longrightarrow> declares_constrained s' d' \<Longrightarrow>
      conforms c s' \<Longrightarrow> conforms c d'"
    and src: "case property_schema (Some s) k of Known sp \<Rightarrow> conforms c sp | Unknown \<Rightarrow> True
      | Forbidden \<Rightarrow> False"
  shows "case property_schema (Some d) k of Known dp \<Rightarrow> conforms c dp | Unknown \<Rightarrow> True
      | Forbidden \<Rightarrow> False"
proof (cases "map_of (schema_properties s) k")
  case (Some sp)
  then have mem: "(k, sp) \<in> set (schema_properties s)" by (rule map_of_SomeD)
  have csp: "conforms c sp" using src Some by (simp add: property_schema_cases)
  have "case property_schema (Some d) k of Known dp \<Rightarrow> schema_assignable sp dp
      | Forbidden \<Rightarrow> False | Unknown \<Rightarrow> True"
    using asg obj nt mem
    by (subst (asm) schema_assignable.simps) (auto simp: list_all_iff split: if_splits option.splits)
  moreover have "case property_schema (Some d) k of Known dp \<Rightarrow> declares_constrained sp dp | _ \<Rightarrow> True"
    using dec mem by (subst (asm) declares_constrained.simps) auto
  ultimately show ?thesis
    using IH [OF schema_properties_size [OF mem] _ _ csp] by (auto split: schema_lookup.splits)
next
  case None
  then have us: "case undeclared_schema s of Known sp \<Rightarrow> conforms c sp | Unknown \<Rightarrow> True
      | Forbidden \<Rightarrow> False"
    using src by (simp add: property_schema_cases)
  then have nf: "jget s ''additionalProperties'' \<noteq> Some (JBool False)"
    by (auto simp: undeclared_schema_def)
  have "fst ` set (schema_properties d) \<subseteq> fst ` set (schema_properties s)"
    using dec nf by (subst (asm) declares_constrained.simps) auto
  then have kd: "map_of (schema_properties d) k = None"
    using None by (auto simp: map_of_declared)
  have add: "jget d ''additionalProperties'' \<noteq> Some (JBool False)"
    "\<And>da. jget d ''additionalProperties'' = Some (JObject da) \<Longrightarrow>
       \<exists>sa. jget s ''additionalProperties'' = Some (JObject sa)
         \<and> schema_assignable (JObject sa) (JObject da)"
    using asg obj nt nf
    by (subst (asm) schema_assignable.simps; auto split: if_splits option.splits json.splits)+
  have dadd: "declares_constrained (JObject sa) (JObject da)"
    if "jget d ''additionalProperties'' = Some (JObject da)"
      "jget s ''additionalProperties'' = Some (JObject sa)" for sa da
    using dec that by (subst (asm) declares_constrained.simps) auto
  show ?thesis
  proof (cases "undeclared_schema d")
    case (Known dp)
    then obtain da where da: "jget d ''additionalProperties'' = Some (JObject da)" "dp = JObject da"
      by (auto simp: undeclared_schema_def split: option.splits json.splits if_splits)
    with add(2) obtain sa where sa: "jget s ''additionalProperties'' = Some (JObject sa)"
      "schema_assignable (JObject sa) (JObject da)" by blast
    have "conforms c (JObject sa)" using us sa by (simp add: undeclared_schema_def)
    then have "conforms c (JObject da)"
      using IH [OF jget_size [OF sa(1)] sa(2) dadd [OF da(1) sa(1)]] by simp
    then show ?thesis using kd Known da by (simp add: property_schema_cases)
  next
    case Forbidden
    then show ?thesis using add(1)
      by (auto simp: undeclared_schema_def split: option.splits json.splits if_splits)
  qed (simp add: kd property_schema_cases)
qed

lemma assignable_sound:
  "schema_assignable s d \<Longrightarrow> declares_constrained s d \<Longrightarrow> conforms v s \<Longrightarrow> conforms v d"
proof (induction s arbitrary: d v rule: measure_induct_rule [where f = size])
  case (less s)
  note asg = less.prems(1) and dec = less.prems(2) and con = less.prems(3)
  show ?case
  proof (cases "d = JBool True")
    case True
    then show ?thesis by simp
  next
    case nt: False
    then obtain sts dts where ts: "schema_types s = Some sts" "schema_types d = Some dts"
      and sub: "\<forall>t \<in> set sts. \<exists>t' \<in> set dts. schema_type_accepts t t'" and sb: "s \<noteq> JBool True"
      using asg by (subst (asm) schema_assignable.simps)
        (auto simp: list_all_iff list_ex_iff split: if_splits option.splits)
    from con sb ts obtain t where t: "t \<in> set sts" "schema_type_accepts (json_value_type v) t"
      by (subst (asm) conforms.simps) auto
    with sub obtain t' where t': "t' \<in> set dts" "schema_type_accepts (json_value_type v) t'"
      using schema_type_accepts_trans by blast
    show ?thesis
    proof (cases v)
      case (JObject object)
      then have to: "TObject \<in> set sts" using t by (simp add: schema_type_accepts_container)
      have req: "\<forall>r \<in> set (schema_required d). map_of object r \<noteq> None"
      proof -
        have "\<forall>r \<in> set (schema_required d). r \<in> set (schema_required s)"
          using asg ts to nt by (subst (asm) schema_assignable.simps) (auto simp: list_all_iff split: if_splits)
        moreover have "\<forall>r \<in> set (schema_required s). map_of object r \<noteq> None"
          using con sb JObject by (subst (asm) conforms.simps) auto
        ultimately show ?thesis by blast
      qed
      have src: "\<forall>(k, c) \<in> set object. case property_schema (Some s) k of
          Known sp \<Rightarrow> conforms c sp | Unknown \<Rightarrow> True | Forbidden \<Rightarrow> False"
        using con sb JObject by (subst (asm) conforms.simps) (auto split: schema_lookup.splits)
      have "\<forall>(k, c) \<in> set object. case property_schema (Some d) k of
          Known dp \<Rightarrow> conforms c dp | Unknown \<Rightarrow> True | Forbidden \<Rightarrow> False"
      proof clarify
        fix k c assume "(k, c) \<in> set object"
        with src have "case property_schema (Some s) k of
          Known sp \<Rightarrow> conforms c sp | Unknown \<Rightarrow> True | Forbidden \<Rightarrow> False" by blast
        then show "case property_schema (Some d) k of
          Known dp \<Rightarrow> conforms c dp | Unknown \<Rightarrow> True | Forbidden \<Rightarrow> False"
          using assignable_property [OF to ts(1) asg dec nt] less.IH by blast
      qed
      then show ?thesis using ts t' req JObject
        by (subst conforms.simps) (auto split: schema_lookup.splits)
    next
      case (JArray items)
      then have ta: "TArray \<in> set sts" using t by (simp add: schema_type_accepts_container)
      have "\<forall>item \<in> set items. conforms item di" if di: "jget d ''items'' = Some di" for di
      proof -
        obtain si where si: "jget s ''items'' = Some si" "schema_assignable si di"
          using asg ts ta nt di
          by (subst (asm) schema_assignable.simps) (auto split: if_splits option.splits)
        moreover have "declares_constrained si di"
          using dec di si(1) by (subst (asm) declares_constrained.simps) auto
        moreover have "\<forall>item \<in> set items. conforms item si"
          using con sb si(1) JArray by (subst (asm) conforms.simps) auto
        ultimately show ?thesis using less.IH [OF jget_size [OF si(1)]] by blast
      qed
      then show ?thesis using ts t' JArray
        by (subst conforms.simps) (auto split: option.splits)
    qed (use ts t' in \<open>auto simp: conforms.simps [of _ d]\<close>)
  qed
qed

subsection \<open>Where it is not sound\<close>

text \<open>
  An open object schema as the source, and a destination that constrains an optional property the
  source does not mention: the check passes, and a value of the source is not one of the
  destination.
\<close>

definition open_object_schema :: json where
  "open_object_schema = JObject [(''type'', JString ''object'')]"

definition integer_a_schema :: json where
  "integer_a_schema = JObject
     [(''properties'', JObject [(''a'', JObject [(''type'', JString ''integer'')])]),
      (''type'', JString ''object'')]"

definition string_a_value :: json where
  "string_a_value = JObject [(''a'', JString ''x'')]"

subsection \<open>Pointers into schemas\<close>

text \<open>
  The loop over the tokens of a pointer.  \<open>Inr None\<close> is the early \<open>Ok(None)\<close>: nothing is known of
  the selected value.
\<close>

fun schema_walk :: "json \<Rightarrow> string list \<Rightarrow> pointer_error + json option" where
  "schema_walk current [] = Inr (Some current)"
| "schema_walk current (token # tokens) =
     (let types = schema_types current;
          may_be_object = (case types of None \<Rightarrow> True | Some ts \<Rightarrow> TObject \<in> set ts);
          may_be_array = (case types of None \<Rightarrow> True | Some ts \<Rightarrow> TArray \<in> set ts)
      in
      (case (if may_be_object then property_schema (Some current) token else Unknown) of
         Known next_schema \<Rightarrow> schema_walk next_schema tokens
       | Forbidden \<Rightarrow> Inl SchemaMismatch
       | Unknown \<Rightarrow>
           if may_be_object \<and> types = None then Inr None
           else if may_be_array then
             (if parse_usize token = None then Inl SchemaMismatch
              else (case jget current ''items'' of
                      None \<Rightarrow> Inr None
                    | Some items \<Rightarrow> schema_walk items tokens))
           else if types \<noteq> None then Inl SchemaMismatch
           else Inr None))"

definition schema_at_pointer :: "json \<Rightarrow> string \<Rightarrow> pointer_error + json option" where
  "schema_at_pointer schema pointer =
     (case parse_json_pointer pointer of
        Inl e \<Rightarrow> Inl e
      | Inr tokens \<Rightarrow> schema_walk schema tokens)"

text \<open>
  What a pointer selects in a value: an entry of an object, or an element of an array (whatever
  way its index is written).
\<close>

inductive points_to :: "json \<Rightarrow> string list \<Rightarrow> json \<Rightarrow> bool" where
  here: "points_to v [] v"
| field: "map_of object key = Some c \<Longrightarrow> points_to c tokens w \<Longrightarrow>
    points_to (JObject object) (key # tokens) w"
| element: "c \<in> set items \<Longrightarrow> points_to c tokens w \<Longrightarrow>
    points_to (JArray items) (token # tokens) w"

inductive_cases points_to_NilE: "points_to v [] w"
inductive_cases points_to_ConsE: "points_to v (token # tokens) w"

inductive_simps points_to_Nil [simp]: "points_to v [] w"

text \<open>No schema on the way describes objects and arrays at once.\<close>

function unambiguous :: "json \<Rightarrow> bool" where
  "unambiguous schema \<longleftrightarrow>
     (case schema_types schema of
        None \<Rightarrow> True
      | Some ts \<Rightarrow> \<not> (TObject \<in> set ts \<and> TArray \<in> set ts))
     \<and> (\<forall>(key, p) \<in> set (schema_properties schema). unambiguous p)
     \<and> (case jget schema ''additionalProperties'' of None \<Rightarrow> True | Some a \<Rightarrow> unambiguous a)
     \<and> (case jget schema ''items'' of None \<Rightarrow> True | Some i \<Rightarrow> unambiguous i)"
  by pat_completeness auto
termination
  by (relation "measure size") (auto dest: schema_properties_size jget_size_less)

declare unambiguous.simps [simp del]

lemma unambiguous_types:
  "unambiguous s \<Longrightarrow> schema_types s = Some ts \<Longrightarrow> TObject \<in> set ts \<Longrightarrow> TArray \<in> set ts \<Longrightarrow> False"
  by (subst (asm) unambiguous.simps) auto

lemma unambiguous_items: "unambiguous s \<Longrightarrow> jget s ''items'' = Some i \<Longrightarrow> unambiguous i"
  by (subst (asm) unambiguous.simps) auto

lemma unambiguous_property: "unambiguous s \<Longrightarrow> property_schema (Some s) k = Known p \<Longrightarrow> unambiguous p"
  by (subst (asm) unambiguous.simps)
    (auto simp: property_schema_cases undeclared_schema_def dest!: map_of_SomeD
      split: option.splits json.splits if_splits)

lemma conforms_types:
  "conforms v s \<Longrightarrow> schema_types s = Some ts \<Longrightarrow> \<exists>t \<in> set ts. schema_type_accepts (json_value_type v) t"
  by (subst (asm) conforms.simps) (auto simp: schema_types_bool)

lemma conforms_property:
  "conforms (JObject object) s \<Longrightarrow> property_schema (Some s) k = Known p \<Longrightarrow> map_of object k = Some c \<Longrightarrow>
     conforms c p"
  by (subst (asm) conforms.simps)
    (auto simp: property_schema_def jget_def dest!: map_of_SomeD split: json.splits schema_lookup.splits)

lemma conforms_item:
  "conforms (JArray items) s \<Longrightarrow> jget s ''items'' = Some i \<Longrightarrow> c \<in> set items \<Longrightarrow> conforms c i"
  by (subst (asm) conforms.simps) (auto simp: jget_def)

lemma schema_walk_object:
  "schema_types s = Some ts \<Longrightarrow> TObject \<in> set ts \<Longrightarrow> TArray \<notin> set ts \<Longrightarrow>
     schema_walk s (token # tokens) =
       (case property_schema (Some s) token of
          Known p \<Rightarrow> schema_walk p tokens | _ \<Rightarrow> Inl SchemaMismatch)"
  by (simp add: Let_def split: schema_lookup.split)

lemma schema_walk_array:
  "schema_types s = Some ts \<Longrightarrow> TObject \<notin> set ts \<Longrightarrow> TArray \<in> set ts \<Longrightarrow>
     schema_walk s (token # tokens) =
       (if parse_usize token = None then Inl SchemaMismatch
        else (case jget s ''items'' of None \<Rightarrow> Inr None | Some i \<Rightarrow> schema_walk i tokens))"
  by (simp add: Let_def)

text \<open>
  The schema found at a pointer describes whatever the pointer selects in a value of the schema.
\<close>

lemma schema_walk_sound:
  "schema_walk s tokens = Inr (Some t) \<Longrightarrow> unambiguous s \<Longrightarrow> conforms v s \<Longrightarrow>
     points_to v tokens w \<Longrightarrow> conforms w t"
proof (induction tokens arbitrary: s v)
  case Nil
  then show ?case by simp
next
  case (Cons token tokens)
  show ?case
  proof (cases "schema_types s")
    case None
    then have "s = JBool True" using Cons.prems(3) by (subst (asm) conforms.simps) auto
    then have "property_schema (Some s) token = Unknown"
      by (simp add: property_schema_def jget_def)
    with None Cons.prems(1) show ?thesis by simp
  next
    case (Some ts)
    obtain a where a: "a \<in> set ts" "schema_type_accepts (json_value_type v) a"
      using conforms_types [OF Cons.prems(3) Some] by blast
    from Cons.prems(4) consider
        (object) object c where "v = JObject object" "map_of object token = Some c" "points_to c tokens w"
      | (array) items c where "v = JArray items" "c \<in> set items" "points_to c tokens w"
      by (auto elim: points_to_ConsE)
    then show ?thesis
    proof cases
      case object
      then have o: "TObject \<in> set ts" using a by (simp add: schema_type_accepts_container)
      then have na: "TArray \<notin> set ts" using unambiguous_types [OF Cons.prems(2) Some] by blast
      then obtain p where p: "property_schema (Some s) token = Known p"
        "schema_walk p tokens = Inr (Some t)"
        using Cons.prems(1) schema_walk_object [OF Some o] by (auto split: schema_lookup.splits)
      then show ?thesis
        using Cons.IH [OF p(2) unambiguous_property [OF Cons.prems(2) p(1)] _ object(3)]
          conforms_property [OF _ p(1) object(2)] Cons.prems(3) object(1) by blast
    next
      case array
      then have ar: "TArray \<in> set ts" using a by (simp add: schema_type_accepts_container)
      then have no: "TObject \<notin> set ts" using unambiguous_types [OF Cons.prems(2) Some] by blast
      then obtain i where i: "jget s ''items'' = Some i" "schema_walk i tokens = Inr (Some t)"
        using Cons.prems(1) schema_walk_array [OF Some _ ar] by (auto split: option.splits if_splits)
      then show ?thesis
        using Cons.IH [OF i(2) unambiguous_items [OF Cons.prems(2) i(1)] _ array(3)]
          conforms_item [OF _ i(1) array(2)] Cons.prems(3) array(1) by blast
    qed
  qed
qed

end
