(* ===== verification/SafeActions_Check.thy ===== *)
theory SafeActions_Check
  imports SafeActions_Assign
begin

section \<open>The checks of the verifier\<close>

text \<open>
  The parts of \<open>verify\<close> in \<open>crates/core/safe-actions/src/verifier.rs\<close> that look at one thing at a
  time: the policy, the shape of the plan, the catalog, a value against the schema expected of it,
  a predicate.  A function that pushes findings is the list it pushes; what it returns besides is
  the second component.  Each has an equation in \<open>clean_simps\<close> that says when it pushes no error.
\<close>

abbreviation HARD_MAX_PLAN_BYTES :: nat where "HARD_MAX_PLAN_BYTES \<equiv> 1024 * 1024"
abbreviation HARD_MAX_NODES :: nat where "HARD_MAX_NODES \<equiv> 4096"
abbreviation HARD_MAX_DEPTH :: nat where "HARD_MAX_DEPTH \<equiv> 64"
abbreviation MAX_POLICY_RULES_PER_SET :: nat where "MAX_POLICY_RULES_PER_SET \<equiv> 256"
abbreviation MAX_CATALOG_TOOLS :: nat where "MAX_CATALOG_TOOLS \<equiv> 4096"

abbreviation error_at :: "finding_code \<Rightarrow> string option \<Rightarrow> string \<Rightarrow> verification_finding list" where
  "error_at c node path \<equiv> [finding SevError c node path]"

lemma no_errors_concat:
  "no_errors (concat (map f xs)) \<longleftrightarrow> (\<forall>x \<in> set xs. no_errors (f x))"
  by (induction xs) auto

lemma no_errors_if:
  "no_errors (if b then error_at c node path else []) \<longleftrightarrow> \<not> b"
  "no_errors (if b then [] else error_at c node path) \<longleftrightarrow> b"
  by auto

subsection \<open>Policy\<close>

definition effective_limits :: "policy \<Rightarrow> nat \<times> nat \<times> nat" where
  "effective_limits p =
     (min (max_plan_bytes (limits p)) HARD_MAX_PLAN_BYTES,
      min (max_nodes (limits p)) HARD_MAX_NODES,
      min (max_depth (limits p)) HARD_MAX_DEPTH)"

definition check_policy :: "policy \<Rightarrow> verification_finding list" where
  "check_policy p =
     (if max_plan_bytes (limits p) = 0 \<or> max_nodes (limits p) = 0 \<or> max_depth (limits p) = 0
         \<or> HARD_MAX_PLAN_BYTES < max_plan_bytes (limits p) \<or> HARD_MAX_NODES < max_nodes (limits p)
         \<or> HARD_MAX_DEPTH < max_depth (limits p)
      then error_at InvalidPolicyLimits None ''$.policy.limits'' else [])
     @ concat (map (\<lambda>(field, count).
         if MAX_POLICY_RULES_PER_SET < count
         then error_at PolicyTooComplex None (''$.policy.'' @ field) else [])
         [(''allow_tools'', length (allow_tools p)),
          (''deny_tools'', length (deny_tools p)),
          (''allowed_effects'', length (allowed_effects p)),
          (''allowed_resources'', length (allowed_resources p)),
          (''review_tools'', length (review_tools p)),
          (''review_effects'', length (review_effects p))])
     @ concat (map (\<lambda>(field, patterns).
         concat (map (\<lambda>pattern.
           if \<not> valid_tool_pattern pattern
           then error_at InvalidToolPattern None (''$.policy.'' @ field) else []) patterns))
         [(''allow_tools'', allow_tools p),
          (''deny_tools'', deny_tools p),
          (''review_tools'', review_tools p)])
     @ concat (map (\<lambda>pattern.
         if \<not> valid_resource_pattern pattern
         then error_at InvalidResourcePattern None ''$.policy.allowed_resources'' else [])
         (allowed_resources p))"

definition validate_policy :: "policy \<Rightarrow> verification_finding list" where
  "validate_policy p = check_policy p"

text \<open>A policy without findings.\<close>

definition valid_policy :: "policy \<Rightarrow> bool" where
  "valid_policy p \<longleftrightarrow>
     max_plan_bytes (limits p) \<in> {1..HARD_MAX_PLAN_BYTES}
     \<and> max_nodes (limits p) \<in> {1..HARD_MAX_NODES}
     \<and> max_depth (limits p) \<in> {1..HARD_MAX_DEPTH}
     \<and> length (allow_tools p) \<le> MAX_POLICY_RULES_PER_SET
     \<and> length (deny_tools p) \<le> MAX_POLICY_RULES_PER_SET
     \<and> length (allowed_effects p) \<le> MAX_POLICY_RULES_PER_SET
     \<and> length (allowed_resources p) \<le> MAX_POLICY_RULES_PER_SET
     \<and> length (review_tools p) \<le> MAX_POLICY_RULES_PER_SET
     \<and> length (review_effects p) \<le> MAX_POLICY_RULES_PER_SET
     \<and> (\<forall>pat \<in> set (allow_tools p @ deny_tools p @ review_tools p). valid_tool_pattern pat)
     \<and> (\<forall>pat \<in> set (allowed_resources p). valid_resource_pattern pat)"

lemma no_errors_policy [clean_simps]: "no_errors (check_policy p) \<longleftrightarrow> valid_policy p"
  unfolding check_policy_def valid_policy_def
  by (simp add: no_errors_concat no_errors_if not_less Suc_le_eq ball_Un conj_commute conj_left_commute)

subsection \<open>The shape of a plan\<close>

record plan_structure =
  node_count :: nat
  call_count :: nat
  max_depth_seen :: nat
  ids :: "string list"
  call_ids :: "string list"

definition empty_structure :: plan_structure where
  "empty_structure =
     \<lparr>node_count = 0, call_count = 0, max_depth_seen = 0, ids = [], call_ids = []\<rparr>"

definition child_path :: "string \<Rightarrow> nat \<Rightarrow> string" where
  "child_path path index = path @ ''.nodes['' @ show_nat index @ '']''"

text \<open>
  One node, before its children: count it, record its id, and push what is wrong with it.  The
  updates come in the order of the source, each reading the structure the one before left.
\<close>

definition enter_node ::
  "plan_node \<Rightarrow> nat \<Rightarrow> string \<Rightarrow> plan_structure \<Rightarrow> plan_structure \<times> verification_finding list" where
  "enter_node node depth path st =
     (let i = node_id node;
          st1 = st\<lparr>node_count := sat_add (node_count st) 1,
                   max_depth_seen := max (max_depth_seen st) depth\<rparr>;
          fs1 = (if \<not> valid_identifier i then error_at InvalidNodeId (Some i) (path @ ''.id'') else []);
          fs2 = (if i \<in> set (ids st1) then error_at DuplicateNodeId (Some i) (path @ ''.id'') else []);
          st2 = st1\<lparr>ids := insort_insert i (ids st1)\<rparr>
      in case node of
           Call _ tool _ \<Rightarrow>
             (st2\<lparr>call_count := sat_add (call_count st2) 1,
                  call_ids := insort_insert i (call_ids st2)\<rparr>,
              fs1 @ fs2
              @ (if \<not> valid_tool_name tool
                 then error_at InvalidToolName (Some i) (path @ ''.tool'') else []))
         | _ \<Rightarrow> (st2, fs1 @ fs2))"

text \<open>
  Running one step after another on the state the first left: the findings come in order.
\<close>

definition and_then :: "'s \<times> 'f list \<Rightarrow> ('s \<Rightarrow> 's \<times> 'f list) \<Rightarrow> 's \<times> 'f list" where
  "and_then m k = (let (s, fs) = m; (s', gs) = k s in (s', fs @ gs))"

lemma and_then_simps [simp]:
  "fst (and_then m k) = fst (k (fst m))" "snd (and_then m k) = snd m @ snd (k (fst m))"
  by (simp_all add: and_then_def case_prod_beta' Let_def)

lemma and_then_cong [fundef_cong]:
  "m = m' \<Longrightarrow> (\<And>s. s = fst m' \<Longrightarrow> k s = k' s) \<Longrightarrow> and_then m k = and_then m' k'"
  by (simp add: and_then_def case_prod_beta' Let_def)

fun collect_structure ::
    "plan_node \<Rightarrow> nat \<Rightarrow> string \<Rightarrow> plan_structure \<Rightarrow> plan_structure \<times> verification_finding list"
  and collect_children ::
    "plan_node list \<Rightarrow> nat \<Rightarrow> nat \<Rightarrow> string \<Rightarrow> plan_structure \<Rightarrow>
       plan_structure \<times> verification_finding list"
where
  "collect_structure (Call i tool args) depth path st = enter_node (Call i tool args) depth path st"
| "collect_structure (Sequence i nodes) depth path st =
     and_then (enter_node (Sequence i nodes) depth path st)
       (\<lambda>st1. collect_children nodes 0 (sat_add depth 1) path st1)"
| "collect_structure (Parallel i nodes) depth path st =
     and_then (enter_node (Parallel i nodes) depth path st)
       (\<lambda>st1. collect_children nodes 0 (sat_add depth 1) path st1)"
| "collect_structure (IfNode i p th el) depth path st =
     and_then (enter_node (IfNode i p th el) depth path st)
       (\<lambda>st1. and_then (collect_structure th (sat_add depth 1) (path @ ''.then_node'') st1)
         (\<lambda>st2. collect_structure el (sat_add depth 1) (path @ ''.else_node'') st2))"
| "collect_children [] index depth path st = (st, [])"
| "collect_children (child # rest) index depth path st =
     and_then (collect_structure child depth (child_path path index) st)
       (\<lambda>st1. collect_children rest (Suc index) depth path st1)"

lemma enter_node_frame:
  "node_count (fst (enter_node n d p st)) = sat_add (node_count st) 1"
  "max_depth_seen (fst (enter_node n d p st)) = max (max_depth_seen st) d"
  "set (ids (fst (enter_node n d p st))) = insert (node_id n) (set (ids st))"
  by (simp_all add: enter_node_def Let_def set_insort_insert split: plan_node.split)

lemma enter_node_calls:
  "set (call_ids (fst (enter_node (Call i tool args) d p st))) = insert i (set (call_ids st))"
  "call_count (fst (enter_node (Call i tool args) d p st)) = sat_add (call_count st) 1"
  "(\<nexists>i tool args. n = Call i tool args) \<Longrightarrow> call_ids (fst (enter_node n d p st)) = call_ids st"
  "(\<nexists>i tool args. n = Call i tool args) \<Longrightarrow> call_count (fst (enter_node n d p st)) = call_count st"
  by (simp_all add: enter_node_def Let_def set_insort_insert split: plan_node.split)

lemma collect_ids:
  "set (ids (fst (collect_structure n d p st))) = set (ids st) \<union> set (plan_ids n)"
  "set (ids (fst (collect_children ns k d p st))) = set (ids st) \<union> (\<Union>n \<in> set ns. set (plan_ids n))"
  by (induction n d p st and ns k d p st rule: collect_structure_collect_children.induct)
    (auto simp: enter_node_frame)

lemma collect_call_ids:
  "set (call_ids (fst (collect_structure n d p st))) = set (call_ids st) \<union> fst ` set (plan_calls n)"
  "set (call_ids (fst (collect_children ns k d p st))) =
     set (call_ids st) \<union> (\<Union>n \<in> set ns. fst ` set (plan_calls n))"
  by (induction n d p st and ns k d p st rule: collect_structure_collect_children.induct)
    (simp_all add: enter_node_calls image_Un image_UN Un_assoc, blast?)

lemma sat_add_assoc: "sat_add (sat_add a b) c = sat_add a (b + c)"
  by (auto simp: sat_add_def min_def)

lemma sat_add_0: "a \<le> usize_max \<Longrightarrow> sat_add a 0 = a"
  by (simp add: sat_add_def)

lemma plan_size_simps [simp]:
  "plan_size (Call i tool args) = 1"
  "plan_size (Sequence i nodes) = 1 + sum_list (map plan_size nodes)"
  "plan_size (Parallel i nodes) = 1 + sum_list (map plan_size nodes)"
  "plan_size (IfNode i p th el) = 1 + plan_size th + plan_size el"
  by (simp_all add: plan_size_def length_concat comp_def cong: map_cong)

lemma collect_node_count:
  "node_count st \<le> usize_max \<Longrightarrow>
     node_count (fst (collect_structure n d p st)) = sat_add (node_count st) (plan_size n)"
  "node_count st \<le> usize_max \<Longrightarrow>
     node_count (fst (collect_children ns k d p st)) =
       sat_add (node_count st) (sum_list (map plan_size ns))"
  by (induction n d p st and ns k d p st rule: collect_structure_collect_children.induct)
    (simp_all add: enter_node_frame sat_add_assoc sat_add_0 sat_add_le add.assoc)

lemma fold_max: "fold max ds (a :: nat) = max a (fold max ds 0)"
proof (induction ds arbitrary: a)
  case (Cons d ds)
  have "fold max (d # ds) a = fold max ds (max d a)" by simp
  also have "\<dots> = max (max d a) (fold max ds 0)" by (rule Cons)
  also have "\<dots> = max a (max d (fold max ds 0))" by (simp add: max_def)
  also have "max d (fold max ds 0) = fold max ds d" by (rule Cons [symmetric])
  finally show ?case by simp
qed simp

lemma max_depth_step:
  "max (min (d + a - Suc 0) m) (min (d + b - Suc 0) m) = min (d + max a b - Suc 0) m"
  by (cases "a \<le> b") (simp_all add: max_def min_def)

lemma sat_add_step: "1 \<le> sat_add d 1" "sat_add d 1 - 1 \<le> d"
  by (simp_all add: sat_add_def)

lemma group_depth:
  "d \<le> usize_max \<Longrightarrow> max d (min (sat_add d 1 + k - 1) usize_max) = min (d + k) usize_max"
  by (cases "d = usize_max"; cases k) (simp_all add: sat_add_def min_def)

lemma collect_depth:
  "1 \<le> d \<Longrightarrow> d \<le> usize_max \<Longrightarrow>
     max_depth_seen (fst (collect_structure n d p st)) =
       max (max_depth_seen st) (min (d + plan_depth n - 1) usize_max)"
  "1 \<le> d \<Longrightarrow> d \<le> usize_max \<Longrightarrow> d - 1 \<le> max_depth_seen st \<Longrightarrow>
     max_depth_seen (fst (collect_children ns k d p st)) =
       max (max_depth_seen st) (min (d + fold max (map plan_depth ns) 0 - 1) usize_max)"
proof (induction n d p st and ns k d p st rule: collect_structure_collect_children.induct)
  case (6 child rest index depth path st)
  let ?st1 = "fst (collect_structure child depth (child_path path index) st)"
  have child: "max_depth_seen ?st1 =
      max (max_depth_seen st) (min (depth + plan_depth child - 1) usize_max)"
    using 6 by blast
  then have "depth - 1 \<le> max_depth_seen ?st1" using "6.prems" by (simp only: le_max_iff_disj) simp
  then have rest: "max_depth_seen (fst (collect_children rest (Suc index) depth path ?st1)) =
      max (max_depth_seen ?st1) (min (depth + fold max (map plan_depth rest) 0 - 1) usize_max)"
    using 6 by blast
  have f: "fold max (map plan_depth (child # rest)) 0 =
      max (plan_depth child) (fold max (map plan_depth rest) 0)"
    using fold_max [of "map plan_depth rest" "plan_depth child"] by simp
  show ?case
    unfolding collect_children.simps and_then_simps f rest child
    by (simp only: max.assoc max_depth_step One_nat_def)
next
  case (1 i tool args depth path st)
  then show ?case by (simp add: enter_node_frame)
next
  case (2 i nodes depth path st)
  let ?st1 = "fst (enter_node (Sequence i nodes) depth path st)"
  have "max_depth_seen (fst (collect_children nodes 0 (sat_add depth 1) path ?st1)) =
      max (max_depth_seen ?st1)
        (min (sat_add depth 1 + fold max (map plan_depth nodes) 0 - 1) usize_max)"
    using 2 sat_add_le sat_add_step by (simp only: enter_node_frame le_max_iff_disj simp_thms)
  then show ?case using "2.prems" by (simp only: collect_structure.simps and_then_simps group_depth
      enter_node_frame max.assoc plan_depth.simps add_Suc_right diff_Suc_1)
next
  case (3 i nodes depth path st)
  let ?st1 = "fst (enter_node (Parallel i nodes) depth path st)"
  have "max_depth_seen (fst (collect_children nodes 0 (sat_add depth 1) path ?st1)) =
      max (max_depth_seen ?st1)
        (min (sat_add depth 1 + fold max (map plan_depth nodes) 0 - 1) usize_max)"
    using 3 sat_add_le sat_add_step by (simp only: enter_node_frame le_max_iff_disj simp_thms)
  then show ?case using "3.prems" by (simp only: collect_structure.simps and_then_simps group_depth
      enter_node_frame max.assoc plan_depth.simps add_Suc_right diff_Suc_1)
next
  case (4 i p th el depth path st)
  let ?st1 = "fst (enter_node (IfNode i p th el) depth path st)"
  let ?st2 = "fst (collect_structure th (sat_add depth 1) (path @ ''.then_node'') ?st1)"
  have th: "max_depth_seen ?st2 =
      max (max_depth_seen ?st1) (min (sat_add depth 1 + plan_depth th - 1) usize_max)"
    using 4 sat_add_le sat_add_step by simp
  have el: "max_depth_seen (fst (collect_structure el (sat_add depth 1) (path @ ''.else_node'') ?st2)) =
      max (max_depth_seen ?st2) (min (sat_add depth 1 + plan_depth el - 1) usize_max)"
    using 4 sat_add_le sat_add_step by simp
  have both: "max depth (max (min (sat_add depth 1 + plan_depth th - Suc 0) usize_max)
        (min (sat_add depth 1 + plan_depth el - Suc 0) usize_max)) =
      min (depth + max (plan_depth th) (plan_depth el)) usize_max"
    using group_depth [OF "4.prems"(2)] by (simp only: max_depth_step One_nat_def)
  then show ?case
    unfolding collect_structure.simps and_then_simps el th enter_node_frame
    by (simp only: max.assoc One_nat_def plan_depth.simps add_Suc_right diff_Suc_Suc diff_zero)
qed simp

text \<open>What the shape check accepts, on its own and on top of the ids already seen.\<close>

definition valid_shape :: "plan_node list \<Rightarrow> bool" where
  "valid_shape ns \<longleftrightarrow>
     (\<forall>i \<in> set (concat (map plan_ids ns)). valid_identifier i)
     \<and> distinct (concat (map plan_ids ns))
     \<and> (\<forall>(i, tool, args) \<in> set (concat (map plan_calls ns)). valid_tool_name tool)"

lemma enter_node_findings:
  "no_errors (snd (enter_node n d p st)) \<longleftrightarrow>
     valid_identifier (node_id n) \<and> node_id n \<notin> set (ids st)
     \<and> (case n of Call i tool args \<Rightarrow> valid_tool_name tool | _ \<Rightarrow> True)"
  by (auto simp: enter_node_def Let_def split: plan_node.split)

lemma valid_shape_node:
  "valid_shape [n] \<longleftrightarrow>
     (\<forall>i \<in> set (plan_ids n). valid_identifier i) \<and> distinct (plan_ids n)
     \<and> (\<forall>(i, tool, args) \<in> set (plan_calls n). valid_tool_name tool)"
  by (simp add: valid_shape_def)

lemma valid_shape_group:
  "valid_shape [Sequence i ns] \<longleftrightarrow>
     valid_identifier i \<and> i \<notin> (\<Union>n \<in> set ns. set (plan_ids n)) \<and> valid_shape ns"
  "valid_shape [Parallel i ns] \<longleftrightarrow>
     valid_identifier i \<and> i \<notin> (\<Union>n \<in> set ns. set (plan_ids n)) \<and> valid_shape ns"
  by (auto simp: valid_shape_def)

lemma valid_shape_if:
  "valid_shape [IfNode i p th el] \<longleftrightarrow>
     valid_identifier i \<and> i \<notin> set (plan_ids th) \<and> i \<notin> set (plan_ids el)
     \<and> valid_shape [th] \<and> valid_shape [el] \<and> set (plan_ids th) \<inter> set (plan_ids el) = {}"
  by (auto simp: valid_shape_def ball_Un)

lemma valid_shape_Cons:
  "valid_shape (n # ns) \<longleftrightarrow>
     valid_shape [n] \<and> valid_shape ns
     \<and> set (plan_ids n) \<inter> (\<Union>m \<in> set ns. set (plan_ids m)) = {}"
  by (auto simp: valid_shape_def ball_Un)

lemma no_errors_structure:
  "no_errors (snd (collect_structure n d p st)) \<longleftrightarrow>
     valid_shape [n] \<and> set (plan_ids n) \<inter> set (ids st) = {}"
  "no_errors (snd (collect_children ns k d p st)) \<longleftrightarrow>
     valid_shape ns \<and> (\<Union>n \<in> set ns. set (plan_ids n)) \<inter> set (ids st) = {}"
proof (induction n d p st and ns k d p st rule: collect_structure_collect_children.induct)
  case (1 i tool args depth path st)
  then show ?case by (auto simp: enter_node_findings valid_shape_node)
next
  case (6 child rest index depth path st)
  then show ?case by (simp add: collect_ids valid_shape_Cons [of child rest]) blast
next
  case (5 index depth path st)
  then show ?case by (simp add: valid_shape_def)
next
  case (4 i p th el depth path st)
  then show ?case
    by (simp add: enter_node_frame enter_node_findings collect_ids valid_shape_if) blast
qed (auto simp: enter_node_frame enter_node_findings valid_shape_group)

lemma length_concat_map: "length (concat (map f xs)) = sum_list (map (\<lambda>x. length (f x)) xs)"
  by (simp add: length_concat comp_def)

lemma collect_call_count:
  "call_count st \<le> usize_max \<Longrightarrow>
     call_count (fst (collect_structure n d p st)) = sat_add (call_count st) (length (plan_calls n))"
  "call_count st \<le> usize_max \<Longrightarrow>
     call_count (fst (collect_children ns k d p st)) =
       sat_add (call_count st) (length (concat (map plan_calls ns)))"
  by (induction n d p st and ns k d p st rule: collect_structure_collect_children.induct)
    (simp_all add: enter_node_calls sat_add_assoc sat_add_0 sat_add_le)

text \<open>The structure of a whole plan, as \<open>verify\<close> computes it.\<close>

lemma collect_root:
  "node_count (fst (collect_structure n 1 p empty_structure)) = sat_add 0 (plan_size n)"
  "call_count (fst (collect_structure n 1 p empty_structure)) = sat_add 0 (length (plan_calls n))"
  "max_depth_seen (fst (collect_structure n 1 p empty_structure)) = sat_add 0 (plan_depth n)"
  "set (call_ids (fst (collect_structure n 1 p empty_structure))) = fst ` set (plan_calls n)"
  "no_errors (snd (collect_structure n 1 p empty_structure)) \<longleftrightarrow> valid_shape [n]"
  by (simp_all add: collect_node_count collect_call_count collect_depth collect_call_ids
      no_errors_structure empty_structure_def sat_add_def)

subsection \<open>The catalog\<close>

fun build_catalog_from ::
  "tool_descriptor list \<Rightarrow> (string \<times> tool_descriptor) list
     \<Rightarrow> (string \<times> tool_descriptor) list \<times> verification_finding list" where
  "build_catalog_from [] acc = (acc, [])"
| "build_catalog_from (d # ds) acc =
     and_then
       (bt_insert (td_name d) d acc,
        (if \<not> valid_tool_name (td_name d) then error_at InvalidToolName None ''$.catalog'' else [])
        @ (if bt_get acc (td_name d) \<noteq> None
           then error_at DuplicateToolDescriptor None ''$.catalog'' else [])
        @ validate_supported_schema (input_schema d)
            (''$.catalog['' @ td_name d @ ''].input_schema'')
        @ validate_supported_schema (output_schema d)
            (''$.catalog['' @ td_name d @ ''].output_schema''))
       (build_catalog_from ds)"

definition build_catalog ::
  "tool_descriptor list \<Rightarrow> (string \<times> tool_descriptor) list \<times> verification_finding list" where
  "build_catalog ds = build_catalog_from ds []"

definition valid_catalog :: "tool_descriptor list \<Rightarrow> bool" where
  "valid_catalog ds \<longleftrightarrow>
     distinct (map td_name ds)
     \<and> (\<forall>d \<in> set ds. valid_tool_name (td_name d) \<and> supported (input_schema d)
          \<and> supported (output_schema d))"

lemma no_errors_catalog_from:
  "no_errors (snd (build_catalog_from ds acc)) \<longleftrightarrow>
     valid_catalog ds \<and> (\<forall>d \<in> set ds. bt_get acc (td_name d) = None)"
proof (induction ds acc rule: build_catalog_from.induct)
  case (2 d ds acc)
  have "(\<forall>x \<in> set ds. bt_get (bt_insert (td_name d) d acc) (td_name x) = None) \<longleftrightarrow>
      td_name d \<notin> td_name ` set ds \<and> (\<forall>x \<in> set ds. bt_get acc (td_name x) = None)"
    by (simp add: bt_get_insert image_iff) metis
  with 2 show ?case by (auto simp: valid_catalog_def clean_simps)
qed (simp add: valid_catalog_def)

lemma no_errors_catalog [clean_simps]: "no_errors (snd (build_catalog ds)) \<longleftrightarrow> valid_catalog ds"
  by (simp add: build_catalog_def no_errors_catalog_from bt_get_def)

lemma catalog_from_get:
  "bt_get (fst (build_catalog_from ds acc)) name =
     (case List.find (\<lambda>d. td_name d = name) (rev ds) of
        Some d \<Rightarrow> Some d
      | None \<Rightarrow> bt_get acc name)"
proof (induction ds arbitrary: acc)
  case (Cons d ds)
  have "List.find P (xs @ [x]) = (case List.find P xs of Some y \<Rightarrow> Some y
      | None \<Rightarrow> if P x then Some x else None)" for P and x :: tool_descriptor and xs
    by (induction xs) auto
  with Cons show ?case by (auto simp: bt_get_insert split: option.splits)
qed simp

lemma catalog_get:
  assumes "bt_get (fst (build_catalog ds)) name = Some d"
  shows "d \<in> set ds \<and> td_name d = name"
proof -
  have "List.find (\<lambda>d. td_name d = name) (rev ds) = Some d"
    using assms unfolding build_catalog_def catalog_from_get by (simp add: bt_get_def split: option.splits)
  then show ?thesis by (auto simp: find_Some_iff) (metis length_rev nth_mem set_rev)
qed

text \<open>The catalog the verifier reads depends on the descriptors, not on the order they come in.\<close>

lemma catalog_get_iff:
  assumes "distinct (map td_name ds)"
  shows "bt_get (fst (build_catalog ds)) name = Some d \<longleftrightarrow> d \<in> set ds \<and> td_name d = name"
proof
  assume "d \<in> set ds \<and> td_name d = name"
  then obtain e where e: "List.find (\<lambda>d. td_name d = name) (rev ds) = Some e"
    by (cases "List.find (\<lambda>d. td_name d = name) (rev ds)") (auto simp: find_None_iff)
  then have "e \<in> set ds" "td_name e = name" by (auto simp: find_Some_iff) (metis length_rev nth_mem set_rev)
  with assms \<open>d \<in> set ds \<and> td_name d = name\<close> have "e = d"
    by (auto simp: distinct_map dest: inj_onD)
  with e show "bt_get (fst (build_catalog ds)) name = Some d"
    by (simp add: build_catalog_def catalog_from_get)
qed (rule catalog_get)

end
