(* ===== verification/SafeActions_Values.thy ===== *)
theory SafeActions_Values
  imports SafeActions_Check
begin

section \<open>Values and predicates against schemas\<close>

text \<open>
  \<open>validate_plan_value\<close>, \<open>validate_literal\<close> and \<open>verify_predicate\<close> of
  \<open>crates/core/safe-actions/src/verifier.rs\<close>: the static check of call arguments and conditions.
  The main lemmas say that the check of a literal is exactly the run-time validation of it, and
  that a value is clean exactly when it fits the schema in the declarative sense of \<open>value_fits\<close>:
  every part conforms, and every reference is to a dominating step, at a pointer whose schema is
  assignable to the place it is used.
\<close>

subsection \<open>The checks of the source\<close>

definition check_expected_type ::
  "json_type \<Rightarrow> json option \<Rightarrow> string \<Rightarrow> string option \<Rightarrow> verification_finding list" where
  "check_expected_type actual expected_schema path node =
     (case Option.bind expected_schema schema_types of
        None \<Rightarrow> []
      | Some expected_types \<Rightarrow>
          if \<not> list_ex (\<lambda>expected. schema_type_accepts actual expected) expected_types
          then error_at TypeMismatch node path else [])"

definition check_required_fields ::
  "string list \<Rightarrow> json option \<Rightarrow> string \<Rightarrow> string option \<Rightarrow> verification_finding list" where
  "check_required_fields present schema path node =
     (case Option.bind (Option.bind schema (\<lambda>value. jget value ''required'')) as_array of
        None \<Rightarrow> []
      | Some required \<Rightarrow>
          concat (map (\<lambda>required_key.
            if required_key \<notin> set present then error_at InputShapeMismatch node path else [])
            (List.map_filter as_str required)))"

function validate_literal ::
  "json \<Rightarrow> json option \<Rightarrow> string \<Rightarrow> string option \<Rightarrow> verification_finding list" where
  "validate_literal value expected_schema path node =
     check_expected_type (json_value_type value) expected_schema path node
     @ (case value of
          JObject object \<Rightarrow>
            check_required_fields (map fst object) expected_schema path node
            @ concat (map (\<lambda>(key, child).
                (if property_schema expected_schema key = Forbidden
                 then error_at InputShapeMismatch node (path @ ''.'' @ key) else [])
                @ validate_literal child (lookup_schema (property_schema expected_schema key))
                    (path @ ''.'' @ key) node) object)
        | JArray items \<Rightarrow>
            concat (map (\<lambda>(index, child).
                validate_literal child (Option.bind expected_schema (\<lambda>schema. jget schema ''items''))
                  (path @ ''['' @ show_nat index @ '']'') node) (List.enumerate 0 items))
        | _ \<Rightarrow> [])"
  by pat_completeness auto
termination
  by (relation "measure (\<lambda>(value, expected, path, node). size value)")
    (auto dest: entry_size_less item_size_less)

declare validate_literal.simps [simp del]

text \<open>What the verifier reads and never changes while it walks the plan (\<open>VerifyContext\<close>).\<close>

record verify_env =
  env_policy :: policy
  env_catalog :: "(string \<times> tool_descriptor) list"
  all_call_ids :: "string list"

type_synonym available_outputs = "(string \<times> json) list"

text \<open>The branch for a reference to the output of a step.\<close>

definition validate_step_output ::
  "verify_env \<Rightarrow> string \<Rightarrow> string \<Rightarrow> json_type \<Rightarrow> json option \<Rightarrow> available_outputs \<Rightarrow> string
     \<Rightarrow> string option \<Rightarrow> verification_finding list" where
  "validate_step_output env step_id pointer value_type expected_schema available path node =
     (case bt_get available step_id of
        None \<Rightarrow>
          error_at (if step_id \<in> set (all_call_ids env) then ReferenceNotDominating
                    else InvalidReference) node path
      | Some out_schema \<Rightarrow>
          (case schema_at_pointer out_schema pointer of
             Inr (Some pointed_schema) \<Rightarrow>
               (case schema_types pointed_schema of
                  None \<Rightarrow> []
                | Some types \<Rightarrow>
                    if \<not> list_ex (\<lambda>actual. schema_type_accepts actual value_type) types
                    then error_at TypeMismatch node path else [])
               @ (case expected_schema of
                    None \<Rightarrow> []
                  | Some expected \<Rightarrow>
                      if \<not> schema_assignable pointed_schema expected
                      then error_at InputShapeMismatch node path else [])
           | Inr None \<Rightarrow> []
           | Inl InvalidSyntax \<Rightarrow> error_at InvalidJsonPointer node path
           | Inl SchemaMismatch \<Rightarrow> error_at OutputPointerMismatch node path))
     @ check_expected_type value_type expected_schema path node"

text \<open>The findings pushed, and the type returned: in every branch \<open>Some\<close> of a type.\<close>

lemma plan_entry_size:
  "(k, v) \<in> set kvs \<Longrightarrow> f v < Suc (size_list (size_prod (\<lambda>x. 0) f) kvs)"
  by (induction kvs) auto

lemma plan_member_size: "x \<in> set xs \<Longrightarrow> f x < Suc (size_list f xs)"
  by (induction xs) auto

lemma plan_item_size: "(n, x) \<in> set (List.enumerate m xs) \<Longrightarrow> f x < Suc (size_list f xs)"
  by (induction xs arbitrary: m) (auto, fastforce)

function validate_plan_value ::
  "verify_env \<Rightarrow> plan_value \<Rightarrow> json option \<Rightarrow> available_outputs \<Rightarrow> string \<Rightarrow> string option
     \<Rightarrow> verification_finding list \<times> json_type option" where
  "validate_plan_value env (PLiteral value) expected_schema available path node =
     (validate_literal value expected_schema path node, Some (json_value_type value))"
| "validate_plan_value env (PObject entries) expected_schema available path node =
     (check_expected_type TObject expected_schema path node
      @ check_required_fields (map fst entries) expected_schema path node
      @ concat (map (\<lambda>(key, child).
          (if property_schema expected_schema key = Forbidden
           then error_at InputShapeMismatch node (path @ ''.fields.'' @ key) else [])
          @ fst (validate_plan_value env child (lookup_schema (property_schema expected_schema key))
                   available (path @ ''.fields.'' @ key) node)) entries),
      Some TObject)"
| "validate_plan_value env (PArray items) expected_schema available path node =
     (check_expected_type TArray expected_schema path node
      @ concat (map (\<lambda>(index, child).
          fst (validate_plan_value env child
                 (Option.bind expected_schema (\<lambda>schema. jget schema ''items'')) available
                 (path @ ''.items['' @ show_nat index @ '']'') node)) (List.enumerate 0 items)),
      Some TArray)"
| "validate_plan_value env (PStepOutput step_id pointer value_type) expected_schema available path node =
     (validate_step_output env step_id pointer value_type expected_schema available path node,
      Some value_type)"
  by pat_completeness auto
termination
  by (relation "measure (\<lambda>(env, value, expected, available, path, node). size value)")
    (auto dest: plan_entry_size plan_item_size)

declare validate_plan_value.simps [simp del]

definition ordering_op :: "comparison_op \<Rightarrow> bool" where
  "ordering_op op \<longleftrightarrow> (case op of Equal \<Rightarrow> False | NotEqual \<Rightarrow> False | _ \<Rightarrow> True)"

definition ordered_types :: "json_type \<Rightarrow> json_type \<Rightarrow> bool" where
  "ordered_types l r \<longleftrightarrow> (l = TInteger \<and> r = TInteger) \<or> (l = TString \<and> r = TString)"

function verify_predicate ::
  "verify_env \<Rightarrow> predicate \<Rightarrow> available_outputs \<Rightarrow> string \<Rightarrow> string option
     \<Rightarrow> verification_finding list" where
  "verify_predicate env (PCompare left op right) available path node =
     (let (left_findings, left_type) =
            validate_plan_value env left None available (path @ ''.left'') node;
          (right_findings, right_type) =
            validate_plan_value env right None available (path @ ''.right'') node
      in left_findings @ right_findings
         @ (case (left_type, right_type) of
              (Some l, Some r) \<Rightarrow>
                if \<not> comparison_types_compatible l r \<or> (ordering_op op \<and> \<not> ordered_types l r)
                then error_at InvalidPredicate node path else []
            | _ \<Rightarrow> []))"
| "verify_predicate env (PAll predicates) available path node =
     (if predicates = [] then error_at InvalidPredicate node path else [])
     @ concat (map (\<lambda>(index, child).
         verify_predicate env child available
           (path @ ''.predicates['' @ show_nat index @ '']'') node) (List.enumerate 0 predicates))"
| "verify_predicate env (PAny predicates) available path node =
     (if predicates = [] then error_at InvalidPredicate node path else [])
     @ concat (map (\<lambda>(index, child).
         verify_predicate env child available
           (path @ ''.predicates['' @ show_nat index @ '']'') node) (List.enumerate 0 predicates))"
| "verify_predicate env (PNot predicate) available path node =
     verify_predicate env predicate available (path @ ''.predicate'') node"
| "verify_predicate env (PExists value) available path node =
     fst (validate_plan_value env value None available (path @ ''.value'') node)"
  by pat_completeness auto
termination
  by (relation "measure (\<lambda>(env, predicate, available, path, node). size predicate)")
    (auto dest: plan_item_size)

declare verify_predicate.simps [simp del]

subsection \<open>Literals: the static check is the run-time check\<close>

definition schema_ok :: "json option \<Rightarrow> bool" where
  "schema_ok os \<longleftrightarrow> (case os of None \<Rightarrow> True | Some s \<Rightarrow> supported s)"

definition conforms_opt :: "json \<Rightarrow> json option \<Rightarrow> bool" where
  "conforms_opt v os \<longleftrightarrow> (case os of None \<Rightarrow> True | Some s \<Rightarrow> conforms v s)"

definition type_fits :: "json_type \<Rightarrow> json option \<Rightarrow> bool" where
  "type_fits t os \<longleftrightarrow>
     (\<forall>ts. Option.bind os schema_types = Some ts \<longrightarrow> (\<exists>t' \<in> set ts. schema_type_accepts t t'))"

definition required_present :: "string list \<Rightarrow> json option \<Rightarrow> bool" where
  "required_present keys os \<longleftrightarrow>
     (case os of None \<Rightarrow> True | Some s \<Rightarrow> \<forall>r \<in> set (schema_required s). r \<in> set keys)"

lemma schema_ok_simps [simp]:
  "schema_ok None" "schema_ok (Some s) \<longleftrightarrow> supported s"
  "conforms_opt v None" "conforms_opt v (Some s) \<longleftrightarrow> conforms v s"
  by (simp_all add: schema_ok_def conforms_opt_def)

lemma no_errors_expected_type [clean_simps]:
  "no_errors (check_expected_type t os path node) \<longleftrightarrow> type_fits t os"
  by (auto simp: check_expected_type_def type_fits_def list_ex_iff split: option.splits)

lemma set_fold_insort: "set (fold insort_insert xs ys) = set xs \<union> set ys"
  by (induction xs arbitrary: ys) (auto simp: set_insort_insert)

lemma no_errors_required [clean_simps]:
  "no_errors (check_required_fields keys os path node) \<longleftrightarrow> required_present keys os"
  by (cases os)
    (auto simp: check_required_fields_def required_present_def schema_required_def no_errors_concat
      no_errors_if set_fold_insort split: option.splits)

lemma supported_declared:
  assumes "supported s" and "(k, p) \<in> set (schema_properties s)"
  shows "supported p"
proof -
  obtain object ps where s: "s = JObject object" "map_of object ''properties'' = Some (JObject ps)"
    and mem: "(k, p) \<in> set ps"
    using assms(2) by (cases s)
      (auto simp: schema_properties_def jget_def as_object_def split: option.splits json.splits Option.bind_splits)
  have "\<forall>(name, child) \<in> set ps. supported child"
    using assms(1) s by (subst (asm) supported.simps) simp
  with mem show ?thesis by auto
qed

lemma supported_additional:
  assumes "supported s" and "jget s ''additionalProperties'' = Some (JObject kvs)"
  shows "supported (JObject kvs)"
proof -
  obtain object where s: "s = JObject object" "map_of object ''additionalProperties'' = Some (JObject kvs)"
    using assms(2) by (auto simp: jget_Some)
  show ?thesis using assms(1) s by (subst (asm) supported.simps) simp
qed

lemma supported_property:
  assumes "supported s" and "property_schema (Some s) k = Known p"
  shows "supported p"
proof (cases "map_of (schema_properties s) k")
  case None
  with assms(2) have "undeclared_schema s = Known p" by (simp add: property_schema_cases)
  then obtain kvs where "jget s ''additionalProperties'' = Some (JObject kvs)" "p = JObject kvs"
    by (auto simp: undeclared_schema_def split: option.splits json.splits if_splits)
  with assms(1) supported_additional show ?thesis by blast
next
  case (Some q)
  with assms(2) have "q = p" by (simp add: property_schema_cases)
  with Some assms(1) supported_declared show ?thesis by (blast dest: map_of_SomeD)
qed

lemma supported_items: "supported s \<Longrightarrow> jget s ''items'' = Some i \<Longrightarrow> supported i"
  by (subst (asm) supported.simps) (auto simp: jget_Some)

lemma schema_ok_property: "schema_ok os \<Longrightarrow> schema_ok (lookup_schema (property_schema os k))"
  by (cases os; cases "property_schema os k")
    (auto simp: property_schema_def dest: supported_property)

lemma schema_ok_items: "schema_ok os \<Longrightarrow> schema_ok (Option.bind os (\<lambda>s. jget s ''items''))"
  by (cases os; cases "Option.bind os (\<lambda>s. jget s ''items'')") (auto dest: supported_items)

lemma conforms_unfold:
  "supported s \<Longrightarrow> conforms v s \<longleftrightarrow>
     type_fits (json_value_type v) (Some s)
     \<and> (case v of
          JObject object \<Rightarrow>
            required_present (map fst object) (Some s)
            \<and> (\<forall>(key, child) \<in> set object.
                 property_schema (Some s) key \<noteq> Forbidden
                 \<and> conforms_opt child (lookup_schema (property_schema (Some s) key)))
        | JArray items \<Rightarrow> \<forall>item \<in> set items. conforms_opt item (jget s ''items'')
        | _ \<Rightarrow> True)"
proof (cases "s = JBool True")
  case True
  have "property_schema (Some (JBool True)) k = Unknown" for k
    by (simp add: property_schema_def jget_def)
  with True show ?thesis
    by (simp add: type_fits_def schema_types_bool required_present_def schema_required_def jget_def
        split: json.split)
next
  case False
  moreover assume "supported s"
  ultimately obtain ts where ts: "schema_types s = Some ts" using supported_types by blast
  have known: "(case property_schema (Some s) key of Known p \<Rightarrow> conforms c p | Unknown \<Rightarrow> True
      | Forbidden \<Rightarrow> False) \<longleftrightarrow>
    property_schema (Some s) key \<noteq> Forbidden
      \<and> conforms_opt c (lookup_schema (property_schema (Some s) key))" for key c
    by (cases "property_schema (Some s) key") simp_all
  have items: "(case jget s ''items'' of None \<Rightarrow> True | Some i \<Rightarrow> \<forall>item \<in> set xs. conforms item i)
      \<longleftrightarrow> (\<forall>item \<in> set xs. conforms_opt item (jget s ''items''))" for xs
    by (cases "jget s ''items''") simp_all
  have req: "(\<forall>r \<in> set (schema_required s). \<exists>y. map_of object r = Some y)
      \<longleftrightarrow> required_present (map fst object) (Some s)" for object :: "(string \<times> json) list"
    by (simp add: required_present_def dom_map_of_conv_image_fst [symmetric] dom_def)
  have ty: "(\<exists>expected. schema_types s = Some expected \<and>
        (\<exists>t \<in> set expected. schema_type_accepts (json_value_type v) t))
      \<longleftrightarrow> type_fits (json_value_type v) (Some s)"
    using ts by (simp add: type_fits_def)
  show ?thesis
    by (cases v; subst conforms.simps) (simp_all add: False ts known items req type_fits_def)
qed

text \<open>
  On the schemas the catalog may contain, the static check of a literal finds an error exactly when
  the run-time validation of the same value would reject it.
\<close>

lemma no_errors_literal:
  "schema_ok os \<Longrightarrow> no_errors (validate_literal v os path node) \<longleftrightarrow> conforms_opt v os"
proof (induction v arbitrary: os path rule: measure_induct_rule [where f = size])
  case (less v)
  note IH = less.IH [OF _ schema_ok_property [OF less.prems]] less.IH [OF _ schema_ok_items [OF less.prems]]
  have step: "conforms_opt v os \<longleftrightarrow>
     type_fits (json_value_type v) os
     \<and> (case v of
          JObject object \<Rightarrow>
            required_present (map fst object) os
            \<and> (\<forall>(key, child) \<in> set object.
                 property_schema os key \<noteq> Forbidden
                 \<and> conforms_opt child (lookup_schema (property_schema os key)))
        | JArray items \<Rightarrow> \<forall>item \<in> set items. conforms_opt item (Option.bind os (\<lambda>s. jget s ''items''))
        | _ \<Rightarrow> True)"
    using less.prems
    by (cases os) (simp_all add: conforms_unfold type_fits_def required_present_def
        property_schema_def split: json.split)
  show ?case
  proof (cases v)
    case (JObject object)
    have "(\<forall>(key, child) \<in> set object. no_errors (validate_literal child
          (lookup_schema (property_schema os key)) (path @ ''.'' @ key) node)) \<longleftrightarrow>
      (\<forall>(key, child) \<in> set object. conforms_opt child (lookup_schema (property_schema os key)))"
      using IH(1) JObject entry_size_object by fastforce
    then show ?thesis
      unfolding step using JObject
      by (subst validate_literal.simps)
        (simp add: clean_simps no_errors_concat case_prod_beta' no_errors_if ball_conj_distrib)
  next
    case (JArray items)
    have "(\<forall>(n, child) \<in> set (List.enumerate 0 items). no_errors (validate_literal child
          (Option.bind os (\<lambda>s. jget s ''items'')) (path @ ''['' @ show_nat n @ '']'') node)) \<longleftrightarrow>
      (\<forall>child \<in> set items. conforms_opt child (Option.bind os (\<lambda>s. jget s ''items'')))"
      using IH(2) JArray item_size ball_enumerate [of 0 items
          "\<lambda>child. conforms_opt child (Option.bind os (\<lambda>s. jget s ''items''))"]
      by (force simp: in_set_enumerate_eq)
    then show ?thesis
      unfolding step using JArray
      by (subst validate_literal.simps) (simp add: clean_simps no_errors_concat case_prod_beta')
  qed (use step in \<open>simp_all add: validate_literal.simps [of _ os] clean_simps\<close>)
qed

subsection \<open>Values with references\<close>

text \<open>
  A reference fits when its step is available, its pointer selects a schema (or leaves the type
  open), the schema admits the declared type and is assignable to the place the value is used.
\<close>

definition reference_fits ::
  "(string \<Rightarrow> json option) \<Rightarrow> json option \<Rightarrow> string \<Rightarrow> string \<Rightarrow> json_type \<Rightarrow> bool" where
  "reference_fits \<Gamma> os step_id pointer t \<longleftrightarrow>
     type_fits t os
     \<and> (case \<Gamma> step_id of
          None \<Rightarrow> False
        | Some out \<Rightarrow>
            (case schema_at_pointer out pointer of
               Inl e \<Rightarrow> False
             | Inr None \<Rightarrow> True
             | Inr (Some pointed) \<Rightarrow>
                 (\<forall>ts. schema_types pointed = Some ts \<longrightarrow> (\<exists>a \<in> set ts. schema_type_accepts a t))
                 \<and> (\<forall>s. os = Some s \<longrightarrow> schema_assignable pointed s)))"

function value_fits :: "(string \<Rightarrow> json option) \<Rightarrow> json option \<Rightarrow> plan_value \<Rightarrow> bool" where
  "value_fits \<Gamma> os (PLiteral v) \<longleftrightarrow> conforms_opt v os"
| "value_fits \<Gamma> os (PObject entries) \<longleftrightarrow>
     type_fits TObject os \<and> required_present (map fst entries) os
     \<and> (\<forall>(key, child) \<in> set entries.
          property_schema os key \<noteq> Forbidden
          \<and> value_fits \<Gamma> (lookup_schema (property_schema os key)) child)"
| "value_fits \<Gamma> os (PArray items) \<longleftrightarrow>
     type_fits TArray os
     \<and> (\<forall>child \<in> set items. value_fits \<Gamma> (Option.bind os (\<lambda>s. jget s ''items'')) child)"
| "value_fits \<Gamma> os (PStepOutput step_id pointer t) \<longleftrightarrow> reference_fits \<Gamma> os step_id pointer t"
  by pat_completeness auto
termination
  by (relation "measure (\<lambda>(\<Gamma>, os, v). size v)")
    (auto dest: plan_entry_size plan_member_size)

lemma no_errors_step_output [clean_simps]:
  "no_errors (validate_step_output env i ptr t os available path node) \<longleftrightarrow>
     reference_fits (bt_get available) os i ptr t"
  by (auto simp: validate_step_output_def reference_fits_def clean_simps list_ex_iff
      split: option.splits sum.splits pointer_error.splits)

lemma no_errors_value:
  "schema_ok os \<Longrightarrow>
     no_errors (fst (validate_plan_value env v os available path node)) \<longleftrightarrow>
       value_fits (bt_get available) os v"
proof (induction v arbitrary: os path rule: measure_induct_rule [where f = size])
  case (less v)
  note IH = less.IH [OF _ schema_ok_property [OF less.prems]] less.IH [OF _ schema_ok_items [OF less.prems]]
  show ?case
  proof (cases v)
    case (PLiteral j)
    then show ?thesis using less.prems by (simp add: validate_plan_value.simps no_errors_literal)
  next
    case (PObject entries)
    have "size c < size v" if "(k, c) \<in> set entries" for k c
      using plan_entry_size [OF that, of size] PObject by simp
    then have "(\<forall>(k, c) \<in> set entries. no_errors (fst (validate_plan_value env c
          (lookup_schema (property_schema os k)) available (path @ ''.fields.'' @ k) node))) \<longleftrightarrow>
      (\<forall>(k, c) \<in> set entries. value_fits (bt_get available) (lookup_schema (property_schema os k)) c)"
      using IH(1) by fastforce
    then show ?thesis
      by (simp add: PObject validate_plan_value.simps clean_simps no_errors_concat case_prod_beta'
          no_errors_if ball_conj_distrib)
  next
    case (PArray items)
    have "size c < size v" if "c \<in> set items" for c
      using plan_member_size [OF that, of size] PArray by simp
    then have "(\<forall>(n, c) \<in> set (List.enumerate 0 items). no_errors (fst (validate_plan_value env c
          (Option.bind os (\<lambda>s. jget s ''items'')) available
          (path @ ''.items['' @ show_nat n @ '']'') node))) \<longleftrightarrow>
      (\<forall>c \<in> set items. value_fits (bt_get available) (Option.bind os (\<lambda>s. jget s ''items'')) c)"
      using IH(2) ball_enumerate [of 0 items
          "\<lambda>c. value_fits (bt_get available) (Option.bind os (\<lambda>s. jget s ''items'')) c"]
      by (force simp: in_set_enumerate_eq)
    then show ?thesis
      by (simp add: PArray validate_plan_value.simps clean_simps no_errors_concat case_prod_beta')
  next
    case (PStepOutput i ptr t)
    then show ?thesis by (simp add: validate_plan_value.simps clean_simps)
  qed
qed

subsection \<open>Predicates\<close>

fun plan_value_type :: "plan_value \<Rightarrow> json_type" where
  "plan_value_type (PLiteral v) = json_value_type v"
| "plan_value_type (PObject entries) = TObject"
| "plan_value_type (PArray items) = TArray"
| "plan_value_type (PStepOutput i ptr t) = t"

lemma validate_value_type:
  "snd (validate_plan_value env v os available path node) = Some (plan_value_type v)"
  by (cases v) (simp_all add: validate_plan_value.simps)

fun predicate_fits :: "(string \<Rightarrow> json option) \<Rightarrow> predicate \<Rightarrow> bool" where
  "predicate_fits \<Gamma> (PCompare l op r) \<longleftrightarrow>
     value_fits \<Gamma> None l \<and> value_fits \<Gamma> None r
     \<and> comparison_types_compatible (plan_value_type l) (plan_value_type r)
     \<and> (ordering_op op \<longrightarrow> ordered_types (plan_value_type l) (plan_value_type r))"
| "predicate_fits \<Gamma> (PAll ps) \<longleftrightarrow> ps \<noteq> [] \<and> (\<forall>p \<in> set ps. predicate_fits \<Gamma> p)"
| "predicate_fits \<Gamma> (PAny ps) \<longleftrightarrow> ps \<noteq> [] \<and> (\<forall>p \<in> set ps. predicate_fits \<Gamma> p)"
| "predicate_fits \<Gamma> (PNot p) \<longleftrightarrow> predicate_fits \<Gamma> p"
| "predicate_fits \<Gamma> (PExists v) \<longleftrightarrow> value_fits \<Gamma> None v"

lemma no_errors_predicates:
  assumes "\<And>p path. p \<in> set ps \<Longrightarrow>
    no_errors (verify_predicate env p available path node) \<longleftrightarrow> predicate_fits (bt_get available) p"
  shows "no_errors (concat (map (\<lambda>(n, p). verify_predicate env p available
       (path @ ''.predicates['' @ show_nat n @ '']'') node) (List.enumerate 0 ps)))
     \<longleftrightarrow> (\<forall>p \<in> set ps. predicate_fits (bt_get available) p)"
  using assms ball_enumerate [of 0 ps "predicate_fits (bt_get available)"]
  by (force simp: no_errors_concat in_set_enumerate_eq)

lemma no_errors_predicate [clean_simps]:
  "no_errors (verify_predicate env p available path node) \<longleftrightarrow> predicate_fits (bt_get available) p"
proof (induction p arbitrary: path)
  case (PCompare l op r)
  show ?case
    by (simp add: verify_predicate.simps case_prod_beta' validate_value_type no_errors_value
        no_errors_if)
next
  case (PAll ps)
  then show ?case using no_errors_predicates [of ps env available node path]
    by (simp add: verify_predicate.simps)
next
  case (PAny ps)
  then show ?case using no_errors_predicates [of ps env available node path]
    by (simp add: verify_predicate.simps)
qed (simp_all add: verify_predicate.simps no_errors_value)

end
