(* ===== verification/SafeActions_Verify.thy ===== *)
theory SafeActions_Verify
  imports SafeActions_Values
begin

section \<open>The verifier\<close>

text \<open>
  \<open>verify\<close> of \<open>crates/core/safe-actions/src/verifier.rs\<close> and the walk over the plan it is built
  on: the policy check of one call, the derivation of the resources a call touches, the read-only
  check of a parallel group, the outputs available at each node, and the report.

  The specification is the relation \<open>node_typed\<close>: a plan is well typed in an environment of
  available outputs when every call is catalogued and permitted, every argument fits the input
  schema, every condition fits, and parallel groups only read.  The theorems say that the walk finds
  no error exactly when the plan is well typed, that \<open>verify\<close> denies every other plan, and that it
  proves a plan exactly when, besides, no review rule matches one of its calls.
\<close>

subsection \<open>Resources of a call\<close>

text \<open>The loop over the tokens inside a literal, and \<open>select_plan_value\<close>.\<close>

fun select_json :: "json \<Rightarrow> string list \<Rightarrow> json option" where
  "select_json selected [] = Some selected"
| "select_json selected (token # tokens) =
     (case selected of
        JObject kvs \<Rightarrow>
          (case map_of kvs token of None \<Rightarrow> None | Some v \<Rightarrow> select_json v tokens)
      | JArray items \<Rightarrow>
          (case parse_usize token of
             None \<Rightarrow> None
           | Some i \<Rightarrow> if i < length items then select_json (items ! i) tokens else None)
      | _ \<Rightarrow> None)"

fun select_plan_value :: "plan_value \<Rightarrow> string list \<Rightarrow> string option" where
  "select_plan_value value [] =
     (case value of PLiteral (JString s) \<Rightarrow> Some s | _ \<Rightarrow> None)"
| "select_plan_value value (token # tokens) =
     (case value of
        PObject entries \<Rightarrow>
          (case map_of entries token of None \<Rightarrow> None | Some v \<Rightarrow> select_plan_value v tokens)
      | PArray items \<Rightarrow>
          (case parse_usize token of
             None \<Rightarrow> None
           | Some i \<Rightarrow> if i < length items then select_plan_value (items ! i) tokens else None)
      | PLiteral literal \<Rightarrow> Option.bind (select_json literal (token # tokens)) as_str
      | PStepOutput step_id pointer value_type \<Rightarrow> None)"

definition derive_resource :: "plan_value \<Rightarrow> resource_binding \<Rightarrow> finding_code + string" where
  "derive_resource arguments b =
     (if rb_pointer b = [] \<or> 256 < length (rb_pointer b)
         \<or> isl (parse_json_pointer (rb_pointer b))
         \<or> rb_prefix b = [] \<or> 256 < length (rb_prefix b)
         \<or> \<not> is_ascii (rb_prefix b) \<or> \<not> list_all is_ascii_graphic (rb_prefix b)
         \<or> last (rb_prefix b) \<notin> {CHR '':'', CHR ''/''}
      then Inl InvalidResourceBinding
      else
        (case parse_json_pointer (rb_pointer b) of
           Inl e \<Rightarrow> Inl InvalidResourceBinding
         | Inr tokens \<Rightarrow>
             (case select_plan_value arguments tokens of
                None \<Rightarrow> Inl UnresolvedResourceBinding
              | Some selected \<Rightarrow>
                  if \<not> valid_resource_identifier (rb_prefix b @ selected) then Inl InvalidResource
                  else Inr (rb_prefix b @ selected))))"

subsection \<open>The state of the walk\<close>

record verify_context =
  ctx_findings :: "verification_finding list"
  ctx_counterexamples :: "counterexample list"
  ctx_resources :: "(string \<times> string list) list"

definition push_findings :: "verification_finding list \<Rightarrow> verify_context \<Rightarrow> verify_context" where
  "push_findings fs ctx = ctx\<lparr>ctx_findings := ctx_findings ctx @ fs\<rparr>"

definition push_counterexample ::
  "string \<Rightarrow> string \<Rightarrow> effect_kind option \<Rightarrow> string option \<Rightarrow> denial_reason \<Rightarrow> verify_context \<Rightarrow> verify_context"
where
  "push_counterexample node tool eff resource reason ctx =
     ctx\<lparr>ctx_counterexamples := ctx_counterexamples ctx
          @ [\<lparr>cx_node = node, cx_tool = tool, cx_effect = eff, cx_resource = resource,
              cx_reason = reason\<rparr>]\<rparr>"

subsection \<open>The policy check of one call\<close>

definition rule_matches :: "string list \<Rightarrow> string \<Rightarrow> bool" where
  "rule_matches patterns tool \<longleftrightarrow>
     list_ex (\<lambda>pattern. valid_tool_pattern pattern \<and> tool_matches pattern tool) patterns"

definition resource_granted :: "string list \<Rightarrow> string \<Rightarrow> bool" where
  "resource_granted patterns resource \<longleftrightarrow>
     list_ex (\<lambda>pattern. valid_resource_pattern pattern \<and> resource_matches pattern resource) patterns"

definition check_tool_rules ::
  "policy \<Rightarrow> string \<Rightarrow> string \<Rightarrow> string \<Rightarrow> verify_context \<Rightarrow> verify_context" where
  "check_tool_rules p i tool path ctx =
     (let ctx1 =
        (if rule_matches (deny_tools p) tool
         then push_counterexample i tool None None DenyPrecedence
                (push_findings (error_at ToolDenied (Some i) (path @ ''.tool'')) ctx)
         else if \<not> rule_matches (allow_tools p) tool
         then push_counterexample i tool None None DefaultDeny
                (push_findings (error_at ToolNotAllowed (Some i) (path @ ''.tool'')) ctx)
         else ctx)
      in if rule_matches (review_tools p) tool
         then push_findings [finding SevReview ReviewRequired (Some i) (path @ ''.tool'')] ctx1
         else ctx1)"

text \<open>The findings about the contract alone, in order.\<close>

definition check_contract_shape :: "effect_contract \<Rightarrow> string \<Rightarrow> string \<Rightarrow> verification_finding list" where
  "check_contract_shape c i path =
     (if \<not> is_verifiable (trust c)
      then error_at UntrustedEffectContract (Some i) (path @ ''.tool'') else [])
     @ (if effects c = [] then error_at MissingEffects (Some i) (path @ ''.tool'') else [])
     @ (if resources c = [] \<and> resource_bindings c = []
        then error_at MissingResources (Some i) (path @ ''.tool'') else [])
     @ (if arguments_independent c \<and> resource_bindings c \<noteq> []
        then error_at InvalidResourceBinding (Some i) (path @ ''.tool'') else [])
     @ (if \<not> arguments_independent c \<and> resource_bindings c = []
        then error_at MissingResourceBindings (Some i) (path @ ''.arguments'') else [])"

definition check_effect ::
  "policy \<Rightarrow> string \<Rightarrow> string \<Rightarrow> string \<Rightarrow> effect_kind \<Rightarrow> verify_context \<Rightarrow> verify_context" where
  "check_effect p i tool path eff ctx =
     (let ctx1 =
        (if eff \<notin> set (allowed_effects p)
         then push_counterexample i tool (Some eff) None EffectOutsideAllowSet
                (push_findings (error_at EffectNotAllowed (Some i) (path @ ''.tool'')) ctx)
         else ctx)
      in if eff \<in> set (review_effects p)
         then push_findings [finding SevReview ReviewRequired (Some i) (path @ ''.tool'')] ctx1
         else ctx1)"

definition bind_resource ::
  "plan_value \<Rightarrow> string \<Rightarrow> string \<Rightarrow> resource_binding \<Rightarrow> string list \<times> verify_context
     \<Rightarrow> string list \<times> verify_context" where
  "bind_resource arguments i path b acc =
     (case derive_resource arguments b of
        Inr resource \<Rightarrow> (insort_insert resource (fst acc), snd acc)
      | Inl c \<Rightarrow> (fst acc, push_findings (error_at c (Some i) (path @ ''.arguments'')) (snd acc)))"

definition check_resource ::
  "policy \<Rightarrow> string \<Rightarrow> string \<Rightarrow> string \<Rightarrow> string \<Rightarrow> verify_context \<Rightarrow> verify_context" where
  "check_resource p i tool path resource ctx =
     (if \<not> valid_resource_identifier resource
      then push_findings (error_at InvalidResource (Some i) (path @ ''.tool'')) ctx
      else if \<not> resource_granted (allowed_resources p) resource
      then push_counterexample i tool None (Some resource) ResourceOutsideAllowSet
             (push_findings (error_at ResourceNotAllowed (Some i) (path @ ''.tool'')) ctx)
      else ctx)"

definition check_tool_policy ::
  "policy \<Rightarrow> string \<Rightarrow> string \<Rightarrow> plan_value \<Rightarrow> effect_contract option \<Rightarrow> string \<Rightarrow> verify_context
     \<Rightarrow> verify_context" where
  "check_tool_policy p i tool arguments oc path ctx =
     (let ctx1 = check_tool_rules p i tool path ctx
      in case oc of
           None \<Rightarrow> push_findings (error_at MissingEffectContract (Some i) (path @ ''.tool'')) ctx1
         | Some c \<Rightarrow>
             (let ctx2 = push_findings (check_contract_shape c i path) ctx1;
                  ctx3 = fold (check_effect p i tool path) (effects c) ctx2;
                  (invocation, ctx4) =
                    fold (bind_resource arguments i path) (resource_bindings c) (resources c, ctx3);
                  ctx5 = ctx4\<lparr>ctx_resources := bt_insert i invocation (ctx_resources ctx4)\<rparr>
              in fold (check_resource p i tool path) invocation ctx5))"

subsection \<open>Parallel groups\<close>

fun collect_calls :: "plan_node \<Rightarrow> (string \<times> string) list" where
  "collect_calls (Call i tool args) = [(i, tool)]"
| "collect_calls (Sequence i nodes) = concat (map collect_calls nodes)"
| "collect_calls (Parallel i nodes) = concat (map collect_calls nodes)"
| "collect_calls (IfNode i p th el) = collect_calls th @ collect_calls el"

definition contract_of :: "(string \<times> tool_descriptor) list \<Rightarrow> string \<Rightarrow> effect_contract option" where
  "contract_of cat tool = Option.bind (bt_get cat tool) contract"

definition call_read_only :: "(string \<times> tool_descriptor) list \<Rightarrow> string \<Rightarrow> bool" where
  "call_read_only cat tool \<longleftrightarrow>
     (case contract_of cat tool of
        None \<Rightarrow> False
      | Some c \<Rightarrow> is_verifiable (trust c) \<and> effects c \<noteq> [] \<and> list_all is_read_only (effects c))"

definition check_parallel_read_only ::
  "verify_env \<Rightarrow> string \<Rightarrow> plan_node list \<Rightarrow> string \<Rightarrow> verify_context \<Rightarrow> verify_context" where
  "check_parallel_read_only env i nodes path ctx =
     fold (\<lambda>(call_id, tool) ctx.
         if \<not> call_read_only (env_catalog env) tool
         then push_counterexample call_id tool
                (Option.bind (contract_of (env_catalog env) tool)
                   (\<lambda>c. List.find (\<lambda>e. \<not> is_read_only e) (effects c)))
                None ParallelOnlyReads
                (push_findings (error_at ParallelMutation (Some i) path) ctx)
         else ctx)
       (concat (map collect_calls nodes)) ctx"

subsection \<open>The walk\<close>

definition verify_call ::
  "verify_env \<Rightarrow> string \<Rightarrow> string \<Rightarrow> plan_value \<Rightarrow> available_outputs \<Rightarrow> string \<Rightarrow> verify_context
     \<Rightarrow> available_outputs \<times> verify_context" where
  "verify_call env i tool arguments available path ctx =
     (case bt_get (env_catalog env) tool of
        None \<Rightarrow>
          (available,
           push_findings (fst (validate_plan_value env arguments None available
                            (path @ ''.arguments'') (Some i)))
             (push_findings (error_at UnknownTool (Some i) (path @ ''.tool'')) ctx))
      | Some d \<Rightarrow>
          (bt_insert i (output_schema d) available,
           push_findings (fst (validate_plan_value env arguments (Some (input_schema d)) available
                            (path @ ''.arguments'') (Some i)))
             (check_tool_policy (env_policy env) i tool arguments (contract d) path ctx)))"

text \<open>The outputs of one parallel child, added to those of the group.\<close>

definition merge_outputs :: "available_outputs \<Rightarrow> available_outputs \<Rightarrow> available_outputs \<Rightarrow> available_outputs" where
  "merge_outputs available sibling outputs =
     fold (\<lambda>(step, schema) outs. if bt_get available step = None then bt_insert step schema outs else outs)
       sibling outputs"

fun verify_node ::
    "verify_env \<Rightarrow> plan_node \<Rightarrow> available_outputs \<Rightarrow> string \<Rightarrow> verify_context
       \<Rightarrow> available_outputs \<times> verify_context"
  and verify_sequence ::
    "verify_env \<Rightarrow> nat \<Rightarrow> plan_node list \<Rightarrow> available_outputs \<Rightarrow> string \<Rightarrow> verify_context
       \<Rightarrow> available_outputs \<times> verify_context"
  and verify_parallel ::
    "verify_env \<Rightarrow> nat \<Rightarrow> plan_node list \<Rightarrow> available_outputs \<Rightarrow> available_outputs \<Rightarrow> string
       \<Rightarrow> verify_context \<Rightarrow> available_outputs \<times> verify_context"
where
  "verify_node env (Call i tool args) available path ctx =
     verify_call env i tool args available path ctx"
| "verify_node env (Sequence i nodes) available path ctx =
     verify_sequence env 0 nodes available path ctx"
| "verify_node env (Parallel i nodes) available path ctx =
     verify_parallel env 0 nodes available available path
       (check_parallel_read_only env i nodes path
         (if \<not> allow_parallel_reads (env_policy env)
          then push_findings (error_at ParallelDisabled (Some i) path) ctx else ctx))"
| "verify_node env (IfNode i p th el) available path ctx =
     (available,
      snd (verify_node env el available (path @ ''.else_node'')
        (snd (verify_node env th available (path @ ''.then_node'')
          (push_findings (verify_predicate env p available (path @ ''.predicate'') (Some i)) ctx)))))"
| "verify_sequence env index [] outputs path ctx = (outputs, ctx)"
| "verify_sequence env index (child # rest) outputs path ctx =
     (case verify_node env child outputs (child_path path index) ctx of
        (outputs1, ctx1) \<Rightarrow> verify_sequence env (Suc index) rest outputs1 path ctx1)"
| "verify_parallel env index [] available outputs path ctx = (outputs, ctx)"
| "verify_parallel env index (child # rest) available outputs path ctx =
     (case verify_node env child available (child_path path index) ctx of
        (sibling, ctx1) \<Rightarrow>
          verify_parallel env (Suc index) rest available (merge_outputs available sibling outputs) path ctx1)"

subsection \<open>The report\<close>

definition VERIFIER_VERSION :: string where
  "VERIFIER_VERSION = ''ryu-safe-actions/1''"

text \<open>
  What \<open>serde\<close> serializes the typed values of the subsystem to, next to the functions of
  \<open>canonicalizer\<close>: a parameter of the model.
\<close>

record serializer = canonicalizer +
  ser_plan :: "tool_plan \<Rightarrow> json option"
  ser_policy :: "policy \<Rightarrow> json option"
  ser_descriptor :: "tool_descriptor \<Rightarrow> json option"
  ser_catalog :: "tool_descriptor list \<Rightarrow> json option"
  ser_value :: "plan_value \<Rightarrow> json option"

abbreviation codec :: "serializer \<Rightarrow> canonicalizer" where
  "codec s \<equiv> canonicalizer.truncate s"

definition hash_or_empty :: "serializer \<Rightarrow> json option \<Rightarrow> string \<times> verification_finding list" where
  "hash_or_empty s v =
     (case sha256_canonical (codec s) v of
        Some h \<Rightarrow> (h, [])
      | None \<Rightarrow> ([], error_at InternalCanonicalization None ''$''))"

fun collect_argument_hashes ::
    "serializer \<Rightarrow> plan_node \<Rightarrow> (string \<times> string) list
       \<Rightarrow> (string \<times> string) list \<times> verification_finding list"
  and collect_children_hashes ::
    "serializer \<Rightarrow> plan_node list \<Rightarrow> (string \<times> string) list
       \<Rightarrow> (string \<times> string) list \<times> verification_finding list"
where
  "collect_argument_hashes s (Call i tool args) hashes =
     (bt_insert i (fst (hash_or_empty s (ser_value s args))) hashes,
      snd (hash_or_empty s (ser_value s args)))"
| "collect_argument_hashes s (Sequence i nodes) hashes = collect_children_hashes s nodes hashes"
| "collect_argument_hashes s (Parallel i nodes) hashes = collect_children_hashes s nodes hashes"
| "collect_argument_hashes s (IfNode i p th el) hashes =
     and_then (collect_argument_hashes s th hashes) (collect_argument_hashes s el)"
| "collect_children_hashes s [] hashes = (hashes, [])"
| "collect_children_hashes s (child # rest) hashes =
     and_then (collect_argument_hashes s child hashes) (collect_children_hashes s rest)"

text \<open>The catalog sorted by name and, for equal names, by canonical bytes (\<open>[]\<close> on an error).\<close>

definition descriptor_key :: "serializer \<Rightarrow> tool_descriptor \<Rightarrow> string \<times> byte list" where
  "descriptor_key s d =
     (td_name d,
      (case canonical_json (codec s) (ser_descriptor s d) of None \<Rightarrow> [] | Some bytes \<Rightarrow> bytes))"

definition sort_catalog :: "serializer \<Rightarrow> tool_descriptor list \<Rightarrow> tool_descriptor list" where
  "sort_catalog s ds = sort_key (descriptor_key s) ds"

definition decide :: "verification_finding list \<Rightarrow> verification_decision" where
  "decide fs =
     (if list_ex (\<lambda>f. severity f = SevError) fs then Denied
      else if list_ex (\<lambda>f. severity f = SevReview) fs then NeedsReview
      else Proved)"

text \<open>The checks of \<open>verify\<close> that precede the catalog and the walk, in order.\<close>

definition preliminary_findings :: "serializer \<Rightarrow> verifier_input \<Rightarrow> verification_finding list" where
  "preliminary_findings s inp =
     (let canonical = canonical_json (codec s) (ser_plan s (plan inp));
          bytes = (case canonical of None \<Rightarrow> 0 | Some b \<Rightarrow> length b);
          (byte_limit, node_limit, depth_limit) = effective_limits (policy_of inp);
          (st, structure_findings) =
            collect_structure (root (plan inp)) 1 ''$.root'' empty_structure
      in (if canonical = None then error_at InternalCanonicalization None ''$'' else [])
         @ snd (hash_or_empty s (ser_plan s (plan inp)))
         @ snd (hash_or_empty s (ser_policy s (policy_of inp)))
         @ snd (hash_or_empty s (ser_catalog s (sort_catalog s (catalog inp))))
         @ (if schema_version (plan inp) \<noteq> TOOL_PLAN_SCHEMA_VERSION
            then error_at UnsupportedSchemaVersion None ''$.schema_version'' else [])
         @ (if MAX_CATALOG_TOOLS < length (catalog inp)
            then error_at CatalogTooLarge None ''$.catalog'' else [])
         @ check_policy (policy_of inp)
         @ (if byte_limit < bytes then error_at PlanTooLarge None ''$'' else [])
         @ structure_findings
         @ snd (collect_argument_hashes s (root (plan inp)) [])
         @ (if call_count st = 0 then error_at EmptyPlan None ''$.root'' else [])
         @ (if node_limit < node_count st then error_at TooManyNodes None ''$.root'' else [])
         @ (if depth_limit < max_depth_seen st then error_at PlanTooDeep None ''$.root'' else []))"

definition verify :: "serializer \<Rightarrow> verifier_input \<Rightarrow> verification_report" where
  "verify s inp =
     (let canonical = canonical_json (codec s) (ser_plan s (plan inp));
          sorted_catalog = sort_catalog s (catalog inp);
          st = fst (collect_structure (root (plan inp)) 1 ''$.root'' empty_structure);
          (cat, catalog_findings) = build_catalog sorted_catalog;
          env = \<lparr>env_policy = policy_of inp, env_catalog = cat, all_call_ids = call_ids st\<rparr>;
          ctx = \<lparr>ctx_findings = preliminary_findings s inp @ catalog_findings,
                 ctx_counterexamples = [], ctx_resources = []\<rparr>;
          ctx1 = (if node_count st \<le> HARD_MAX_NODES \<and> max_depth_seen st \<le> HARD_MAX_DEPTH
                  then snd (verify_node env (root (plan inp)) [] ''$.root'' ctx) else ctx)
      in \<lparr>decision = decide (ctx_findings ctx1),
          bindings =
            \<lparr>plan_hash = fst (hash_or_empty s (ser_plan s (plan inp))),
             policy_hash = fst (hash_or_empty s (ser_policy s (policy_of inp))),
             catalog_hash = fst (hash_or_empty s (ser_catalog s sorted_catalog)),
             vb_agent_revision = agent_revision inp,
             verifier_version = VERIFIER_VERSION\<rparr>,
          findings = ctx_findings ctx1,
          counterexamples = ctx_counterexamples ctx1,
          argument_hashes = fst (collect_argument_hashes s (root (plan inp)) []),
          invocation_resources = ctx_resources ctx1,
          report_node_count = node_count st,
          report_max_depth = max_depth_seen st,
          canonical_plan_bytes = (case canonical of None \<Rightarrow> 0 | Some b \<Rightarrow> length b)\<rparr>)"

subsection \<open>Permitted calls\<close>

definition attested :: "effect_contract \<Rightarrow> bool" where
  "attested c \<longleftrightarrow>
     is_verifiable (trust c) \<and> effects c \<noteq> []
     \<and> \<not> (resources c = [] \<and> resource_bindings c = [])
     \<and> (arguments_independent c \<longleftrightarrow> resource_bindings c = [])"

text \<open>The resources of a call: the declared ones and the ones derived from its arguments.\<close>

definition derived_resource :: "plan_value \<Rightarrow> resource_binding \<Rightarrow> string option" where
  "derived_resource arguments b =
     (case derive_resource arguments b of Inl c \<Rightarrow> None | Inr r \<Rightarrow> Some r)"

definition call_resources :: "plan_value \<Rightarrow> effect_contract \<Rightarrow> string list" where
  "call_resources arguments c =
     resources c @ List.map_filter (derived_resource arguments) (resource_bindings c)"

definition contract_permitted :: "policy \<Rightarrow> plan_value \<Rightarrow> effect_contract \<Rightarrow> bool" where
  "contract_permitted p arguments c \<longleftrightarrow>
     attested c
     \<and> (\<forall>e \<in> set (effects c). e \<in> set (allowed_effects p))
     \<and> (\<forall>b \<in> set (resource_bindings c). derived_resource arguments b \<noteq> None)
     \<and> (\<forall>r \<in> set (call_resources arguments c).
          valid_resource_identifier r \<and> resource_granted (allowed_resources p) r)"

definition call_permitted :: "policy \<Rightarrow> string \<Rightarrow> plan_value \<Rightarrow> effect_contract option \<Rightarrow> bool" where
  "call_permitted p tool arguments oc \<longleftrightarrow>
     \<not> rule_matches (deny_tools p) tool \<and> rule_matches (allow_tools p) tool
     \<and> (case oc of None \<Rightarrow> False | Some c \<Rightarrow> contract_permitted p arguments c)"

definition call_reviewed :: "policy \<Rightarrow> string \<Rightarrow> effect_contract option \<Rightarrow> bool" where
  "call_reviewed p tool oc \<longleftrightarrow>
     rule_matches (review_tools p) tool
     \<or> (case oc of None \<Rightarrow> False | Some c \<Rightarrow> \<exists>e \<in> set (effects c). e \<in> set (review_effects p))"

lemma push_frame [simp]:
  "ctx_findings (push_findings fs ctx) = ctx_findings ctx @ fs"
  "ctx_resources (push_findings fs ctx) = ctx_resources ctx"
  "ctx_counterexamples (push_findings fs ctx) = ctx_counterexamples ctx"
  "ctx_findings (push_counterexample i tool e r reason ctx) = ctx_findings ctx"
  "ctx_resources (push_counterexample i tool e r reason ctx) = ctx_resources ctx"
  by (simp_all add: push_findings_def push_counterexample_def)

abbreviation ctx_clean :: "verify_context \<Rightarrow> bool" where
  "ctx_clean ctx \<equiv> no_errors (ctx_findings ctx)"

abbreviation ctx_quiet :: "verify_context \<Rightarrow> bool" where
  "ctx_quiet ctx \<equiv> no_reviews (ctx_findings ctx)"

lemma fold_check:
  "(\<And>x c. Q (f x c) \<longleftrightarrow> Q c \<and> P x) \<Longrightarrow> Q (fold f xs c) \<longleftrightarrow> Q c \<and> (\<forall>x \<in> set xs. P x)"
  by (induction xs arbitrary: c) auto

lemma rules_clean:
  "ctx_clean (check_tool_rules p i tool path ctx) \<longleftrightarrow>
     ctx_clean ctx \<and> \<not> rule_matches (deny_tools p) tool \<and> rule_matches (allow_tools p) tool"
  "ctx_quiet (check_tool_rules p i tool path ctx) \<longleftrightarrow>
     ctx_quiet ctx \<and> \<not> rule_matches (review_tools p) tool"
  by (simp_all add: check_tool_rules_def Let_def)

lemma shape_clean:
  "no_errors (check_contract_shape c i path) \<longleftrightarrow> attested c"
  "no_reviews (check_contract_shape c i path)"
  by (auto simp: check_contract_shape_def attested_def)

lemma effect_clean:
  "ctx_clean (check_effect p i tool path e ctx) \<longleftrightarrow> ctx_clean ctx \<and> e \<in> set (allowed_effects p)"
  "ctx_quiet (check_effect p i tool path e ctx) \<longleftrightarrow> ctx_quiet ctx \<and> e \<notin> set (review_effects p)"
  by (simp_all add: check_effect_def Let_def)

lemma resource_clean:
  "ctx_clean (check_resource p i tool path r ctx) \<longleftrightarrow>
     ctx_clean ctx \<and> valid_resource_identifier r \<and> resource_granted (allowed_resources p) r"
  "ctx_quiet (check_resource p i tool path r ctx) \<longleftrightarrow> ctx_quiet ctx \<and> True"
  by (simp_all add: check_resource_def)

lemma bind_clean:
  "ctx_clean (snd (fold (bind_resource args i path) bs acc)) \<longleftrightarrow>
     ctx_clean (snd acc) \<and> (\<forall>b \<in> set bs. derived_resource args b \<noteq> None)"
  "ctx_quiet (snd (fold (bind_resource args i path) bs acc)) \<longleftrightarrow> ctx_quiet (snd acc)"
  "set (fst (fold (bind_resource args i path) bs acc)) =
     set (fst acc) \<union> set (List.map_filter (derived_resource args) bs)"
  by (induction bs arbitrary: acc)
    (auto simp: bind_resource_def derived_resource_def set_insort_insert split: sum.split)

lemma tool_policy_clean:
  "ctx_clean (check_tool_policy p i tool args oc path ctx) \<longleftrightarrow>
     ctx_clean ctx \<and> call_permitted p tool args oc"
proof (cases oc)
  case None
  then show ?thesis by (auto simp: check_tool_policy_def call_permitted_def rules_clean)
next
  case (Some c)
  let ?ctx3 = "fold (check_effect p i tool path) (effects c)
    (push_findings (check_contract_shape c i path) (check_tool_rules p i tool path ctx))"
  have effs: "ctx_clean ?ctx3 \<longleftrightarrow> ctx_clean ctx \<and> \<not> rule_matches (deny_tools p) tool
      \<and> rule_matches (allow_tools p) tool \<and> attested c
      \<and> (\<forall>e \<in> set (effects c). e \<in> set (allowed_effects p))"
    by (subst fold_check [where P = "\<lambda>e. e \<in> set (allowed_effects p)"])
      (auto simp: effect_clean rules_clean shape_clean)
  show ?thesis
    unfolding check_tool_policy_def Some Let_def option.case case_prod_beta' call_permitted_def
      contract_permitted_def call_resources_def
    by (subst fold_check [where P = "\<lambda>r. valid_resource_identifier r \<and>
          resource_granted (allowed_resources p) r"])
      (auto simp: resource_clean bind_clean effs)
qed

lemma tool_policy_quiet:
  "ctx_quiet (check_tool_policy p i tool args oc path ctx) \<longleftrightarrow>
     ctx_quiet ctx \<and> \<not> call_reviewed p tool oc"
proof (cases oc)
  case None
  then show ?thesis by (auto simp: check_tool_policy_def call_reviewed_def rules_clean)
next
  case (Some c)
  let ?ctx3 = "fold (check_effect p i tool path) (effects c)
    (push_findings (check_contract_shape c i path) (check_tool_rules p i tool path ctx))"
  have effs: "ctx_quiet ?ctx3 \<longleftrightarrow> ctx_quiet ctx \<and> \<not> rule_matches (review_tools p) tool
      \<and> (\<forall>e \<in> set (effects c). e \<notin> set (review_effects p))"
    by (subst fold_check [where P = "\<lambda>e. e \<notin> set (review_effects p)"])
      (auto simp: effect_clean rules_clean shape_clean)
  show ?thesis
    unfolding check_tool_policy_def Some Let_def option.case case_prod_beta' call_reviewed_def
    by (subst fold_check [where P = "\<lambda>r. True"])
      (auto simp: resource_clean bind_clean effs)
qed

lemma fold_frame: "(\<And>x c. g (f x c) = g c) \<Longrightarrow> g (fold f xs c) = g c"
  by (induction xs arbitrary: c) auto

definition invocation_list :: "plan_value \<Rightarrow> effect_contract \<Rightarrow> string list" where
  "invocation_list arguments c =
     fold insort_insert (List.map_filter (derived_resource arguments) (resource_bindings c))
       (resources c)"

lemma set_invocation_list: "set (invocation_list args c) = set (call_resources args c)"
  by (auto simp: invocation_list_def call_resources_def set_fold_insort)

lemma bind_fst:
  "fst (fold (bind_resource args i path) bs acc) =
     fold insort_insert (List.map_filter (derived_resource args) bs) (fst acc)"
  by (induction bs arbitrary: acc)
    (auto simp: bind_resource_def derived_resource_def split: sum.split)

lemma bind_resources_frame:
  "ctx_resources (snd (fold (bind_resource args i path) bs acc)) = ctx_resources (snd acc)"
  by (rule fold_frame [where g = "\<lambda>acc. ctx_resources (snd acc)"])
    (simp add: bind_resource_def split: sum.split)

lemma tool_policy_resources:
  "ctx_resources (check_tool_policy p i tool args oc path ctx) =
     (case oc of
        None \<Rightarrow> ctx_resources ctx
      | Some c \<Rightarrow> bt_insert i (invocation_list args c) (ctx_resources ctx))"
proof -
  have rules: "ctx_resources (check_tool_rules p i tool path ctx) = ctx_resources ctx"
    by (simp add: check_tool_rules_def Let_def)
  have effs: "ctx_resources (fold (check_effect p i tool path) es c) = ctx_resources c" for es c
    by (rule fold_frame) (simp add: check_effect_def Let_def)
  have res: "ctx_resources (fold (check_resource p i tool path) rs c) = ctx_resources c" for rs c
    by (rule fold_frame) (simp add: check_resource_def)
  show ?thesis
    by (cases oc)
      (simp_all add: check_tool_policy_def case_prod_beta' Let_def rules effs res bind_fst
        bind_resources_frame invocation_list_def)
qed

subsection \<open>Well-typed plans\<close>

text \<open>The outputs a sibling adds to those of its group.\<close>

definition new_outputs ::
  "(string \<Rightarrow> json option) \<Rightarrow> (string \<Rightarrow> json option) \<Rightarrow> (string \<Rightarrow> json option) \<Rightarrow> string \<Rightarrow> json option"
where
  "new_outputs \<Gamma> sibling outs i =
     (if \<Gamma> i = None \<and> sibling i \<noteq> None then sibling i else outs i)"

inductive node_typed ::
    "verify_env \<Rightarrow> (string \<Rightarrow> json option) \<Rightarrow> plan_node \<Rightarrow> (string \<Rightarrow> json option) \<Rightarrow> bool"
  and seq_typed ::
    "verify_env \<Rightarrow> (string \<Rightarrow> json option) \<Rightarrow> plan_node list \<Rightarrow> (string \<Rightarrow> json option) \<Rightarrow> bool"
  and par_typed ::
    "verify_env \<Rightarrow> (string \<Rightarrow> json option) \<Rightarrow> (string \<Rightarrow> json option) \<Rightarrow> plan_node list
       \<Rightarrow> (string \<Rightarrow> json option) \<Rightarrow> bool"
  for env :: verify_env
where
  typed_call:
    "bt_get (env_catalog env) tool = Some d \<Longrightarrow>
     call_permitted (env_policy env) tool args (contract d) \<Longrightarrow>
     value_fits \<Gamma> (Some (input_schema d)) args \<Longrightarrow>
     node_typed env \<Gamma> (Call i tool args) (\<Gamma>(i \<mapsto> output_schema d))"
| typed_sequence: "seq_typed env \<Gamma> nodes \<Gamma>' \<Longrightarrow> node_typed env \<Gamma> (Sequence i nodes) \<Gamma>'"
| typed_parallel:
    "allow_parallel_reads (env_policy env) \<Longrightarrow>
     \<forall>c \<in> set (concat (map collect_calls nodes)). call_read_only (env_catalog env) (snd c) \<Longrightarrow>
     par_typed env \<Gamma> \<Gamma> nodes \<Gamma>' \<Longrightarrow> node_typed env \<Gamma> (Parallel i nodes) \<Gamma>'"
| typed_if:
    "predicate_fits \<Gamma> p \<Longrightarrow> node_typed env \<Gamma> th \<Gamma>1 \<Longrightarrow> node_typed env \<Gamma> el \<Gamma>2 \<Longrightarrow>
     node_typed env \<Gamma> (IfNode i p th el) \<Gamma>"
| typed_seq_nil: "seq_typed env \<Gamma> [] \<Gamma>"
| typed_seq_cons:
    "node_typed env \<Gamma> n \<Gamma>1 \<Longrightarrow> seq_typed env \<Gamma>1 ns \<Gamma>2 \<Longrightarrow> seq_typed env \<Gamma> (n # ns) \<Gamma>2"
| typed_par_nil: "par_typed env \<Gamma> \<Delta> [] \<Delta>"
| typed_par_cons:
    "node_typed env \<Gamma> n \<Gamma>1 \<Longrightarrow> par_typed env \<Gamma> (new_outputs \<Gamma> \<Gamma>1 \<Delta>) ns \<Delta>' \<Longrightarrow>
     par_typed env \<Gamma> \<Delta> (n # ns) \<Delta>'"

inductive_cases typed_callE: "node_typed env \<Gamma> (Call i tool args) \<Gamma>'"
inductive_cases typed_sequenceE: "node_typed env \<Gamma> (Sequence i nodes) \<Gamma>'"
inductive_cases typed_parallelE: "node_typed env \<Gamma> (Parallel i nodes) \<Gamma>'"
inductive_cases typed_ifE: "node_typed env \<Gamma> (IfNode i p th el) \<Gamma>'"
inductive_cases seq_consE: "seq_typed env \<Gamma> (n # ns) \<Gamma>'"
inductive_cases par_consE: "par_typed env \<Gamma> \<Delta> (n # ns) \<Delta>'"

lemma parallel_clean:
  "ctx_clean (check_parallel_read_only env i nodes path ctx) \<longleftrightarrow>
     ctx_clean ctx \<and> (\<forall>c \<in> set (concat (map collect_calls nodes)).
       call_read_only (env_catalog env) (snd c))"
  "ctx_quiet (check_parallel_read_only env i nodes path ctx) \<longleftrightarrow> ctx_quiet ctx"
  unfolding check_parallel_read_only_def
  by (subst fold_check [where P = "\<lambda>c. call_read_only (env_catalog env) (snd c)"];
      auto split: prod.splits)
    (subst fold_check [where P = "\<lambda>x. True"]; auto split: prod.splits)

lemma bt_get_fold_absent:
  "bt_get (fold (\<lambda>(k, v) m. if P k then bt_insert k v m else m) kvs m) j =
     (if P j then (case bt_get (rev kvs) j of Some v \<Rightarrow> Some v | None \<Rightarrow> bt_get m j) else bt_get m j)"
proof (induction kvs arbitrary: m)
  case (Cons kv kvs)
  have "bt_get (rev ((a, b) # kvs)) j =
      (case bt_get (rev kvs) j of Some v \<Rightarrow> Some v | None \<Rightarrow> if j = a then Some b else None)" for a b
    by (simp add: bt_get_def map_add_def split: option.split)
  with Cons show ?case by (cases kv) (auto simp: bt_get_insert split: option.split)
qed (simp add: bt_get_def)

text \<open>In a map kept sorted by key every key occurs once, so reading it backwards changes nothing.\<close>

lemma bt_get_rev:
  assumes "bt_wf m"
  shows "bt_get (rev m) k = bt_get m k"
proof -
  have "distinct (map fst m)" using bt_wf_distinct [OF assms] by (simp add: bt_keys_def)
  then have "map_of (rev m) = map_of m"
    by (subst map_of_inject_set) (simp_all add: rev_map [symmetric])
  then show ?thesis by (simp add: bt_get_def)
qed

lemma merge_outputs_get:
  "bt_wf sibling \<Longrightarrow>
     bt_get (merge_outputs available sibling outputs) =
       new_outputs (bt_get available) (bt_get sibling) (bt_get outputs)"
  by (rule ext) (auto simp: merge_outputs_def bt_get_fold_absent [where P = "\<lambda>k. bt_get available k = None"]
      bt_get_rev new_outputs_def split: option.splits)

lemma merge_outputs_wf: "bt_wf outputs \<Longrightarrow> bt_wf (merge_outputs available sibling outputs)"
  unfolding merge_outputs_def
  by (induction sibling arbitrary: outputs) (auto simp: bt_wf_insert)

lemma verify_wf:
  "bt_wf available \<Longrightarrow> bt_wf (fst (verify_node env n available path ctx))"
  "bt_wf outputs \<Longrightarrow> bt_wf (fst (verify_sequence env k ns outputs path ctx))"
  "bt_wf available \<Longrightarrow> bt_wf outputs \<Longrightarrow> bt_wf (fst (verify_parallel env k ns available outputs path ctx))"
  by (induction env n available path ctx and env k ns outputs path ctx
      and env k ns available outputs path ctx rule: verify_node_verify_sequence_verify_parallel.induct)
    (auto simp: verify_call_def bt_wf_insert merge_outputs_wf split: option.split prod.splits)

text \<open>The verifier checks values against supported schemas only: the catalog was checked before.\<close>

definition supported_catalog :: "(string \<times> tool_descriptor) list \<Rightarrow> bool" where
  "supported_catalog cat \<longleftrightarrow>
     (\<forall>tool d. bt_get cat tool = Some d \<longrightarrow> supported (input_schema d) \<and> supported (output_schema d))"

lemma call_clean:
  assumes "supported_catalog (env_catalog env)"
  shows "ctx_clean (snd (verify_call env i tool args available path ctx)) \<longleftrightarrow>
    ctx_clean ctx \<and> (\<exists>d. bt_get (env_catalog env) tool = Some d
      \<and> call_permitted (env_policy env) tool args (contract d)
      \<and> value_fits (bt_get available) (Some (input_schema d)) args)"
proof (cases "bt_get (env_catalog env) tool")
  case (Some d)
  then have "supported (input_schema d)" using assms by (auto simp: supported_catalog_def)
  then have "schema_ok (Some (input_schema d))" by simp
  from Some no_errors_value [OF this] show ?thesis
    by (simp add: verify_call_def tool_policy_clean)
qed (simp add: verify_call_def)

lemma call_outputs:
  "bt_get (fst (verify_call env i tool args available path ctx)) =
     (case bt_get (env_catalog env) tool of
        None \<Rightarrow> bt_get available
      | Some d \<Rightarrow> (bt_get available)(i \<mapsto> output_schema d))"
  by (rule ext) (auto simp: verify_call_def bt_get_insert split: option.split)

text \<open>A walk that finds no error types the plan, and started from a clean state.\<close>

lemma walk_sound:
  "supported_catalog (env_catalog env) \<Longrightarrow> bt_wf available \<Longrightarrow>
   ctx_clean (snd (verify_node env n available path ctx)) \<Longrightarrow>
     ctx_clean ctx
     \<and> node_typed env (bt_get available) n (bt_get (fst (verify_node env n available path ctx)))"
  "supported_catalog (env_catalog env) \<Longrightarrow> bt_wf outputs \<Longrightarrow>
   ctx_clean (snd (verify_sequence env k ns outputs path ctx)) \<Longrightarrow>
     ctx_clean ctx
     \<and> seq_typed env (bt_get outputs) ns (bt_get (fst (verify_sequence env k ns outputs path ctx)))"
  "supported_catalog (env_catalog env) \<Longrightarrow> bt_wf available \<Longrightarrow> bt_wf outputs \<Longrightarrow>
   ctx_clean (snd (verify_parallel env k ns available outputs path ctx)) \<Longrightarrow>
     ctx_clean ctx
     \<and> par_typed env (bt_get available) (bt_get outputs) ns
         (bt_get (fst (verify_parallel env k ns available outputs path ctx)))"
proof (induction env n available path ctx and env k ns outputs path ctx
    and env k ns available outputs path ctx rule: verify_node_verify_sequence_verify_parallel.induct)
  case (1 env i tool args available path ctx)
  then show ?case using call_clean [of env i tool args available path ctx]
    by (auto simp: call_outputs intro: typed_call)
next
  case (2 env i nodes available path ctx)
  then show ?case by (auto intro: typed_sequence)
next
  case (3 env i nodes available path ctx)
  then show ?case by (fastforce simp: parallel_clean intro!: typed_parallel split: if_splits)
next
  case (4 env i p th el available path ctx)
  then show ?case by (auto simp: clean_simps intro: typed_if)
next
  case (5 env index outputs path ctx)
  then show ?case by (auto intro: typed_seq_nil)
next
  case (6 env index child rest outputs path ctx)
  then show ?case using verify_wf(1) [of outputs env child "child_path path index" ctx]
    by (auto intro: typed_seq_cons split: prod.splits)
next
  case (7 env index available outputs path ctx)
  then show ?case by (auto intro: typed_par_nil)
next
  case (8 env index child rest available outputs path ctx)
  then show ?case using verify_wf(1) [of available env child "child_path path index" ctx]
    by (auto simp: merge_outputs_get merge_outputs_wf intro: typed_par_cons split: prod.splits)
qed

text \<open>A well-typed plan is walked without an error.\<close>

lemma walk_complete:
  "node_typed env \<Gamma> n \<Gamma>' \<Longrightarrow> supported_catalog (env_catalog env) \<Longrightarrow> bt_wf available \<Longrightarrow>
     \<Gamma> = bt_get available \<Longrightarrow> ctx_clean ctx \<Longrightarrow>
     ctx_clean (snd (verify_node env n available path ctx))
     \<and> \<Gamma>' = bt_get (fst (verify_node env n available path ctx))"
  "seq_typed env \<Gamma> ns \<Gamma>' \<Longrightarrow> supported_catalog (env_catalog env) \<Longrightarrow> bt_wf available \<Longrightarrow>
     \<Gamma> = bt_get available \<Longrightarrow> ctx_clean ctx \<Longrightarrow>
     ctx_clean (snd (verify_sequence env k ns available path ctx))
     \<and> \<Gamma>' = bt_get (fst (verify_sequence env k ns available path ctx))"
  "par_typed env \<Gamma> \<Delta> ns \<Gamma>' \<Longrightarrow> supported_catalog (env_catalog env) \<Longrightarrow> bt_wf available \<Longrightarrow>
     bt_wf outputs \<Longrightarrow> \<Gamma> = bt_get available \<Longrightarrow> \<Delta> = bt_get outputs \<Longrightarrow> ctx_clean ctx \<Longrightarrow>
     ctx_clean (snd (verify_parallel env k ns available outputs path ctx))
     \<and> \<Gamma>' = bt_get (fst (verify_parallel env k ns available outputs path ctx))"
proof (induction arbitrary: available path ctx and k available path ctx
    and k available outputs path ctx rule: node_typed_seq_typed_par_typed.inducts)
  case (typed_call tool d args \<Gamma> i)
  then show ?case by (auto simp: call_clean call_outputs)
next
  case (typed_sequence \<Gamma> nodes \<Gamma>' i)
  then show ?case by simp
next
  case (typed_parallel nodes \<Gamma> \<Gamma>' i)
  then show ?case by (simp add: parallel_clean)
next
  case (typed_if \<Gamma> p th \<Gamma>1 el \<Gamma>2 i)
  then show ?case by (simp add: clean_simps)
next
  case (typed_seq_nil \<Gamma>)
  then show ?case by simp
next
  case (typed_seq_cons \<Gamma> n \<Gamma>1 ns \<Gamma>2)
  then show ?case using verify_wf(1) [of available env n "child_path path k" ctx]
    by (simp add: case_prod_beta')
next
  case (typed_par_nil \<Gamma> \<Delta>)
  then show ?case by simp
next
  case (typed_par_cons \<Gamma> n \<Gamma>1 \<Delta> ns \<Delta>')
  then show ?case using verify_wf(1) [of available env n "child_path path k" ctx]
    by (simp add: case_prod_beta' merge_outputs_get merge_outputs_wf)
qed

subsection \<open>Reviews\<close>

text \<open>Only the policy check of a call asks for a review.\<close>

lemma no_reviews_concat: "no_reviews (concat (map f xs)) \<longleftrightarrow> (\<forall>x \<in> set xs. no_reviews (f x))"
  by (induction xs) auto

lemma no_reviews_if:
  "no_reviews (if b then error_at c node path else [])"
  "no_reviews (if b then [] else error_at c node path)"
  by auto

lemma no_reviews_types:
  "no_reviews (check_expected_type t os path node)"
  "no_reviews (check_required_fields keys os path node)"
  "no_reviews (validate_step_output env i ptr t os available path node)"
  by (auto simp: check_expected_type_def check_required_fields_def validate_step_output_def
      no_reviews_concat split: option.split sum.split pointer_error.split)

lemma no_reviews_literal: "no_reviews (validate_literal v os path node)"
proof (induction v os path node rule: validate_literal.induct)
  case (1 v os path node)
  then show ?case
    by (subst validate_literal.simps)
      (auto simp: no_reviews_types no_reviews_concat split: json.split)
qed

lemma no_reviews_value: "no_reviews (fst (validate_plan_value env v os available path node))"
  by (induction env v os available path node rule: validate_plan_value.induct)
    (auto simp: validate_plan_value.simps no_reviews_literal no_reviews_types no_reviews_concat)

lemma no_reviews_predicate: "no_reviews (verify_predicate env p available path node)"
  by (induction env p available path node rule: verify_predicate.induct)
    (auto simp: verify_predicate.simps no_reviews_value no_reviews_concat
      case_prod_beta' Let_def split: option.split)

lemma no_reviews_schema: "no_reviews (validate_supported_schema schema path)"
  using supported_findings_errors by (fastforce simp: no_reviews_def list_all_iff)

lemma no_reviews_catalog: "no_reviews (snd (build_catalog_from ds acc))"
  by (induction ds acc rule: build_catalog_from.induct) (auto simp: no_reviews_schema)

lemma no_reviews_structure:
  "no_reviews (snd (collect_structure n d p st))" "no_reviews (snd (collect_children ns k d p st))"
  by (induction n d p st and ns k d p st rule: collect_structure_collect_children.induct)
    (auto simp: enter_node_def Let_def)

lemma no_reviews_hashes:
  "no_reviews (snd (collect_argument_hashes s n hashes))"
  "no_reviews (snd (collect_children_hashes s ns hashes))"
  by (induction s n hashes and s ns hashes
      rule: collect_argument_hashes_collect_children_hashes.induct)
    (auto simp: hash_or_empty_def split: option.split)

lemma no_reviews_policy: "no_reviews (check_policy p)"
  by (auto simp: check_policy_def no_reviews_concat)

lemma no_reviews_preliminary: "no_reviews (preliminary_findings s inp)"
  by (auto simp: preliminary_findings_def Let_def no_reviews_policy no_reviews_structure
      no_reviews_hashes hash_or_empty_def case_prod_beta' split: option.split)

definition calls_unreviewed :: "verify_env \<Rightarrow> (string \<times> string \<times> plan_value) list \<Rightarrow> bool" where
  "calls_unreviewed env calls \<longleftrightarrow>
     (\<forall>(i, tool, args) \<in> set calls. \<forall>d. bt_get (env_catalog env) tool = Some d \<longrightarrow>
        \<not> call_reviewed (env_policy env) tool (contract d))"

lemma calls_unreviewed_simps [simp]:
  "calls_unreviewed env []"
  "calls_unreviewed env (xs @ ys) \<longleftrightarrow> calls_unreviewed env xs \<and> calls_unreviewed env ys"
  by (auto simp: calls_unreviewed_def ball_Un)

lemma call_quiet:
  "ctx_quiet (snd (verify_call env i tool args available path ctx)) \<longleftrightarrow>
     ctx_quiet ctx \<and> calls_unreviewed env [(i, tool, args)]"
  by (auto simp: verify_call_def calls_unreviewed_def no_reviews_value tool_policy_quiet
      split: option.split)

lemma walk_quiet:
  "ctx_quiet (snd (verify_node env n available path ctx)) \<longleftrightarrow>
     ctx_quiet ctx \<and> calls_unreviewed env (plan_calls n)"
  "ctx_quiet (snd (verify_sequence env k ns outputs path ctx)) \<longleftrightarrow>
     ctx_quiet ctx \<and> calls_unreviewed env (concat (map plan_calls ns))"
  "ctx_quiet (snd (verify_parallel env k ns available outputs path ctx)) \<longleftrightarrow>
     ctx_quiet ctx \<and> calls_unreviewed env (concat (map plan_calls ns))"
  by (induction env n available path ctx and env k ns outputs path ctx
      and env k ns available outputs path ctx rule: verify_node_verify_sequence_verify_parallel.induct)
    (auto simp: call_quiet no_reviews_predicate parallel_clean split: prod.splits)

end
