(* ===== verification/SafeActions_Verdict.thy ===== *)
theory SafeActions_Verdict
  imports SafeActions_Verify
begin

section \<open>What a verdict means\<close>

text \<open>
  The decision of \<open>verify\<close>, characterised: a plan is not denied exactly when it is \<open>acceptable\<close>
  (hashable, within its limits, well shaped, over a valid policy and catalog, and well typed), and it
  is proved exactly when, besides, no review rule matches one of its calls.  The lemmas after that
  draw from the typing what holds of every call of an accepted plan.
\<close>

subsection \<open>The verdict\<close>

definition verify_env_of :: "serializer \<Rightarrow> verifier_input \<Rightarrow> verify_env" where
  "verify_env_of s inp =
     \<lparr>env_policy = policy_of inp,
      env_catalog = fst (build_catalog (sort_catalog s (catalog inp))),
      all_call_ids = call_ids (fst (collect_structure (root (plan inp)) 1 ''$.root'' empty_structure))\<rparr>"

text \<open>The canonical form and the hashes of the plan, the policy, the catalog and every argument exist.\<close>

definition hashable :: "serializer \<Rightarrow> json option \<Rightarrow> bool" where
  "hashable s v \<longleftrightarrow> canonical_json (codec s) v \<noteq> None"

definition input_hashable :: "serializer \<Rightarrow> verifier_input \<Rightarrow> bool" where
  "input_hashable s inp \<longleftrightarrow>
     hashable s (ser_plan s (plan inp)) \<and> hashable s (ser_policy s (policy_of inp))
     \<and> hashable s (ser_catalog s (sort_catalog s (catalog inp)))
     \<and> (\<forall>(i, tool, args) \<in> set (plan_calls (root (plan inp))). hashable s (ser_value s args))"

text \<open>The limits of a plan, on its own size and depth.\<close>

definition within_limits :: "serializer \<Rightarrow> verifier_input \<Rightarrow> bool" where
  "within_limits s inp \<longleftrightarrow>
     (case canonical_json (codec s) (ser_plan s (plan inp)) of None \<Rightarrow> False
      | Some bytes \<Rightarrow> length bytes \<le> max_plan_bytes (limits (policy_of inp)))
     \<and> plan_size (root (plan inp)) \<le> max_nodes (limits (policy_of inp))
     \<and> plan_depth (root (plan inp)) \<le> max_depth (limits (policy_of inp))"

text \<open>What the verifier accepts.\<close>

definition acceptable :: "serializer \<Rightarrow> verifier_input \<Rightarrow> bool" where
  "acceptable s inp \<longleftrightarrow>
     input_hashable s inp
     \<and> schema_version (plan inp) = TOOL_PLAN_SCHEMA_VERSION
     \<and> length (catalog inp) \<le> MAX_CATALOG_TOOLS
     \<and> valid_policy (policy_of inp)
     \<and> within_limits s inp
     \<and> valid_shape [root (plan inp)]
     \<and> plan_calls (root (plan inp)) \<noteq> []
     \<and> valid_catalog (catalog inp)
     \<and> (\<exists>\<Gamma>. node_typed (verify_env_of s inp) Map.empty (root (plan inp)) \<Gamma>)"

lemma sha256_canonical_None: "sha256_canonical c v = None \<longleftrightarrow> canonical_json c v = None"
  by (simp add: sha256_canonical_def)

lemma hash_clean: "no_errors (snd (hash_or_empty s v)) \<longleftrightarrow> hashable s v"
  by (cases "sha256_canonical (codec s) v")
    (auto simp: hash_or_empty_def hashable_def sha256_canonical_None [symmetric])

lemma hashes_clean:
  "no_errors (snd (collect_argument_hashes s n hashes)) \<longleftrightarrow>
     (\<forall>(i, tool, args) \<in> set (plan_calls n). hashable s (ser_value s args))"
  "no_errors (snd (collect_children_hashes s ns hashes)) \<longleftrightarrow>
     (\<forall>(i, tool, args) \<in> set (concat (map plan_calls ns)). hashable s (ser_value s args))"
  by (induction s n hashes and s ns hashes
      rule: collect_argument_hashes_collect_children_hashes.induct)
    (auto simp: hash_clean ball_Un)

lemma valid_catalog_sort: "valid_catalog (sort_catalog s ds) \<longleftrightarrow> valid_catalog ds"
proof -
  have "mset (map td_name (sort_catalog s ds)) = mset (map td_name ds)"
    by (simp add: sort_catalog_def)
  then have "distinct (map td_name (sort_catalog s ds)) = distinct (map td_name ds)"
    by (rule mset_eq_imp_distinct_iff)
  then show ?thesis by (simp add: valid_catalog_def) (simp add: sort_catalog_def)
qed

lemma no_errors_preliminary:
  "no_errors (preliminary_findings s inp) \<longleftrightarrow>
     input_hashable s inp
     \<and> schema_version (plan inp) = TOOL_PLAN_SCHEMA_VERSION
     \<and> length (catalog inp) \<le> MAX_CATALOG_TOOLS
     \<and> valid_policy (policy_of inp)
     \<and> within_limits s inp
     \<and> valid_shape [root (plan inp)]
     \<and> plan_calls (root (plan inp)) \<noteq> []"
proof (cases "valid_policy (policy_of inp)")
  case False
  then show ?thesis
    by (simp add: preliminary_findings_def Let_def case_prod_beta' clean_simps)
next
  case True
  then have lim: "max_plan_bytes (limits (policy_of inp)) \<le> HARD_MAX_PLAN_BYTES"
    "max_nodes (limits (policy_of inp)) \<le> HARD_MAX_NODES"
    "max_depth (limits (policy_of inp)) \<le> HARD_MAX_DEPTH"
    by (simp_all add: valid_policy_def)
  let ?r = "root (plan inp)"
  have sat: "m < sat_add 0 n \<longleftrightarrow> m < n" if "m \<le> HARD_MAX_PLAN_BYTES" for m n
    using that by (auto simp: sat_add_def)
  have zero: "sat_add 0 (length xs) = 0 \<longleftrightarrow> xs = []" for xs :: "'a list"
    by (cases xs) (auto simp: sat_add_def)
  have limits_clean:
    "no_errors (if max_nodes (limits (policy_of inp)) < sat_add 0 (plan_size ?r)
        then error_at TooManyNodes None ''$.root'' else [])
      \<longleftrightarrow> plan_size ?r \<le> max_nodes (limits (policy_of inp))"
    "no_errors (if max_depth (limits (policy_of inp)) < sat_add 0 (plan_depth ?r)
        then error_at PlanTooDeep None ''$.root'' else [])
      \<longleftrightarrow> plan_depth ?r \<le> max_depth (limits (policy_of inp))"
    "no_errors (if sat_add 0 (length (plan_calls ?r)) = 0
        then error_at EmptyPlan None ''$.root'' else []) \<longleftrightarrow> plan_calls ?r \<noteq> []"
    using lim sat [of "max_nodes (limits (policy_of inp))"] sat [of "max_depth (limits (policy_of inp))"]
    by (simp_all add: no_errors_if zero not_less)
  have eff: "effective_limits (policy_of inp) =
      (max_plan_bytes (limits (policy_of inp)), max_nodes (limits (policy_of inp)),
       max_depth (limits (policy_of inp)))"
    using lim by (simp add: effective_limits_def min_absorb1)
  show ?thesis
    unfolding preliminary_findings_def Let_def eff case_prod_beta' fst_conv snd_conv no_errors_simps
      collect_root limits_clean hash_clean hashes_clean no_errors_policy
    using True
    by (cases "canonical_json (codec s) (ser_plan s (plan inp))")
      (auto simp: input_hashable_def within_limits_def no_errors_if hashable_def)
qed

lemma decide_iff:
  "decide fs = Denied \<longleftrightarrow> \<not> no_errors fs"
  "decide fs = Proved \<longleftrightarrow> no_errors fs \<and> no_reviews fs"
  by (auto simp: decide_def no_errors_def no_reviews_def list_ex_iff list_all_iff)

text \<open>The context the walk starts in, and the one it ends in when the plan is small enough.\<close>

definition start_context :: "serializer \<Rightarrow> verifier_input \<Rightarrow> verify_context" where
  "start_context s inp =
     \<lparr>ctx_findings = preliminary_findings s inp
        @ snd (build_catalog (sort_catalog s (catalog inp))),
      ctx_counterexamples = [], ctx_resources = []\<rparr>"

definition final_context :: "serializer \<Rightarrow> verifier_input \<Rightarrow> verify_context" where
  "final_context s inp =
     (let st = fst (collect_structure (root (plan inp)) 1 ''$.root'' empty_structure)
      in if node_count st \<le> HARD_MAX_NODES \<and> max_depth_seen st \<le> HARD_MAX_DEPTH
         then snd (verify_node (verify_env_of s inp) (root (plan inp)) [] ''$.root''
                (start_context s inp))
         else start_context s inp)"

lemma verify_report:
  "decision (verify s inp) = decide (ctx_findings (final_context s inp))"
  "invocation_resources (verify s inp) = ctx_resources (final_context s inp)"
  "counterexamples (verify s inp) = ctx_counterexamples (final_context s inp)"
  "findings (verify s inp) = ctx_findings (final_context s inp)"
  by (simp_all add: verify_def final_context_def start_context_def verify_env_of_def Let_def
      case_prod_beta')

text \<open>A plan within its limits is small enough to be walked.\<close>

lemma walked:
  assumes "no_errors (preliminary_findings s inp)"
  shows "final_context s inp = snd (verify_node (verify_env_of s inp) (root (plan inp)) []
    ''$.root'' (start_context s inp))"
proof -
  have "plan_size (root (plan inp)) \<le> HARD_MAX_NODES" "plan_depth (root (plan inp)) \<le> HARD_MAX_DEPTH"
    using assms by (auto simp: no_errors_preliminary within_limits_def valid_policy_def)
  then show ?thesis
    by (simp add: final_context_def Let_def collect_root [unfolded One_nat_def] sat_add_def)
qed

lemma supported_build:
  "valid_catalog ds \<Longrightarrow> supported_catalog (fst (build_catalog ds))"
  by (auto simp: supported_catalog_def valid_catalog_def dest: catalog_get)

lemma start_clean:
  "ctx_clean (start_context s inp) \<longleftrightarrow>
     no_errors (preliminary_findings s inp) \<and> valid_catalog (catalog inp)"
  by (simp add: start_context_def clean_simps valid_catalog_sort)

text \<open>The walk only adds findings: an error found before it stays.\<close>

lemma walk_start:
  "ctx_clean (snd (verify_node env n available path ctx)) \<Longrightarrow> ctx_clean ctx"
  "ctx_clean (snd (verify_sequence env k ns outputs path ctx)) \<Longrightarrow> ctx_clean ctx"
  "ctx_clean (snd (verify_parallel env k ns available outputs path ctx)) \<Longrightarrow> ctx_clean ctx"
  by (induction env n available path ctx and env k ns outputs path ctx
      and env k ns available outputs path ctx rule: verify_node_verify_sequence_verify_parallel.induct)
    (auto simp: verify_call_def tool_policy_clean parallel_clean split: option.splits prod.splits
      if_splits)

lemma final_clean: "ctx_clean (final_context s inp) \<longleftrightarrow> acceptable s inp"
proof (cases "ctx_clean (start_context s inp)")
  case True
  then have pre: "no_errors (preliminary_findings s inp)" and cat: "valid_catalog (catalog inp)"
    by (simp_all add: start_clean)
  then have sup: "supported_catalog (env_catalog (verify_env_of s inp))"
    by (simp add: verify_env_of_def supported_build valid_catalog_sort)
  have emp: "bt_get [] = Map.empty" "bt_wf []" by (auto simp: bt_get_def bt_wf_def bt_keys_def)
  have "ctx_clean (final_context s inp) \<longleftrightarrow>
      (\<exists>\<Gamma>. node_typed (verify_env_of s inp) Map.empty (root (plan inp)) \<Gamma>)"
    using walk_sound(1) [OF sup emp(2)] walk_complete(1) [OF _ sup emp(2)] True
    unfolding walked [OF pre] emp(1) by metis
  with pre cat show ?thesis by (simp add: acceptable_def no_errors_preliminary)
next
  case False
  then have "\<not> acceptable s inp" by (auto simp: start_clean acceptable_def no_errors_preliminary)
  moreover have "\<not> ctx_clean (final_context s inp)"
    using False walk_start(1) by (auto simp: final_context_def Let_def)
  ultimately show ?thesis by simp
qed

lemma verify_accepts: "decision (verify s inp) \<noteq> Denied \<longleftrightarrow> acceptable s inp"
  by (simp add: verify_report decide_iff final_clean)

definition unreviewed :: "serializer \<Rightarrow> verifier_input \<Rightarrow> bool" where
  "unreviewed s inp \<longleftrightarrow> calls_unreviewed (verify_env_of s inp) (plan_calls (root (plan inp)))"

lemma verify_proves: "decision (verify s inp) = Proved \<longleftrightarrow> acceptable s inp \<and> unreviewed s inp"
proof (cases "acceptable s inp")
  case True
  then have pre: "no_errors (preliminary_findings s inp)"
    by (simp add: acceptable_def no_errors_preliminary)
  have "ctx_quiet (start_context s inp)"
    by (simp add: start_context_def no_reviews_preliminary build_catalog_def no_reviews_catalog)
  then have "ctx_quiet (final_context s inp) \<longleftrightarrow> unreviewed s inp"
    by (simp add: walked [OF pre] walk_quiet unreviewed_def)
  with True show ?thesis by (simp add: verify_report decide_iff final_clean)
next
  case False
  then show ?thesis by (simp add: verify_report decide_iff final_clean)
qed

subsection \<open>The calls of an accepted plan\<close>

text \<open>The descriptor a tool name stands for.\<close>

definition described :: "verifier_input \<Rightarrow> string \<Rightarrow> tool_descriptor \<Rightarrow> bool" where
  "described inp tool d \<longleftrightarrow> d \<in> set (catalog inp) \<and> td_name d = tool"

lemma catalog_described:
  assumes "acceptable s inp"
  shows "bt_get (env_catalog (verify_env_of s inp)) tool = Some d \<longleftrightarrow> described inp tool d"
proof -
  have "valid_catalog (sort_catalog s (catalog inp))"
    using assms by (simp add: acceptable_def valid_catalog_sort)
  then have "distinct (map td_name (sort_catalog s (catalog inp)))" by (simp add: valid_catalog_def)
  from catalog_get_iff [OF this] show ?thesis
    by (simp add: verify_env_of_def described_def sort_catalog_def)
qed

lemma typed_calls:
  "node_typed env \<Gamma> n \<Gamma>' \<Longrightarrow> (i, tool, args) \<in> set (plan_calls n) \<Longrightarrow>
     \<exists>d \<Gamma>1. bt_get (env_catalog env) tool = Some d
       \<and> call_permitted (env_policy env) tool args (contract d)
       \<and> value_fits \<Gamma>1 (Some (input_schema d)) args"
  "seq_typed env \<Gamma> ns \<Gamma>' \<Longrightarrow> (i, tool, args) \<in> set (concat (map plan_calls ns)) \<Longrightarrow>
     \<exists>d \<Gamma>1. bt_get (env_catalog env) tool = Some d
       \<and> call_permitted (env_policy env) tool args (contract d)
       \<and> value_fits \<Gamma>1 (Some (input_schema d)) args"
  "par_typed env \<Gamma> \<Delta> ns \<Gamma>' \<Longrightarrow> (i, tool, args) \<in> set (concat (map plan_calls ns)) \<Longrightarrow>
     \<exists>d \<Gamma>1. bt_get (env_catalog env) tool = Some d
       \<and> call_permitted (env_policy env) tool args (contract d)
       \<and> value_fits \<Gamma>1 (Some (input_schema d)) args"
  by (induction rule: node_typed_seq_typed_par_typed.inducts) auto

lemma accepted_call:
  assumes "acceptable s inp" and "(i, tool, args) \<in> set (plan_calls (root (plan inp)))"
  obtains d c where "described inp tool d" and "contract d = Some c"
    and "\<not> rule_matches (deny_tools (policy_of inp)) tool"
    and "rule_matches (allow_tools (policy_of inp)) tool"
    and "contract_permitted (policy_of inp) args c"
proof -
  obtain \<Gamma> where "node_typed (verify_env_of s inp) Map.empty (root (plan inp)) \<Gamma>"
    using assms(1) by (auto simp: acceptable_def)
  from typed_calls(1) [OF this assms(2)] obtain d where d: "described inp tool d"
    "call_permitted (env_policy (verify_env_of s inp)) tool args (contract d)"
    using catalog_described [OF assms(1)] by blast
  moreover have "env_policy (verify_env_of s inp) = policy_of inp" by (simp add: verify_env_of_def)
  ultimately show thesis
    using that by (auto simp: call_permitted_def split: option.splits)
qed

lemma described_unique:
  "acceptable s inp \<Longrightarrow> described inp tool d \<Longrightarrow> described inp tool e \<Longrightarrow> d = e"
  using catalog_described by (metis option.inject)

text \<open>What a parallel group of an accepted plan may do.\<close>

fun subnodes :: "plan_node \<Rightarrow> plan_node list" where
  "subnodes (Call i tool args) = [Call i tool args]"
| "subnodes (Sequence i nodes) = Sequence i nodes # concat (map subnodes nodes)"
| "subnodes (Parallel i nodes) = Parallel i nodes # concat (map subnodes nodes)"
| "subnodes (IfNode i p th el) = IfNode i p th el # subnodes th @ subnodes el"

lemma typed_subnodes:
  "node_typed env \<Gamma> n \<Gamma>' \<Longrightarrow> m \<in> set (subnodes n) \<Longrightarrow> \<exists>\<Gamma>1 \<Gamma>2. node_typed env \<Gamma>1 m \<Gamma>2"
  "seq_typed env \<Gamma> ns \<Gamma>' \<Longrightarrow> m \<in> set (concat (map subnodes ns)) \<Longrightarrow>
     \<exists>\<Gamma>1 \<Gamma>2. node_typed env \<Gamma>1 m \<Gamma>2"
  "par_typed env \<Gamma> \<Delta> ns \<Gamma>' \<Longrightarrow> m \<in> set (concat (map subnodes ns)) \<Longrightarrow>
     \<exists>\<Gamma>1 \<Gamma>2. node_typed env \<Gamma>1 m \<Gamma>2"
proof (induction rule: node_typed_seq_typed_par_typed.inducts)
  case (typed_call tool d args \<Gamma> i)
  then show ?case by (auto intro: node_typed_seq_typed_par_typed.typed_call)
next
  case (typed_sequence \<Gamma> nodes \<Gamma>' i)
  then show ?case by (auto intro: node_typed_seq_typed_par_typed.typed_sequence)
next
  case (typed_parallel nodes \<Gamma> \<Gamma>' i)
  then show ?case using node_typed_seq_typed_par_typed.typed_parallel by fastforce
next
  case (typed_if \<Gamma> p th \<Gamma>1 el \<Gamma>2 i)
  then show ?case by (auto intro: node_typed_seq_typed_par_typed.typed_if)
qed auto

lemma collect_calls_plan: "set (collect_calls n) = (\<lambda>(i, tool, args). (i, tool)) ` set (plan_calls n)"
  by (induction n) (auto simp: image_UN image_Un)

subsection \<open>What the report records of every call\<close>

text \<open>
  The walk records the resources of the calls, and the collection of argument hashes the hash of
  their arguments, in the order of the calls of the plan.
\<close>

definition record_resources ::
  "verify_env \<Rightarrow> string \<times> string \<times> plan_value \<Rightarrow> (string \<times> string list) list
     \<Rightarrow> (string \<times> string list) list" where
  "record_resources env call m =
     (case call of (i, tool, args) \<Rightarrow>
        (case contract_of (env_catalog env) tool of
           None \<Rightarrow> m
         | Some c \<Rightarrow> bt_insert i (invocation_list args c) m))"

lemma walk_resources:
  "ctx_resources (snd (verify_node env n available path ctx)) =
     fold (record_resources env) (plan_calls n) (ctx_resources ctx)"
  "ctx_resources (snd (verify_sequence env k ns outputs path ctx)) =
     fold (record_resources env) (concat (map plan_calls ns)) (ctx_resources ctx)"
  "ctx_resources (snd (verify_parallel env k ns available outputs path ctx)) =
     fold (record_resources env) (concat (map plan_calls ns)) (ctx_resources ctx)"
proof (induction env n available path ctx and env k ns outputs path ctx
    and env k ns available outputs path ctx rule: verify_node_verify_sequence_verify_parallel.induct)
  case (1 env i tool args available path ctx)
  then show ?case
    by (auto simp: verify_call_def record_resources_def contract_of_def tool_policy_resources
        split: option.split)
next
  case (3 env i nodes available path ctx)
  have "ctx_resources (check_parallel_read_only env i nodes path c) = ctx_resources c" for c
    unfolding check_parallel_read_only_def by (rule fold_frame) (simp split: prod.split)
  with 3 show ?case by simp
qed (auto split: prod.splits)

lemma collected_hashes:
  "fst (collect_argument_hashes s n hashes) =
     fold (\<lambda>(i, tool, args). bt_insert i (fst (hash_or_empty s (ser_value s args))))
       (plan_calls n) hashes"
  "fst (collect_children_hashes s ns hashes) =
     fold (\<lambda>(i, tool, args). bt_insert i (fst (hash_or_empty s (ser_value s args))))
       (concat (map plan_calls ns)) hashes"
  by (induction s n hashes and s ns hashes
      rule: collect_argument_hashes_collect_children_hashes.induct) auto

text \<open>With distinct keys, what is recorded last for a key is what is recorded for it.\<close>

lemma fold_record:
  assumes "distinct (map fst calls)" and "(i, x) \<in> set calls"
    and "\<And>j y m k. (j, y) \<in> set calls \<Longrightarrow>
      bt_get (f (j, y) m) k = (if k = j then Some (g y) else bt_get m k)"
  shows "bt_get (fold f calls m) i = Some (g x)"
  using assms
proof (induction calls arbitrary: m)
  case (Cons c cs)
  have keep: "i \<notin> fst ` set ds \<Longrightarrow> set ds \<subseteq> set cs \<Longrightarrow> bt_get (fold f ds n) i = bt_get n i" for ds n
    by (induction ds arbitrary: n) (auto simp: Cons.prems(3))
  show ?case
  proof (cases "c = (i, x)")
    case True
    then show ?thesis using Cons.prems keep [of cs "f c m"] by simp
  next
    case False
    then show ?thesis using Cons by auto
  qed
qed simp

lemma subseq_concat_map:
  "(\<And>n. n \<in> set ns \<Longrightarrow> subseq (f n) (g n)) \<Longrightarrow> subseq (concat (map f ns)) (concat (map g ns))"
  by (induction ns) (auto intro: list_emb_append_mono)

lemma plan_calls_subseq: "subseq (map fst (plan_calls n)) (plan_ids n)"
  by (induction n) (auto simp: map_concat comp_def intro: subseq_concat_map list_emb_append_mono)

lemma distinct_subseq: "subseq xs ys \<Longrightarrow> distinct ys \<Longrightarrow> distinct xs"
proof (induction rule: list_emb.induct)
  case (list_emb_Cons2 x y xs ys)
  then show ?case by (auto dest: list_emb_set)
qed auto

lemma distinct_call_ids: "distinct (plan_ids n) \<Longrightarrow> distinct (map fst (plan_calls n))"
  using plan_calls_subseq by (rule distinct_subseq)

lemma accepted_distinct: "acceptable s inp \<Longrightarrow> distinct (map fst (plan_calls (root (plan inp))))"
  by (simp add: acceptable_def valid_shape_node distinct_call_ids)

lemma accepted_resources:
  assumes "acceptable s inp" and "(i, tool, args) \<in> set (plan_calls (root (plan inp)))"
    and "described inp tool d" and "contract d = Some c"
  shows "bt_get (invocation_resources (verify s inp)) i = Some (invocation_list args c)"
proof -
  let ?env = "verify_env_of s inp"
  let ?the = "\<lambda>tool. the (contract_of (env_catalog ?env) tool)"
  have contract: "contract_of (env_catalog ?env) t = Some (?the t)"
    if "(j, t, a) \<in> set (plan_calls (root (plan inp)))" for j t a
  proof (rule accepted_call [OF assms(1) that])
    fix e k assume "described inp t e" and "contract e = Some k"
    then show ?thesis using catalog_described [OF assms(1), of t e] by (simp add: contract_of_def)
  qed
  have pre: "no_errors (preliminary_findings s inp)"
    using assms(1) by (simp add: acceptable_def no_errors_preliminary)
  have "contract_of (env_catalog ?env) tool = Some c"
    using catalog_described [OF assms(1), THEN iffD2, OF assms(3)] assms(4)
    by (simp add: contract_of_def)
  moreover have "invocation_resources (verify s inp) =
      fold (record_resources ?env) (plan_calls (root (plan inp))) []"
    by (simp add: verify_report walked [OF pre] walk_resources start_context_def)
  moreover have "bt_get (fold (record_resources ?env) (plan_calls (root (plan inp))) []) i =
      Some ((\<lambda>(t, a). invocation_list a (?the t)) (tool, args))"
    using accepted_distinct [OF assms(1)] assms(2)
  proof (rule fold_record)
    fix j y m k assume mem: "(j, y) \<in> set (plan_calls (root (plan inp)))"
    obtain t a where y: "y = (t, a)" by (cases y)
    then obtain c' where "contract_of (env_catalog ?env) t = Some c'" using contract mem by blast
    then show "bt_get (record_resources ?env (j, y) m) k =
        (if k = j then Some ((\<lambda>(t, a). invocation_list a (?the t)) y) else bt_get m k)"
      by (simp add: y record_resources_def bt_get_insert)
  qed
  ultimately show ?thesis by simp
qed

lemma accepted_hashes:
  assumes "acceptable s inp" and "(i, tool, args) \<in> set (plan_calls (root (plan inp)))"
  shows "bt_get (argument_hashes (verify s inp)) i = sha256_canonical (codec s) (ser_value s args)"
proof -
  have "hashable s (ser_value s args)"
    using assms by (auto simp: acceptable_def input_hashable_def)
  then have h: "sha256_canonical (codec s) (ser_value s args) = Some (fst (hash_or_empty s (ser_value s args)))"
    by (auto simp: hashable_def hash_or_empty_def sha256_canonical_None [symmetric])
  have "argument_hashes (verify s inp) = fst (collect_argument_hashes s (root (plan inp)) [])"
    by (simp add: verify_def Let_def case_prod_beta')
  moreover have "bt_get (fold (\<lambda>(i, tool, args).
        bt_insert i (fst (hash_or_empty s (ser_value s args)))) (plan_calls (root (plan inp))) []) i =
      Some ((\<lambda>(t, a). fst (hash_or_empty s (ser_value s a))) (tool, args))"
    using accepted_distinct [OF assms(1)] assms(2)
    by (rule fold_record) (auto simp: bt_get_insert)
  ultimately show ?thesis unfolding h by (simp add: collected_hashes)
qed

subsection \<open>The order of the catalog does not matter\<close>

text \<open>Sorting by keys that are distinct on the elements forgets the order they came in.\<close>

lemma sort_key_perm:
  assumes "inj_on f (set xs)" and "mset xs = mset ys"
  shows "sort_key f xs = sort_key f ys"
  using assms by (intro sort_key_inj_key_eq) simp_all

lemma verify_catalog_order:
  assumes "inj_on (descriptor_key s) (set (catalog inp))" and "mset cs = mset (catalog inp)"
  shows "verify s (inp\<lparr>catalog := cs\<rparr>) = verify s inp"
proof -
  let ?new = "inp\<lparr>catalog := cs\<rparr>"
  have "sort_key (descriptor_key s) cs = sort_key (descriptor_key s) (catalog inp)"
    by (rule sort_key_perm [OF assms(1) assms(2) [symmetric], symmetric])
  then have "sort_catalog s (catalog ?new) = sort_catalog s (catalog inp)"
    by (simp add: sort_catalog_def)
  moreover have "length (catalog ?new) = length (catalog inp)"
    using mset_eq_length [OF assms(2)] by simp
  moreover have "plan ?new = plan inp" "policy_of ?new = policy_of inp"
    "agent_revision ?new = agent_revision inp" by simp_all
  ultimately show ?thesis
    unfolding verify_def preliminary_findings_def by (simp only:)
qed

end
