(* ===== verification/SafeActions_Certificate.thy ===== *)
theory SafeActions_Certificate
  imports SafeActions_Verdict
begin

section \<open>Certificates\<close>

text \<open>
  \<open>crates/core/safe-actions/src/certificate.rs\<close>: a certificate of a proved report, its integrity
  hash, and its validation against the bindings and the time of use.  Times are \<open>u64\<close> milliseconds.
  The lemmas say exactly which certificates validate, that an issued one does within its window,
  and that with a hash that does not collide on the two data no certificate can be edited.
\<close>

definition CERTIFICATE_SCHEMA_VERSION :: u32 where
  "CERTIFICATE_SCHEMA_VERSION = 1"

record certificate_bindings =
  cb_plan_hash :: string
  cb_policy_hash :: string
  cb_catalog_hash :: string
  cb_agent_revision :: string
  cb_verifier_version :: string

text \<open>\<open>From<&VerificationBindings>\<close>.\<close>

definition bindings_from :: "verification_bindings \<Rightarrow> certificate_bindings" where
  "bindings_from b =
     \<lparr>cb_plan_hash = plan_hash b, cb_policy_hash = policy_hash b, cb_catalog_hash = catalog_hash b,
      cb_agent_revision = vb_agent_revision b, cb_verifier_version = verifier_version b\<rparr>"

record certificate_data =
  cd_schema_version :: u32
  cd_bindings :: certificate_bindings
  issued_at :: u64
  expires_at :: u64

record certificate =
  cert_data :: certificate_data
  integrity_hash :: string

datatype certificate_error =
    ReportNotProved
  | InvalidValidityWindow
  | UnsupportedCertificateVersion
  | IntegrityMismatch
  | BindingMismatch string
  | WrongAgent
  | NotYetValid
  | Expired
  | Canonicalization

text \<open>The codec together with what \<open>serde\<close> makes of a \<open>CertificateData\<close>.\<close>

record certifier =
  cert_codec :: canonicalizer
  ser_data :: "certificate_data \<Rightarrow> json option"

definition data_hash :: "certifier \<Rightarrow> certificate_data \<Rightarrow> string option" where
  "data_hash k d = sha256_canonical (cert_codec k) (ser_data k d)"

definition issue_certificate ::
  "certifier \<Rightarrow> verification_report \<Rightarrow> u64 \<Rightarrow> u64 \<Rightarrow> certificate_error + certificate" where
  "issue_certificate k report issued expires =
     (if decision report \<noteq> Proved then Inl ReportNotProved
      else if expires \<le> issued then Inl InvalidValidityWindow
      else
        (let d = \<lparr>cd_schema_version = CERTIFICATE_SCHEMA_VERSION,
                  cd_bindings = bindings_from (bindings report),
                  issued_at = issued, expires_at = expires\<rparr>
         in case data_hash k d of
              None \<Rightarrow> Inl Canonicalization
            | Some h \<Rightarrow> Inr \<lparr>cert_data = d, integrity_hash = h\<rparr>))"

definition check_binding :: "string \<Rightarrow> string \<Rightarrow> string \<Rightarrow> certificate_error + unit" where
  "check_binding actual expected name =
     (if actual = expected then Inr () else Inl (BindingMismatch name))"

text \<open>The \<open>?\<close> operator between two checks.\<close>

definition and_check :: "'e + unit \<Rightarrow> 'e + 'a \<Rightarrow> 'e + 'a" where
  "and_check a b = (case a of Inl e \<Rightarrow> Inl e | Inr u \<Rightarrow> b)"

definition validate_certificate ::
  "certifier \<Rightarrow> certificate \<Rightarrow> certificate_bindings \<Rightarrow> string \<Rightarrow> u64 \<Rightarrow> certificate_error + unit" where
  "validate_certificate k cert expected expected_agent_revision now =
     (let d = cert_data cert; actual = cd_bindings d in
      if cd_schema_version d \<noteq> CERTIFICATE_SCHEMA_VERSION then Inl UnsupportedCertificateVersion
      else
        (case data_hash k d of
           None \<Rightarrow> Inl Canonicalization
         | Some computed \<Rightarrow>
             if computed \<noteq> integrity_hash cert then Inl IntegrityMismatch
             else if cb_agent_revision actual \<noteq> expected_agent_revision then Inl WrongAgent
             else
               and_check (check_binding (cb_plan_hash actual) (cb_plan_hash expected) ''plan'')
               (and_check (check_binding (cb_policy_hash actual) (cb_policy_hash expected) ''policy'')
               (and_check (check_binding (cb_catalog_hash actual) (cb_catalog_hash expected) ''catalog'')
               (and_check (check_binding (cb_verifier_version actual) (cb_verifier_version expected)
                             ''verifier version'')
                (if cb_agent_revision actual \<noteq> cb_agent_revision expected
                 then Inl (BindingMismatch ''agent revision'')
                 else if expires_at d \<le> issued_at d then Inl InvalidValidityWindow
                 else if now < issued_at d then Inl NotYetValid
                 else if expires_at d \<le> now then Inl Expired
                 else Inr ()))))))"

lemma and_check_ok [simp]: "and_check a b = Inr x \<longleftrightarrow> a = Inr () \<and> b = Inr x"
  by (auto simp: and_check_def split: sum.split)

lemma check_binding_ok [simp]: "check_binding a b n = Inr u \<longleftrightarrow> a = b"
  by (simp add: check_binding_def)

text \<open>The window a certificate is good for, and the certificates that validate.\<close>

definition in_window :: "certificate_data \<Rightarrow> u64 \<Rightarrow> bool" where
  "in_window d now \<longleftrightarrow> issued_at d \<le> now \<and> now < expires_at d"

lemma validate_iff:
  "validate_certificate k cert expected arev now = Inr () \<longleftrightarrow>
     cd_schema_version (cert_data cert) = CERTIFICATE_SCHEMA_VERSION
     \<and> data_hash k (cert_data cert) = Some (integrity_hash cert)
     \<and> cd_bindings (cert_data cert) = expected \<and> cb_agent_revision expected = arev
     \<and> in_window (cert_data cert) now"
proof -
  have "cd_bindings (cert_data cert) = expected \<longleftrightarrow>
      cb_plan_hash (cd_bindings (cert_data cert)) = cb_plan_hash expected
      \<and> cb_policy_hash (cd_bindings (cert_data cert)) = cb_policy_hash expected
      \<and> cb_catalog_hash (cd_bindings (cert_data cert)) = cb_catalog_hash expected
      \<and> cb_verifier_version (cd_bindings (cert_data cert)) = cb_verifier_version expected
      \<and> cb_agent_revision (cd_bindings (cert_data cert)) = cb_agent_revision expected"
    by auto
  moreover have "\<not> expires_at (cert_data cert) \<le> issued_at (cert_data cert)
      \<and> \<not> now < issued_at (cert_data cert) \<and> \<not> expires_at (cert_data cert) \<le> now
    \<longleftrightarrow> in_window (cert_data cert) now"
    by (auto simp: in_window_def not_le not_less)
  ultimately show ?thesis
    by (auto simp: validate_certificate_def Let_def split: option.split)
qed

lemma issued_certificate:
  assumes "issue_certificate k report issued expires = Inr cert"
  shows "decision report = Proved" and "issued < expires"
    and "cert_data cert = \<lparr>cd_schema_version = CERTIFICATE_SCHEMA_VERSION,
      cd_bindings = bindings_from (bindings report), issued_at = issued, expires_at = expires\<rparr>"
    and "data_hash k (cert_data cert) = Some (integrity_hash cert)"
  using assms
  by (auto simp: issue_certificate_def Let_def split: if_splits option.splits)

lemma issue_validates:
  assumes "issue_certificate k report issued expires = Inr cert"
  shows "validate_certificate k cert (bindings_from (bindings report)) arev now = Inr () \<longleftrightarrow>
    arev = vb_agent_revision (bindings report) \<and> issued \<le> now \<and> now < expires"
  using issued_certificate [OF assms]
  by (auto simp: validate_iff in_window_def bindings_from_def)

text \<open>A certificate that validates cannot be turned into another one that does.\<close>

definition hash_injective_at :: "certifier \<Rightarrow> certificate_data \<Rightarrow> certificate_data \<Rightarrow> bool" where
  "hash_injective_at k d e \<longleftrightarrow> (data_hash k d = data_hash k e \<longrightarrow> data_hash k d = None \<or> d = e)"

lemma validate_unique:
  assumes "validate_certificate k cert b arev now = Inr ()"
    and "validate_certificate k cert' b' arev' now' = Inr ()"
    and "integrity_hash cert = integrity_hash cert'"
    and "hash_injective_at k (cert_data cert) (cert_data cert')"
  shows "cert = cert'"
  using assms by (auto simp: validate_iff hash_injective_at_def)

end
