(* ===== verification/SafeActions_Store.thy ===== *)
theory SafeActions_Store
  imports SafeActions_Certificate
begin

section \<open>The durable store\<close>

text \<open>
  \<open>apps/core/src/safe_actions/store.rs\<close>: the tables of the Safe Actions database and every operation
  on them.  A row is a record of its indexed columns and of the value its \<open>json\<close> column decodes to;
  a statement acts on all rows its \<open>WHERE\<close> selects and returns how many it changed, and a violated
  \<open>UNIQUE\<close>, primary key or foreign key makes it fail and rolls its transaction back.  Each operation
  holds the connection lock from its first statement to its last, so it is one step; other requests
  run between two operations.  Every operation takes the time stamp it reads from the clock.
  (I/O errors of the database itself and the list queries of the user interface are not modelled.)
\<close>

subsection \<open>Records\<close>

record policy_record =
  pr_id :: string
  pr_name :: string
  pr_description :: "string option"
  pr_policy :: policy
  pr_hash :: string
  pr_version :: u64
  pr_agents :: "string list"
  pr_created :: string
  pr_updated :: string

record contract_record =
  cr_tool :: string
  cr_contract :: effect_contract
  cr_contract_hash :: string
  cr_implementation_hash :: string
  cr_attested_by :: string
  cr_created :: string
  cr_updated :: string

record submission_record =
  sub_id :: string
  submission_key :: string
  sub_agent :: string
  sub_agent_revision :: string
  sub_policy_id :: string
  host_conversation :: "string option"
  sub_plan :: tool_plan
  sub_report :: verification_report
  sub_certificate :: "certificate option"
  sub_status :: string
  review_note :: "string option"
  reviewed_by :: "string option"
  reviewed_at :: "string option"
  sub_created :: string
  sub_updated :: string

record step_receipt =
  sr_step :: string
  sr_ordinal :: u64
  sr_tool :: string
  sr_arguments_hash :: string
  sr_result_hash :: "string option"
  sr_status :: string
  sr_error :: "string option"
  sr_started :: string
  sr_finished :: "string option"

record execution_receipt =
  er_id :: string
  er_submission :: string
  er_certificate :: string
  er_agent :: string
  er_status :: string
  er_plan_hash :: string
  er_policy_hash :: string
  er_catalog_hash :: string
  er_verifier_version :: string
  er_result_hash :: "string option"
  er_error :: "string option"
  er_started :: string
  er_finished :: "string option"
  er_steps :: "step_receipt list"

subsection \<open>Tables\<close>

record policy_row =
  prow_id :: string
  prow_version :: int
  prow_record :: policy_record

record submission_row =
  srow_id :: string
  srow_key :: string
  srow_agent :: string
  srow_status :: string
  srow_record :: submission_record

record receipt_row =
  rrow_id :: string
  rrow_submission :: string
  rrow_certificate :: string
  rrow_status :: string
  rrow_record :: execution_receipt

record step_row =
  trow_receipt :: string
  trow_step :: string
  trow_ordinal :: int
  trow_status :: string
  trow_record :: step_receipt

record safe_store =
  policy_rows :: "policy_row list"
  binding_rows :: "(string \<times> string) list"
  contract_rows :: "contract_record list"
  submission_rows :: "submission_row list"
  receipt_rows :: "receipt_row list"
  step_rows :: "step_row list"

definition empty_store :: safe_store where
  "empty_store =
     \<lparr>policy_rows = [], binding_rows = [], contract_rows = [], submission_rows = [],
      receipt_rows = [], step_rows = []\<rparr>"

datatype store_error =
    PolicyVersionConflict | PolicyExists | PolicyMissing | PolicyUpdateLost
  | ContractExists | ContractGone | ContractChanged
  | RetentionLimit | ConstraintViolation | NoRow

text \<open>
  \<open>UPDATE ... SET f WHERE p\<close>: the rows after it and the number of rows changed.
\<close>

definition update_where :: "('r \<Rightarrow> bool) \<Rightarrow> ('r \<Rightarrow> 'r) \<Rightarrow> 'r list \<Rightarrow> 'r list \<times> nat" where
  "update_where p f rows = (map (\<lambda>r. if p r then f r else r) rows, length (filter p rows))"

definition i64_max :: int where "i64_max = 9223372036854775807"

text \<open>\<open>i64::try_from(n).unwrap_or(i64::MAX)\<close>.\<close>

definition to_i64 :: "u64 \<Rightarrow> int" where
  "to_i64 n = (if uint n \<le> i64_max then uint n else i64_max)"

subsection \<open>Policies and contracts\<close>

definition bound_agents :: "safe_store \<Rightarrow> string \<Rightarrow> string list" where
  "bound_agents st i = sort (map fst (filter (\<lambda>(agent, p). p = i) (binding_rows st)))"

definition hydrate_policy_bindings :: "safe_store \<Rightarrow> policy_record \<Rightarrow> policy_record" where
  "hydrate_policy_bindings st r = r\<lparr>pr_agents := bound_agents st (pr_id r)\<rparr>"

definition get_policy :: "safe_store \<Rightarrow> string \<Rightarrow> policy_record option" where
  "get_policy st i =
     map_option (\<lambda>row. hydrate_policy_bindings st (prow_record row))
       (List.find (\<lambda>row. prow_id row = i) (policy_rows st))"

definition policy_for_agent :: "safe_store \<Rightarrow> string \<Rightarrow> policy_record option" where
  "policy_for_agent st agent =
     (case List.find (\<lambda>(a, p). a = agent \<and> p \<in> set (map prow_id (policy_rows st))) (binding_rows st) of
        None \<Rightarrow> None
      | Some (a, p) \<Rightarrow> get_policy st p)"

text \<open>\<open>INSERT ... ON CONFLICT(agent_id) DO UPDATE SET policy_id\<close>.\<close>

definition bind_agent :: "string \<Rightarrow> string \<Rightarrow> (string \<times> string) list \<Rightarrow> (string \<times> string) list" where
  "bind_agent i agent rows =
     (if agent \<in> set (map fst rows)
      then map (\<lambda>(a, p). (a, if a = agent then i else p)) rows
      else rows @ [(agent, i)])"

definition put_policy ::
  "string \<Rightarrow> policy_record \<Rightarrow> u64 option \<Rightarrow> safe_store \<Rightarrow> (store_error + policy_record) \<times> safe_store"
where
  "put_policy timestamp r expected st =
     (let existing = map_option prow_record (List.find (\<lambda>row. prow_id row = pr_id r) (policy_rows st));
          conflict =
            (case (existing, expected) of
               (Some item, Some v) \<Rightarrow> if pr_version item = v then None else Some PolicyVersionConflict
             | (Some item, None) \<Rightarrow> Some PolicyExists
             | (None, Some v) \<Rightarrow> Some PolicyMissing
             | (None, None) \<Rightarrow> None)
      in case conflict of
           Some e \<Rightarrow> (Inl e, st)
         | None \<Rightarrow>
             (let r1 = r\<lparr>pr_version := (case existing of None \<Rightarrow> 1 | Some item \<Rightarrow> sat_add_u64 (pr_version item) 1),
                         pr_created := (case existing of None \<Rightarrow> timestamp | Some item \<Rightarrow> pr_created item),
                         pr_updated := timestamp,
                         pr_agents := remdups_adj (sort (pr_agents r))\<rparr>;
                  (rows, changed) =
                    (case expected of
                       Some v \<Rightarrow>
                         update_where (\<lambda>row. prow_id row = pr_id r \<and> prow_version row = to_i64 v)
                           (\<lambda>row. row\<lparr>prow_version := to_i64 (pr_version r1), prow_record := r1\<rparr>)
                           (policy_rows st)
                     | None \<Rightarrow>
                         (policy_rows st
                            @ [\<lparr>prow_id = pr_id r, prow_version = to_i64 (pr_version r1),
                                prow_record = r1\<rparr>], 1))
              in if expected \<noteq> None \<and> changed \<noteq> 1 then (Inl PolicyUpdateLost, st)
                 else
                   (Inr r1,
                    st\<lparr>policy_rows := rows,
                       binding_rows :=
                         fold (bind_agent (pr_id r)) (pr_agents r1)
                           (filter (\<lambda>(a, p). p \<noteq> pr_id r) (binding_rows st))\<rparr>)))"

text \<open>The delete cascades to the bindings of the policy.\<close>

definition delete_policy :: "string \<Rightarrow> u64 \<Rightarrow> safe_store \<Rightarrow> bool \<times> safe_store" where
  "delete_policy i expected st =
     (let doomed = (\<lambda>row. prow_id row = i \<and> prow_version row = to_i64 expected);
          n = length (filter doomed (policy_rows st))
      in (n = 1,
          st\<lparr>policy_rows := filter (\<lambda>row. \<not> doomed row) (policy_rows st),
             binding_rows := (if n = 0 then binding_rows st
                              else filter (\<lambda>(a, p). p \<noteq> i) (binding_rows st))\<rparr>))"

definition put_contract ::
  "string \<Rightarrow> contract_record \<Rightarrow> string option \<Rightarrow> string option \<Rightarrow> safe_store
     \<Rightarrow> (store_error + contract_record) \<times> safe_store" where
  "put_contract timestamp r expected_contract expected_implementation st =
     (let existing = List.find (\<lambda>row. cr_tool row = cr_tool r) (contract_rows st);
          conflict =
            (case (existing, expected_contract, expected_implementation) of
               (None, None, None) \<Rightarrow> None
             | (Some current, Some c, Some i) \<Rightarrow>
                 if cr_contract_hash current = c \<and> cr_implementation_hash current = i then None
                 else Some ContractChanged
             | (Some current, None, None) \<Rightarrow> Some ContractExists
             | (None, _, _) \<Rightarrow> Some ContractGone
             | _ \<Rightarrow> Some ContractChanged)
      in case conflict of
           Some e \<Rightarrow> (Inl e, st)
         | None \<Rightarrow>
             (let r1 = r\<lparr>cr_created := (case existing of None \<Rightarrow> timestamp | Some c \<Rightarrow> cr_created c),
                         cr_updated := timestamp\<rparr>
              in (Inr r1,
                  st\<lparr>contract_rows :=
                       (if existing = None then contract_rows st @ [r1]
                        else map (\<lambda>row. if cr_tool row = cr_tool r then r1 else row)
                               (contract_rows st))\<rparr>)))"

subsection \<open>Submissions\<close>

definition get_submission :: "safe_store \<Rightarrow> string \<Rightarrow> submission_record option" where
  "get_submission st i =
     map_option srow_record (List.find (\<lambda>row. srow_id row = i) (submission_rows st))"

definition get_submission_by_key :: "safe_store \<Rightarrow> string \<Rightarrow> submission_record option" where
  "get_submission_by_key st key =
     map_option srow_record (List.find (\<lambda>row. srow_key row = key) (submission_rows st))"

definition insert_submission ::
  "submission_record \<Rightarrow> safe_store \<Rightarrow> (store_error + submission_record) \<times> safe_store" where
  "insert_submission r st =
     (case get_submission_by_key st (submission_key r) of
        Some existing \<Rightarrow> (Inr existing, st)
      | None \<Rightarrow>
          if 10000 \<le> length (filter (\<lambda>row. srow_agent row = sub_agent r) (submission_rows st))
          then (Inl RetentionLimit, st)
          else if sub_id r \<in> set (map srow_id (submission_rows st))
          then (Inl ConstraintViolation, st)
          else
            (Inr r,
             st\<lparr>submission_rows := submission_rows st
                  @ [\<lparr>srow_id = sub_id r, srow_key = submission_key r, srow_agent = sub_agent r,
                      srow_status = sub_status r, srow_record = r\<rparr>]\<rparr>))"

definition set_submission :: "submission_record \<Rightarrow> submission_row \<Rightarrow> submission_row" where
  "set_submission r row = row\<lparr>srow_status := sub_status r, srow_record := r\<rparr>"

definition transition_submission ::
  "string \<Rightarrow> string \<Rightarrow> string list \<Rightarrow> submission_record \<Rightarrow> safe_store \<Rightarrow> bool \<times> safe_store" where
  "transition_submission timestamp i from_statuses updated st =
     (let updated1 =
            (if sub_status updated \<notin> set from_statuses then updated\<lparr>sub_updated := timestamp\<rparr>
             else updated);
          (rows, changed) =
            update_where (\<lambda>row. srow_id row = i \<and> srow_status row \<in> set from_statuses)
              (set_submission updated1) (submission_rows st)
      in (changed = 1, st\<lparr>submission_rows := rows\<rparr>))"

subsection \<open>Executions\<close>

definition start_execution ::
  "string \<Rightarrow> string list \<Rightarrow> submission_record \<Rightarrow> execution_receipt \<Rightarrow> safe_store
     \<Rightarrow> (store_error + bool) \<times> safe_store" where
  "start_execution i from_statuses submission receipt st =
     (let (rows, changed) =
            update_where (\<lambda>row. srow_id row = i \<and> srow_status row \<in> set from_statuses)
              (set_submission submission) (submission_rows st)
      in if changed \<noteq> 1 then (Inr False, st)
         else if er_id receipt \<in> set (map rrow_id (receipt_rows st))
             \<or> er_submission receipt \<in> set (map rrow_submission (receipt_rows st))
             \<or> er_certificate receipt \<in> set (map rrow_certificate (receipt_rows st))
             \<or> er_submission receipt \<notin> set (map srow_id (submission_rows st))
         then (Inl ConstraintViolation, st)
         else
           (Inr True,
            st\<lparr>submission_rows := rows,
               receipt_rows := receipt_rows st
                 @ [\<lparr>rrow_id = er_id receipt, rrow_submission = er_submission receipt,
                     rrow_certificate = er_certificate receipt, rrow_status = er_status receipt,
                     rrow_record = receipt\<lparr>er_steps := []\<rparr>\<rparr>]\<rparr>))"

text \<open>
  \<open>insert_receipt\<close>: the insert ignores a conflict of a key (but not a submission that does not exist),
  and the answer is the receipt of the submission as it is stored.  Only tests call it; it is no step of
  the store in \<open>SafeActions_Lifecycle\<close>.
\<close>

definition insert_receipt ::
  "execution_receipt \<Rightarrow> safe_store \<Rightarrow> (store_error + execution_receipt) \<times> safe_store" where
  "insert_receipt receipt st =
     (let conflict = (er_id receipt \<in> set (map rrow_id (receipt_rows st))
             \<or> er_submission receipt \<in> set (map rrow_submission (receipt_rows st))
             \<or> er_certificate receipt \<in> set (map rrow_certificate (receipt_rows st)))
      in if \<not> conflict \<and> er_submission receipt \<notin> set (map srow_id (submission_rows st))
         then (Inl ConstraintViolation, st)
         else
           (let st1 = (if conflict then st
                       else st\<lparr>receipt_rows := receipt_rows st
                         @ [\<lparr>rrow_id = er_id receipt, rrow_submission = er_submission receipt,
                             rrow_certificate = er_certificate receipt, rrow_status = er_status receipt,
                             rrow_record = receipt\<rparr>]\<rparr>)
            in (case List.find (\<lambda>row. rrow_submission row = er_submission receipt) (receipt_rows st1) of
                  None \<Rightarrow> (Inl NoRow, st1)
                | Some row \<Rightarrow> (Inr (rrow_record row), st1))))"

text \<open>A submission has at most one receipt: a second one is ignored and the first is the answer.\<close>

lemma insert_receipt_once:
  assumes "insert_receipt receipt st = (Inr r, st')"
  shows "er_submission receipt \<in> set (map rrow_submission (receipt_rows st'))
    \<and> (er_submission receipt \<in> set (map rrow_submission (receipt_rows st)) \<longrightarrow> st' = st)"
proof -
  have found: "i \<in> rrow_submission ` set rows"
    if "List.find (\<lambda>row. rrow_submission row = i) rows = Some row"
    for i and row :: receipt_row and rows :: "receipt_row list"
    using that by (force simp: find_Some_iff)
  show ?thesis
    using assms by (auto simp: insert_receipt_def Let_def split: if_splits option.splits dest!: found)
qed

text \<open>
  Both updates run in a transaction that is committed only when each changed one row: otherwise the
  store keeps what it had.
\<close>

definition save_terminal ::
  "execution_receipt \<Rightarrow> submission_record \<Rightarrow> safe_store \<Rightarrow> bool \<times> safe_store" where
  "save_terminal receipt submission st =
     (let (receipts, receipt_changed) =
            update_where (\<lambda>row. rrow_id row = er_id receipt \<and> rrow_status row = ''running'')
              (\<lambda>row. row\<lparr>rrow_status := er_status receipt, rrow_record := receipt\<lparr>er_steps := []\<rparr>\<rparr>)
              (receipt_rows st);
          (submissions, submission_changed) =
            update_where (\<lambda>row. srow_id row = sub_id submission \<and> srow_status row = ''executing'')
              (set_submission submission) (submission_rows st)
      in if receipt_changed \<noteq> 1 \<or> submission_changed \<noteq> 1 then (False, st)
         else (True, st\<lparr>receipt_rows := receipts, submission_rows := submissions\<rparr>))"

definition save_step :: "string \<Rightarrow> step_receipt \<Rightarrow> safe_store \<Rightarrow> (store_error + unit) \<times> safe_store" where
  "save_step receipt_id step st =
     (let row = \<lparr>trow_receipt = receipt_id, trow_step = sr_step step,
                 trow_ordinal = to_i64 (sr_ordinal step), trow_status = sr_status step,
                 trow_record = step\<rparr>;
          same = (\<lambda>r. trow_receipt r = receipt_id \<and> trow_step r = sr_step step)
      in if receipt_id \<notin> set (map rrow_id (receipt_rows st)) then (Inl ConstraintViolation, st)
         else
           (Inr (),
            st\<lparr>step_rows := (if list_ex same (step_rows st)
                             then map (\<lambda>r. if same r then row else r) (step_rows st)
                             else step_rows st @ [row])\<rparr>))"

definition get_receipt :: "safe_store \<Rightarrow> string \<Rightarrow> execution_receipt option" where
  "get_receipt st i =
     (case List.find (\<lambda>row. rrow_id row = i \<or> rrow_submission row = i \<or> rrow_certificate row = i)
             (receipt_rows st) of
        None \<Rightarrow> None
      | Some row \<Rightarrow>
          Some ((rrow_record row)\<lparr>er_steps :=
            map trow_record (sort_key trow_ordinal
              (filter (\<lambda>t. trow_receipt t = er_id (rrow_record row)) (step_rows st)))\<rparr>))"

subsection \<open>Opening the store after a stop\<close>

definition UNKNOWN :: string where "UNKNOWN = ''unknown_after_crash''"

text \<open>The three updates \<open>init\<close> runs on every start, before anything else uses the store.\<close>

definition init_store :: "string \<Rightarrow> safe_store \<Rightarrow> safe_store" where
  "init_store recovered_at st =
     st\<lparr>receipt_rows := fst (update_where (\<lambda>row. rrow_status row = ''running'')
          (\<lambda>row. row\<lparr>rrow_status := UNKNOWN,
             rrow_record := (rrow_record row)\<lparr>er_status := UNKNOWN, er_finished := Some recovered_at,
               er_error := Some ''Core stopped while execution was in progress''\<rparr>\<rparr>)
          (receipt_rows st)),
        step_rows := fst (update_where (\<lambda>row. trow_status row = ''running'')
          (\<lambda>row. row\<lparr>trow_status := UNKNOWN,
             trow_record := (trow_record row)\<lparr>sr_status := UNKNOWN, sr_finished := Some recovered_at,
               sr_error := Some ''Core stopped while this step was in progress''\<rparr>\<rparr>)
          (step_rows st)),
        submission_rows := fst (update_where (\<lambda>row. srow_status row = ''executing'')
          (\<lambda>row. row\<lparr>srow_status := UNKNOWN,
             srow_record := (srow_record row)\<lparr>sub_status := UNKNOWN, sub_updated := recovered_at\<rparr>\<rparr>)
          (submission_rows st))\<rparr>"

end
