(* ===== verification/SafeActions_Lifecycle.thy ===== *)
theory SafeActions_Lifecycle
  imports SafeActions_Store
begin

section \<open>What the store guarantees over time\<close>

text \<open>
  The store under every interleaving of the requests of the service and of stops and restarts:
  \<open>store_step\<close> is one operation with arguments as the service passes them, and the lemmas hold for
  all states reachable by such steps.  Keys stay unique, a submission is running exactly while its
  receipt is, a finished receipt never changes, a submission is executed at most once, and a
  submission that was denied, invalidated or refused never is.
\<close>

subsection \<open>Things claimed once\<close>

text \<open>
  A claim that succeeds leaves a mark, no step removes a mark, and a marked key cannot be claimed:
  then no later claim of the key succeeds.  The store gives this twice, for executions and for
  submission keys.
\<close>

locale write_once =
  fixes key :: "'a \<Rightarrow> 'k"
    and claim :: "'a \<Rightarrow> 's \<Rightarrow> 's option"
    and claimed :: "'s \<Rightarrow> 'k \<Rightarrow> bool"
    and step :: "'s \<Rightarrow> 's \<Rightarrow> bool"
  assumes claim_marks: "claim a s = Some s' \<Longrightarrow> claimed s' (key a)"
    and mark_stays: "step s s' \<Longrightarrow> claimed s k \<Longrightarrow> claimed s' k"
    and marked_refused: "claimed s (key a) \<Longrightarrow> claim a s = None"
begin

lemma mark_stays_forever: "step\<^sup>*\<^sup>* s s' \<Longrightarrow> claimed s k \<Longrightarrow> claimed s' k"
  by (induction rule: rtranclp_induct) (auto intro: mark_stays)

lemma claimed_once:
  assumes "claim a s = Some s1" and "step\<^sup>*\<^sup>* s1 s2" and "key b = key a"
  shows "claim b s2 = None"
proof -
  have "claimed s1 (key b)" using claim_marks [OF assms(1)] assms(3) by simp
  then show ?thesis using mark_stays_forever [OF assms(2)] marked_refused by blast
qed

end

subsection \<open>Updating rows\<close>

lemma update_where_frame [frame_simps]:
  "(\<And>r. g (f r) = g r) \<Longrightarrow> map g (fst (update_where p f rows)) = map g rows"
  by (simp add: update_where_def)

lemma update_where_mem:
  "row \<in> set (fst (update_where p f rows)) \<longleftrightarrow>
     (\<exists>r \<in> set rows. row = (if p r then f r else r))"
  by (auto simp: update_where_def)

lemma find_distinct:
  assumes "distinct (map k rows)" and "r \<in> set rows"
  shows "List.find (\<lambda>x. k x = k r) rows = Some r"
  using assms by (induction rows) auto

lemma set_submission_frame [simp]:
  "srow_id (set_submission r row) = srow_id row" "srow_key (set_submission r row) = srow_key row"
  "srow_agent (set_submission r row) = srow_agent row"
  "srow_status (set_submission r row) = sub_status r"
  "srow_record (set_submission r row) = r"
  by (simp_all add: set_submission_def)

subsection \<open>Steps\<close>

text \<open>The statuses a new submission can have, and the ones an execution can end with.\<close>

definition initial_statuses :: "string list" where
  "initial_statuses = [''certified'', ''pending_review'', ''denied'']"

definition final_statuses :: "string list" where
  "final_statuses = [''succeeded'', ''failed'', ''blocked'', ''uncertain'']"

definition review_statuses :: "string list" where
  "review_statuses = [''approved'', ''invalidated'', ''denied_by_reviewer'']"

text \<open>The request that ends an execution holds the receipt it started it with.\<close>

definition holds_receipt :: "safe_store \<Rightarrow> execution_receipt \<Rightarrow> submission_record \<Rightarrow> bool" where
  "holds_receipt st receipt submission \<longleftrightarrow>
     (\<exists>row \<in> set (receipt_rows st). rrow_id row = er_id receipt
        \<and> rrow_submission row = sub_id submission)"

inductive store_step :: "safe_store \<Rightarrow> safe_store \<Rightarrow> bool" where
  step_insert:
    "sub_status r \<in> set initial_statuses \<Longrightarrow> store_step st (snd (insert_submission r st))"
| step_review:
    "sub_status r \<in> set review_statuses \<Longrightarrow>
     store_step st (snd (transition_submission t i [''pending_review''] r st))"
| step_resume:
    "sub_status r = ''approved'' \<Longrightarrow>
     store_step st (snd (transition_submission t i [''approved''] r st))"
| step_start:
    "from_statuses \<in> {[''approved''], [''certified'']} \<Longrightarrow> sub_status r = ''executing'' \<Longrightarrow>
     er_status receipt = ''running'' \<Longrightarrow> er_submission receipt = i \<Longrightarrow>
     store_step st (snd (start_execution i from_statuses r receipt st))"
| step_finish:
    "er_status receipt \<in> set final_statuses \<Longrightarrow> sub_status r = er_status receipt \<Longrightarrow>
     holds_receipt st receipt r \<Longrightarrow> store_step st (snd (save_terminal receipt r st))"
| step_save: "store_step st (snd (save_step receipt_id s st))"
| step_policy: "store_step st (snd (put_policy t p expected st))"
| step_delete_policy: "store_step st (snd (delete_policy i v st))"
| step_contract: "store_step st (snd (put_contract t c ec ei st))"
| step_restart: "store_step st (init_store t st)"

text \<open>What every operation leaves of the tables of submissions, receipts and steps.\<close>

lemma insert_submission_cases:
  obtains "snd (insert_submission r st) = st"
  | row where "snd (insert_submission r st) = st\<lparr>submission_rows := submission_rows st @ [row]\<rparr>"
    and "srow_id row = sub_id r" and "srow_key row = submission_key r"
    and "srow_status row = sub_status r" and "srow_record row = r"
    and "sub_id r \<notin> set (map srow_id (submission_rows st))"
    and "submission_key r \<notin> set (map srow_key (submission_rows st))"
    and "fst (insert_submission r st) = Inr r"
proof (cases "get_submission_by_key st (submission_key r)")
  case None
  then have key: "submission_key r \<notin> set (map srow_key (submission_rows st))"
    by (auto simp: get_submission_by_key_def find_None_iff)
  show thesis
  proof (cases "10000 \<le> length (filter (\<lambda>row. srow_agent row = sub_agent r) (submission_rows st))
      \<or> sub_id r \<in> set (map srow_id (submission_rows st))")
    case True
    with None that(1) show thesis by (auto simp: insert_submission_def)
  next
    case False
    show thesis
      by (rule that(2) [of "\<lparr>srow_id = sub_id r, srow_key = submission_key r, srow_agent = sub_agent r,
            srow_status = sub_status r, srow_record = r\<rparr>"])
        (use None False key in \<open>auto simp: insert_submission_def\<close>)
  qed
next
  case (Some e)
  with that(1) show thesis by (simp add: insert_submission_def)
qed

lemma start_execution_cases:
  obtains "snd (start_execution i froms r receipt st) = st"
    and "fst (start_execution i froms r receipt st) \<noteq> Inr True"
  | row where "fst (start_execution i froms r receipt st) = Inr True"
    and "snd (start_execution i froms r receipt st) =
      st\<lparr>submission_rows := fst (update_where (\<lambda>row. srow_id row = i \<and> srow_status row \<in> set froms)
             (set_submission r) (submission_rows st)),
         receipt_rows := receipt_rows st @ [row]\<rparr>"
    and "rrow_id row = er_id receipt" and "rrow_submission row = er_submission receipt"
    and "rrow_certificate row = er_certificate receipt" and "rrow_status row = er_status receipt"
    and "er_id receipt \<notin> set (map rrow_id (receipt_rows st))"
    and "er_submission receipt \<notin> set (map rrow_submission (receipt_rows st))"
    and "er_certificate receipt \<notin> set (map rrow_certificate (receipt_rows st))"
    and "er_submission receipt \<in> set (map srow_id (submission_rows st))"
    and "\<exists>row \<in> set (submission_rows st). srow_id row = i \<and> srow_status row \<in> set froms"
proof (cases "fst (start_execution i froms r receipt st) = Inr True")
  case True
  let ?P = "\<lambda>row. srow_id row = i \<and> srow_status row \<in> set froms"
  have one: "length (filter ?P (submission_rows st)) = 1"
    using True by (auto simp: start_execution_def update_where_def Let_def split: if_splits)
  then have ex: "\<exists>row \<in> set (submission_rows st). ?P row"
    by (metis (mono_tags, lifting) filter_False list.size(3) zero_neq_one)
  show thesis
    by (rule that(2) [of "\<lparr>rrow_id = er_id receipt, rrow_submission = er_submission receipt,
          rrow_certificate = er_certificate receipt, rrow_status = er_status receipt,
          rrow_record = receipt\<lparr>er_steps := []\<rparr>\<rparr>"])
      (use True one ex in \<open>auto simp: start_execution_def update_where_def Let_def split: if_splits\<close>)
next
  case False
  with that(1) show thesis
    by (auto simp: start_execution_def Let_def split: if_splits prod.splits)
qed

lemma save_terminal_cases:
  obtains "snd (save_terminal receipt r st) = st" and "\<not> fst (save_terminal receipt r st)"
  | "fst (save_terminal receipt r st)"
    and "snd (save_terminal receipt r st) =
      st\<lparr>receipt_rows := fst (update_where (\<lambda>row. rrow_id row = er_id receipt \<and> rrow_status row = ''running'')
             (\<lambda>row. row\<lparr>rrow_status := er_status receipt, rrow_record := receipt\<lparr>er_steps := []\<rparr>\<rparr>)
             (receipt_rows st)),
         submission_rows := fst (update_where (\<lambda>row. srow_id row = sub_id r \<and> srow_status row = ''executing'')
             (set_submission r) (submission_rows st))\<rparr>"
  by (cases "fst (save_terminal receipt r st)")
    (auto simp: save_terminal_def Let_def split: if_splits prod.splits)

lemma policy_frame [frame_simps]:
  "submission_rows (snd (put_policy t p expected st)) = submission_rows st"
  "receipt_rows (snd (put_policy t p expected st)) = receipt_rows st"
  "step_rows (snd (put_policy t p expected st)) = step_rows st"
  "submission_rows (snd (delete_policy i v st)) = submission_rows st"
  "receipt_rows (snd (delete_policy i v st)) = receipt_rows st"
  "step_rows (snd (delete_policy i v st)) = step_rows st"
  "submission_rows (snd (put_contract t c ec ei st)) = submission_rows st"
  "receipt_rows (snd (put_contract t c ec ei st)) = receipt_rows st"
  "step_rows (snd (put_contract t c ec ei st)) = step_rows st"
  "submission_rows (snd (save_step receipt_id s st)) = submission_rows st"
  "receipt_rows (snd (save_step receipt_id s st)) = receipt_rows st"
  by (auto simp: put_policy_def delete_policy_def put_contract_def save_step_def Let_def
      split: option.splits prod.splits if_splits)

lemma transition_frame [frame_simps]:
  "receipt_rows (snd (transition_submission t i froms r st)) = receipt_rows st"
  "step_rows (snd (transition_submission t i froms r st)) = step_rows st"
  "submission_rows (snd (transition_submission t i froms r st)) =
     fst (update_where (\<lambda>row. srow_id row = i \<and> srow_status row \<in> set froms)
       (set_submission (if sub_status r \<notin> set froms then r\<lparr>sub_updated := t\<rparr> else r))
       (submission_rows st))"
  by (simp_all add: transition_submission_def Let_def case_prod_beta')

subsection \<open>The invariant\<close>

definition keys_unique :: "safe_store \<Rightarrow> bool" where
  "keys_unique st \<longleftrightarrow>
     distinct (map srow_id (submission_rows st)) \<and> distinct (map srow_key (submission_rows st))
     \<and> distinct (map rrow_id (receipt_rows st)) \<and> distinct (map rrow_submission (receipt_rows st))
     \<and> distinct (map rrow_certificate (receipt_rows st))
     \<and> set (map rrow_submission (receipt_rows st)) \<subseteq> set (map srow_id (submission_rows st))"

text \<open>
  The status of a submission that was started mirrors that of its receipt; one that was not is new
  or reviewed.
\<close>

definition mirrored_status :: "string \<Rightarrow> string" where
  "mirrored_status s = (if s = ''running'' then ''executing'' else s)"

definition receipt_statuses :: "string list" where
  "receipt_statuses = ''running'' # UNKNOWN # final_statuses"

definition fresh_statuses :: "string list" where
  "fresh_statuses = initial_statuses @ review_statuses"

definition linked_pair :: "receipt_row \<Rightarrow> submission_row \<Rightarrow> bool" where
  "linked_pair r s \<longleftrightarrow>
     rrow_status r \<in> set receipt_statuses \<and> srow_status s = mirrored_status (rrow_status r)"

definition row_linked :: "receipt_row list \<Rightarrow> submission_row \<Rightarrow> bool" where
  "row_linked rs s \<longleftrightarrow>
     (\<forall>r \<in> set rs. rrow_submission r = srow_id s \<longrightarrow> linked_pair r s)
     \<and> ((\<forall>r \<in> set rs. rrow_submission r \<noteq> srow_id s) \<longrightarrow> srow_status s \<in> set fresh_statuses)"

definition status_linked :: "safe_store \<Rightarrow> bool" where
  "status_linked st \<longleftrightarrow> (\<forall>s \<in> set (submission_rows st). row_linked (receipt_rows st) s)"

definition store_ok :: "safe_store \<Rightarrow> bool" where
  "store_ok st \<longleftrightarrow> keys_unique st \<and> status_linked st"

lemmas status_defs = initial_statuses_def final_statuses_def review_statuses_def
  receipt_statuses_def mirrored_status_def fresh_statuses_def UNKNOWN_def

lemma linked_not_fresh: "linked_pair r s \<Longrightarrow> srow_status s \<notin> set fresh_statuses"
  by (auto simp: linked_pair_def status_defs)

lemma status_linkedD:
  "store_ok st \<Longrightarrow> s \<in> set (submission_rows st) \<Longrightarrow> row_linked (receipt_rows st) s"
  by (simp add: store_ok_def status_linked_def)

lemma unstarted:
  assumes "store_ok st" and "s \<in> set (submission_rows st)" and "srow_status s \<in> set fresh_statuses"
  shows "\<forall>r \<in> set (receipt_rows st). rrow_submission r \<noteq> srow_id s"
  using status_linkedD [OF assms(1,2)] assms(3) linked_not_fresh
  unfolding row_linked_def by blast

lemma store_ok_empty: "store_ok empty_store"
  by (simp add: store_ok_def keys_unique_def status_linked_def empty_store_def)

lemma store_ok_frame:
  "submission_rows st' = submission_rows st \<Longrightarrow> receipt_rows st' = receipt_rows st \<Longrightarrow>
     store_ok st \<Longrightarrow> store_ok st'"
  by (simp add: store_ok_def keys_unique_def status_linked_def)

lemma keys_unique_updates:
  assumes "keys_unique st"
    and "map srow_id (submission_rows st') = map srow_id (submission_rows st)"
    and "map srow_key (submission_rows st') = map srow_key (submission_rows st)"
    and "map rrow_id (receipt_rows st') = map rrow_id (receipt_rows st)"
    and "map rrow_submission (receipt_rows st') = map rrow_submission (receipt_rows st)"
    and "map rrow_certificate (receipt_rows st') = map rrow_certificate (receipt_rows st)"
  shows "keys_unique st'"
  using assms(1) unfolding keys_unique_def assms(2-6) .

lemma not_mapped: "x \<notin> set (map f rows) \<longleftrightarrow> (\<forall>r \<in> set rows. f r \<noteq> x)"
  by auto

lemma store_ok_insert:
  assumes "store_ok st" and "sub_status r \<in> set initial_statuses"
  shows "store_ok (snd (insert_submission r st))"
proof (rule insert_submission_cases [of r st])
  assume "snd (insert_submission r st) = st"
  with assms(1) show ?thesis by simp
next
  fix row
  assume new: "snd (insert_submission r st) = st\<lparr>submission_rows := submission_rows st @ [row]\<rparr>"
    "srow_id row = sub_id r" "srow_key row = submission_key r" "srow_status row = sub_status r"
    "sub_id r \<notin> set (map srow_id (submission_rows st))"
    "submission_key r \<notin> set (map srow_key (submission_rows st))"
  have "sub_id r \<notin> set (map rrow_submission (receipt_rows st))"
    using assms(1) new(5) unfolding store_ok_def keys_unique_def by blast
  then have "row_linked (receipt_rows st) row"
    using new assms(2) unfolding not_mapped by (auto simp: row_linked_def fresh_statuses_def)
  with assms(1) new show ?thesis
    by (auto simp: store_ok_def keys_unique_def status_linked_def)
qed

lemma transition_mem:
  "s \<in> set (submission_rows (snd (transition_submission t i froms r st))) \<longleftrightarrow>
     (\<exists>s0 \<in> set (submission_rows st).
        s = (if srow_id s0 = i \<and> srow_status s0 \<in> set froms
             then set_submission (if sub_status r \<notin> set froms then r\<lparr>sub_updated := t\<rparr> else r) s0
             else s0))"
  by (simp add: transition_frame update_where_mem)

lemma store_ok_transition:
  assumes ok: "store_ok st" and froms: "set froms \<subseteq> set fresh_statuses"
    and to: "sub_status r \<in> set fresh_statuses"
  shows "store_ok (snd (transition_submission t i froms r st))"
proof -
  let ?st = "snd (transition_submission t i froms r st)"
  have "keys_unique ?st"
  proof (rule keys_unique_updates)
    show "keys_unique st" using ok by (simp add: store_ok_def)
  qed (simp_all add: transition_frame update_where_frame)
  moreover have "row_linked (receipt_rows st) s" if "s \<in> set (submission_rows ?st)" for s
  proof -
    obtain s0 where s0: "s0 \<in> set (submission_rows st)"
      and s: "s = (if srow_id s0 = i \<and> srow_status s0 \<in> set froms
        then set_submission (if sub_status r \<notin> set froms then r\<lparr>sub_updated := t\<rparr> else r) s0 else s0)"
      using \<open>s \<in> set (submission_rows ?st)\<close> unfolding transition_mem by blast
    show ?thesis
    proof (cases "srow_id s0 = i \<and> srow_status s0 \<in> set froms")
      case True
      then have "\<forall>r \<in> set (receipt_rows st). rrow_submission r \<noteq> srow_id s0"
        using unstarted [OF ok s0] froms by blast
      with True s to show ?thesis by (simp add: row_linked_def)
    next
      case False
      with s status_linkedD [OF ok s0] show ?thesis by (simp only: if_False)
    qed
  qed
  ultimately show ?thesis by (simp add: store_ok_def status_linked_def transition_frame)
qed

lemma store_ok_start:
  assumes ok: "store_ok st" and froms: "set froms \<subseteq> set fresh_statuses"
    and exec: "sub_status r = ''executing''" and run: "er_status receipt = ''running''"
    and id: "er_submission receipt = i"
  shows "store_ok (snd (start_execution i froms r receipt st))"
proof (rule start_execution_cases [of i froms r receipt st])
  assume "snd (start_execution i froms r receipt st) = st"
  with ok show ?thesis by simp
next
  fix row
  let ?P = "\<lambda>row. srow_id row = i \<and> srow_status row \<in> set froms"
  assume st': "snd (start_execution i froms r receipt st) =
      st\<lparr>submission_rows := fst (update_where ?P (set_submission r) (submission_rows st)),
         receipt_rows := receipt_rows st @ [row]\<rparr>"
    and row: "rrow_id row = er_id receipt" "rrow_submission row = er_submission receipt"
      "rrow_certificate row = er_certificate receipt" "rrow_status row = er_status receipt"
    and new: "er_id receipt \<notin> set (map rrow_id (receipt_rows st))"
      "er_submission receipt \<notin> set (map rrow_submission (receipt_rows st))"
      "er_certificate receipt \<notin> set (map rrow_certificate (receipt_rows st))"
      "er_submission receipt \<in> set (map srow_id (submission_rows st))"
      "\<exists>row \<in> set (submission_rows st). srow_id row = i \<and> srow_status row \<in> set froms"
  have uniq: "keys_unique st" using ok by (simp add: store_ok_def)
  then have "keys_unique (snd (start_execution i froms r receipt st))"
    using row new by (auto simp: st' keys_unique_def update_where_frame)
  moreover have "row_linked (receipt_rows st @ [row]) s"
    if mem: "s \<in> set (fst (update_where ?P (set_submission r) (submission_rows st)))" for s
  proof -
    obtain s0 where s0: "s0 \<in> set (submission_rows st)" and s: "s = (if ?P s0 then set_submission r s0 else s0)"
      using mem unfolding update_where_mem by blast
    show ?thesis
    proof (cases "srow_id s0 = i")
      case True
      have "?P s0"
        using new(5) s0 True uniq
        by (auto simp: keys_unique_def distinct_map dest: inj_onD)
      then have "s = set_submission r s0" using s by simp
      moreover have "linked_pair row (set_submission r s0)"
        using row run exec by (simp add: linked_pair_def status_defs)
      ultimately show ?thesis
        using True new(2) row(2) id unfolding not_mapped by (auto simp: row_linked_def)
    next
      case False
      then have "s = s0" using s by simp
      with False status_linkedD [OF ok s0] row(2) id show ?thesis by (auto simp: row_linked_def)
    qed
  qed
  ultimately show ?thesis by (simp add: store_ok_def status_linked_def st')
qed

text \<open>An end of an execution and a restart change the two statuses together.\<close>

lemma same_submission:
  assumes "keys_unique st" and "a \<in> set (receipt_rows st)" and "b \<in> set (receipt_rows st)"
  shows "rrow_submission a = rrow_submission b \<longleftrightarrow> a = b" and "rrow_id a = rrow_id b \<longleftrightarrow> a = b"
  using assms by (auto simp: keys_unique_def distinct_map dest: inj_onD)

lemma linked_executing:
  "linked_pair r s \<Longrightarrow> srow_status s = ''executing'' \<longleftrightarrow> rrow_status r = ''running''"
  by (auto simp: linked_pair_def status_defs)

lemma fresh_not_executing: "''executing'' \<notin> set fresh_statuses"
  by (simp add: status_defs)

lemma row_linked_map:
  assumes "\<And>x. rrow_submission (g x) = rrow_submission x"
    and "\<And>x. x \<in> set rs \<Longrightarrow> rrow_submission x = srow_id s \<Longrightarrow> linked_pair (g x) s"
    and "\<forall>x \<in> set rs. rrow_submission x \<noteq> srow_id s \<Longrightarrow> srow_status s \<in> set fresh_statuses"
  shows "row_linked (map g rs) s"
  using assms by (auto simp: row_linked_def)

lemma store_ok_finish:
  assumes ok: "store_ok st" and final: "er_status receipt \<in> set final_statuses"
    and same: "sub_status r = er_status receipt" and holds: "holds_receipt st receipt r"
  shows "store_ok (snd (save_terminal receipt r st))"
proof (rule save_terminal_cases [of receipt r st])
  assume "snd (save_terminal receipt r st) = st"
  with ok show ?thesis by simp
next
  let ?R = "\<lambda>row. rrow_id row = er_id receipt \<and> rrow_status row = ''running''"
  let ?S = "\<lambda>row. srow_id row = sub_id r \<and> srow_status row = ''executing''"
  let ?fr = "\<lambda>row. row\<lparr>rrow_status := er_status receipt, rrow_record := receipt\<lparr>er_steps := []\<rparr>\<rparr>"
  assume st': "snd (save_terminal receipt r st) =
      st\<lparr>receipt_rows := fst (update_where ?R ?fr (receipt_rows st)),
         submission_rows := fst (update_where ?S (set_submission r) (submission_rows st))\<rparr>"
  have uniq: "keys_unique st" using ok by (simp add: store_ok_def)
  obtain h where h: "h \<in> set (receipt_rows st)" "rrow_id h = er_id receipt" "rrow_submission h = sub_id r"
    using holds by (auto simp: holds_receipt_def)
  have "keys_unique (snd (save_terminal receipt r st))"
  proof (rule keys_unique_updates)
    show "keys_unique st" by (rule uniq)
  qed (simp_all add: st' update_where_frame)
  moreover have "row_linked (fst (update_where ?R ?fr (receipt_rows st))) s"
    if mem: "s \<in> set (fst (update_where ?S (set_submission r) (submission_rows st)))" for s
  proof -
    obtain s0 where s0: "s0 \<in> set (submission_rows st)" and s: "s = (if ?S s0 then set_submission r s0 else s0)"
      using mem unfolding update_where_mem by blast
    note link0 = status_linkedD [OF ok s0]
    have id: "srow_id s = srow_id s0" using s by simp
    have pair: "linked_pair (if ?R x then ?fr x else x) s"
      if x: "x \<in> set (receipt_rows st)" "rrow_submission x = srow_id s0" for x
    proof -
      have lp: "linked_pair x s0" using link0 x by (simp add: row_linked_def)
      have "?R x \<longleftrightarrow> ?S s0"
        using same_submission [OF uniq x(1) h(1)] h x(2) linked_executing [OF lp] by auto
      then show ?thesis
        using lp s final same by (auto simp: linked_pair_def status_defs)
    qed
    have "srow_status s \<in> set fresh_statuses"
      if none: "\<forall>x \<in> set (receipt_rows st). rrow_submission x \<noteq> srow_id s0"
    proof -
      have "srow_status s0 \<in> set fresh_statuses" using link0 none by (simp add: row_linked_def)
      then have "\<not> ?S s0" using fresh_not_executing by auto
      with s \<open>srow_status s0 \<in> set fresh_statuses\<close> show ?thesis by simp
    qed
    with pair show ?thesis
      unfolding update_where_def fst_conv by (intro row_linked_map) (simp_all add: id)
  qed
  ultimately show ?thesis by (simp add: store_ok_def status_linked_def st')
qed

lemma init_store_frame [frame_simps]:
  "map srow_id (submission_rows (init_store t st)) = map srow_id (submission_rows st)"
  "map srow_key (submission_rows (init_store t st)) = map srow_key (submission_rows st)"
  "map rrow_id (receipt_rows (init_store t st)) = map rrow_id (receipt_rows st)"
  "map rrow_submission (receipt_rows (init_store t st)) = map rrow_submission (receipt_rows st)"
  "map rrow_certificate (receipt_rows (init_store t st)) = map rrow_certificate (receipt_rows st)"
  by (simp_all add: init_store_def update_where_frame)

definition recovered_receipt :: "string \<Rightarrow> receipt_row \<Rightarrow> receipt_row" where
  "recovered_receipt t row =
     row\<lparr>rrow_status := UNKNOWN,
         rrow_record := (rrow_record row)\<lparr>er_status := UNKNOWN, er_finished := Some t,
           er_error := Some ''Core stopped while execution was in progress''\<rparr>\<rparr>"

definition recovered_submission :: "string \<Rightarrow> submission_row \<Rightarrow> submission_row" where
  "recovered_submission t row =
     row\<lparr>srow_status := UNKNOWN,
         srow_record := (srow_record row)\<lparr>sub_status := UNKNOWN, sub_updated := t\<rparr>\<rparr>"

lemma init_store_rows:
  "receipt_rows (init_store t st) =
     map (\<lambda>r. if rrow_status r = ''running'' then recovered_receipt t r else r) (receipt_rows st)"
  "submission_rows (init_store t st) =
     map (\<lambda>s. if srow_status s = ''executing'' then recovered_submission t s else s) (submission_rows st)"
  by (simp_all add: init_store_def update_where_def recovered_receipt_def recovered_submission_def)

lemma store_ok_restart:
  assumes ok: "store_ok st"
  shows "store_ok (init_store t st)"
proof -
  have "keys_unique (init_store t st)"
    using ok by (simp add: store_ok_def keys_unique_def init_store_frame del: set_map)
  moreover have "row_linked (receipt_rows (init_store t st))
      (if srow_status s = ''executing'' then recovered_submission t s else s)"
    if s: "s \<in> set (submission_rows st)" for s
  proof -
    note link = status_linkedD [OF ok s]
    have "linked_pair (if rrow_status x = ''running'' then recovered_receipt t x else x)
        (if srow_status s = ''executing'' then recovered_submission t s else s)"
      if x: "x \<in> set (receipt_rows st)" "rrow_submission x = srow_id s" for x
    proof -
      have lp: "linked_pair x s" using link x by (simp add: row_linked_def)
      show ?thesis using linked_executing [OF lp] lp
        by (auto simp: linked_pair_def recovered_receipt_def recovered_submission_def status_defs)
    qed
    moreover have "srow_status s \<in> set fresh_statuses \<and> srow_status s \<noteq> ''executing''"
      if "\<forall>x \<in> set (receipt_rows st). rrow_submission x \<noteq> srow_id s"
      using link that fresh_not_executing unfolding row_linked_def by metis
    moreover have "srow_id (if srow_status s = ''executing'' then recovered_submission t s else s) = srow_id s"
      by (simp add: recovered_submission_def)
    ultimately show ?thesis
      unfolding init_store_rows by (intro row_linked_map) (simp_all add: recovered_receipt_def)
  qed
  ultimately show ?thesis
    unfolding store_ok_def status_linked_def init_store_rows(2) set_map by blast
qed

lemma store_ok_step: "store_step st st' \<Longrightarrow> store_ok st \<Longrightarrow> store_ok st'"
proof (induction rule: store_step.induct)
  case (step_insert r st)
  then show ?case by (simp add: store_ok_insert)
next
  case (step_review r st t i)
  then show ?case by (intro store_ok_transition) (auto simp: status_defs)
next
  case (step_resume r st t i)
  then show ?case by (intro store_ok_transition) (auto simp: status_defs)
next
  case (step_start from_statuses r receipt i st)
  then show ?case by (intro store_ok_start) (auto simp: status_defs)
next
  case (step_finish receipt r st)
  then show ?case by (simp add: store_ok_finish)
qed (auto intro: store_ok_frame store_ok_restart simp: policy_frame)

lemma reachable_ok: "store_step\<^sup>*\<^sup>* empty_store st \<Longrightarrow> store_ok st"
  by (induction rule: rtranclp_induct) (auto intro: store_ok_empty store_ok_step)

subsection \<open>Executed at most once\<close>

type_synonym start_request = "string list \<times> submission_record \<times> execution_receipt"

definition start_key :: "start_request \<Rightarrow> string" where
  "start_key a = er_submission (snd (snd a))"

definition try_start :: "start_request \<Rightarrow> safe_store \<Rightarrow> safe_store option" where
  "try_start a st =
     (case a of (froms, r, receipt) \<Rightarrow>
        (case start_execution (er_submission receipt) froms r receipt st of
           (Inr True, st') \<Rightarrow> Some st'
         | _ \<Rightarrow> None))"

definition started :: "safe_store \<Rightarrow> string \<Rightarrow> bool" where
  "started st i \<longleftrightarrow> i \<in> set (map rrow_submission (receipt_rows st))"

definition try_insert :: "submission_record \<Rightarrow> safe_store \<Rightarrow> safe_store option" where
  "try_insert r st =
     (if get_submission_by_key st (submission_key r) \<noteq> None then None
      else (case insert_submission r st of (Inr x, st') \<Rightarrow> Some st' | _ \<Rightarrow> None))"

definition known_key :: "safe_store \<Rightarrow> string \<Rightarrow> bool" where
  "known_key st k \<longleftrightarrow> k \<in> set (map srow_key (submission_rows st))"

text \<open>No step loses a row: it appends, or changes rows in place.\<close>

lemma step_keeps_keys:
  assumes "store_step st st'"
  shows "set (map srow_key (submission_rows st)) \<subseteq> set (map srow_key (submission_rows st'))
    \<and> set (map rrow_submission (receipt_rows st)) \<subseteq> set (map rrow_submission (receipt_rows st'))"
  using assms
proof (induction rule: store_step.induct)
  case (step_insert r st)
  then show ?case by (rule_tac insert_submission_cases [of r st]) auto
next
  case (step_start from_statuses r receipt i st)
  then show ?case
    by (rule_tac start_execution_cases [of i from_statuses r receipt st])
      (simp_all add: update_where_frame del: set_map, auto)
next
  case (step_finish receipt r st)
  then show ?case
    by (rule_tac save_terminal_cases [of receipt r st]) (simp_all add: update_where_frame del: set_map)
next
  case (step_restart st t)
  then show ?case by (simp add: init_store_frame del: set_map)
qed (simp_all add: policy_frame transition_frame update_where_frame del: set_map)

lemma start_refused:
  "started st (er_submission receipt) \<Longrightarrow> fst (start_execution i froms r receipt st) \<noteq> Inr True"
  by (auto simp: start_execution_def started_def Let_def split: prod.split)

interpretation executions: write_once start_key try_start started store_step
proof
  fix a s s' assume "try_start a s = Some s'"
  then obtain froms r receipt where a: "a = (froms, r, receipt)"
    and run: "start_execution (er_submission receipt) froms r receipt s = (Inr True, s')"
    by (cases a) (auto simp: try_start_def split: prod.splits sum.splits bool.splits)
  show "started s' (start_key a)"
    by (rule start_execution_cases [of "er_submission receipt" froms r receipt s])
      (use run a in \<open>auto simp: started_def start_key_def\<close>)
next
  fix s s' k assume "store_step s s'" and "started s k"
  then show "started s' k" using step_keeps_keys unfolding started_def by blast
next
  fix s a assume "started s (start_key a)"
  moreover obtain froms r receipt where a: "a = (froms, r, receipt)" by (cases a)
  ultimately have "fst (start_execution (er_submission receipt) froms r receipt s) \<noteq> Inr True"
    using start_refused by (simp add: start_key_def)
  then show "try_start a s = None"
    by (auto simp: a try_start_def split: prod.split sum.split bool.split)
qed

interpretation submissions: write_once submission_key try_insert known_key store_step
proof
  fix a s s' assume "try_insert a s = Some s'"
  then have "get_submission_by_key s (submission_key a) = None"
    and "\<exists>x. insert_submission a s = (Inr x, s')"
    by (auto simp: try_insert_def split: if_splits prod.splits sum.splits)
  then show "known_key s' (submission_key a)"
    by (auto simp: insert_submission_def known_key_def split: if_splits)
next
  fix s s' k assume "store_step s s'" and "known_key s k"
  then show "known_key s' k" using step_keeps_keys unfolding known_key_def by blast
next
  fix s and a :: submission_record assume "known_key s (submission_key a)"
  then have "get_submission_by_key s (submission_key a) \<noteq> None"
    by (auto simp: get_submission_by_key_def known_key_def find_None_iff)
  then show "try_insert a s = None" by (simp add: try_insert_def)
qed

subsection \<open>What is final stays\<close>

lemma update_keeps:
  "row \<in> set rows \<Longrightarrow> \<not> p row \<Longrightarrow> row \<in> set (fst (update_where p f rows))"
  by (auto simp: update_where_def)

lemma finished_step:
  assumes "store_step st st'" and "row \<in> set (receipt_rows st)" and "rrow_status row \<noteq> ''running''"
  shows "row \<in> set (receipt_rows st')"
  using assms
proof (induction rule: store_step.induct)
  case (step_insert r st)
  then show ?case by (rule_tac insert_submission_cases [of r st]) auto
next
  case (step_start from_statuses r receipt i st)
  then show ?case by (rule_tac start_execution_cases [of i from_statuses r receipt st]) auto
next
  case (step_finish receipt r st)
  then show ?case
    by (rule_tac save_terminal_cases [of receipt r st]) (auto intro: update_keeps)
next
  case (step_restart st t)
  then show ?case by (auto simp: init_store_def intro: update_keeps)
qed (simp_all add: policy_frame transition_frame)

lemma finished_forever:
  "store_step\<^sup>*\<^sup>* st st' \<Longrightarrow> row \<in> set (receipt_rows st) \<Longrightarrow> rrow_status row \<noteq> ''running'' \<Longrightarrow>
     row \<in> set (receipt_rows st')"
  by (induction rule: rtranclp_induct) (auto intro: finished_step)

definition refused_statuses :: "string list" where
  "refused_statuses = [''denied'', ''invalidated'', ''denied_by_reviewer'']"

lemma refused_step:
  assumes "store_step st st'" and "row \<in> set (submission_rows st)"
    and "srow_status row \<in> set refused_statuses"
  shows "row \<in> set (submission_rows st')"
  using assms
proof (induction rule: store_step.induct)
  case (step_insert r st)
  then show ?case by (rule_tac insert_submission_cases [of r st]) auto
next
  case (step_start from_statuses r receipt i st)
  then show ?case
    by (rule_tac start_execution_cases [of i from_statuses r receipt st])
      (auto simp: refused_statuses_def intro!: update_keeps)
next
  case (step_finish receipt r st)
  then show ?case
    by (rule_tac save_terminal_cases [of receipt r st])
      (auto simp: refused_statuses_def intro!: update_keeps)
next
  case (step_restart st t)
  then show ?case by (auto simp: init_store_def refused_statuses_def intro!: update_keeps)
qed (auto simp: policy_frame transition_frame refused_statuses_def intro!: update_keeps)

lemma refused_forever:
  "store_step\<^sup>*\<^sup>* st st' \<Longrightarrow> row \<in> set (submission_rows st) \<Longrightarrow>
     srow_status row \<in> set refused_statuses \<Longrightarrow> row \<in> set (submission_rows st')"
  by (induction rule: rtranclp_induct) (auto intro: refused_step)

lemma refused_never_started:
  assumes "store_ok st" and "store_step\<^sup>*\<^sup>* st st'" and "row \<in> set (submission_rows st)"
    and "srow_status row \<in> set refused_statuses"
  shows "\<not> started st' (srow_id row)"
proof -
  have "store_ok st'" using assms(2,1) by (induction rule: rtranclp_induct) (auto intro: store_ok_step)
  moreover have "row \<in> set (submission_rows st')" using refused_forever assms(2-4) by blast
  moreover have "srow_status row \<in> set fresh_statuses"
    using assms(4) by (auto simp: refused_statuses_def status_defs)
  ultimately show ?thesis using unstarted unfolding started_def not_mapped by blast
qed

text \<open>After a restart nothing is running, and what was running is unknown.\<close>

lemma restart_quiescent:
  "\<forall>r \<in> set (receipt_rows (init_store t st)). rrow_status r \<noteq> ''running''"
  "\<forall>s \<in> set (submission_rows (init_store t st)). srow_status s \<noteq> ''executing''"
  by (auto simp: init_store_rows recovered_receipt_def recovered_submission_def UNKNOWN_def)

end
