(* ===== verification/SafeActions_PolicyStore.thy ===== *)
theory SafeActions_PolicyStore
  imports SafeActions_Lifecycle
begin

section \<open>Policies under concurrent edits\<close>

text \<open>
  What \<open>put_policy\<close>, \<open>delete_policy\<close> and \<open>put_contract\<close> of \<open>store.rs\<close> promise to editors that read
  a version and write it back: the write succeeds exactly when nobody wrote in between, the next
  read returns it, and every agent it names is bound to it and to nothing else.
\<close>

definition stored_policy :: "safe_store \<Rightarrow> string \<Rightarrow> policy_record option" where
  "stored_policy st i =
     map_option prow_record (List.find (\<lambda>row. prow_id row = i) (policy_rows st))"

definition policies_ok :: "safe_store \<Rightarrow> bool" where
  "policies_ok st \<longleftrightarrow>
     distinct (map prow_id (policy_rows st))
     \<and> (\<forall>row \<in> set (policy_rows st). prow_id row = pr_id (prow_record row)
          \<and> prow_version row = to_i64 (pr_version (prow_record row)))
     \<and> distinct (map fst (binding_rows st))
     \<and> snd ` set (binding_rows st) \<subseteq> set (map prow_id (policy_rows st))"

lemma policies_ok_empty: "policies_ok empty_store"
  by (simp add: policies_ok_def empty_store_def)

text \<open>The record \<open>put_policy\<close> writes.\<close>

definition next_policy :: "string \<Rightarrow> policy_record \<Rightarrow> policy_record option \<Rightarrow> policy_record" where
  "next_policy t r existing =
     r\<lparr>pr_version := (case existing of None \<Rightarrow> 1 | Some item \<Rightarrow> sat_add_u64 (pr_version item) 1),
       pr_created := (case existing of None \<Rightarrow> t | Some item \<Rightarrow> pr_created item),
       pr_updated := t, pr_agents := remdups_adj (sort (pr_agents r))\<rparr>"

definition policy_write_allowed :: "policy_record option \<Rightarrow> u64 option \<Rightarrow> bool" where
  "policy_write_allowed existing expected \<longleftrightarrow> expected = map_option pr_version existing"

definition written_rows :: "policy_record \<Rightarrow> safe_store \<Rightarrow> policy_row list" where
  "written_rows r1 st =
     (if stored_policy st (pr_id r1) = None
      then policy_rows st
        @ [\<lparr>prow_id = pr_id r1, prow_version = to_i64 (pr_version r1), prow_record = r1\<rparr>]
      else map (\<lambda>row. if prow_id row = pr_id r1
             then row\<lparr>prow_version := to_i64 (pr_version r1), prow_record := r1\<rparr> else row)
           (policy_rows st))"

lemma stored_policy_row:
  assumes "policies_ok st" and "row \<in> set (policy_rows st)"
  shows "stored_policy st (prow_id row) = Some (prow_record row)"
  using assms find_distinct [of prow_id "policy_rows st" row]
  by (simp add: stored_policy_def policies_ok_def)

lemma stored_policy_None: "stored_policy st i = None \<longleftrightarrow> i \<notin> set (map prow_id (policy_rows st))"
  by (auto simp: stored_policy_def find_None_iff)

lemma stored_policy_Some:
  "stored_policy st i = Some p \<Longrightarrow> \<exists>row \<in> set (policy_rows st). prow_id row = i \<and> prow_record row = p"
  by (auto simp: stored_policy_def find_Some_iff)

lemma next_policy_id [simp]: "pr_id (next_policy t r e) = pr_id r" "pr_policy (next_policy t r e) = pr_policy r"
  by (simp_all add: next_policy_def)

text \<open>The guarded update changes exactly the row of the policy.\<close>

lemma update_one_policy:
  assumes ok: "policies_ok st" and ex: "stored_policy st i = Some item"
  shows "update_where (\<lambda>row. prow_id row = i \<and> prow_version row = to_i64 (pr_version item)) f (policy_rows st)
    = (map (\<lambda>row. if prow_id row = i then f row else row) (policy_rows st), 1)"
proof -
  obtain row where row: "row \<in> set (policy_rows st)" "prow_id row = i" "prow_record row = item"
    using stored_policy_Some [OF ex] by blast
  have d: "distinct (map prow_id (policy_rows st))" using ok by (simp add: policies_ok_def)
  have v: "prow_version x = to_i64 (pr_version item)"
    if "x \<in> set (policy_rows st)" "prow_id x = i" for x
  proof -
    have "x = row" using d that row by (auto simp: distinct_map dest: inj_onD)
    then show ?thesis using ok row by (auto simp: policies_ok_def)
  qed
  have "length (filter (\<lambda>x. prow_id x = i) rows) = 1"
    if "distinct (map prow_id rows)" "row \<in> set rows" for rows
    using that row(2)
  proof (induction rows)
    case (Cons r rows)
    have none: "filter (\<lambda>x. prow_id x = i) rows = []" if "i \<notin> set (map prow_id rows)"
      using that by (auto simp: filter_empty_conv)
    from Cons show ?case by (cases "prow_id r = i") (use none in auto)
  qed simp
  moreover have "filter (\<lambda>x. prow_id x = i \<and> prow_version x = to_i64 (pr_version item)) (policy_rows st)
      = filter (\<lambda>x. prow_id x = i) (policy_rows st)"
    by (rule filter_cong) (auto simp: v)
  moreover have "map (\<lambda>x. if prow_id x = i \<and> prow_version x = to_i64 (pr_version item) then f x else x)
      (policy_rows st) = map (\<lambda>x. if prow_id x = i then f x else x) (policy_rows st)"
    by (rule map_cong) (auto simp: v)
  ultimately show ?thesis using d row(1) by (simp add: update_where_def)
qed

lemma put_policy_result:
  assumes ok: "policies_ok st"
  shows "put_policy t r expected st =
    (let existing = stored_policy st (pr_id r); r1 = next_policy t r existing in
     if policy_write_allowed existing expected
     then (Inr r1,
           st\<lparr>policy_rows := written_rows r1 st,
              binding_rows := fold (bind_agent (pr_id r)) (pr_agents r1)
                (filter (\<lambda>(a, p). p \<noteq> pr_id r) (binding_rows st))\<rparr>)
     else
       (Inl (case (existing, expected) of
           (Some item, None) \<Rightarrow> PolicyExists | (None, Some v) \<Rightarrow> PolicyMissing
         | _ \<Rightarrow> PolicyVersionConflict), st))"
proof (cases "stored_policy st (pr_id r)")
  case None
  then have "List.find (\<lambda>row. prow_id row = pr_id r) (policy_rows st) = None"
    by (simp add: stored_policy_def)
  with None show ?thesis
    by (cases expected)
      (simp_all add: put_policy_def policy_write_allowed_def next_policy_def written_rows_def Let_def)
next
  case (Some item)
  then have find: "map_option prow_record (List.find (\<lambda>row. prow_id row = pr_id r) (policy_rows st)) = Some item"
    by (simp add: stored_policy_def)
  show ?thesis
    using Some update_one_policy [OF ok Some] find
    by (cases expected)
      (auto simp: put_policy_def policy_write_allowed_def next_policy_def written_rows_def Let_def)
qed

lemma put_policy_succeeds:
  assumes "policies_ok st"
  shows "isl (fst (put_policy t r expected st)) \<longleftrightarrow>
    \<not> policy_write_allowed (stored_policy st (pr_id r)) expected"
  by (simp add: put_policy_result [OF assms] Let_def)

lemma put_policy_read:
  assumes ok: "policies_ok st" and put: "put_policy t r expected st = (Inr r1, st1)"
  shows "stored_policy st1 i = (if i = pr_id r then Some r1 else stored_policy st i)"
proof -
  have r1: "r1 = next_policy t r (stored_policy st (pr_id r))" "policy_rows st1 = written_rows r1 st"
    using put by (auto simp: put_policy_result [OF ok] Let_def split: if_splits)
  then have id: "pr_id r1 = pr_id r" by (simp add: next_policy_def)
  have find_append: "List.find P (xs @ [x]) = (case List.find P xs of Some y \<Rightarrow> Some y
      | None \<Rightarrow> if P x then Some x else None)" for P and x :: policy_row and xs
    by (induction xs) auto
  show ?thesis
  proof (cases "stored_policy st (pr_id r)")
    case None
    then show ?thesis
      by (auto simp: stored_policy_def r1(2) written_rows_def id find_append split: option.split)
  next
    case (Some item)
    have upd: "map_option prow_record (List.find (\<lambda>row. prow_id row = i)
        (map (\<lambda>row. if prow_id row = pr_id r then row\<lparr>prow_version := v, prow_record := r1\<rparr> else row) rows)) =
      (if i = pr_id r \<and> pr_id r \<in> set (map prow_id rows) then Some r1
       else map_option prow_record (List.find (\<lambda>row. prow_id row = i) rows))"
      for v and rows :: "policy_row list"
      by (induction rows) auto
    have "pr_id r \<in> set (map prow_id (policy_rows st))"
      using Some stored_policy_None by (metis option.distinct(1))
    moreover have "written_rows r1 st =
        map (\<lambda>row. if prow_id row = pr_id r
          then row\<lparr>prow_version := to_i64 (pr_version r1), prow_record := r1\<rparr> else row) (policy_rows st)"
      using Some by (simp add: written_rows_def id)
    ultimately show ?thesis by (simp add: stored_policy_def r1(2) upd del: set_map)
  qed
qed

text \<open>Of two editors that read the same version, the second one to write is refused.\<close>

lemma put_policy_version:
  assumes "policies_ok st" and "put_policy t r expected st = (Inr r1, st1)"
  shows "pr_version r1 =
    (case stored_policy st (pr_id r) of None \<Rightarrow> 1 | Some item \<Rightarrow> sat_add_u64 (pr_version item) 1)"
  using assms by (auto simp: put_policy_result Let_def next_policy_def split: if_splits)

lemma sat_add_u64_neq: "v \<noteq> - 1 \<Longrightarrow> sat_add_u64 v 1 \<noteq> v"
  by (simp add: sat_add_u64_def)

subsection \<open>Bindings\<close>

lemma rebind_get:
  "map_of (map (\<lambda>(b, p). (b, if b = agent then i else p)) rs) a =
     (if a = agent then map_option (\<lambda>p. i) (map_of rs a) else map_of rs a)"
  by (induction rs) (auto split: prod.split)

lemma rebind_fst: "map fst (map (\<lambda>(b, p). (b, if b = agent then i else p)) rs) = map fst rs"
  by (induction rs) auto

lemma bind_agent_get:
  "map_of (bind_agent i agent rows) a = (if a = agent then Some i else map_of rows a)"
proof (cases "map_of rows agent")
  case None
  then have "agent \<notin> set (map fst rows)" by (simp add: map_of_eq_None_iff)
  with None show ?thesis by (auto simp: bind_agent_def map_add_def split: option.split)
next
  case (Some q)
  then have "agent \<in> set (map fst rows)" by (force dest: map_of_SomeD)
  with Some show ?thesis by (simp add: bind_agent_def rebind_get)
qed

lemma bind_agent_distinct:
  "distinct (map fst rows) \<Longrightarrow> distinct (map fst (bind_agent i agent rows))"
  by (simp add: bind_agent_def rebind_fst del: map_map)

lemma bind_agent_targets: "snd ` set (bind_agent i agent rows) \<subseteq> insert i (snd ` set rows)"
  by (auto simp: bind_agent_def split: if_splits)

lemma bind_agents:
  "map_of (fold (bind_agent i) agents rows) a = (if a \<in> set agents then Some i else map_of rows a)"
  "distinct (map fst rows) \<Longrightarrow> distinct (map fst (fold (bind_agent i) agents rows))"
  "snd ` set (fold (bind_agent i) agents rows) \<subseteq> insert i (snd ` set rows)"
proof (induction agents arbitrary: rows)
  case (Cons agent agents)
  { case 1 show ?case using Cons.IH(1) by (simp add: bind_agent_get) }
  { case 2 then show ?case using Cons.IH(2) bind_agent_distinct by simp }
  { case 3 show ?case using Cons.IH(3) [of "bind_agent i agent rows"] bind_agent_targets
      by (simp only: fold_simps) blast }
qed auto

lemma map_of_filter_other:
  "distinct (map fst rows) \<Longrightarrow>
     map_of (filter (\<lambda>(a, p). p \<noteq> i) rows) a =
       (case map_of rows a of Some p \<Rightarrow> if p = i then None else Some p | None \<Rightarrow> None)"
proof (induction rows)
  case (Cons row rows)
  have "map_of (filter Q rows) b = None" if "b \<notin> set (map fst rows)" for Q b
    using that by (force simp: map_of_eq_None_iff)
  with Cons show ?case by (cases row) (auto split: option.split)
qed simp

lemma put_policy_ok:
  assumes ok: "policies_ok st"
  shows "policies_ok (snd (put_policy t r expected st))"
proof (cases "policy_write_allowed (stored_policy st (pr_id r)) expected")
  case False
  then show ?thesis using ok by (simp add: put_policy_result Let_def)
next
  case True
  let ?r1 = "next_policy t r (stored_policy st (pr_id r))"
  let ?kept = "filter (\<lambda>(a, p). p \<noteq> pr_id r) (binding_rows st)"
  let ?st1 = "snd (put_policy t r expected st)"
  have id: "pr_id ?r1 = pr_id r" by (simp add: next_policy_def)
  have rows: "policy_rows ?st1 = written_rows ?r1 st"
    and binds: "binding_rows ?st1 = fold (bind_agent (pr_id r)) (pr_agents ?r1) ?kept"
    using True by (simp_all add: put_policy_result [OF ok] Let_def)
  have "map prow_id (map (\<lambda>row. if prow_id row = pr_id r then row\<lparr>prow_version := v, prow_record := ?r1\<rparr> else row) xs)
      = map prow_id xs" for v xs by simp
  then have ids: "set (map prow_id (written_rows ?r1 st)) = insert (pr_id r) (set (map prow_id (policy_rows st)))"
    "distinct (map prow_id (written_rows ?r1 st))"
    using ok stored_policy_None [of st "pr_id r"]
    by (auto simp: written_rows_def id policies_ok_def comp_def if_distrib cong: if_cong)
  moreover have "\<forall>row \<in> set (written_rows ?r1 st). prow_id row = pr_id (prow_record row)
      \<and> prow_version row = to_i64 (pr_version (prow_record row))"
    using ok by (auto simp: written_rows_def id policies_ok_def)
  moreover have "distinct (map fst ?kept)"
    using ok by (auto simp: policies_ok_def distinct_map_filter)
  then have "distinct (map fst (binding_rows ?st1))" unfolding binds by (rule bind_agents(2))
  moreover have "snd ` set ?kept \<subseteq> set (map prow_id (policy_rows st))"
    using ok by (auto simp: policies_ok_def)
  then have "snd ` set (binding_rows ?st1) \<subseteq> insert (pr_id r) (set (map prow_id (policy_rows st)))"
    using bind_agents(3) [of "pr_id r" "pr_agents ?r1" ?kept] unfolding binds by blast
  ultimately show ?thesis by (simp only: policies_ok_def rows simp_thms)
qed

text \<open>After a write, the policy of an agent it names is the one written.\<close>

lemma put_policy_binds:
  assumes ok: "policies_ok st" and put: "put_policy t r expected st = (Inr r1, st1)"
    and agent: "agent \<in> set (pr_agents r)"
  shows "\<exists>p. policy_for_agent st1 agent = Some p \<and> pr_policy p = pr_policy r \<and> pr_id p = pr_id r"
proof -
  have ok1: "policies_ok st1" using put_policy_ok [OF ok, of t r expected] put by simp
  have r1: "r1 = next_policy t r (stored_policy st (pr_id r))"
    and binds: "binding_rows st1 = fold (bind_agent (pr_id r)) (pr_agents r1)
      (filter (\<lambda>(a, p). p \<noteq> pr_id r) (binding_rows st))"
    using put by (auto simp: put_policy_result [OF ok] Let_def split: if_splits)
  have "agent \<in> set (pr_agents r1)" using agent by (simp add: r1 next_policy_def)
  then have bound: "map_of (binding_rows st1) agent = Some (pr_id r)"
    unfolding binds bind_agents(1) by simp
  have stored: "stored_policy st1 (pr_id r) = Some r1"
    using put_policy_read [OF ok put, of "pr_id r"] by simp
  then have "pr_id r \<in> set (map prow_id (policy_rows st1))"
    using stored_policy_None by (metis option.distinct(1))
  moreover have first: "List.find (\<lambda>(a, p). a = agent \<and> Q p) rows = Some (agent, q)"
    if "map_of rows agent = Some q" "Q q" for Q :: "string \<Rightarrow> bool" and rows and q :: string
    using that by (induction rows) (auto split: if_splits)
  ultimately have "policy_for_agent st1 agent = get_policy st1 (pr_id r)"
    using first [OF bound, of "\<lambda>p. p \<in> set (map prow_id (policy_rows st1))"]
    by (simp add: policy_for_agent_def del: set_map)
  moreover have "get_policy st1 (pr_id r) = Some (hydrate_policy_bindings st1 r1)"
    using stored by (auto simp: get_policy_def stored_policy_def)
  ultimately show ?thesis by (simp add: hydrate_policy_bindings_def r1)
qed

lemma policy_for_agent_stored:
  assumes "policies_ok st" and "policy_for_agent st agent = Some p"
  shows "\<exists>q. stored_policy st (pr_id p) = Some q \<and> pr_policy q = pr_policy p \<and> pr_hash q = pr_hash p
    \<and> (agent, pr_id p) \<in> set (binding_rows st)"
proof -
  obtain i where i: "(agent, i) \<in> set (binding_rows st)" "get_policy st i = Some p"
    using assms(2) by (auto simp: policy_for_agent_def find_Some_iff split: option.splits)
      (metis nth_mem)
  then obtain q where q: "stored_policy st i = Some q" "p = hydrate_policy_bindings st q"
    by (auto simp: get_policy_def stored_policy_def)
  have "pr_id q = i" using stored_policy_Some [OF q(1)] assms(1) by (auto simp: policies_ok_def)
  with i q show ?thesis by (auto simp: hydrate_policy_bindings_def)
qed

end
