(* ===== verification/SafeActions_Materialize.thy ===== *)
theory SafeActions_Materialize
  imports SafeActions_PolicyStore
begin

section \<open>Values at run time\<close>

text \<open>
  The pure part of the executor in \<open>apps/core/src/safe_actions/mod.rs\<close>: \<open>materialize\<close>,
  \<open>evaluate_predicate\<close> and \<open>compare\<close>.  \<open>serde_json\<close>'s \<open>Value::pointer\<close> is the parameter \<open>pointer\<close>;
  what the lemmas need of it is that it selects what an RFC 6901 pointer points to.  The lemmas
  carry the static check over to run time: a value that fits its schema materializes to a value of
  the schema, and a condition that fits can always be evaluated.
\<close>

datatype exec_error =
    StepUnavailable string
  | NoSuchPointer string string
  | UnexpectedRuntimeType string
  | NotOrderComparable
  | LoadFailed
  | ToolGone
  | BindingsChanged
  | CertificateRejected certificate_error
  | ArgumentsRejected runtime_error
  | HashFailed
  | StoreFailed
  | NoRegistry
  | ToolCallFailed
  | NeedsConnection
  | OutputTooLarge
  | OutputRejected runtime_error

type_synonym outputs = "string \<Rightarrow> json option"
type_synonym pointer_fn = "json \<Rightarrow> string \<Rightarrow> json option"

subsection \<open>Equality and order\<close>

text \<open>
  \<open>PartialEq\<close> of \<open>serde_json::Value\<close>: integers by value, floats by \<open>f64\<close> equality (the two zeros are
  equal; a JSON number is never a NaN), objects by their entries.
\<close>

definition f64_eq :: "u64 \<Rightarrow> u64 \<Rightarrow> bool" where
  "f64_eq a b \<longleftrightarrow> a = b \<or> (push_bit 1 a = 0 \<and> push_bit 1 b = 0)"

fun num_eq :: "json_num \<Rightarrow> json_num \<Rightarrow> bool" where
  "num_eq (JInt a) (JInt b) \<longleftrightarrow> a = b"
| "num_eq (JFloat a) (JFloat b) \<longleftrightarrow> f64_eq a b"
| "num_eq _ _ \<longleftrightarrow> False"

function json_eq :: "json \<Rightarrow> json \<Rightarrow> bool" where
  "json_eq v w \<longleftrightarrow>
     (case v of
        JNull \<Rightarrow> w = JNull
      | JBool b \<Rightarrow> w = JBool b
      | JNum n \<Rightarrow> (case w of JNum m \<Rightarrow> num_eq n m | _ \<Rightarrow> False)
      | JString s \<Rightarrow> w = JString s
      | JArray xs \<Rightarrow>
          (case w of
             JArray ys \<Rightarrow> length xs = length ys \<and> list_all (\<lambda>(x, y). json_eq x y) (zip xs ys)
           | _ \<Rightarrow> False)
      | JObject kvs \<Rightarrow>
          (case w of
             JObject lvs \<Rightarrow>
               length kvs = length lvs
               \<and> list_all (\<lambda>(k, x). case map_of lvs k of None \<Rightarrow> False | Some y \<Rightarrow> json_eq x y) kvs
           | _ \<Rightarrow> False))"
  by pat_completeness auto
termination
proof (relation "measure (\<lambda>(v, w). size v)", goal_cases)
  case (2 v w xs ys p x y)
  then have "x \<in> set xs" by (metis set_zip_leftD)
  then show ?case using item_size [of x xs] 2 by auto
qed (auto dest: entry_size_less)

declare json_eq.simps [simp del]

text \<open>\<open>integer_value\<close>: \<open>None\<close> for a float.\<close>

fun integer_value :: "json_num \<Rightarrow> int option" where
  "integer_value (JInt i) = Some i"
| "integer_value (JFloat f) = None"

datatype ordering = Less | Equals | Greater

definition cmp :: "'a::linorder \<Rightarrow> 'a \<Rightarrow> ordering" where
  "cmp a b = (if a < b then Less else if a = b then Equals else Greater)"

definition value_order :: "json \<Rightarrow> json \<Rightarrow> ordering option" where
  "value_order left right =
     (case (left, right) of
        (JNum l, JNum r) \<Rightarrow>
          (case (integer_value l, integer_value r) of
             (Some a, Some b) \<Rightarrow> Some (cmp a b)
           | _ \<Rightarrow> None)
      | (JString l, JString r) \<Rightarrow> Some (cmp l r)
      | _ \<Rightarrow> None)"

definition order_holds :: "comparison_op \<Rightarrow> ordering \<Rightarrow> bool" where
  "order_holds op ord =
     (case op of
        LessThan \<Rightarrow> ord = Less
      | LessThanOrEqual \<Rightarrow> ord \<noteq> Greater
      | GreaterThan \<Rightarrow> ord = Greater
      | GreaterThanOrEqual \<Rightarrow> ord \<noteq> Less
      | _ \<Rightarrow> False)"

definition compare :: "json \<Rightarrow> comparison_op \<Rightarrow> json \<Rightarrow> exec_error + bool" where
  "compare left op right =
     (case op of
        Equal \<Rightarrow> Inr (json_eq left right)
      | NotEqual \<Rightarrow> Inr (\<not> json_eq left right)
      | _ \<Rightarrow>
          (case value_order left right of
             None \<Rightarrow> Inl NotOrderComparable
           | Some ord \<Rightarrow> Inr (order_holds op ord)))"

subsection \<open>Materializing values\<close>

definition select_output :: "pointer_fn \<Rightarrow> outputs \<Rightarrow> string \<Rightarrow> string \<Rightarrow> json_type \<Rightarrow> exec_error + json" where
  "select_output pointer outs step ptr t =
     (case outs step of
        None \<Rightarrow> Inl (StepUnavailable step)
      | Some out \<Rightarrow>
          (case (if ptr = [] then Some out else pointer out ptr) of
             None \<Rightarrow> Inl (NoSuchPointer step ptr)
           | Some selected \<Rightarrow>
               if json_value_type selected \<noteq> t
                  \<and> \<not> (json_value_type selected = TInteger \<and> t = TNumber)
               then Inl (UnexpectedRuntimeType step)
               else Inr selected))"

function materialize :: "pointer_fn \<Rightarrow> outputs \<Rightarrow> plan_value \<Rightarrow> exec_error + json" where
  "materialize pointer outs (PLiteral v) = Inr v"
| "materialize pointer outs (PObject entries) =
     map_sum id JObject
       (try_map (\<lambda>(key, v). map_sum id (Pair key) (materialize pointer outs v)) entries)"
| "materialize pointer outs (PArray items) =
     map_sum id JArray (try_map (\<lambda>v. materialize pointer outs v) items)"
| "materialize pointer outs (PStepOutput step ptr t) = select_output pointer outs step ptr t"
  by pat_completeness auto
termination
  by (relation "measure (\<lambda>(pointer, outs, v). size v)") (auto dest: plan_entry_size plan_member_size)

text \<open>The loops over \<open>All\<close> and \<open>Any\<close> stop at the first item that decides them.\<close>

fun evaluate_predicate :: "pointer_fn \<Rightarrow> outputs \<Rightarrow> predicate \<Rightarrow> exec_error + bool"
  and evaluate_all :: "pointer_fn \<Rightarrow> outputs \<Rightarrow> predicate list \<Rightarrow> exec_error + bool"
  and evaluate_any :: "pointer_fn \<Rightarrow> outputs \<Rightarrow> predicate list \<Rightarrow> exec_error + bool"
where
  "evaluate_predicate pointer outs (PCompare l op r) =
     (case materialize pointer outs l of
        Inl e \<Rightarrow> Inl e
      | Inr a \<Rightarrow>
          (case materialize pointer outs r of Inl e \<Rightarrow> Inl e | Inr b \<Rightarrow> compare a op b))"
| "evaluate_predicate pointer outs (PAll ps) = evaluate_all pointer outs ps"
| "evaluate_predicate pointer outs (PAny ps) = evaluate_any pointer outs ps"
| "evaluate_predicate pointer outs (PNot p) = map_sum id Not (evaluate_predicate pointer outs p)"
| "evaluate_predicate pointer outs (PExists v) =
     map_sum id (\<lambda>j. j \<noteq> JNull) (materialize pointer outs v)"
| "evaluate_all pointer outs [] = Inr True"
| "evaluate_all pointer outs (p # ps) =
     (case evaluate_predicate pointer outs p of
        Inl e \<Rightarrow> Inl e
      | Inr b \<Rightarrow> if \<not> b then Inr False else evaluate_all pointer outs ps)"
| "evaluate_any pointer outs [] = Inr False"
| "evaluate_any pointer outs (p # ps) =
     (case evaluate_predicate pointer outs p of
        Inl e \<Rightarrow> Inl e
      | Inr b \<Rightarrow> if b then Inr True else evaluate_any pointer outs ps)"

subsection \<open>What can go wrong\<close>

text \<open>
  Every step the environment of the check promises has an output.  Then the only errors left are
  those of the data itself: an optional part that is missing, a value of another type.
\<close>

definition outs_cover :: "(string \<Rightarrow> json option) \<Rightarrow> outputs \<Rightarrow> bool" where
  "outs_cover \<Gamma> outs \<longleftrightarrow> (\<forall>i. \<Gamma> i \<noteq> None \<longrightarrow> outs i \<noteq> None)"

definition outs_typed :: "(string \<Rightarrow> json option) \<Rightarrow> outputs \<Rightarrow> bool" where
  "outs_typed \<Gamma> outs \<longleftrightarrow> (\<forall>i s. \<Gamma> i = Some s \<longrightarrow> (\<exists>v. outs i = Some v \<and> conforms v s))"

lemma outs_typed_cover: "outs_typed \<Gamma> outs \<Longrightarrow> outs_cover \<Gamma> outs"
  by (fastforce simp: outs_typed_def outs_cover_def)

fun data_error :: "exec_error \<Rightarrow> bool" where
  "data_error (NoSuchPointer step ptr) \<longleftrightarrow> True"
| "data_error (UnexpectedRuntimeType step) \<longleftrightarrow> True"
| "data_error _ \<longleftrightarrow> False"

lemma select_output_error:
  assumes "select_output pointer outs step ptr t = Inl e" and "outs step \<noteq> None"
  shows "data_error e"
  using assms by (auto simp: select_output_def split: option.splits if_splits)

lemma materialize_error:
  "materialize pointer outs v = Inl e \<Longrightarrow> value_fits \<Gamma> os v \<Longrightarrow> outs_cover \<Gamma> outs \<Longrightarrow> data_error e"
proof (induction pointer outs v arbitrary: os e rule: materialize.induct)
  case (1 pointer outs v)
  then show ?case by simp
next
  case (2 pointer outs entries)
  then obtain e' where "try_map (\<lambda>(key, v). map_sum id (Pair key) (materialize pointer outs v)) entries = Inl e'"
    and "e = e'"
    by (auto simp: map_sum_def split: sum.splits)
  then obtain key v where "(key, v) \<in> set entries" "materialize pointer outs v = Inl e"
    by (auto dest!: try_map_err simp: map_sum_def split: sum.splits)
  with 2 show ?case by fastforce
next
  case (3 pointer outs items)
  then obtain v where "v \<in> set items" "materialize pointer outs v = Inl e"
    by (auto simp: map_sum_def dest!: try_map_err split: sum.splits)
  with 3 show ?case by fastforce
next
  case (4 pointer outs step ptr t)
  then have "outs step \<noteq> None"
    by (auto simp: reference_fits_def outs_cover_def split: option.splits)
  with 4 select_output_error show ?case by fastforce
qed

lemma materialize_type:
  "materialize pointer outs v = Inr j \<Longrightarrow> schema_type_accepts (json_value_type j) (plan_value_type v)"
  by (cases v)
    (auto simp: schema_type_accepts_def select_output_def map_sum_def split: sum.splits option.splits if_splits)

lemma ordered_values:
  assumes "ordered_types l r" and "schema_type_accepts (json_value_type a) l"
    and "schema_type_accepts (json_value_type b) r"
  shows "value_order a b \<noteq> None"
proof -
  have num: "json_value_type j = TInteger \<Longrightarrow> \<exists>i. j = JNum (JInt i)" for j
    by (induction j rule: json_value_type.induct) auto
  have str: "json_value_type j = TString \<Longrightarrow> \<exists>s. j = JString s" for j
    by (induction j rule: json_value_type.induct) auto
  from assms consider "json_value_type a = TInteger" "json_value_type b = TInteger"
    | "json_value_type a = TString" "json_value_type b = TString"
    by (auto simp: ordered_types_def schema_type_accepts_def)
  then show ?thesis
    using num [of a] num [of b] str [of a] str [of b] by cases (auto simp: value_order_def)
qed

lemma compare_total:
  assumes "ordering_op op \<longrightarrow> value_order a b \<noteq> None"
  shows "\<exists>x. compare a op b = Inr x"
  using assms by (cases op) (auto simp: compare_def ordering_op_def)

text \<open>A condition that fits is evaluated: its errors, too, are only those of the data.\<close>

lemma evaluate_error:
  "evaluate_predicate pointer outs p = Inl e \<Longrightarrow> predicate_fits \<Gamma> p \<Longrightarrow> outs_cover \<Gamma> outs \<Longrightarrow> data_error e"
  "evaluate_all pointer outs ps = Inl e \<Longrightarrow> \<forall>p \<in> set ps. predicate_fits \<Gamma> p \<Longrightarrow> outs_cover \<Gamma> outs \<Longrightarrow>
     data_error e"
  "evaluate_any pointer outs ps = Inl e \<Longrightarrow> \<forall>p \<in> set ps. predicate_fits \<Gamma> p \<Longrightarrow> outs_cover \<Gamma> outs \<Longrightarrow>
     data_error e"
proof (induction pointer outs p and pointer outs ps and pointer outs ps
    rule: evaluate_predicate_evaluate_all_evaluate_any.induct)
  case (1 pointer outs l op r)
  show ?case
  proof (cases "materialize pointer outs l")
    case (Inl a)
    with 1 show ?thesis using materialize_error by fastforce
  next
    case l: (Inr a)
    show ?thesis
    proof (cases "materialize pointer outs r")
      case (Inl b)
      with l 1 show ?thesis using materialize_error by fastforce
    next
      case (Inr b)
      have "ordering_op op \<longrightarrow> value_order a b \<noteq> None"
        using 1 ordered_values materialize_type [OF l] materialize_type [OF Inr] by fastforce
      with compare_total obtain x where "compare a op b = Inr x" by blast
      with 1 l Inr show ?thesis by simp
    qed
  qed
next
  case (5 pointer outs v)
  then show ?case using materialize_error [of pointer outs v e \<Gamma> None]
    by (auto simp: map_sum_def split: sum.splits)
qed (auto simp: map_sum_def split: sum.splits if_splits)

subsection \<open>Materialized values satisfy the schema they were checked against\<close>

text \<open>
  What the code relies on of \<open>Value::pointer\<close>, and the conditions under which the static check of
  references is sound: the pointer finds a schema in an unambiguous output schema, and that schema
  declares what the destination constrains (\<open>declares_constrained\<close>).
\<close>

definition pointer_selects :: "pointer_fn \<Rightarrow> bool" where
  "pointer_selects pointer \<longleftrightarrow>
     (\<forall>v p w ts. pointer v p = Some w \<longrightarrow> parse_json_pointer p = Inr ts \<longrightarrow> points_to v ts w)"

definition reference_sound :: "(string \<Rightarrow> json option) \<Rightarrow> json option \<Rightarrow> string \<Rightarrow> string \<Rightarrow> bool" where
  "reference_sound \<Gamma> os step ptr \<longleftrightarrow>
     (case os of
        None \<Rightarrow> True
      | Some s \<Rightarrow>
          (case \<Gamma> step of
             None \<Rightarrow> False
           | Some out \<Rightarrow>
               unambiguous out
               \<and> (case schema_at_pointer out ptr of
                    Inr (Some pointed) \<Rightarrow> declares_constrained pointed s
                  | _ \<Rightarrow> False)))"

function references_sound :: "(string \<Rightarrow> json option) \<Rightarrow> json option \<Rightarrow> plan_value \<Rightarrow> bool" where
  "references_sound \<Gamma> os (PLiteral v) \<longleftrightarrow> True"
| "references_sound \<Gamma> os (PObject entries) \<longleftrightarrow>
     (\<forall>(key, child) \<in> set entries.
        references_sound \<Gamma> (lookup_schema (property_schema os key)) child)"
| "references_sound \<Gamma> os (PArray items) \<longleftrightarrow>
     (\<forall>child \<in> set items. references_sound \<Gamma> (Option.bind os (\<lambda>s. jget s ''items'')) child)"
| "references_sound \<Gamma> os (PStepOutput step ptr t) \<longleftrightarrow> reference_sound \<Gamma> os step ptr"
  by pat_completeness auto
termination
  by (relation "measure (\<lambda>(\<Gamma>, os, v). size v)") (auto dest: plan_entry_size plan_member_size)

lemma reference_conforms:
  assumes "reference_fits \<Gamma> (Some s) step ptr t" and "reference_sound \<Gamma> (Some s) step ptr"
    and "outs_typed \<Gamma> outs" and "pointer_selects pointer"
    and "select_output pointer outs step ptr t = Inr j"
  shows "conforms j s"
proof -
  obtain out pointed where out: "\<Gamma> step = Some out" "unambiguous out"
    and at: "schema_at_pointer out ptr = Inr (Some pointed)" "declares_constrained pointed s"
    using assms(2) by (auto simp: reference_sound_def split: option.splits sum.splits)
  have asg: "schema_assignable pointed s"
    using assms(1) out(1) at(1) by (auto simp: reference_fits_def)
  obtain v where v: "outs step = Some v" "conforms v out"
    using assms(3) out(1) by (auto simp: outs_typed_def)
  obtain tokens where tokens: "parse_json_pointer ptr = Inr tokens" "schema_walk out tokens = Inr (Some pointed)"
    using at(1) by (auto simp: schema_at_pointer_def split: sum.splits)
  have "points_to v tokens j"
  proof (cases "ptr = []")
    case True
    then show ?thesis
      using assms(5) v tokens(1)
      by (auto simp: select_output_def parse_json_pointer_def split: if_splits)
  next
    case False
    then have "pointer v ptr = Some j"
      using assms(5) v by (auto simp: select_output_def split: option.splits if_splits)
    with assms(4) tokens(1) show ?thesis by (auto simp: pointer_selects_def)
  qed
  then have "conforms j pointed" using schema_walk_sound [OF tokens(2) out(2) v(2)] by blast
  then show ?thesis by (rule assignable_sound [OF asg at(2)])
qed

text \<open>The entries of a materialized object, and the items of a materialized array.\<close>

lemma map_sum_pair: "map_sum id (Pair key) m = Inr (k, c) \<Longrightarrow> k = key \<and> m = Inr c"
  by (cases m) auto

lemma materialize_object:
  assumes "materialize pointer outs (PObject entries) = Inr j"
  obtains kvs where "j = JObject kvs" and "map fst kvs = map fst entries"
    and "\<And>k c. (k, c) \<in> set kvs \<Longrightarrow> \<exists>v. (k, v) \<in> set entries \<and> materialize pointer outs v = Inr c"
proof -
  obtain kvs where j: "j = JObject kvs"
    and t: "list_all2 (\<lambda>x y. (case x of (key, v) \<Rightarrow> map_sum id (Pair key) (materialize pointer outs v)) = Inr y)
      entries kvs"
    using assms by (auto simp: map_sum_def try_map_ok split: sum.splits)
  have "map fst kvs = map fst entries"
    using t by (induction rule: list_all2_induct) (auto dest: map_sum_pair)
  moreover have "\<exists>v. (k, v) \<in> set entries \<and> materialize pointer outs v = Inr c" if kc: "(k, c) \<in> set kvs" for k c
    using t kc
  proof (induction rule: list_all2_induct)
    case (Cons x xs y ys)
    then show ?case by (cases x) (auto dest: map_sum_pair)
  qed simp
  ultimately show thesis using j that by blast
qed

lemma materialize_array:
  assumes "materialize pointer outs (PArray items) = Inr j"
  obtains xs where "j = JArray xs"
    and "\<And>c. c \<in> set xs \<Longrightarrow> \<exists>v \<in> set items. materialize pointer outs v = Inr c"
proof -
  obtain xs where j: "j = JArray xs"
    and t: "list_all2 (\<lambda>v c. materialize pointer outs v = Inr c) items xs"
    using assms by (auto simp: map_sum_def try_map_ok split: sum.splits)
  have "\<exists>v \<in> set items. materialize pointer outs v = Inr c" if c: "c \<in> set xs" for c
    using t c by (induction rule: list_all2_induct) auto
  with j that show thesis by blast
qed

lemma materialize_conforms:
  "materialize pointer outs v = Inr j \<Longrightarrow> value_fits \<Gamma> os v \<Longrightarrow> references_sound \<Gamma> os v \<Longrightarrow>
     schema_ok os \<Longrightarrow> outs_typed \<Gamma> outs \<Longrightarrow> pointer_selects pointer \<Longrightarrow> conforms_opt j os"
proof (induction v arbitrary: os j rule: measure_induct_rule [where f = size])
  case (less v)
  show ?case
  proof (cases os)
    case None
    then show ?thesis by simp
  next
    case os: (Some s)
    then have sup: "supported s" using less.prems(4) by simp
    show ?thesis
    proof (cases v)
      case (PLiteral l)
      then show ?thesis using less.prems os by simp
    next
      case (PObject entries)
      obtain kvs where j: "j = JObject kvs" and keys: "map fst kvs = map fst entries"
        and mem: "\<And>k c. (k, c) \<in> set kvs \<Longrightarrow> \<exists>v. (k, v) \<in> set entries \<and> materialize pointer outs v = Inr c"
        using less.prems(1) materialize_object unfolding PObject by blast
      have "property_schema os k \<noteq> Forbidden \<and> conforms_opt c (lookup_schema (property_schema os k))"
        if kc: "(k, c) \<in> set kvs" for k c
      proof -
        obtain w where w: "(k, w) \<in> set entries" "materialize pointer outs w = Inr c"
          using mem [OF kc] by blast
        then have "size w < size v" using plan_entry_size [OF w(1), of size] PObject by simp
        moreover have "property_schema os k \<noteq> Forbidden"
          "value_fits \<Gamma> (lookup_schema (property_schema os k)) w"
          "references_sound \<Gamma> (lookup_schema (property_schema os k)) w"
          using less.prems(2,3) w(1) PObject by auto
        ultimately show ?thesis
          using less.IH w(2) schema_ok_property [OF less.prems(4)] less.prems(5,6) by blast
      qed
      moreover have "type_fits TObject (Some s)" "required_present (map fst kvs) (Some s)"
        using less.prems(2) by (simp_all add: PObject os keys)
      ultimately show ?thesis
        by (auto simp: os j conforms_unfold [OF sup])
    next
      case (PArray items)
      obtain xs where j: "j = JArray xs"
        and mem: "\<And>c. c \<in> set xs \<Longrightarrow> \<exists>v \<in> set items. materialize pointer outs v = Inr c"
        using less.prems(1) materialize_array unfolding PArray by blast
      have "conforms_opt c (jget s ''items'')" if c: "c \<in> set xs" for c
      proof -
        obtain w where w: "w \<in> set items" "materialize pointer outs w = Inr c" using mem [OF c] by blast
        then have "size w < size v" using plan_member_size [OF w(1), of size] PArray by simp
        moreover have "value_fits \<Gamma> (jget s ''items'') w" "references_sound \<Gamma> (jget s ''items'') w"
          using less.prems(2,3) w(1) PArray os by auto
        ultimately show ?thesis
          using less.IH w(2) schema_ok_items [OF less.prems(4)] less.prems(5,6) os by simp
      qed
      then show ?thesis
        using less.prems(2) PArray j by (simp add: os conforms_unfold [OF sup])
    next
      case (PStepOutput step ptr t)
      then show ?thesis
        using less.prems reference_conforms os by auto
    qed
  qed
qed

end
