(* ===== verification/SafeActions_Sample.thy ===== *)
theory SafeActions_Sample
  imports SafeActions_Lifecycle SafeActions_PolicyStore SafeActions_Materialize
    "HOL-Library.Code_Target_Nat"
begin

section \<open>A concrete input\<close>

text \<open>
  The values at which the properties are instantiated: a serializer and a certifier that write
  names as bytes, two attested tools (one that lists a directory, one that reads a file of it), a
  policy that grants both, and a plan that lists, then reads twice in a parallel group.  Nothing
  here models code of the program.
\<close>

definition sample_codec :: canonicalizer where
  "sample_codec =
     \<lparr>to_vec = (\<lambda>j. case j of JString s \<Rightarrow> Some (map of_char s)
         | JNum (JInt i) \<Rightarrow> Some [of_int i] | _ \<Rightarrow> Some []),
      sha256 = id\<rparr>"

definition sample_serializer :: serializer where
  "sample_serializer =
     \<lparr>to_vec = to_vec sample_codec, sha256 = sha256 sample_codec,
      ser_plan = (\<lambda>p. Some (JString ''plan'')), ser_policy = (\<lambda>p. Some (JString ''policy'')),
      ser_descriptor = (\<lambda>d. Some (JString (td_name d))),
      ser_catalog = (\<lambda>ds. Some (JString (concat (map td_name ds)))),
      ser_value = (\<lambda>v. Some JNull)\<rparr>"

definition sample_certifier :: certifier where
  "sample_certifier =
     \<lparr>cert_codec = sample_codec, ser_data = (\<lambda>d. Some (JNum (JInt (uint (issued_at d)))))\<rparr>"

definition string_schema :: json where
  "string_schema = JObject [(''type'', JString ''string'')]"

definition path_schema :: json where
  "path_schema =
     JObject
       [(''type'', JString ''object''),
        (''properties'', JObject [(''path'', string_schema)]),
        (''required'', JArray [JString ''path'']),
        (''additionalProperties'', JBool False)]"

definition names_schema :: json where
  "names_schema = JObject [(''type'', JString ''array''), (''items'', string_schema)]"

definition list_contract :: effect_contract where
  "list_contract =
     \<lparr>trust = CoreAttested, effects = [Read], resources = [''file:/docs/index''],
      resource_bindings = [], arguments_independent = True\<rparr>"

definition read_contract :: effect_contract where
  "read_contract =
     \<lparr>trust = OperatorAttested, effects = [Read], resources = [],
      resource_bindings = [\<lparr>rb_pointer = ''/path'', rb_prefix = ''file:/docs/''\<rparr>],
      arguments_independent = False\<rparr>"

definition list_tool :: tool_descriptor where
  "list_tool =
     \<lparr>td_name = ''fs.list'', input_schema = JObject [(''type'', JString ''object'')],
      output_schema = names_schema, implementation_hash = ''h1'', dispatch_chain = [''fs''],
      contract = Some list_contract\<rparr>"

definition read_tool :: tool_descriptor where
  "read_tool =
     \<lparr>td_name = ''fs.read'', input_schema = path_schema,
      output_schema = string_schema, implementation_hash = ''h2'', dispatch_chain = [''fs''],
      contract = Some read_contract\<rparr>"

definition sample_policy :: policy where
  "sample_policy =
     default_policy\<lparr>allow_tools := [''fs.*''], deny_tools := [''fs.delete''], allowed_effects := [Read],
       allowed_resources := [''file:/docs/*''], allow_parallel_reads := True\<rparr>"

definition sample_arguments :: "string \<Rightarrow> plan_value" where
  "sample_arguments name = PObject [(''path'', PLiteral (JString name))]"

definition sample_reads :: plan_node where
  "sample_reads =
     Parallel ''reads''
       [Call ''first'' ''fs.read'' (sample_arguments ''a.txt''),
        Call ''second'' ''fs.read'' (sample_arguments ''b.txt'')]"

definition sample_plan :: tool_plan where
  "sample_plan =
     \<lparr>schema_version = 1,
      root = Sequence ''all'' [Call ''list'' ''fs.list'' (PObject []), sample_reads]\<rparr>"

definition sample_input :: verifier_input where
  "sample_input =
     \<lparr>plan = sample_plan, policy_of = sample_policy, catalog = [read_tool, list_tool],
      agent_revision = ''rev''\<rparr>"

lemma sample_proved: "decision (verify sample_serializer sample_input) = Proved"
  by code_simp

lemma sample_accepted: "decision (verify sample_serializer sample_input) \<noteq> Denied"
  by (simp add: sample_proved)

subsection \<open>Records of the store\<close>

definition sample_report :: verification_report where
  "sample_report = verify sample_serializer sample_input"

definition sample_certificate :: certificate where
  "sample_certificate =
     \<lparr>cert_data = \<lparr>cd_schema_version = 1, cd_bindings = bindings_from (bindings sample_report),
        issued_at = 10, expires_at = 20\<rparr>,
      integrity_hash = to_lower_hex [10]\<rparr>"

definition sample_submission :: "string \<Rightarrow> submission_record" where
  "sample_submission status =
     \<lparr>sub_id = ''s1'', submission_key = ''k1'', sub_agent = ''agent'', sub_agent_revision = ''rev'',
      sub_policy_id = ''p1'', host_conversation = None, sub_plan = sample_plan,
      sub_report = sample_report, sub_certificate = Some sample_certificate, sub_status = status,
      review_note = None, reviewed_by = None, reviewed_at = None,
      sub_created = ''t0'', sub_updated = ''t0''\<rparr>"

definition sample_receipt :: "string \<Rightarrow> execution_receipt" where
  "sample_receipt status =
     \<lparr>er_id = ''r1'', er_submission = ''s1'', er_certificate = ''c1'', er_agent = ''agent'',
      er_status = status, er_plan_hash = [], er_policy_hash = [], er_catalog_hash = [],
      er_verifier_version = [], er_result_hash = None, er_error = None, er_started = ''t1'',
      er_finished = None, er_steps = []\<rparr>"

lemma er_submission_sample: "er_submission (sample_receipt status) = ''s1''"
  by (simp add: sample_receipt_def)

definition sample_policy_record :: policy_record where
  "sample_policy_record =
     \<lparr>pr_id = ''p1'', pr_name = ''docs'', pr_description = None, pr_policy = sample_policy,
      pr_hash = ''h'', pr_version = 0, pr_agents = [''agent''], pr_created = [], pr_updated = []\<rparr>"

text \<open>A submission that was accepted, one that was started, one that was finished.\<close>

definition accepted_store :: safe_store where
  "accepted_store = snd (insert_submission (sample_submission ''certified'') empty_store)"

definition refused_store :: safe_store where
  "refused_store = snd (insert_submission (sample_submission ''denied'') empty_store)"

definition started_store :: safe_store where
  "started_store =
     snd (start_execution ''s1'' [''certified''] (sample_submission ''executing'')
       (sample_receipt ''running'') accepted_store)"

definition finished_store :: safe_store where
  "finished_store =
     snd (save_terminal (sample_receipt ''succeeded'') (sample_submission ''succeeded'') started_store)"

definition granted_store :: safe_store where
  "granted_store = snd (put_policy ''t0'' sample_policy_record None empty_store)"

definition sample_row :: "string \<Rightarrow> submission_row" where
  "sample_row status =
     \<lparr>srow_id = ''s1'', srow_key = ''k1'', srow_agent = ''agent'', srow_status = status,
      srow_record = sample_submission status\<rparr>"

definition sample_receipt_row :: "string \<Rightarrow> receipt_row" where
  "sample_receipt_row status =
     \<lparr>rrow_id = ''r1'', rrow_submission = ''s1'', rrow_certificate = ''c1'', rrow_status = status,
      rrow_record = sample_receipt status\<rparr>"

lemma accepted_rows: "accepted_store = empty_store\<lparr>submission_rows := [sample_row ''certified'']\<rparr>"
  by (simp add: accepted_store_def insert_submission_def get_submission_by_key_def empty_store_def
      sample_submission_def sample_row_def)

lemma refused_rows: "refused_store = empty_store\<lparr>submission_rows := [sample_row ''denied'']\<rparr>"
  by (simp add: refused_store_def insert_submission_def get_submission_by_key_def empty_store_def
      sample_submission_def sample_row_def)

lemma started_result:
  "start_execution ''s1'' [''certified''] (sample_submission ''executing'')
     (sample_receipt ''running'') accepted_store =
   (Inr True,
    empty_store\<lparr>submission_rows := [sample_row ''executing''],
      receipt_rows := [sample_receipt_row ''running'']\<rparr>)"
  by (simp add: accepted_rows start_execution_def update_where_def
      empty_store_def sample_submission_def sample_row_def sample_receipt_def set_submission_def
      sample_receipt_row_def)

lemma started_rows:
  "started_store =
     empty_store\<lparr>submission_rows := [sample_row ''executing''],
       receipt_rows := [sample_receipt_row ''running'']\<rparr>"
  by (simp add: started_store_def started_result)

lemma finished_rows:
  "finished_store =
     empty_store\<lparr>submission_rows := [sample_row ''succeeded''],
       receipt_rows := [sample_receipt_row ''succeeded'']\<rparr>"
  by (simp add: finished_store_def started_rows save_terminal_def update_where_def
      empty_store_def sample_submission_def sample_row_def sample_receipt_def set_submission_def
      sample_receipt_row_def)

lemma accepted_step: "store_step empty_store accepted_store"
  unfolding accepted_store_def
  by (rule step_insert) (simp add: sample_submission_def initial_statuses_def)

lemma refused_step_sample: "store_step empty_store refused_store"
  unfolding refused_store_def
  by (rule step_insert) (simp add: sample_submission_def initial_statuses_def)

lemma started_step: "store_step accepted_store started_store"
  unfolding started_store_def
  by (rule step_start) (simp_all add: sample_submission_def sample_receipt_def)

lemma finished_step_sample: "store_step started_store finished_store"
  unfolding finished_store_def
  by (rule step_finish)
    (simp_all add: final_statuses_def sample_receipt_def sample_submission_def holds_receipt_def
      started_rows empty_store_def sample_receipt_row_def)

lemma started_reachable: "store_step\<^sup>*\<^sup>* empty_store started_store"
proof (rule converse_rtranclp_into_rtranclp)
  show "store_step\<^sup>*\<^sup>* accepted_store started_store"
    by (rule r_into_rtranclp) (rule started_step)
qed (rule accepted_step)

lemma finished_reachable: "store_step\<^sup>*\<^sup>* empty_store finished_store"
  by (rule rtranclp.rtrancl_into_rtrancl [OF started_reachable finished_step_sample])

subsection \<open>A pointer lookup\<close>

text \<open>What RFC 6901 says a pointer selects.\<close>

fun walk_pointer :: "json \<Rightarrow> string list \<Rightarrow> json option" where
  "walk_pointer v [] = Some v"
| "walk_pointer (JObject kvs) (t # ts) =
     (case map_of kvs t of None \<Rightarrow> None | Some c \<Rightarrow> walk_pointer c ts)"
| "walk_pointer (JArray xs) (t # ts) =
     (case parse_usize t of
        None \<Rightarrow> None
      | Some n \<Rightarrow> if n < length xs then walk_pointer (xs ! n) ts else None)"
| "walk_pointer v (t # ts) = None"

definition sample_pointer :: pointer_fn where
  "sample_pointer v p = (case parse_json_pointer p of Inl e \<Rightarrow> None | Inr ts \<Rightarrow> walk_pointer v ts)"

lemma walk_pointer_points: "walk_pointer v ts = Some w \<Longrightarrow> points_to v ts w"
  by (induction v ts rule: walk_pointer.induct)
    (auto intro: points_to.intros nth_mem split: option.splits if_splits)

lemma sample_pointer_selects: "pointer_selects sample_pointer"
  by (auto simp: pointer_selects_def sample_pointer_def walk_pointer_points)

text \<open>The arguments of a read of the first name the listing returned.\<close>

definition read_first :: plan_value where
  "read_first = PObject [(''path'', PStepOutput ''list'' ''/0'' TString)]"

definition listed :: outputs where
  "listed = [''list'' \<mapsto> JArray [JString ''a.txt'', JString ''b.txt'']]"

definition listed_types :: "string \<Rightarrow> json option" where
  "listed_types = [''list'' \<mapsto> names_schema]"

lemma listed_typed: "outs_typed listed_types listed"
proof -
  have "validate_runtime_value (JArray [JString ''a.txt'', JString ''b.txt'']) names_schema = Inr ()"
    by code_simp
  then show ?thesis by (simp add: accepts_conforms outs_typed_def listed_types_def listed_def)
qed

lemma first_name_schema:
  "schema_at_pointer names_schema ''/0'' = Inr (Some string_schema)"
  "schema_types string_schema = Some [TString]" "schema_types path_schema = Some [TObject]"
  "property_schema (Some path_schema) ''path'' = Known string_schema"
  "schema_required path_schema = [''path'']" "schema_assignable string_schema string_schema"
  "declares_constrained string_schema string_schema" "unambiguous names_schema"
  by code_simp+

lemma read_first_fits:
  "value_fits listed_types (Some path_schema) read_first"
  "references_sound listed_types (Some path_schema) read_first"
  by (simp_all add: read_first_def type_fits_def required_present_def first_name_schema
      reference_fits_def reference_sound_def listed_types_def schema_type_accepts_def)

end
