(* ===== verification/SafeActions_Exec.thy ===== *)
theory SafeActions_Exec
  imports SafeActions_Materialize
begin

section \<open>Executing a verified plan\<close>

text \<open>
  The executor of \<open>apps/core/src/safe_actions/mod.rs\<close>: loading the evidence a plan is checked
  against (\<open>agent_revision\<close>, \<open>catalog\<close>, \<open>verifier_input\<close>), the re-verification before every
  dispatch (\<open>revalidate_execution\<close>), and \<open>execute_node\<close>.

  What the executor calls outside the subsystem is the parameter \<open>host\<close>: the agent store, the tool
  registry, the clock, the source of fresh ids and the dispatch of a tool, functions of a world that
  only they read.  A tool call and the wait before a node return a new world and a new store, so
  whatever else runs in Core meanwhile is part of the parameter.  The list of dispatched calls in the context is a record kept
  for the theorems; the code keeps none.
\<close>

subsection \<open>Parameters\<close>

record agent_record =
  ag_id :: string
  ag_updated :: "string option"
  ag_lifecycle :: string
  ag_safety :: string
  ag_tools :: "string list"
  ag_profiles :: "string list"

record registry_tool =
  rt_id :: string
  rt_server :: string
  rt_input :: "json option"
  rt_output :: "json option"

record engine =
  eng_ser :: serializer
  eng_cert :: certifier
  eng_pointer :: pointer_fn
  eng_message :: "exec_error \<Rightarrow> byte list"
  ser_contract :: "effect_contract \<Rightarrow> json option"

text \<open>\<open>ExecutionIdentity\<close> and \<open>VerifiedStepGrant\<close>.\<close>

record identity =
  id_agent :: string
  id_allowlist :: "string list"
  id_profiles :: "string list"
  id_conversation :: "string option"

record step_grant =
  gr_submission :: string
  gr_certificate_id :: string
  gr_agent :: string
  gr_step :: string
  gr_chain :: "string list"
  gr_implementation :: string
  gr_arguments_hash :: string
  gr_bindings :: certificate_bindings
  gr_certificate :: certificate

record 'w host =
  agent_of :: "'w \<Rightarrow> string \<Rightarrow> agent_record option"
  registry_tools :: "'w \<Rightarrow> registry_tool list option"
  chain_of :: "'w \<Rightarrow> string \<Rightarrow> string list option"
  implementation_of :: "'w \<Rightarrow> registry_tool \<Rightarrow> string list \<Rightarrow> string option"
  live_implementation :: "'w \<Rightarrow> string \<Rightarrow> string option"
  clock_ms :: "'w \<Rightarrow> u64"
  clock_text :: "'w \<Rightarrow> string"
  fresh_id :: "'w \<Rightarrow> string \<times> 'w"
  wait_turn :: "'w \<Rightarrow> safe_store \<Rightarrow> 'w \<times> safe_store"
  run_tool :: "'w \<Rightarrow> safe_store \<Rightarrow> step_grant \<Rightarrow> identity \<Rightarrow> string \<Rightarrow> json
                 \<Rightarrow> json option \<times> 'w \<times> safe_store"

abbreviation hash_json :: "engine \<Rightarrow> json option \<Rightarrow> string option" where
  "hash_json eng v \<equiv> sha256_canonical (codec (eng_ser eng)) v"

subsection \<open>Loading the evidence\<close>

definition agent_json :: "agent_record \<Rightarrow> json" where
  "agent_json a =
     JObject
       [(''id'', JString (ag_id a)),
        (''updated_at'', (case ag_updated a of None \<Rightarrow> JNull | Some t \<Rightarrow> JString t)),
        (''lifecycle'', JString (ag_lifecycle a)),
        (''safety'', JString (ag_safety a)),
        (''tools'', JArray (map JString (ag_tools a))),
        (''identity_profiles'', JArray (map JString (ag_profiles a)))]"

definition load_agent ::
  "engine \<Rightarrow> 'w host \<Rightarrow> 'w \<Rightarrow> string \<Rightarrow> exec_error + (string \<times> agent_record)" where
  "load_agent eng h w agent_id =
     (if registry_tools h w = None then Inl NoRegistry
      else
        (case agent_of h w agent_id of
           None \<Rightarrow> Inl LoadFailed
         | Some a \<Rightarrow>
             if ag_safety a \<noteq> ''verified_plan_only'' then Inl LoadFailed
             else
               (case hash_json eng (Some (agent_json a)) of
                  None \<Rightarrow> Inl HashFailed
                | Some revision \<Rightarrow> Inr (revision, a))))"

text \<open>The contracts of the store that pass their integrity check and are attested.\<close>

definition trusted_contracts ::
  "engine \<Rightarrow> safe_store \<Rightarrow> exec_error + (string \<times> contract_record) list" where
  "trusted_contracts eng st =
     map_sum id concat
       (try_map (\<lambda>r.
          case hash_json eng (ser_contract eng (cr_contract r)) of
            None \<Rightarrow> Inl HashFailed
          | Some hash \<Rightarrow>
              Inr (if hash \<noteq> cr_contract_hash r \<or> \<not> is_verifiable (trust (cr_contract r)) then []
                   else [(cr_tool r, r)]))
         (contract_rows st))"

definition SERVER_NAME :: string where "SERVER_NAME = ''plans''"

definition catalog_entry ::
  "'w host \<Rightarrow> 'w \<Rightarrow> (string \<times> contract_record) list \<Rightarrow> string list option \<Rightarrow> registry_tool
     \<Rightarrow> exec_error + tool_descriptor list" where
  "catalog_entry h w trusted allowed tool =
     (if rt_server tool = SERVER_NAME then Inr []
      else if (case allowed of None \<Rightarrow> False | Some names \<Rightarrow> rt_id tool \<notin> set names) then Inr []
      else
        (case chain_of h w (rt_id tool) of
           None \<Rightarrow> Inr []
         | Some chain \<Rightarrow>
             (case implementation_of h w tool chain of
                None \<Rightarrow> Inl LoadFailed
              | Some hash \<Rightarrow>
                  Inr [\<lparr>td_name = rt_id tool,
                        input_schema = (case rt_input tool of None \<Rightarrow> JBool False | Some s \<Rightarrow> s),
                        output_schema = (case rt_output tool of None \<Rightarrow> JBool False | Some s \<Rightarrow> s),
                        implementation_hash = hash,
                        dispatch_chain = chain,
                        contract =
                          (case map_of trusted (rt_id tool) of
                             None \<Rightarrow> None
                           | Some r \<Rightarrow>
                               if cr_implementation_hash r = hash then Some (cr_contract r)
                               else None)\<rparr>])))"

definition service_catalog ::
  "engine \<Rightarrow> 'w host \<Rightarrow> 'w \<Rightarrow> safe_store \<Rightarrow> string list option \<Rightarrow> exec_error + tool_descriptor list"
where
  "service_catalog eng h w st allowed =
     (case registry_tools h w of
        None \<Rightarrow> Inl NoRegistry
      | Some tools \<Rightarrow>
          (case trusted_contracts eng st of
             Inl e \<Rightarrow> Inl e
           | Inr trusted \<Rightarrow>
               map_sum id (\<lambda>dss. sort_key td_name (concat dss))
                 (try_map (catalog_entry h w trusted allowed) tools)))"

text \<open>\<open>verifier_input\<close>, with the policy it was loaded under and the agent.\<close>

record loaded =
  ld_input :: verifier_input
  ld_policy_id :: string
  ld_agent :: agent_record

definition load_policy ::
  "engine \<Rightarrow> safe_store \<Rightarrow> string \<Rightarrow> policy option \<Rightarrow> exec_error + (string \<times> policy \<times> string)" where
  "load_policy eng st agent_id override =
     (case override of
        Some p \<Rightarrow>
          (case hash_json eng (ser_policy (eng_ser eng) p) of
             None \<Rightarrow> Inl HashFailed
           | Some hash \<Rightarrow> Inr (''policy-check'', p, hash))
      | None \<Rightarrow>
          (case policy_for_agent st agent_id of
             None \<Rightarrow> Inl LoadFailed
           | Some r \<Rightarrow> Inr (pr_id r, pr_policy r, pr_hash r)))"

definition load_input ::
  "engine \<Rightarrow> 'w host \<Rightarrow> 'w \<Rightarrow> safe_store \<Rightarrow> string \<Rightarrow> tool_plan \<Rightarrow> policy option \<Rightarrow> exec_error + loaded"
where
  "load_input eng h w st agent_id p override =
     (case load_agent eng h w agent_id of
        Inl e \<Rightarrow> Inl e
      | Inr (revision, agent) \<Rightarrow>
          (case load_policy eng st agent_id override of
             Inl e \<Rightarrow> Inl e
           | Inr (policy_id, pol, recorded_hash) \<Rightarrow>
               (case hash_json eng (ser_policy (eng_ser eng) pol) of
                  None \<Rightarrow> Inl HashFailed
                | Some hash \<Rightarrow>
                    if hash \<noteq> recorded_hash then Inl LoadFailed
                    else
                      (case service_catalog eng h w st (Some (ag_tools agent)) of
                         Inl e \<Rightarrow> Inl e
                       | Inr cat \<Rightarrow>
                           Inr \<lparr>ld_input = \<lparr>plan = p, policy_of = pol, catalog = cat,
                                             agent_revision = revision\<rparr>,
                                ld_policy_id = policy_id, ld_agent = agent\<rparr>))))"

subsection \<open>The context of an execution\<close>

record 'w exec_context =
  world :: 'w
  db :: safe_store
  who :: identity
  submission :: submission_record
  certificate_id :: string
  held_certificate :: certificate
  step_outputs :: outputs
  retained_output_bytes :: nat
  failure_status :: "string option"
  receipt :: execution_receipt
  ordinal :: u64
  dispatched :: "(step_grant \<times> string \<times> json) list"

definition MAX_STEP_OUTPUT_BYTES :: nat where "MAX_STEP_OUTPUT_BYTES = 1024 * 1024"
definition MAX_EXECUTION_OUTPUT_BYTES :: nat where "MAX_EXECUTION_OUTPUT_BYTES = 8 * 1024 * 1024"

text \<open>\<open>sanitize_error\<close> of \<open>store.rs\<close>: a digest of the error text, cut to twelve digits.\<close>

definition sanitize_error :: "engine \<Rightarrow> exec_error \<Rightarrow> string" where
  "sanitize_error eng e =
     ''tool execution did not complete (detail hash ''
     @ take 12 (to_lower_hex (sha256 (codec (eng_ser eng)) (eng_message eng e))) @ '')''"

text \<open>\<open>revalidate_execution\<close>: verify the plan again under everything as it is now.\<close>

definition revalidate_execution ::
  "engine \<Rightarrow> 'w host \<Rightarrow> 'w exec_context \<Rightarrow> string \<Rightarrow> (exec_error + tool_descriptor) \<times> 'w exec_context"
where
  "revalidate_execution eng h ctx tool =
     (case load_input eng h (world ctx) (db ctx) (sub_agent (submission ctx)) (sub_plan (submission ctx)) None of
        Inl e \<Rightarrow> (Inl e, ctx)
      | Inr current \<Rightarrow>
          (case List.find (\<lambda>d. td_name d = tool) (catalog (ld_input current)) of
             None \<Rightarrow> (Inl ToolGone, ctx)
           | Some d \<Rightarrow>
               (let report = verify (eng_ser eng) (ld_input current) in
                if decision report = Denied
                   \<or> bindings report \<noteq> bindings (sub_report (submission ctx))
                   \<or> ld_policy_id current \<noteq> sub_policy_id (submission ctx)
                then (Inl BindingsChanged, ctx)
                else
                  (case validate_certificate (eng_cert eng) (held_certificate ctx)
                          (bindings_from (bindings report)) (agent_revision (ld_input current))
                          (clock_ms h (world ctx)) of
                     Inl e \<Rightarrow> (Inl (CertificateRejected e), ctx)
                   | Inr u \<Rightarrow>
                       (Inr d,
                        ctx\<lparr>who := (who ctx)\<lparr>id_allowlist := ag_tools (ld_agent current),
                                             id_profiles := ag_profiles (ld_agent current)\<rparr>\<rparr>)))))"

text \<open>\<open>save_step\<close> through the store of the context; an error of the store ends the execution.\<close>

definition record_step :: "step_receipt \<Rightarrow> 'w exec_context \<Rightarrow> (exec_error + unit) \<times> 'w exec_context" where
  "record_step step ctx =
     (case save_step (er_id (receipt ctx)) step (db ctx) of
        (Inl e, st) \<Rightarrow> (Inl StoreFailed, ctx\<lparr>db := st\<rparr>)
      | (Inr u, st) \<Rightarrow> (Inr (), ctx\<lparr>db := st\<rparr>))"

text \<open>Record the step with its final status, then fail with the error given.\<close>

definition fail_step ::
  "engine \<Rightarrow> step_receipt \<Rightarrow> string \<Rightarrow> string option \<Rightarrow> exec_error \<Rightarrow> 'w exec_context
     \<Rightarrow> (exec_error + json) \<times> 'w exec_context" where
  "fail_step eng step status failure e ctx =
     (let ctx1 = (case failure of None \<Rightarrow> ctx | Some f \<Rightarrow> ctx\<lparr>failure_status := Some f\<rparr>)
      in case record_step (step\<lparr>sr_status := status, sr_error := Some (sanitize_error eng e)\<rparr>) ctx1 of
           (Inl e', ctx2) \<Rightarrow> (Inl e', ctx2)
         | (Inr u, ctx2) \<Rightarrow> (Inl e, ctx2))"

subsection \<open>One call\<close>

definition grant_for :: "'w exec_context \<Rightarrow> string \<Rightarrow> tool_descriptor \<Rightarrow> string \<Rightarrow> step_grant" where
  "grant_for ctx i d arguments_hash =
     \<lparr>gr_submission = sub_id (submission ctx), gr_certificate_id = certificate_id ctx,
      gr_agent = id_agent (who ctx), gr_step = i, gr_chain = dispatch_chain d,
      gr_implementation = implementation_hash d, gr_arguments_hash = arguments_hash,
      gr_bindings = bindings_from (bindings (sub_report (submission ctx))),
      gr_certificate = held_certificate ctx\<rparr>"

text \<open>What follows the return of the tool.\<close>

definition accept_output ::
  "engine \<Rightarrow> tool_descriptor \<Rightarrow> string \<Rightarrow> step_receipt \<Rightarrow> json \<Rightarrow> 'w exec_context
     \<Rightarrow> (exec_error + json) \<times> 'w exec_context" where
  "accept_output eng d i step out ctx =
     (if jget out ''__ryu_elicitation__'' \<noteq> None
      then fail_step eng step ''blocked'' (Some ''blocked'') NeedsConnection ctx
      else
        (case canonical_json (codec (eng_ser eng)) (Some out) of
           None \<Rightarrow> (Inl HashFailed, ctx)
         | Some bytes \<Rightarrow>
             if MAX_STEP_OUTPUT_BYTES < length bytes
                \<or> MAX_EXECUTION_OUTPUT_BYTES < sat_add (retained_output_bytes ctx) (length bytes)
             then fail_step eng step ''uncertain'' None OutputTooLarge ctx
             else
               (case validate_runtime_value out (output_schema d) of
                  Inl e \<Rightarrow> fail_step eng step ''failed'' (Some ''failed'') (OutputRejected e) ctx
                | Inr u \<Rightarrow>
                    (let ctx1 = ctx\<lparr>retained_output_bytes :=
                                      sat_add (retained_output_bytes ctx) (length bytes)\<rparr>
                     in case hash_json eng (Some out) of
                          None \<Rightarrow> (Inl HashFailed, ctx1)
                        | Some hash \<Rightarrow>
                            (case record_step (step\<lparr>sr_status := ''succeeded'',
                                    sr_result_hash := Some hash\<rparr>) ctx1 of
                               (Inl e, ctx2) \<Rightarrow> (Inl e, ctx2)
                             | (Inr v, ctx2) \<Rightarrow>
                                 (Inr out, ctx2\<lparr>step_outputs := (step_outputs ctx2)(i \<mapsto> out)\<rparr>))))))"

text \<open>The dispatch, with the grant in scope, and the two ways it can end.\<close>

definition dispatch_call ::
  "engine \<Rightarrow> 'w host \<Rightarrow> tool_descriptor \<Rightarrow> string \<Rightarrow> string \<Rightarrow> json \<Rightarrow> string \<Rightarrow> step_receipt
     \<Rightarrow> 'w exec_context \<Rightarrow> (exec_error + json) \<times> 'w exec_context" where
  "dispatch_call eng h d i tool v arguments_hash step ctx =
     (let g = grant_for ctx i d arguments_hash;
          (result, w, st) = run_tool h (world ctx) (db ctx) g (who ctx) tool v;
          ctx1 = ctx\<lparr>world := w, db := st, dispatched := dispatched ctx @ [(g, tool, v)]\<rparr>;
          step1 = step\<lparr>sr_finished := Some (clock_text h w)\<rparr>
      in case result of
           None \<Rightarrow> fail_step eng step1 ''uncertain'' None ToolCallFailed ctx1
         | Some out \<Rightarrow> accept_output eng d i step1 out ctx1)"

text \<open>What happens before anything is recorded: re-verification, then the arguments and their checks.\<close>

definition prepare_call ::
  "engine \<Rightarrow> 'w host \<Rightarrow> string \<Rightarrow> plan_value \<Rightarrow> 'w exec_context
     \<Rightarrow> (exec_error + tool_descriptor \<times> json \<times> string) \<times> 'w exec_context" where
  "prepare_call eng h tool arguments ctx0 =
     (let (w, st) = wait_turn h (world ctx0) (db ctx0);
          ctx = ctx0\<lparr>world := w, db := st\<rparr>
      in case revalidate_execution eng h ctx tool of
           (Inl e, ctx1) \<Rightarrow> (Inl e, ctx1)
         | (Inr d, ctx1) \<Rightarrow>
             (case materialize (eng_pointer eng) (step_outputs ctx1) arguments of
                Inl e \<Rightarrow> (Inl e, ctx1)
              | Inr v \<Rightarrow>
                  (case validate_runtime_value v (input_schema d) of
                     Inl e \<Rightarrow> (Inl (ArgumentsRejected e), ctx1\<lparr>failure_status := Some ''failed''\<rparr>)
                   | Inr u \<Rightarrow>
                       (case hash_json eng (Some v) of
                          None \<Rightarrow> (Inl HashFailed, ctx1)
                        | Some arguments_hash \<Rightarrow> (Inr (d, v, arguments_hash), ctx1)))))"

definition execute_call ::
  "engine \<Rightarrow> 'w host \<Rightarrow> string \<Rightarrow> string \<Rightarrow> plan_value \<Rightarrow> 'w exec_context
     \<Rightarrow> (exec_error + json) \<times> 'w exec_context" where
  "execute_call eng h i tool arguments ctx0 =
     (case prepare_call eng h tool arguments ctx0 of
        (Inl e, ctx1) \<Rightarrow> (Inl e, ctx1)
      | (Inr (d, v, arguments_hash), ctx1) \<Rightarrow>
          (let ctx2 = ctx1\<lparr>ordinal := sat_add_u64 (ordinal ctx1) 1\<rparr>;
               step = \<lparr>sr_step = i, sr_ordinal = ordinal ctx2, sr_tool = tool,
                       sr_arguments_hash = arguments_hash, sr_result_hash = None,
                       sr_status = ''running'', sr_error = None,
                       sr_started = clock_text h (world ctx2), sr_finished = None\<rparr>
           in case record_step step ctx2 of
                (Inl e, ctx3) \<Rightarrow> (Inl e, ctx3)
              | (Inr x, ctx3) \<Rightarrow>
                  if registry_tools h (world ctx3) = None then (Inl NoRegistry, ctx3)
                  else dispatch_call eng h d i tool v arguments_hash step ctx3))"

subsection \<open>The walk\<close>

fun execute_node ::
    "engine \<Rightarrow> 'w host \<Rightarrow> plan_node \<Rightarrow> 'w exec_context \<Rightarrow> (exec_error + json) \<times> 'w exec_context"
  and execute_nodes ::
    "engine \<Rightarrow> 'w host \<Rightarrow> plan_node list \<Rightarrow> 'w exec_context
       \<Rightarrow> (exec_error + json list) \<times> 'w exec_context"
where
  "execute_node eng h (Call i tool args) ctx = execute_call eng h i tool args ctx"
| "execute_node eng h (Sequence i nodes) ctx =
     apfst (map_sum id JArray) (execute_nodes eng h nodes ctx)"
| "execute_node eng h (Parallel i nodes) ctx =
     apfst (map_sum id JArray) (execute_nodes eng h nodes ctx)"
| "execute_node eng h (IfNode i p th el) ctx =
     (case evaluate_predicate (eng_pointer eng) (step_outputs ctx) p of
        Inl e \<Rightarrow> (Inl e, ctx)
      | Inr b \<Rightarrow> if b then execute_node eng h th ctx else execute_node eng h el ctx)"
| "execute_nodes eng h [] ctx = (Inr [], ctx)"
| "execute_nodes eng h (n # ns) ctx =
     (case execute_node eng h n ctx of
        (Inl e, ctx1) \<Rightarrow> (Inl e, ctx1)
      | (Inr v, ctx1) \<Rightarrow> apfst (map_sum id (Cons v)) (execute_nodes eng h ns ctx1))"

end
