(* ===== verification/SafeActions_Run.thy ===== *)
theory SafeActions_Run
  imports SafeActions_Exec SafeActions_Lifecycle
begin

section \<open>What an execution does\<close>

text \<open>
  The executor seen as a sequence of elementary steps on its context (\<open>exec_step\<close>): every branch
  of \<open>execute_call\<close>, errors included, is such a sequence, so a property of the steps is a property
  of the execution.  The lemmas say what a dispatched call carries, that calls are dispatched in the
  order of the plan and each at most once, that the retained output stays within its limit, that a
  plan the verifier typed never refers to an output that is missing, and that an execution moves the
  store along its step relation only.
\<close>

subsection \<open>Justified dispatches\<close>

text \<open>
  What a re-verification in a world and a store establishes: the descriptor is of the catalog loaded
  there, and for what is loaded there the verifier accepts the plan with the bindings of the
  submission and the certificate held validates, by the clock of that world.  A dispatch is justified
  when this held in some world and store; \<open>SafeActions_Moment\<close> says in which.
\<close>

definition revalidated ::
  "engine \<Rightarrow> 'w host \<Rightarrow> 'w \<Rightarrow> safe_store \<Rightarrow> submission_record \<Rightarrow> certificate \<Rightarrow> string
     \<Rightarrow> tool_descriptor \<Rightarrow> bool" where
  "revalidated eng h w st sub cert tool d \<longleftrightarrow>
     (\<exists>current.
        load_input eng h w st (sub_agent sub) (sub_plan sub) None = Inr current
        \<and> d \<in> set (catalog (ld_input current)) \<and> td_name d = tool
        \<and> decision (verify (eng_ser eng) (ld_input current)) \<noteq> Denied
        \<and> bindings (verify (eng_ser eng) (ld_input current)) = bindings (sub_report sub)
        \<and> ld_policy_id current = sub_policy_id sub
        \<and> validate_certificate (eng_cert eng) cert (bindings_from (bindings (sub_report sub)))
            (agent_revision (ld_input current)) (clock_ms h w) = Inr ())"

definition justified ::
  "engine \<Rightarrow> 'w host \<Rightarrow> 'w exec_context \<Rightarrow> string \<Rightarrow> string \<Rightarrow> step_grant \<Rightarrow> json \<Rightarrow> bool" where
  "justified eng h ctx i tool g v \<longleftrightarrow>
     (\<exists>w st d hash. revalidated eng h w st (submission ctx) (held_certificate ctx) tool d
        \<and> validate_runtime_value v (input_schema d) = Inr ()
        \<and> hash_json eng (Some v) = Some hash \<and> g = grant_for ctx i d hash)"

subsection \<open>Elementary steps\<close>

inductive exec_step ::
  "engine \<Rightarrow> 'w host \<Rightarrow> string \<Rightarrow> string \<Rightarrow> 'w exec_context \<Rightarrow> 'w exec_context \<Rightarrow> bool"
  for eng :: engine and h :: "'w host" and i tool :: string
where
  exec_turn:
    "wait_turn h (world ctx) (db ctx) = (w, st) \<Longrightarrow> exec_step eng h i tool ctx (ctx\<lparr>world := w, db := st\<rparr>)"
| exec_identify:
    "exec_step eng h i tool ctx (ctx\<lparr>who := (who ctx)\<lparr>id_allowlist := a, id_profiles := ps\<rparr>\<rparr>)"
| exec_failing:
    "f \<in> {''failed'', ''blocked''} \<Longrightarrow> exec_step eng h i tool ctx (ctx\<lparr>failure_status := Some f\<rparr>)"
| exec_number: "exec_step eng h i tool ctx (ctx\<lparr>ordinal := sat_add_u64 (ordinal ctx) 1\<rparr>)"
| exec_record:
    "exec_step eng h i tool ctx (ctx\<lparr>db := snd (save_step (er_id (receipt ctx)) s (db ctx))\<rparr>)"
| exec_dispatch:
    "justified eng h ctx i tool g v \<Longrightarrow>
     run_tool h (world ctx) (db ctx) g (who ctx) tool v = (result, w, st) \<Longrightarrow>
     exec_step eng h i tool ctx
       (ctx\<lparr>world := w, db := st, dispatched := dispatched ctx @ [(g, tool, v)]\<rparr>)"
| exec_retain:
    "sat_add (retained_output_bytes ctx) n \<le> MAX_EXECUTION_OUTPUT_BYTES \<Longrightarrow>
     exec_step eng h i tool ctx
       (ctx\<lparr>retained_output_bytes := sat_add (retained_output_bytes ctx) n\<rparr>)"
| exec_output: "exec_step eng h i tool ctx (ctx\<lparr>step_outputs := (step_outputs ctx)(i \<mapsto> out)\<rparr>)"

abbreviation exec_steps ::
  "engine \<Rightarrow> 'w host \<Rightarrow> string \<Rightarrow> string \<Rightarrow> 'w exec_context \<Rightarrow> 'w exec_context \<Rightarrow> bool" where
  "exec_steps eng h i tool \<equiv> (exec_step eng h i tool)\<^sup>*\<^sup>*"

lemma record_step_steps: "exec_steps eng h i tool ctx (snd (record_step s ctx))"
proof -
  have "snd (record_step s ctx) = ctx\<lparr>db := snd (save_step (er_id (receipt ctx)) s (db ctx))\<rparr>"
    by (auto simp: record_step_def split: prod.splits sum.splits)
  then show ?thesis by (metis r_into_rtranclp exec_record)
qed

lemma fail_step_steps:
  assumes "failure = None \<or> failure = Some ''failed'' \<or> failure = Some ''blocked''"
  shows "exec_steps eng h i tool ctx (snd (fail_step eng s status failure e ctx))"
proof -
  let ?ctx1 = "case failure of None \<Rightarrow> ctx | Some f \<Rightarrow> ctx\<lparr>failure_status := Some f\<rparr>"
  have "exec_steps eng h i tool ctx ?ctx1"
    using assms by (auto intro!: exec_failing)
  moreover have "snd (fail_step eng s status failure e ctx) =
      snd (record_step (s\<lparr>sr_status := status, sr_error := Some (sanitize_error eng e)\<rparr>) ?ctx1)"
    by (simp add: fail_step_def Let_def split: prod.splits sum.splits)
  ultimately show ?thesis using record_step_steps by (metis rtranclp_trans)
qed

lemma accept_output_steps: "exec_steps eng h i tool ctx (snd (accept_output eng d i s out ctx))"
proof -
  note fail = fail_step_steps [where eng = eng and h = h and i = i and tool = tool]
  have keep: "exec_steps eng h i tool ctx (ctx\<lparr>retained_output_bytes := sat_add (retained_output_bytes ctx) n\<rparr>)"
    if "sat_add (retained_output_bytes ctx) n \<le> MAX_EXECUTION_OUTPUT_BYTES" for n
    by (rule r_into_rtranclp) (rule exec_retain [OF that])
  have succeed: "exec_steps eng h i tool ctx (snd (case record_step t c0 of
         (Inl e, c) \<Rightarrow> (Inl e, c)
       | (Inr v, c) \<Rightarrow> (Inr out, c\<lparr>step_outputs := (step_outputs c)(i \<mapsto> out)\<rparr>)))"
    if "exec_steps eng h i tool ctx c0" for t c0
  proof -
    obtain r c where run: "record_step t c0 = (r, c)" by (cases "record_step t c0")
    have c: "exec_steps eng h i tool ctx c"
      using rtranclp_trans [OF that record_step_steps [where s = t]] run by simp
    then have "exec_steps eng h i tool ctx (c\<lparr>step_outputs := (step_outputs c)(i \<mapsto> out)\<rparr>)"
      using exec_output by (rule rtranclp.rtrancl_into_rtrancl)
    with c show ?thesis by (simp add: run split: sum.split)
  qed
  from keep succeed [OF keep] fail show ?thesis
    by (simp add: accept_output_def Let_def split: option.split sum.split)
qed

lemma dispatch_call_steps:
  assumes "justified eng h ctx i tool (grant_for ctx i d hash) v"
  shows "exec_steps eng h i tool ctx (snd (dispatch_call eng h d i tool v hash s ctx))"
proof -
  let ?g = "grant_for ctx i d hash"
  obtain result w st where run: "run_tool h (world ctx) (db ctx) ?g (who ctx) tool v = (result, w, st)"
    by (cases "run_tool h (world ctx) (db ctx) ?g (who ctx) tool v") auto
  let ?ctx1 = "ctx\<lparr>world := w, db := st, dispatched := dispatched ctx @ [(?g, tool, v)]\<rparr>"
  have first: "exec_steps eng h i tool ctx ?ctx1"
    by (rule r_into_rtranclp) (rule exec_dispatch [OF assms run])
  have rest: "exec_steps eng h i tool ?ctx1 (snd (case result of
      None \<Rightarrow> fail_step eng (s\<lparr>sr_finished := Some (clock_text h w)\<rparr>) ''uncertain'' None ToolCallFailed ?ctx1
    | Some out \<Rightarrow> accept_output eng d i (s\<lparr>sr_finished := Some (clock_text h w)\<rparr>) out ?ctx1))"
    by (cases result) (simp_all add: fail_step_steps accept_output_steps)
  have "dispatch_call eng h d i tool v hash s ctx = (case result of
      None \<Rightarrow> fail_step eng (s\<lparr>sr_finished := Some (clock_text h w)\<rparr>) ''uncertain'' None ToolCallFailed ?ctx1
    | Some out \<Rightarrow> accept_output eng d i (s\<lparr>sr_finished := Some (clock_text h w)\<rparr>) out ?ctx1)"
    by (simp add: dispatch_call_def Let_def run)
  then show ?thesis using rtranclp_trans [OF first rest] by simp
qed

text \<open>A re-verification changes no more than the identity, and what it returns is justified.\<close>

lemma find_Some: "List.find p xs = Some x \<Longrightarrow> x \<in> set xs \<and> p x"
  by (auto simp: find_Some_iff)

lemma revalidate_ok:
  assumes "revalidate_execution eng h ctx tool = (Inr d, ctx')"
  shows "revalidated eng h (world ctx) (db ctx) (submission ctx) (held_certificate ctx) tool d"
proof -
  obtain current
    where load: "load_input eng h (world ctx) (db ctx) (sub_agent (submission ctx))
        (sub_plan (submission ctx)) None = Inr current"
      and find: "List.find (\<lambda>d. td_name d = tool) (catalog (ld_input current)) = Some d"
      and ok: "decision (verify (eng_ser eng) (ld_input current)) \<noteq> Denied"
        "bindings (verify (eng_ser eng) (ld_input current)) = bindings (sub_report (submission ctx))"
        "ld_policy_id current = sub_policy_id (submission ctx)"
      and cert: "validate_certificate (eng_cert eng) (held_certificate ctx)
        (bindings_from (bindings (verify (eng_ser eng) (ld_input current))))
        (agent_revision (ld_input current)) (clock_ms h (world ctx)) = Inr ()"
    using assms
    by (auto simp: revalidate_execution_def Let_def split: sum.splits option.splits if_splits)
  then show ?thesis
    using find_Some [OF find] by (auto simp: revalidated_def)
qed

lemma revalidate_steps: "exec_steps eng h i tool ctx (snd (revalidate_execution eng h ctx tool))"
  by (auto simp: revalidate_execution_def Let_def exec_identify split: sum.split option.split)

lemma revalidate_frame:
  "submission (snd (revalidate_execution eng h ctx tool)) = submission ctx"
  "held_certificate (snd (revalidate_execution eng h ctx tool)) = held_certificate ctx"
  "dispatched (snd (revalidate_execution eng h ctx tool)) = dispatched ctx"
  "step_outputs (snd (revalidate_execution eng h ctx tool)) = step_outputs ctx"
  by (auto simp: revalidate_execution_def Let_def split: sum.split option.split)

subsection \<open>One call\<close>

text \<open>The errors of a reference to an output that is missing, or of values that have no order.\<close>

fun stuck :: "exec_error \<Rightarrow> bool" where
  "stuck (StepUnavailable step) \<longleftrightarrow> True"
| "stuck NotOrderComparable \<longleftrightarrow> True"
| "stuck _ \<longleftrightarrow> False"

lemma data_error_not_stuck: "data_error e \<Longrightarrow> \<not> stuck e"
  by (cases e) auto

text \<open>
  What a call leaves: either it succeeds and its output is kept under its id, or it fails, keeps the
  outputs, and is not stuck.
\<close>

definition call_outcome :: "string \<Rightarrow> outputs \<Rightarrow> (exec_error + json) \<times> 'w exec_context \<Rightarrow> bool" where
  "call_outcome i outs r \<longleftrightarrow>
     (case fst r of
        Inl e \<Rightarrow> step_outputs (snd r) = outs \<and> \<not> stuck e
      | Inr v \<Rightarrow> step_outputs (snd r) = outs(i \<mapsto> v))"

lemma record_step_frame:
  "record_step s ctx = (r, ctx') \<Longrightarrow> dispatched ctx' = dispatched ctx"
  "record_step s ctx = (r, ctx') \<Longrightarrow> step_outputs ctx' = step_outputs ctx"
  "record_step s ctx = (Inl e, ctx') \<Longrightarrow> \<not> stuck e"
  by (auto simp: record_step_def split: prod.splits sum.splits)

lemma fail_step_frame:
  "dispatched (snd (fail_step eng s status failure e ctx)) = dispatched ctx"
  "\<not> stuck e \<Longrightarrow> call_outcome i (step_outputs ctx) (fail_step eng s status failure e ctx)"
  by (auto simp: fail_step_def Let_def call_outcome_def split: prod.split sum.split option.split
      dest: record_step_frame)

lemma accept_output_frame:
  "dispatched (snd (accept_output eng d i s out ctx)) = dispatched ctx"
  "call_outcome i (step_outputs ctx) (accept_output eng d i s out ctx)"
proof -
  show "dispatched (snd (accept_output eng d i s out ctx)) = dispatched ctx"
    by (auto simp: accept_output_def Let_def fail_step_frame split: option.split sum.split prod.split
        dest: record_step_frame)
  show "call_outcome i (step_outputs ctx) (accept_output eng d i s out ctx)"
    by (auto simp: accept_output_def Let_def fail_step_frame split: option.split sum.split prod.split)
      (auto simp: call_outcome_def dest: record_step_frame)
qed

lemma dispatch_call_frame:
  "\<exists>g. dispatched (snd (dispatch_call eng h d i tool v hash s ctx)) = dispatched ctx @ [(g, tool, v)]"
  "call_outcome i (step_outputs ctx) (dispatch_call eng h d i tool v hash s ctx)"
proof -
  let ?g = "grant_for ctx i d hash"
  obtain result w st where run: "run_tool h (world ctx) (db ctx) ?g (who ctx) tool v = (result, w, st)"
    by (cases "run_tool h (world ctx) (db ctx) ?g (who ctx) tool v") auto
  let ?ctx1 = "ctx\<lparr>world := w, db := st, dispatched := dispatched ctx @ [(?g, tool, v)]\<rparr>"
  have "dispatch_call eng h d i tool v hash s ctx = (case result of
      None \<Rightarrow> fail_step eng (s\<lparr>sr_finished := Some (clock_text h w)\<rparr>) ''uncertain'' None ToolCallFailed ?ctx1
    | Some out \<Rightarrow> accept_output eng d i (s\<lparr>sr_finished := Some (clock_text h w)\<rparr>) out ?ctx1)"
    by (simp add: dispatch_call_def Let_def run)
  then show "\<exists>g. dispatched (snd (dispatch_call eng h d i tool v hash s ctx)) = dispatched ctx @ [(g, tool, v)]"
    and "call_outcome i (step_outputs ctx) (dispatch_call eng h d i tool v hash s ctx)"
    using fail_step_frame [where ctx = ?ctx1] accept_output_frame [where ctx = ?ctx1]
    by (auto split: option.split)
qed

lemma map_sum_Inl [simp]: "map_sum id f m = Inl e \<longleftrightarrow> m = Inl e"
  by (cases m) auto

lemma catalog_entry_error: "catalog_entry h w trusted allowed t = Inl e \<Longrightarrow> e = LoadFailed"
  unfolding catalog_entry_def by (cases "rt_server t = SERVER_NAME"; cases allowed) (simp_all split: if_splits option.splits)

lemma trusted_contracts_error: "trusted_contracts eng st = Inl e \<Longrightarrow> e = HashFailed"
  unfolding trusted_contracts_def map_sum_Inl by (drule try_map_err) (auto split: option.splits)

lemma service_catalog_error:
  assumes "service_catalog eng h w st allowed = Inl e"
  shows "e \<in> {NoRegistry, HashFailed, LoadFailed}"
proof -
  have "e = LoadFailed" if "try_map (catalog_entry h w trusted allowed) tools = Inl e" for trusted tools
    using try_map_err [OF that] by (auto dest: catalog_entry_error)
  with assms trusted_contracts_error [of eng st] show ?thesis
    by (auto simp: service_catalog_def split: option.splits sum.splits)
qed

lemma load_input_not_stuck:
  assumes "load_input eng h w st agent p override = Inl e"
  shows "\<not> stuck e"
proof -
  have "\<not> stuck e" if "service_catalog eng h w st allowed = Inl e" for allowed
    using service_catalog_error [OF that] by auto
  with assms show ?thesis
    by (auto simp: load_input_def load_agent_def load_policy_def
        split: sum.splits option.splits if_splits prod.splits)
qed

lemma revalidate_not_stuck: "revalidate_execution eng h ctx tool = (Inl e, ctx') \<Longrightarrow> \<not> stuck e"
  by (auto simp: revalidate_execution_def Let_def split: sum.splits option.splits if_splits
      dest: load_input_not_stuck)

lemma justified_ordinal_db:
  "justified eng h (ctx\<lparr>ordinal := n, db := st\<rparr>) i tool (grant_for (ctx\<lparr>ordinal := n, db := st\<rparr>) i d hash) v
     \<longleftrightarrow> justified eng h ctx i tool (grant_for ctx i d hash) v"
  by (simp add: justified_def grant_for_def)

text \<open>
  The preparation of a call dispatches nothing and keeps the outputs; it fails in an error that is
  not stuck or is that of the arguments, and what it lets through is justified.
\<close>

lemma prepare_call_frame:
  assumes "prepare_call eng h tool args ctx = (r, ctx1)"
  shows "exec_steps eng h i tool ctx ctx1" and "dispatched ctx1 = dispatched ctx"
    and "step_outputs ctx1 = step_outputs ctx"
    and "r = Inl e \<Longrightarrow> \<not> stuck e \<or> materialize (eng_pointer eng) (step_outputs ctx) args = Inl e"
    and "r = Inr (d, v, hash) \<Longrightarrow> justified eng h ctx1 i tool (grant_for ctx1 i d hash) v"
    and "r = Inr (d, v, hash) \<Longrightarrow> materialize (eng_pointer eng) (step_outputs ctx) args = Inr v"
proof -
  obtain w st where turn: "wait_turn h (world ctx) (db ctx) = (w, st)"
    by (cases "wait_turn h (world ctx) (db ctx)")
  define ctx0 where "ctx0 = ctx\<lparr>world := w, db := st\<rparr>"
  obtain q ctx2 where rev: "revalidate_execution eng h ctx0 tool = (q, ctx2)"
    by (cases "revalidate_execution eng h ctx0 tool")
  have run: "(r, ctx1) = (case q of Inl e \<Rightarrow> (Inl e, ctx2)
    | Inr d \<Rightarrow>
        (case materialize (eng_pointer eng) (step_outputs ctx2) args of
           Inl e \<Rightarrow> (Inl e, ctx2)
         | Inr v \<Rightarrow>
             (case validate_runtime_value v (input_schema d) of
                Inl e \<Rightarrow> (Inl (ArgumentsRejected e), ctx2\<lparr>failure_status := Some ''failed''\<rparr>)
              | Inr u \<Rightarrow>
                  (case hash_json eng (Some v) of
                     None \<Rightarrow> (Inl HashFailed, ctx2) | Some hash \<Rightarrow> (Inr (d, v, hash), ctx2)))))"
    using assms by (simp add: prepare_call_def turn ctx0_def [symmetric] rev split: sum.split)
  have same: "submission ctx2 = submission ctx0" "held_certificate ctx2 = held_certificate ctx0"
    "dispatched ctx2 = dispatched ctx" "step_outputs ctx2 = step_outputs ctx"
    using revalidate_frame [of eng h ctx0 tool] rev by (simp_all add: ctx0_def)
  have ends: "ctx1 = ctx2 \<or> ctx1 = ctx2\<lparr>failure_status := Some ''failed''\<rparr>"
    using run by (auto split: sum.splits option.splits)
  have "exec_steps eng h i tool ctx ctx0"
    unfolding ctx0_def by (rule r_into_rtranclp) (rule exec_turn [OF turn])
  then have two: "exec_steps eng h i tool ctx ctx2"
    using revalidate_steps [of eng h i tool ctx0] rev by (metis rtranclp_trans snd_conv)
  moreover have "exec_steps eng h i tool ctx (ctx2\<lparr>failure_status := Some ''failed''\<rparr>)"
    using two by (rule rtranclp.rtrancl_into_rtrancl) (rule exec_failing, simp)
  ultimately show "exec_steps eng h i tool ctx ctx1" using ends by blast
  show "dispatched ctx1 = dispatched ctx" "step_outputs ctx1 = step_outputs ctx"
    using ends same by auto
  show "\<not> stuck e \<or> materialize (eng_pointer eng) (step_outputs ctx) args = Inl e" if "r = Inl e"
    using run that revalidate_not_stuck [of eng h ctx0 tool e ctx2] rev same(4)
    by (auto split: sum.splits option.splits)
  show "justified eng h ctx1 i tool (grant_for ctx1 i d hash) v" if "r = Inr (d, v, hash)"
    using run that revalidate_ok [of eng h ctx0 tool d ctx2] rev same(1,2)
    by (auto simp: justified_def split: sum.splits option.splits)
  show "materialize (eng_pointer eng) (step_outputs ctx) args = Inr v" if "r = Inr (d, v, hash)"
    using run that same(4) by (auto split: sum.splits option.splits)
qed

text \<open>
  A call either ends before it dispatches anything, in an error that is not stuck or is that of its
  arguments, or it comes to the dispatch, justified.
\<close>

lemma execute_call_cases:
  obtains (early) e ctx1 where "execute_call eng h i tool args ctx = (Inl e, ctx1)"
      and "exec_steps eng h i tool ctx ctx1" and "dispatched ctx1 = dispatched ctx"
      and "step_outputs ctx1 = step_outputs ctx"
      and "\<not> stuck e \<or> materialize (eng_pointer eng) (step_outputs ctx) args = Inl e"
  | (dispatch) ctx1 d v hash s where
      "execute_call eng h i tool args ctx = dispatch_call eng h d i tool v hash s ctx1"
      and "exec_steps eng h i tool ctx ctx1" and "dispatched ctx1 = dispatched ctx"
      and "step_outputs ctx1 = step_outputs ctx"
      and "justified eng h ctx1 i tool (grant_for ctx1 i d hash) v"
      and "materialize (eng_pointer eng) (step_outputs ctx) args = Inr v"
proof (cases "prepare_call eng h tool args ctx")
  case prep: (Pair r ctx1)
  note frame = prepare_call_frame [OF prep]
  show thesis
  proof (cases r)
    case (Inl e)
    have "execute_call eng h i tool args ctx = (Inl e, ctx1)"
      by (simp add: execute_call_def prep Inl)
    from early [OF this frame(1-3) frame(4) [OF Inl]] show thesis .
  next
    case (Inr q)
    obtain d v hash where q: "q = (d, v, hash)" by (cases q)
    note r = Inr [unfolded q]
    define ctx2 where "ctx2 = ctx1\<lparr>ordinal := sat_add_u64 (ordinal ctx1) 1\<rparr>"
    define s where "s = \<lparr>sr_step = i, sr_ordinal = ordinal ctx2, sr_tool = tool,
       sr_arguments_hash = hash, sr_result_hash = None, sr_status = ''running'', sr_error = None,
       sr_started = clock_text h (world ctx2), sr_finished = None\<rparr>"
    obtain x ctx3 where saved: "record_step s ctx2 = (x, ctx3)" by (cases "record_step s ctx2")
    have call: "execute_call eng h i tool args ctx =
      (case x of Inl e \<Rightarrow> (Inl e, ctx3)
       | Inr y \<Rightarrow> if registry_tools h (world ctx3) = None then (Inl NoRegistry, ctx3)
           else dispatch_call eng h d i tool v hash s ctx3)"
      using saved by (cases x) (simp_all add: execute_call_def prep r ctx2_def s_def Let_def)
    have two: "exec_steps eng h i tool ctx ctx2"
      unfolding ctx2_def using frame(1) by (rule rtranclp.rtrancl_into_rtrancl) (rule exec_number)
    have three: "exec_steps eng h i tool ctx ctx3"
      using rtranclp_trans [OF two record_step_steps [where s = s]] saved by simp
    have kept: "dispatched ctx3 = dispatched ctx" "step_outputs ctx3 = step_outputs ctx"
      using record_step_frame(1,2) [OF saved] frame(2,3) by (simp_all add: ctx2_def)
    have "ctx3 = ctx2\<lparr>db := db ctx3\<rparr>"
      using saved by (auto simp: record_step_def split: prod.splits sum.splits)
    then have "ctx3 = ctx1\<lparr>ordinal := sat_add_u64 (ordinal ctx1) 1, db := db ctx3\<rparr>"
      by (simp add: ctx2_def)
    then have just: "justified eng h ctx3 i tool (grant_for ctx3 i d hash) v"
      using frame(5) [OF r] by (metis justified_ordinal_db)
    show thesis
    proof (cases "isl x \<or> registry_tools h (world ctx3) = None")
      case True
      then obtain e where "execute_call eng h i tool args ctx = (Inl e, ctx3)" "\<not> stuck e"
        using call saved record_step_frame(3) [of s ctx2] by (cases x) auto
      then show thesis using three kept by - (rule early [of e ctx3], simp_all)
    next
      case False
      then have "execute_call eng h i tool args ctx = dispatch_call eng h d i tool v hash s ctx3"
        using call by (cases x) auto
      then show thesis using three kept just frame(6) [OF r] by (rule dispatch)
    qed
  qed
qed

lemma execute_call_steps: "exec_steps eng h i tool ctx (snd (execute_call eng h i tool args ctx))"
proof (cases rule: execute_call_cases [of eng h i tool args ctx])
  case (dispatch ctx1 d v hash s)
  then show ?thesis
    using rtranclp_trans [OF dispatch(2) dispatch_call_steps [OF dispatch(5)]] by simp
qed simp

subsection \<open>What is dispatched\<close>

text \<open>What no step changes: the evidence the execution was started with.\<close>

definition fixed_part ::
  "'w exec_context \<Rightarrow> submission_record \<times> certificate \<times> string \<times> execution_receipt \<times> string" where
  "fixed_part ctx =
     (submission ctx, held_certificate ctx, certificate_id ctx, receipt ctx, id_agent (who ctx))"

lemma exec_step_fixed: "exec_step eng h i tool ctx ctx' \<Longrightarrow> fixed_part ctx' = fixed_part ctx"
  by (erule exec_step.cases) (simp_all add: fixed_part_def)

lemma exec_steps_fixed: "exec_steps eng h i tool ctx ctx' \<Longrightarrow> fixed_part ctx' = fixed_part ctx"
  by (induction rule: rtranclp_induct) (simp_all add: exec_step_fixed)

lemma justified_fixed:
  assumes "fixed_part ctx' = fixed_part ctx"
  shows "justified eng h ctx' i tool g v \<longleftrightarrow> justified eng h ctx i tool g v"
proof -
  have "grant_for ctx' i d hash = grant_for ctx i d hash" for d hash
    using assms by (simp add: grant_for_def fixed_part_def)
  with assms show ?thesis by (simp add: justified_def fixed_part_def)
qed

definition dispatches ::
  "engine \<Rightarrow> 'w host \<Rightarrow> (string \<times> string \<times> plan_value) list \<Rightarrow> 'w exec_context \<Rightarrow> 'w exec_context \<Rightarrow> bool"
where
  "dispatches eng h calls ctx ctx' \<longleftrightarrow>
     fixed_part ctx' = fixed_part ctx
     \<and> (\<exists>new. dispatched ctx' = dispatched ctx @ new
          \<and> subseq (map (\<lambda>(g, t, v). (gr_step g, t)) new) (map (\<lambda>(i, t, args). (i, t)) calls)
          \<and> (\<forall>(g, t, v) \<in> set new. justified eng h ctx (gr_step g) t g v))"

lemma dispatches_refl: "dispatches eng h calls ctx ctx"
  by (simp add: dispatches_def)

lemma dispatches_append:
  assumes "dispatches eng h xs ctx ctx1" and "dispatches eng h ys ctx1 ctx2"
  shows "dispatches eng h (xs @ ys) ctx ctx2"
proof -
  obtain new1 where 1: "fixed_part ctx1 = fixed_part ctx" "dispatched ctx1 = dispatched ctx @ new1"
    "subseq (map (\<lambda>(g, t, v). (gr_step g, t)) new1) (map (\<lambda>(i, t, args). (i, t)) xs)"
    "\<forall>(g, t, v) \<in> set new1. justified eng h ctx (gr_step g) t g v"
    using assms(1) by (auto simp: dispatches_def)
  obtain new2 where 2: "fixed_part ctx2 = fixed_part ctx1" "dispatched ctx2 = dispatched ctx1 @ new2"
    "subseq (map (\<lambda>(g, t, v). (gr_step g, t)) new2) (map (\<lambda>(i, t, args). (i, t)) ys)"
    "\<forall>(g, t, v) \<in> set new2. justified eng h ctx1 (gr_step g) t g v"
    using assms(2) by (auto simp: dispatches_def)
  have "\<forall>(g, t, v) \<in> set (new1 @ new2). justified eng h ctx (gr_step g) t g v"
    using 1(4) 2(4) justified_fixed [OF 1(1)] by auto
  moreover have "subseq (map (\<lambda>(g, t, v). (gr_step g, t)) (new1 @ new2))
      (map (\<lambda>(i, t, args). (i, t)) (xs @ ys))"
    using list_emb_append_mono [OF 1(3) 2(3)] by simp
  ultimately show ?thesis
    using 1(1,2) 2(1,2) by (auto simp: dispatches_def)
qed

lemma dispatches_more:
  "dispatches eng h xs ctx ctx' \<Longrightarrow> dispatches eng h (xs @ ys) ctx ctx'"
  "dispatches eng h ys ctx ctx' \<Longrightarrow> dispatches eng h (xs @ ys) ctx ctx'"
  using dispatches_append dispatches_refl by blast+

lemma dispatch_call_dispatched:
  "dispatched (snd (dispatch_call eng h d i tool v hash s ctx)) =
     dispatched ctx @ [(grant_for ctx i d hash, tool, v)]"
  by (simp add: dispatch_call_def Let_def case_prod_beta' fail_step_frame accept_output_frame
      split: option.split)

lemma grant_fields [simp]:
  "gr_step (grant_for ctx i d hash) = i" "gr_arguments_hash (grant_for ctx i d hash) = hash"
  "gr_implementation (grant_for ctx i d hash) = implementation_hash d"
  "gr_chain (grant_for ctx i d hash) = dispatch_chain d"
  "gr_submission (grant_for ctx i d hash) = sub_id (submission ctx)"
  "gr_agent (grant_for ctx i d hash) = id_agent (who ctx)"
  "gr_certificate (grant_for ctx i d hash) = held_certificate ctx"
  by (simp_all add: grant_for_def)

lemma execute_call_dispatches:
  "dispatches eng h [(i, tool, args)] ctx (snd (execute_call eng h i tool args ctx))"
proof -
  have fixed: "fixed_part (snd (execute_call eng h i tool args ctx)) = fixed_part ctx"
    by (rule exec_steps_fixed [OF execute_call_steps])
  show ?thesis
  proof (cases rule: execute_call_cases [of eng h i tool args ctx])
    case (early e ctx1)
    with fixed show ?thesis by (simp add: dispatches_def)
  next
    case (dispatch ctx1 d v hash s)
    have "justified eng h ctx i tool (grant_for ctx1 i d hash) v"
      using dispatch(5) justified_fixed [OF exec_steps_fixed [OF dispatch(2)]] by simp
    with fixed dispatch(1,3) show ?thesis by (simp add: dispatches_def dispatch_call_dispatched)
  qed
qed

lemma execute_dispatches:
  "dispatches eng h (plan_calls n) ctx (snd (execute_node eng h n ctx))"
  "dispatches eng h (concat (map plan_calls ns)) ctx (snd (execute_nodes eng h ns ctx))"
proof (induction eng h n ctx and eng h ns ctx rule: execute_node_execute_nodes.induct)
  case (1 eng h i tool args ctx)
  then show ?case by (simp add: execute_call_dispatches)
next
  case (4 eng h i p th el ctx)
  then show ?case
    by (cases "evaluate_predicate (eng_pointer eng) (step_outputs ctx) p")
      (auto intro: dispatches_refl dispatches_more)
next
  case (6 eng h n ns ctx)
  obtain r ctx1 where run: "execute_node eng h n ctx = (r, ctx1)" by (cases "execute_node eng h n ctx")
  show ?case
  proof (cases r)
    case (Inl e)
    then show ?thesis using 6(1) run by (auto intro: dispatches_more)
  next
    case (Inr v)
    have "dispatches eng h (plan_calls n) ctx ctx1" using 6(1) run by simp
    moreover have "dispatches eng h (concat (map plan_calls ns)) ctx1 (snd (execute_nodes eng h ns ctx1))"
      using 6(2) [OF run [symmetric]] Inr by simp
    ultimately show ?thesis using Inr run dispatches_append by (simp add: apfst_def map_prod_def case_prod_beta')
  qed
qed (simp_all add: dispatches_refl apfst_def map_prod_def case_prod_beta')

text \<open>A plan with distinct ids dispatches no call twice.\<close>

lemma dispatched_once:
  assumes "dispatches eng h calls ctx ctx'" and "distinct (map fst calls)" and "dispatched ctx = []"
  shows "distinct (map (\<lambda>(g, t, v). gr_step g) (dispatched ctx'))"
proof -
  obtain new where new: "dispatched ctx' = new"
    and sub: "subseq (map (\<lambda>(g, t, v). (gr_step g, t)) new) (map (\<lambda>(i, t, args). (i, t)) calls)"
    using assms(1,3) by (auto simp: dispatches_def)
  have "subseq (map fst (map (\<lambda>(g, t, v). (gr_step g, t)) new)) (map fst (map (\<lambda>(i, t, args). (i, t)) calls))"
    using sub by (rule subseq_map)
  moreover have "map fst (map (\<lambda>(i, t, args). (i, t)) calls) = map fst calls" by auto
  moreover have "map fst (map (\<lambda>(g, t, v). (gr_step g, t)) new) = map (\<lambda>(g, t, v). gr_step g) new"
    by auto
  ultimately have "subseq (map (\<lambda>(g, t, v). gr_step g) new) (map fst calls)" by metis
  then show ?thesis using assms(2) distinct_subseq new by blast
qed

subsection \<open>Typed plans do not get stuck\<close>

lemma execute_call_outcome:
  assumes "value_fits \<Gamma> os args" and "outs_cover \<Gamma> (step_outputs ctx)"
  shows "call_outcome i (step_outputs ctx) (execute_call eng h i tool args ctx)"
proof (cases rule: execute_call_cases [of eng h i tool args ctx])
  case (early e ctx1)
  then show ?thesis
    using materialize_error [OF _ assms] data_error_not_stuck by (auto simp: call_outcome_def)
next
  case (dispatch ctx1 d v hash s)
  then show ?thesis using dispatch_call_frame(2) [of i ctx1] by metis
qed

text \<open>
  What a typed part of a plan leaves: an error that is not stuck, or the outputs its type promises;
  outputs that were there stay.
\<close>

definition covers ::
  "(string \<Rightarrow> json option) \<Rightarrow> outputs \<Rightarrow> (exec_error + 'a) \<times> 'w exec_context \<Rightarrow> bool" where
  "covers \<Gamma> outs r \<longleftrightarrow>
     (case fst r of
        Inl e \<Rightarrow> \<not> stuck e
      | Inr v \<Rightarrow> outs_cover \<Gamma> (step_outputs (snd r)) \<and> dom outs \<subseteq> dom (step_outputs (snd r)))"

lemma outs_cover_dom: "outs_cover \<Gamma> outs \<longleftrightarrow> dom \<Gamma> \<subseteq> dom outs"
  by (auto simp: outs_cover_def dom_def)

lemma covers_apfst [simp]: "covers \<Gamma> outs (apfst (map_sum id f) r) \<longleftrightarrow> covers \<Gamma> outs r"
  by (cases "fst r") (simp_all add: covers_def apfst_def map_prod_def case_prod_beta')

lemma covers_mono:
  "covers \<Gamma> outs r \<Longrightarrow> dom \<Delta> \<subseteq> dom \<Gamma> \<union> dom outs \<Longrightarrow> dom outs' \<subseteq> dom outs \<Longrightarrow> covers \<Delta> outs' r"
  unfolding covers_def outs_cover_dom by (cases "fst r") (simp_all, blast)

lemma progress_seq:
  assumes "covers \<Gamma>1 outs (execute_node eng h n ctx)"
    and "\<And>v ctx1. execute_node eng h n ctx = (Inr v, ctx1) \<Longrightarrow> dom \<Gamma>1 \<subseteq> dom (step_outputs ctx1) \<Longrightarrow>
      dom outs \<subseteq> dom (step_outputs ctx1) \<Longrightarrow> covers \<Gamma>2 outs (execute_nodes eng h ns ctx1)"
  shows "covers \<Gamma>2 outs (execute_nodes eng h (n # ns) ctx)"
proof -
  obtain r ctx1 where run: "execute_node eng h n ctx = (r, ctx1)" by (cases "execute_node eng h n ctx")
  show ?thesis
  proof (cases r)
    case (Inl e)
    then show ?thesis using assms(1) run by (simp add: covers_def)
  next
    case (Inr v)
    then have "covers \<Gamma>2 outs (execute_nodes eng h ns ctx1)"
      using assms(1) run by (intro assms(2)) (auto simp: covers_def outs_cover_dom)
    then show ?thesis using Inr run by simp
  qed
qed

lemma dom_new_outputs: "dom (new_outputs \<Gamma> sibling outs) \<subseteq> dom sibling \<union> dom outs"
  by (auto simp: new_outputs_def split: if_splits)

lemma progress:
  "node_typed env \<Gamma> n \<Gamma>' \<Longrightarrow> dom \<Gamma> \<subseteq> dom (step_outputs ctx) \<Longrightarrow>
     covers \<Gamma>' (step_outputs ctx) (execute_node eng h n ctx)"
  "seq_typed env \<Gamma> ns \<Gamma>' \<Longrightarrow> dom \<Gamma> \<subseteq> dom (step_outputs ctx) \<Longrightarrow>
     covers \<Gamma>' (step_outputs ctx) (execute_nodes eng h ns ctx)"
  "par_typed env \<Gamma> \<Delta> ns \<Gamma>' \<Longrightarrow> dom \<Gamma> \<union> dom \<Delta> \<subseteq> dom (step_outputs ctx) \<Longrightarrow>
     covers \<Gamma>' (step_outputs ctx) (execute_nodes eng h ns ctx)"
proof (induction arbitrary: ctx and ctx and ctx rule: node_typed_seq_typed_par_typed.inducts)
  case (typed_call tool d args \<Gamma> i)
  have "call_outcome i (step_outputs ctx) (execute_call eng h i tool args ctx)"
    using typed_call by (intro execute_call_outcome) (auto simp: outs_cover_dom)
  then show ?case
    using typed_call(4) unfolding covers_def call_outcome_def outs_cover_dom
    by (cases "fst (execute_call eng h i tool args ctx)") (simp_all, blast)
next
  case (typed_if \<Gamma> p th \<Gamma>1 el \<Gamma>2 i)
  have "\<not> stuck e" if "evaluate_predicate (eng_pointer eng) (step_outputs ctx) p = Inl e" for e
    using evaluate_error(1) [OF that typed_if(1)] typed_if.prems data_error_not_stuck
    by (auto simp: outs_cover_dom)
  moreover have "covers \<Gamma> (step_outputs ctx) (execute_node eng h th ctx)"
    using typed_if.prems by (intro covers_mono [OF typed_if.IH(2) [OF typed_if.prems]]) blast+
  moreover have "covers \<Gamma> (step_outputs ctx) (execute_node eng h el ctx)"
    using typed_if.prems by (intro covers_mono [OF typed_if.IH(4) [OF typed_if.prems]]) blast+
  ultimately show ?case
    by (cases "evaluate_predicate (eng_pointer eng) (step_outputs ctx) p") (auto simp: covers_def)
next
  case (typed_seq_cons \<Gamma> n \<Gamma>1 ns \<Gamma>2)
  then show ?case
    by (intro progress_seq [of \<Gamma>1]) (auto intro: covers_mono)
next
  case (typed_par_cons \<Gamma> n \<Gamma>1 \<Delta> ns \<Delta>')
  show ?case
  proof (rule progress_seq [of \<Gamma>1])
    fix v ctx1
    assume "execute_node eng h n ctx = (Inr v, ctx1)"
      and grown: "dom \<Gamma>1 \<subseteq> dom (step_outputs ctx1)" "dom (step_outputs ctx) \<subseteq> dom (step_outputs ctx1)"
    then have "dom \<Gamma> \<union> dom (new_outputs \<Gamma> \<Gamma>1 \<Delta>) \<subseteq> dom (step_outputs ctx1)"
      using dom_new_outputs [of \<Gamma> \<Gamma>1 \<Delta>] typed_par_cons.prems by blast
    from typed_par_cons.IH(4) [OF this] grown(2)
    show "covers \<Delta>' (step_outputs ctx) (execute_nodes eng h ns ctx1)"
      by - (rule covers_mono, assumption, blast+)
  qed (use typed_par_cons in auto)
next
  case (typed_sequence \<Gamma> nodes \<Gamma>' i)
  then show ?case by simp
next
  case (typed_parallel nodes \<Gamma> \<Gamma>' i)
  then show ?case by simp
qed (simp_all add: covers_def outs_cover_dom)

subsection \<open>Invariants of an execution\<close>

lemma execute_invariant:
  assumes step: "\<And>i tool c c'. exec_step eng h i tool c c' \<Longrightarrow> P c \<Longrightarrow> P c'"
  shows "P ctx \<Longrightarrow> P (snd (execute_node eng h n ctx))" "P ctx \<Longrightarrow> P (snd (execute_nodes eng h ns ctx))"
proof -
  have steps: "exec_steps eng h i tool c c' \<Longrightarrow> P c \<Longrightarrow> P c'" for i tool c c'
    by (induction rule: rtranclp_induct) (auto intro: step)
  have call: "P c \<Longrightarrow> P (snd (execute_call eng h i tool args c))" for i tool args c
    using steps [OF execute_call_steps] .
  have "g = eng \<Longrightarrow> k = h \<Longrightarrow> P ctx \<Longrightarrow> P (snd (execute_node g k n ctx))"
    and "g = eng \<Longrightarrow> k = h \<Longrightarrow> P ctx \<Longrightarrow> P (snd (execute_nodes g k ns ctx))" for g k
  proof (induction g k n ctx and g k ns ctx rule: execute_node_execute_nodes.induct)
    case (6 g k n ns ctx)
    then show ?case
      by (cases "execute_node g k n ctx"; cases "fst (execute_node g k n ctx)") auto
  qed (auto simp: call split: sum.split)
  then show "P ctx \<Longrightarrow> P (snd (execute_node eng h n ctx))" "P ctx \<Longrightarrow> P (snd (execute_nodes eng h ns ctx))"
    by auto
qed

lemma retained_bounded:
  assumes "retained_output_bytes ctx \<le> MAX_EXECUTION_OUTPUT_BYTES"
  shows "retained_output_bytes (snd (execute_node eng h n ctx)) \<le> MAX_EXECUTION_OUTPUT_BYTES"
  by (rule execute_invariant(1) [where P = "\<lambda>c. retained_output_bytes c \<le> MAX_EXECUTION_OUTPUT_BYTES"])
    (auto elim!: exec_step.cases simp: assms)

text \<open>
  Whatever else runs in Core while an execution waits or a tool runs changes the store by the
  operations of the service only.
\<close>

definition respects_store :: "'w host \<Rightarrow> bool" where
  "respects_store h \<longleftrightarrow>
     (\<forall>w st w' st'. wait_turn h w st = (w', st') \<longrightarrow> store_step\<^sup>*\<^sup>* st st')
     \<and> (\<forall>w st g who tool v r w' st'. run_tool h w st g who tool v = (r, w', st') \<longrightarrow> store_step\<^sup>*\<^sup>* st st')"

lemma exec_step_store:
  assumes "respects_store h" and "exec_step eng h i tool c c'"
  shows "store_step\<^sup>*\<^sup>* (db c) (db c')"
  using assms(2)
proof cases
  case (exec_turn w st)
  then show ?thesis using assms(1) by (auto simp: respects_store_def)
next
  case (exec_dispatch g v result w st)
  then show ?thesis using assms(1) by (auto simp: respects_store_def)
next
  case (exec_record s)
  then show ?thesis by (auto intro: step_save)
qed auto

lemma execute_store:
  assumes "respects_store h"
  shows "store_step\<^sup>*\<^sup>* (db ctx) (db (snd (execute_node eng h n ctx)))"
  by (rule execute_invariant(1) [where P = "\<lambda>c. store_step\<^sup>*\<^sup>* (db ctx) (db c)"])
    (auto dest: exec_step_store [OF assms] intro: rtranclp_trans)

end
