(* ===== verification/SafeActions_Service.thy ===== *)
theory SafeActions_Service
  imports SafeActions_Run
begin

section \<open>The service\<close>

text \<open>
  The operations of \<open>SafeActionsService\<close> in \<open>apps/core/src/safe_actions/mod.rs\<close>: submitting a plan,
  executing it, deciding a review, asking for the status of an execution, and the authorization of a
  dispatch in flight.  A request runs on the world and the store; before each access to the store it
  waits for the connection (\<open>take_turn\<close>), and whatever other requests do meanwhile is in the wait.
  The evidence of a plan (agent, policy, contracts, registry) is read in one turn, and the two clock
  readings of a certificate's window are one.
\<close>

definition CERTIFICATE_TTL_MS :: u64 where "CERTIFICATE_TTL_MS = 5 * 60 * 1000"

datatype service_error =
    BadRequestId
  | RequestIdReused
  | LoadError exec_error
  | HashError
  | NoCertificate
  | CertificateInvalid certificate_error
  | ChangedWhileResuming
  | NoLongerVerifies
  | PolicyRebound
  | NotExecutable
  | ReceiptGone
  | StoreError store_error
  | ExecutionFailed string
  | NoteTooLong
  | ReviewNotFound
  | ReviewNotPending
  | ReviewInvalidated
  | AlreadyDecided
  | ExecutionNotFound

datatype response =
    ExistingReceipt execution_receipt
  | RecoveredReceipt execution_receipt string
  | Completed execution_receipt json
  | SubmissionState submission_record "execution_receipt option"
  | ReceiptStatus execution_receipt
  | ReviewDenied submission_record

type_synonym 'w state = "'w \<times> safe_store"
type_synonym 'w reply = "(service_error + response) \<times> 'w state"

definition take_turn :: "'w host \<Rightarrow> 'w state \<Rightarrow> 'w state" where
  "take_turn h s = wait_turn h (fst s) (snd s)"

subsection \<open>Executing\<close>

text \<open>The terminal transaction, and the receipt that is there when it finds another one's work.\<close>

definition finish ::
  "'w host \<Rightarrow> execution_receipt \<Rightarrow> submission_record \<Rightarrow> service_error + response \<Rightarrow> 'w state \<Rightarrow> 'w reply"
where
  "finish h rc sub answer s =
     (let s1 = take_turn h s;
          (ok, st) = save_terminal rc sub (snd s1);
          s2 = (fst s1, st)
      in if ok then (answer, s2)
         else
           (let s3 = take_turn h s2 in
            case get_receipt (snd s3) (sub_id sub) of
              None \<Rightarrow> (Inl ReceiptGone, s3)
            | Some r \<Rightarrow> (Inr (RecoveredReceipt r (er_id rc)), s3)))"

definition conclude ::
  "engine \<Rightarrow> 'w host \<Rightarrow> submission_record \<Rightarrow> exec_error + json \<Rightarrow> 'w exec_context \<Rightarrow> 'w reply" where
  "conclude eng h sub outcome ctx =
     (let s = (world ctx, db ctx);
          stamp = clock_text h (world ctx);
          rc = (receipt ctx)\<lparr>er_finished := Some stamp\<rparr>
      in case outcome of
           Inr result \<Rightarrow>
             (case hash_json eng (Some result) of
                None \<Rightarrow> (Inl HashError, s)
              | Some hash \<Rightarrow>
                  (let rc1 = rc\<lparr>er_status := ''succeeded'', er_result_hash := Some hash\<rparr>
                   in finish h rc1 (sub\<lparr>sub_status := ''succeeded'', sub_updated := stamp\<rparr>)
                        (Inr (Completed rc1 result)) s))
         | Inl e \<Rightarrow>
             (let status = (case failure_status ctx of None \<Rightarrow> ''uncertain'' | Some f \<Rightarrow> f);
                  summary = sanitize_error eng e;
                  rc1 = rc\<lparr>er_status := status, er_error := Some summary\<rparr>
              in finish h rc1 (sub\<lparr>sub_status := status, sub_updated := stamp\<rparr>)
                   (Inl (ExecutionFailed summary)) s))"

definition initial_context ::
  "submission_record \<Rightarrow> certificate \<Rightarrow> agent_record \<Rightarrow> execution_receipt \<Rightarrow> 'w state \<Rightarrow> 'w exec_context"
where
  "initial_context sub cert agent rc s =
     \<lparr>world = fst s, db = snd s,
      who = \<lparr>id_agent = sub_agent sub, id_allowlist = ag_tools agent, id_profiles = ag_profiles agent,
             id_conversation = host_conversation sub\<rparr>,
      submission = sub, certificate_id = er_certificate rc, held_certificate = cert,
      step_outputs = Map.empty, retained_output_bytes = 0, failure_status = None,
      receipt = rc, ordinal = 0, dispatched = []\<rparr>"

definition new_receipt ::
  "string \<Rightarrow> string \<Rightarrow> submission_record \<Rightarrow> verification_report \<Rightarrow> string \<Rightarrow> execution_receipt" where
  "new_receipt receipt_id cert_id sub report stamp =
     \<lparr>er_id = receipt_id, er_submission = sub_id sub, er_certificate = cert_id,
      er_agent = sub_agent sub, er_status = ''running'',
      er_plan_hash = plan_hash (bindings report), er_policy_hash = policy_hash (bindings report),
      er_catalog_hash = catalog_hash (bindings report),
      er_verifier_version = verifier_version (bindings report),
      er_result_hash = None, er_error = None, er_started = stamp, er_finished = None, er_steps = []\<rparr>"

text \<open>From the compare-and-swap that starts the execution to its end.\<close>

definition run_submission ::
  "engine \<Rightarrow> 'w host \<Rightarrow> submission_record \<Rightarrow> certificate \<Rightarrow> agent_record \<Rightarrow> verification_report
     \<Rightarrow> 'w state \<Rightarrow> 'w reply" where
  "run_submission eng h sub cert agent report s =
     (let from_statuses = (if sub_status sub = ''approved'' then [''approved''] else [''certified'']);
          (cert_id, w1) = fresh_id h (fst s);
          (receipt_id, w2) = fresh_id h w1;
          rc = new_receipt receipt_id cert_id sub report (clock_text h w2);
          sub1 = sub\<lparr>sub_status := ''executing'', sub_updated := clock_text h w2\<rparr>;
          s1 = take_turn h (w2, snd s);
          (started_now, st) = start_execution (sub_id sub1) from_statuses sub1 rc (snd s1);
          s2 = (fst s1, st)
      in case started_now of
           Inl e \<Rightarrow> (Inl (StoreError e), s2)
         | Inr False \<Rightarrow>
             (let s3 = take_turn h s2 in
              case get_receipt (snd s3) (sub_id sub1) of
                Some r \<Rightarrow> (Inr (ExistingReceipt r), s3)
              | None \<Rightarrow> (Inl NotExecutable, s3))
         | Inr True \<Rightarrow>
             (let (outcome, ctx) =
                    execute_node eng h (root (sub_plan sub1)) (initial_context sub1 cert agent rc s2)
              in conclude eng h sub1 outcome ctx))"

text \<open>
  The certificate of the submission must validate now; the one exception is an approved submission
  whose certificate has only expired, which is issued a new one.
\<close>

definition renew_certificate ::
  "engine \<Rightarrow> 'w host \<Rightarrow> submission_record \<Rightarrow> certificate \<Rightarrow> verification_report \<Rightarrow> string \<Rightarrow> 'w state
     \<Rightarrow> (service_error + submission_record \<times> certificate) \<times> 'w state" where
  "renew_certificate eng h sub cert report revision s =
     (let now = clock_ms h (fst s);
          validation = validate_certificate (eng_cert eng) cert (bindings_from (bindings report)) revision now
      in if validation = Inl Expired \<and> sub_status sub = ''approved'' then
           (case issue_certificate (eng_cert eng) ((sub_report sub)\<lparr>decision := Proved\<rparr>) now
                   (sat_add_u64 now CERTIFICATE_TTL_MS) of
              Inl e \<Rightarrow> (Inl (CertificateInvalid e), s)
            | Inr c \<Rightarrow>
                (let sub1 = sub\<lparr>sub_certificate := Some c, sub_updated := clock_text h (fst s)\<rparr>;
                     s1 = take_turn h s;
                     (ok, st) = transition_submission (clock_text h (fst s1)) (sub_id sub) [''approved'']
                       sub1 (snd s1)
                 in if ok then (Inr (sub1, c), (fst s1, st))
                    else (Inl ChangedWhileResuming, (fst s1, st))))
         else
           (case validation of
              Inl e \<Rightarrow> (Inl (CertificateInvalid e), s)
            | Inr u \<Rightarrow> (Inr (sub, cert), s)))"

definition execute :: "engine \<Rightarrow> 'w host \<Rightarrow> submission_record \<Rightarrow> 'w state \<Rightarrow> 'w reply" where
  "execute eng h sub s =
     (let s1 = take_turn h s in
      case get_receipt (snd s1) (sub_id sub) of
        Some r \<Rightarrow> (Inr (ExistingReceipt r), s1)
      | None \<Rightarrow>
          (let s2 = take_turn h s1 in
           case load_input eng h (fst s2) (snd s2) (sub_agent sub) (sub_plan sub) None of
             Inl e \<Rightarrow> (Inl (LoadError e), s2)
           | Inr current \<Rightarrow>
               (let report = verify (eng_ser eng) (ld_input current) in
                case sub_certificate sub of
                  None \<Rightarrow> (Inl NoCertificate, s2)
                | Some cert \<Rightarrow>
                    (case renew_certificate eng h sub cert report (agent_revision (ld_input current)) s2 of
                       (Inl e, s3) \<Rightarrow> (Inl e, s3)
                     | (Inr (sub1, cert1), s3) \<Rightarrow>
                         if decision report = Denied then (Inl NoLongerVerifies, s3)
                         else if ld_policy_id current \<noteq> sub_policy_id sub1 then (Inl PolicyRebound, s3)
                         else run_submission eng h sub1 cert1 (ld_agent current) report s3))))"

subsection \<open>Submitting\<close>

definition request_id_char :: "char \<Rightarrow> bool" where
  "request_id_char c \<longleftrightarrow> is_ascii_alphanumeric c \<or> c \<in> {CHR ''.'', CHR ''_'', CHR ''-''}"

definition valid_request_id :: "string \<Rightarrow> bool" where
  "valid_request_id v \<longleftrightarrow> v \<noteq> [] \<and> length v \<le> 128 \<and> list_all request_id_char v"

definition request_json :: "string \<Rightarrow> string option \<Rightarrow> string \<Rightarrow> json" where
  "request_json agent_id conversation request_id =
     JObject
       [(''agent_id'', JString agent_id),
        (''host_conversation_id'', (case conversation of None \<Rightarrow> JNull | Some c \<Rightarrow> JString c)),
        (''request_id'', JString request_id)]"

definition submission_response :: "'w host \<Rightarrow> submission_record \<Rightarrow> 'w state \<Rightarrow> 'w reply" where
  "submission_response h sub s =
     (let s1 = take_turn h s in (Inr (SubmissionState sub (get_receipt (snd s1) (sub_id sub))), s1))"

text \<open>What is done with the record a request is found to have: run it when it is ready to.\<close>

definition continue_with ::
  "engine \<Rightarrow> 'w host \<Rightarrow> tool_plan \<Rightarrow> submission_record \<Rightarrow> 'w state \<Rightarrow> 'w reply" where
  "continue_with eng h p stored s =
     (case (hash_json eng (ser_plan (eng_ser eng) (sub_plan stored)), hash_json eng (ser_plan (eng_ser eng) p)) of
        (Some a, Some b) \<Rightarrow>
          if a \<noteq> b then (Inl RequestIdReused, s)
          else if sub_status stored \<in> {''certified'', ''approved''} then execute eng h stored s
          else submission_response h stored s
      | _ \<Rightarrow> (Inl HashError, s))"

definition status_of_decision :: "verification_decision \<Rightarrow> string" where
  "status_of_decision d =
     (case d of Proved \<Rightarrow> ''certified'' | NeedsReview \<Rightarrow> ''pending_review'' | Denied \<Rightarrow> ''denied'')"

definition candidate ::
  "string \<Rightarrow> string \<Rightarrow> string \<Rightarrow> string option \<Rightarrow> loaded \<Rightarrow> verification_report \<Rightarrow> certificate option
     \<Rightarrow> string \<Rightarrow> submission_record" where
  "candidate i key agent_id conversation current report cert stamp =
     \<lparr>sub_id = i, submission_key = key, sub_agent = agent_id,
      sub_agent_revision = agent_revision (ld_input current), sub_policy_id = ld_policy_id current,
      host_conversation = conversation, sub_plan = plan (ld_input current), sub_report = report,
      sub_certificate = cert, sub_status = status_of_decision (decision report),
      review_note = None, reviewed_by = None, reviewed_at = None,
      sub_created = stamp, sub_updated = stamp\<rparr>"

definition submit_new ::
  "engine \<Rightarrow> 'w host \<Rightarrow> string \<Rightarrow> string \<Rightarrow> tool_plan \<Rightarrow> string option \<Rightarrow> 'w state \<Rightarrow> 'w reply" where
  "submit_new eng h agent_id key p conversation s =
     (case load_input eng h (fst s) (snd s) agent_id p None of
        Inl e \<Rightarrow> (Inl (LoadError e), s)
      | Inr current \<Rightarrow>
          (let report = verify (eng_ser eng) (ld_input current);
               stamp = clock_text h (fst s);
               now = clock_ms h (fst s);
               issued = (if decision report = Proved
                 then map_sum id Some (issue_certificate (eng_cert eng) report now (sat_add_u64 now CERTIFICATE_TTL_MS))
                 else Inr None)
           in case issued of
                Inl e \<Rightarrow> (Inl (CertificateInvalid e), s)
              | Inr cert \<Rightarrow>
                  (let (i, w) = fresh_id h (fst s);
                       new = candidate i key agent_id conversation current report cert stamp;
                       s1 = take_turn h (w, snd s);
                       (inserted, st) = insert_submission new (snd s1);
                       s2 = (fst s1, st)
                   in case inserted of
                        Inl e \<Rightarrow> (Inl (StoreError e), s2)
                      | Inr stored \<Rightarrow> continue_with eng h (sub_plan new) stored s2)))"

definition submit ::
  "engine \<Rightarrow> 'w host \<Rightarrow> string \<Rightarrow> string \<Rightarrow> tool_plan \<Rightarrow> string option \<Rightarrow> 'w state \<Rightarrow> 'w reply" where
  "submit eng h agent_id request_id p conversation s =
     (if \<not> valid_request_id request_id then (Inl BadRequestId, s)
      else
        (case hash_json eng (Some (request_json agent_id conversation request_id)) of
           None \<Rightarrow> (Inl HashError, s)
         | Some key \<Rightarrow>
             (let s1 = take_turn h s in
              case get_submission_by_key (snd s1) key of
                Some stored \<Rightarrow> continue_with eng h p stored s1
              | None \<Rightarrow> submit_new eng h agent_id key p conversation (take_turn h s1))))"

subsection \<open>Reviews\<close>

definition note_too_long :: "string option \<Rightarrow> bool" where
  "note_too_long note \<longleftrightarrow> (case note of None \<Rightarrow> False | Some n \<Rightarrow> 4096 < length n)"

text \<open>A pending review whose evidence is still what the reviewer saw.\<close>

definition approve_pending ::
  "engine \<Rightarrow> 'w host \<Rightarrow> string \<Rightarrow> string option \<Rightarrow> string \<Rightarrow> submission_record \<Rightarrow> 'w state \<Rightarrow> 'w reply"
where
  "approve_pending eng h i note reviewer sub s =
     (case load_input eng h (fst s) (snd s) (sub_agent sub) (sub_plan sub) None of
        Inl e \<Rightarrow> (Inl (LoadError e), s)
      | Inr current \<Rightarrow>
          if ld_policy_id current \<noteq> sub_policy_id sub then (Inl PolicyRebound, s)
          else
            (let report = verify (eng_ser eng) (ld_input current);
                 stamp = clock_text h (fst s);
                 now = clock_ms h (fst s)
             in if decision report = Denied \<or> bindings report \<noteq> bindings (sub_report sub) then
                  (let sub1 = sub\<lparr>sub_status := ''invalidated'', sub_updated := stamp\<rparr>;
                       s1 = take_turn h s;
                       (ok, st) = transition_submission (clock_text h (fst s1)) i [''pending_review''] sub1 (snd s1)
                   in (Inl ReviewInvalidated, (fst s1, st)))
                else
                  (case issue_certificate (eng_cert eng) ((sub_report sub)\<lparr>decision := Proved\<rparr>) now
                          (sat_add_u64 now CERTIFICATE_TTL_MS) of
                     Inl e \<Rightarrow> (Inl (CertificateInvalid e), s)
                   | Inr cert \<Rightarrow>
                       (let sub1 = sub\<lparr>sub_certificate := Some cert, sub_status := ''approved'',
                              review_note := note, reviewed_by := Some reviewer,
                              reviewed_at := Some stamp, sub_updated := stamp\<rparr>;
                            s1 = take_turn h s;
                            (ok, st) = transition_submission (clock_text h (fst s1)) i [''pending_review'']
                              sub1 (snd s1)
                        in if ok then execute eng h sub1 (fst s1, st)
                           else (Inl AlreadyDecided, (fst s1, st))))))"

definition approve ::
  "engine \<Rightarrow> 'w host \<Rightarrow> string \<Rightarrow> string option \<Rightarrow> string \<Rightarrow> 'w state \<Rightarrow> 'w reply" where
  "approve eng h i note reviewer s =
     (if note_too_long note then (Inl NoteTooLong, s)
      else
        (let s1 = take_turn h s in
         case get_submission (snd s1) i of
           None \<Rightarrow> (Inl ReviewNotFound, s1)
         | Some sub \<Rightarrow>
             if sub_status sub = ''approved'' then execute eng h sub s1
             else if sub_status sub \<noteq> ''pending_review'' then (Inl ReviewNotPending, s1)
             else approve_pending eng h i note reviewer sub (take_turn h s1)))"

definition deny :: "'w host \<Rightarrow> string \<Rightarrow> string option \<Rightarrow> string \<Rightarrow> 'w state \<Rightarrow> 'w reply" where
  "deny h i note reviewer s =
     (if note_too_long note then (Inl NoteTooLong, s)
      else
        (let s1 = take_turn h s in
         case get_submission (snd s1) i of
           None \<Rightarrow> (Inl ReviewNotFound, s1)
         | Some sub \<Rightarrow>
             (let stamp = clock_text h (fst s1);
                  sub1 = sub\<lparr>sub_status := ''denied_by_reviewer'', review_note := note,
                    reviewed_by := Some reviewer, reviewed_at := Some stamp, sub_updated := stamp\<rparr>;
                  s2 = take_turn h s1;
                  (ok, st) = transition_submission (clock_text h (fst s2)) i [''pending_review''] sub1 (snd s2)
              in (if ok then Inr (ReviewDenied sub1) else Inl AlreadyDecided, (fst s2, st)))))"

subsection \<open>Status of an execution\<close>

definition is_principal :: "submission_record \<Rightarrow> string \<Rightarrow> string option \<Rightarrow> bool" where
  "is_principal sub agent_id conversation \<longleftrightarrow>
     \<not> (sub_agent sub \<noteq> agent_id \<or> conversation \<noteq> None \<and> host_conversation sub \<noteq> conversation)"

definition execution_status ::
  "'w host \<Rightarrow> string \<Rightarrow> string option \<Rightarrow> string \<Rightarrow> 'w state \<Rightarrow> 'w reply" where
  "execution_status h agent_id conversation execution_id s =
     (let s1 = take_turn h s in
      case get_receipt (snd s1) execution_id of
        Some r \<Rightarrow>
          (let s2 = take_turn h s1 in
           case get_submission (snd s2) (er_submission r) of
             None \<Rightarrow> (Inl ExecutionNotFound, s2)
           | Some sub \<Rightarrow>
               if is_principal sub agent_id conversation then (Inr (ReceiptStatus r), s2)
               else (Inl ExecutionNotFound, s2))
      | None \<Rightarrow>
          (let s2 = take_turn h s1 in
           case get_submission (snd s2) execution_id of
             None \<Rightarrow> (Inl ExecutionNotFound, s2)
           | Some sub \<Rightarrow>
               if is_principal sub agent_id conversation then submission_response h sub s2
               else (Inl ExecutionNotFound, s2)))"

end
