(* ===== verification/SafeActions_Refine.thy ===== *)
theory SafeActions_Refine
  imports SafeActions_Service
begin

section \<open>The service runs the store's step relation\<close>

text \<open>
  Every request of the service, with everything that happens while it waits, moves the store by
  steps of \<open>store_step\<close>: the relation is an abstract specification that the detailed operations
  refine, and what was shown of it holds of every interleaving of requests.
\<close>

lemma holds_receipt_pair:
  "holds_receipt st rc r \<longleftrightarrow>
     (er_id rc, sub_id r) \<in> set (map (\<lambda>row. (rrow_id row, rrow_submission row)) (receipt_rows st))"
  by (force simp: holds_receipt_def)

lemma step_keeps_pairs:
  assumes "store_step st st'"
  shows "set (map (\<lambda>row. (rrow_id row, rrow_submission row)) (receipt_rows st))
    \<subseteq> set (map (\<lambda>row. (rrow_id row, rrow_submission row)) (receipt_rows st'))"
  using assms
proof (induction rule: store_step.induct)
  case (step_insert r st)
  then show ?case by (rule_tac insert_submission_cases [of r st]) auto
next
  case (step_start from_statuses r receipt i st)
  then show ?case
    by (rule_tac start_execution_cases [of i from_statuses r receipt st])
      (simp_all del: set_map, auto)
next
  case (step_finish receipt r st)
  then show ?case
    by (rule_tac save_terminal_cases [of receipt r st]) (simp_all add: update_where_frame del: set_map)
next
  case (step_restart st t)
  show ?case by (auto simp: init_store_rows recovered_receipt_def)
qed (simp_all add: policy_frame transition_frame del: set_map)

lemma holds_receipt_stays: "store_step\<^sup>*\<^sup>* st st' \<Longrightarrow> holds_receipt st rc r \<Longrightarrow> holds_receipt st' rc r"
  unfolding holds_receipt_pair by (induction rule: rtranclp_induct) (use step_keeps_pairs in blast)+

abbreviation runs :: "'w state \<Rightarrow> 'w state \<Rightarrow> bool" where
  "runs s s' \<equiv> store_step\<^sup>*\<^sup>* (snd s) (snd s')"

lemma take_turn_runs: "respects_store h \<Longrightarrow> runs s (take_turn h s)"
  by (cases "wait_turn h (fst s) (snd s)") (auto simp: take_turn_def respects_store_def)

lemma runs_turn: "respects_store h \<Longrightarrow> runs s s' \<Longrightarrow> runs s (take_turn h s')"
  using take_turn_runs rtranclp_trans by metis

lemma runs_step: "runs s s' \<Longrightarrow> store_step (snd s') st \<Longrightarrow> store_step\<^sup>*\<^sup>* (snd s) st"
  by (rule rtranclp.rtrancl_into_rtrancl)

subsection \<open>Executing\<close>

lemma finish_runs:
  assumes h: "respects_store h" and final: "er_status rc \<in> set final_statuses"
    and same: "sub_status sub = er_status rc" and holds: "holds_receipt (snd s) rc sub"
  shows "runs s (snd (finish h rc sub answer s))"
proof -
  let ?s1 = "take_turn h s"
  have "holds_receipt (snd ?s1) rc sub"
    using holds_receipt_stays [OF take_turn_runs [OF h] holds] .
  then have "store_step (snd ?s1) (snd (save_terminal rc sub (snd ?s1)))"
    using final same by (rule_tac step_finish)
  then have "runs s (fst ?s1, snd (save_terminal rc sub (snd ?s1)))"
    using runs_step [OF take_turn_runs [OF h]] by simp
  then show ?thesis
    using runs_turn [OF h] by (auto simp: finish_def Let_def split: prod.split option.split)
qed

lemma failure_statuses:
  assumes "failure_status ctx \<in> {None, Some ''failed'', Some ''blocked''}"
  shows "failure_status (snd (execute_node eng h n ctx)) \<in> {None, Some ''failed'', Some ''blocked''}"
  by (rule execute_invariant(1)
      [where P = "\<lambda>c. failure_status c \<in> {None, Some ''failed'', Some ''blocked''}"])
    (use assms in \<open>auto elim!: exec_step.cases\<close>)

lemma conclude_runs:
  assumes h: "respects_store h" and holds: "holds_receipt (db ctx) (receipt ctx) sub"
    and fails: "failure_status ctx \<in> {None, Some ''failed'', Some ''blocked''}"
  shows "store_step\<^sup>*\<^sup>* (db ctx) (snd (snd (conclude eng h sub outcome ctx)))"
proof (cases outcome)
  case (Inl e)
  then show ?thesis
    using holds fails unfolding conclude_def
    by (auto simp: Let_def status_defs holds_receipt_def
        intro!: finish_runs [OF h, where s = "(world ctx, db ctx)", simplified])
next
  case (Inr v)
  then show ?thesis
    using holds unfolding conclude_def
    by (auto simp: Let_def status_defs holds_receipt_def split: option.split
        intro!: finish_runs [OF h, where s = "(world ctx, db ctx)", simplified])
qed

lemma started_holds:
  assumes "start_execution i froms r rc st = (Inr True, st')" and "er_submission rc = sub_id r"
  shows "holds_receipt st' rc r"
  by (rule start_execution_cases [of i froms r rc st])
    (use assms in \<open>auto simp: holds_receipt_def\<close>)

lemma run_submission_runs:
  assumes h: "respects_store h"
  shows "runs s (snd (run_submission eng h sub cert agent report s))"
proof -
  obtain cert_id w1 where w1: "fresh_id h (fst s) = (cert_id, w1)" by (cases "fresh_id h (fst s)")
  obtain receipt_id w2 where w2: "fresh_id h w1 = (receipt_id, w2)" by (cases "fresh_id h w1")
  define rc where "rc = new_receipt receipt_id cert_id sub report (clock_text h w2)"
  define sub1 where "sub1 = sub\<lparr>sub_status := ''executing'', sub_updated := clock_text h w2\<rparr>"
  define froms where "froms = (if sub_status sub = ''approved'' then [''approved''] else [''certified''])"
  define s1 where "s1 = take_turn h (w2, snd s)"
  obtain ok st where start: "start_execution (sub_id sub1) froms sub1 rc (snd s1) = (ok, st)"
    by (cases "start_execution (sub_id sub1) froms sub1 rc (snd s1)")
  have ids: "er_submission rc = sub_id sub1" "er_status rc = ''running''" "sub_status sub1 = ''executing''"
    by (simp_all add: rc_def new_receipt_def sub1_def)
  have "store_step (snd s1) (snd (start_execution (sub_id sub1) froms sub1 rc (snd s1)))"
    by (rule step_start) (simp_all add: froms_def ids)
  then have begun: "runs s (fst s1, st)"
    using runs_step [OF take_turn_runs [OF h, of "(w2, snd s)"], where st = st] start
    by (simp add: s1_def)
  have run: "run_submission eng h sub cert agent report s =
    (case ok of
       Inl e \<Rightarrow> (Inl (StoreError e), (fst s1, st))
     | Inr False \<Rightarrow>
         (let s3 = take_turn h (fst s1, st) in
          case get_receipt (snd s3) (sub_id sub1) of
            Some r \<Rightarrow> (Inr (ExistingReceipt r), s3) | None \<Rightarrow> (Inl NotExecutable, s3))
     | Inr True \<Rightarrow>
         (let (outcome, ctx) = execute_node eng h (root (sub_plan sub1))
            (initial_context sub1 cert agent rc (fst s1, st))
          in conclude eng h sub1 outcome ctx))"
    using start unfolding run_submission_def Let_def w1 w2 prod.case rc_def sub1_def froms_def s1_def by simp
  show ?thesis
  proof (cases "ok = Inr True")
    case True
    define ctx0 where "ctx0 = initial_context sub1 cert agent rc (fst s1, st)"
    obtain outcome ctx where node: "execute_node eng h (root (sub_plan sub1)) ctx0 = (outcome, ctx)"
      by (cases "execute_node eng h (root (sub_plan sub1)) ctx0")
    have start_db: "db ctx0 = st" "receipt ctx0 = rc" "failure_status ctx0 = None"
      by (simp_all add: ctx0_def initial_context_def)
    have walked: "store_step\<^sup>*\<^sup>* st (db ctx)"
      using execute_store [OF h, of ctx0 eng] node start_db by (metis snd_conv)
    have "holds_receipt st rc sub1" using start True ids(1) by (auto intro: started_holds)
    then have "holds_receipt (db ctx) rc sub1" by (rule holds_receipt_stays [OF walked])
    moreover have "receipt ctx = rc"
      using execute_dispatches(1) [of eng h "root (sub_plan sub1)" ctx0] node start_db
      by (simp add: dispatches_def fixed_part_def)
    moreover have "failure_status ctx \<in> {None, Some ''failed'', Some ''blocked''}"
      using failure_statuses [of ctx0 eng h] node start_db by (metis insertI1 snd_conv)
    ultimately have "store_step\<^sup>*\<^sup>* (db ctx) (snd (snd (conclude eng h sub1 outcome ctx)))"
      by (intro conclude_runs [OF h]) simp_all
    with begun walked have "runs s (snd (conclude eng h sub1 outcome ctx))"
      by (metis rtranclp_trans snd_conv)
    then show ?thesis using run True node by (simp add: ctx0_def)
  next
    case False
    then show ?thesis
      using run begun runs_turn [OF h begun]
      by (auto simp: Let_def split: sum.split bool.split option.split)
  qed
qed

lemma resume_runs:
  assumes "respects_store h"
    and "transition_submission t i [''approved''] r (snd (take_turn h s)) = (ok, st)"
    and "sub_status r = ''approved''"
  shows "store_step\<^sup>*\<^sup>* (snd s) st"
  using runs_step [OF take_turn_runs [OF assms(1)] step_resume [OF assms(3)]] assms(2) by (metis snd_conv)

lemma renew_certificate_runs:
  assumes "respects_store h"
  shows "runs s (snd (renew_certificate eng h sub cert report revision s))"
  by (auto simp: renew_certificate_def Let_def split: sum.split prod.split dest: resume_runs [OF assms])

lemma execute_runs:
  assumes h: "respects_store h"
  shows "runs s (snd (execute eng h sub s))"
proof -
  let ?s1 = "take_turn h s" and ?s2 = "take_turn h (take_turn h s)"
  have one: "runs s ?s1" by (rule take_turn_runs [OF h])
  have two: "runs s ?s2" by (rule runs_turn [OF h one])
  have renew: "runs s s3"
    if "renew_certificate eng h sub cert report revision ?s2 = (r, s3)" for cert report revision r s3
    using rtranclp_trans [OF two renew_certificate_runs [OF h]] that by (metis snd_conv)
  have run: "runs s (snd (run_submission eng h sub1 cert1 agent report1 s3))"
    if "renew_certificate eng h sub cert report revision ?s2 = (r, s3)" for cert report revision r s3 sub1 cert1 agent report1
    using rtranclp_trans [OF renew [OF that] run_submission_runs [OF h]] .
  show ?thesis
    using one two renew run
    by (auto simp: execute_def Let_def split: option.split sum.split prod.split)
qed

subsection \<open>Every request\<close>

lemma submission_response_runs: "respects_store h \<Longrightarrow> runs s (snd (submission_response h sub s))"
  by (simp add: submission_response_def Let_def take_turn_runs)

lemma continue_with_runs:
  assumes "respects_store h"
  shows "runs s (snd (continue_with eng h p stored s))"
  using execute_runs [OF assms] submission_response_runs [OF assms]
  by (auto simp: continue_with_def split: option.split)

lemma runs_trans: "runs s s' \<Longrightarrow> runs s' s'' \<Longrightarrow> runs s s''"
  by (rule rtranclp_trans)

lemma submit_new_runs:
  assumes h: "respects_store h"
  shows "runs s (snd (submit_new eng h agent_id key p conversation s))"
proof -
  have insert: "runs s (fst (take_turn h (w, snd s)), st)"
    if "insert_submission (candidate i key agent_id conversation current report cert stamp)
          (snd (take_turn h (w, snd s))) = (r, st)"
    for w i current report cert stamp r st
  proof -
    have "store_step (snd (take_turn h (w, snd s)))
        (snd (insert_submission (candidate i key agent_id conversation current report cert stamp)
          (snd (take_turn h (w, snd s)))))"
      by (rule step_insert)
        (simp add: candidate_def status_of_decision_def initial_statuses_def split: verification_decision.split)
    from runs_step [OF take_turn_runs [OF h] this] that show ?thesis by simp
  qed
  have cont: "runs s (snd (continue_with eng h q stored (fst (take_turn h (w, snd s)), st)))"
    if "insert_submission (candidate i key agent_id conversation current report cert stamp)
          (snd (take_turn h (w, snd s))) = (r, st)"
    for q stored w i current report cert stamp r st
    using runs_trans [OF insert [OF that] continue_with_runs [OF h]] .
  show ?thesis
    using insert cont by (auto simp: submit_new_def Let_def split: sum.split prod.split)
qed

lemma submit_runs:
  assumes h: "respects_store h"
  shows "runs s (snd (submit eng h agent_id request_id p conversation s))"
proof -
  have "runs s (snd (continue_with eng h p stored (take_turn h s)))" for stored
    by (rule runs_trans [OF take_turn_runs [OF h] continue_with_runs [OF h]])
  moreover have "runs s (snd (submit_new eng h agent_id key p conversation (take_turn h (take_turn h s))))" for key
    by (rule runs_trans [OF runs_turn [OF h take_turn_runs [OF h]] submit_new_runs [OF h]])
  ultimately show ?thesis by (simp add: submit_def Let_def split: option.split)
qed

lemma review_runs:
  assumes "respects_store h"
    and "transition_submission t i [''pending_review''] r (snd (take_turn h s)) = (ok, st)"
    and "sub_status r \<in> set review_statuses"
  shows "store_step\<^sup>*\<^sup>* (snd s) st"
  using runs_step [OF take_turn_runs [OF assms(1)] step_review [OF assms(3)]] assms(2) by (metis snd_conv)

lemma approve_pending_runs:
  assumes h: "respects_store h"
  shows "runs s (snd (approve_pending eng h i note reviewer sub s))"
proof -
  have run: "runs s (snd (execute eng h sub1 (fst (take_turn h s), st)))"
    if "transition_submission t i [''pending_review''] sub1 (snd (take_turn h s)) = (ok, st)"
      and "sub_status sub1 \<in> set review_statuses" for t sub1 ok st
    using rtranclp_trans [OF review_runs [OF h that]]
      execute_runs [OF h, of "(fst (take_turn h s), st)" eng sub1] by simp
  show ?thesis
    by (auto simp: approve_pending_def Let_def review_statuses_def split: sum.split prod.split
        dest: review_runs [OF h] intro!: run)
qed

lemma approve_runs:
  assumes h: "respects_store h"
  shows "runs s (snd (approve eng h i note reviewer s))"
proof -
  have "runs s (snd (execute eng h sub (take_turn h s)))" for sub
    by (rule runs_trans [OF take_turn_runs [OF h] execute_runs [OF h]])
  moreover have "runs s (snd (approve_pending eng h i note reviewer sub (take_turn h (take_turn h s))))" for sub
    by (rule runs_trans [OF runs_turn [OF h take_turn_runs [OF h]] approve_pending_runs [OF h]])
  ultimately show ?thesis
    using take_turn_runs [OF h, of s] by (simp add: approve_def Let_def split: option.split)
qed

lemma deny_runs:
  assumes h: "respects_store h"
  shows "runs s (snd (deny h i note reviewer s))"
proof -
  have "runs s (fst (take_turn h (take_turn h s)), st)"
    if "transition_submission t i [''pending_review''] sub1 (snd (take_turn h (take_turn h s))) = (ok, st)"
      and "sub_status sub1 \<in> set review_statuses" for t sub1 ok st
    using rtranclp_trans [OF take_turn_runs [OF h, of s] review_runs [OF h that]] by simp
  then show ?thesis
    using take_turn_runs [OF h, of s]
    by (auto simp: deny_def Let_def review_statuses_def split: option.split prod.split)
qed

lemma execution_status_runs:
  assumes h: "respects_store h"
  shows "runs s (snd (execution_status h agent_id conversation execution_id s))"
  using take_turn_runs [OF h, of s] runs_turn [OF h take_turn_runs [OF h, of s]]
    runs_trans [OF runs_turn [OF h take_turn_runs [OF h]] submission_response_runs [OF h]]
  by (auto simp: execution_status_def Let_def split: option.split)

text \<open>The requests the tools and the review routes make of the service.\<close>

datatype request =
    Submit string string tool_plan "string option"
  | Approve string "string option" string
  | Deny string "string option" string
  | Status string "string option" string

fun serve :: "engine \<Rightarrow> 'w host \<Rightarrow> request \<Rightarrow> 'w state \<Rightarrow> 'w reply" where
  "serve eng h (Submit agent_id request_id p conversation) s = submit eng h agent_id request_id p conversation s"
| "serve eng h (Approve i note reviewer) s = approve eng h i note reviewer s"
| "serve eng h (Deny i note reviewer) s = deny h i note reviewer s"
| "serve eng h (Status agent_id conversation i) s = execution_status h agent_id conversation i s"

lemma serve_runs: "respects_store h \<Longrightarrow> runs s (snd (serve eng h q s))"
  by (cases q) (simp_all add: submit_runs approve_runs deny_runs execution_status_runs)

definition serve_all :: "engine \<Rightarrow> 'w host \<Rightarrow> request list \<Rightarrow> 'w state \<Rightarrow> 'w state" where
  "serve_all eng h qs s = fold (\<lambda>q s. snd (serve eng h q s)) qs s"

lemma serve_all_runs: "respects_store h \<Longrightarrow> runs s (serve_all eng h qs s)"
proof (induction qs arbitrary: s)
  case (Cons q qs)
  from runs_trans [OF serve_runs [OF Cons.prems] Cons.IH [OF Cons.prems]]
  show ?case by (simp add: serve_all_def)
qed (simp add: serve_all_def)

end
