(* ===== verification/SafeActions_Dispatch.thy ===== *)
theory SafeActions_Dispatch
  imports SafeActions_Refine
begin

section \<open>Authorizing a dispatch\<close>

text \<open>
  \<open>authorize_verified_dispatch\<close> of \<open>apps/core/src/safe_actions/mod.rs\<close>: the check every tool call of
  a verified agent passes on its way out.  The grant is the task-local the executor sets around a
  dispatch.  The lemmas say what an authorized call is, and that a grant is worth nothing once the
  execution it was made for has ended.
\<close>

datatype dispatch_error =
    NoGrant
  | OtherAgent
  | OutsideChain
  | ArgumentsChanged
  | ArgumentsUnhashable
  | NoToolRegistry
  | ImplementationUnknown
  | ImplementationChanged
  | SubmissionGone
  | NotExecuting
  | BindingsDiffer
  | NoReceipt
  | ReceiptMismatch
  | CertificateRefused certificate_error

definition authorize_dispatch ::
  "engine \<Rightarrow> 'w host \<Rightarrow> 'w \<Rightarrow> safe_store \<Rightarrow> step_grant option \<Rightarrow> string \<Rightarrow> string \<Rightarrow> json
     \<Rightarrow> dispatch_error + unit" where
  "authorize_dispatch eng h w st scope agent_id tool_id args =
     (case scope of
        None \<Rightarrow> Inl NoGrant
      | Some g \<Rightarrow>
          if gr_agent g \<noteq> agent_id then Inl OtherAgent
          else if tool_id \<notin> set (gr_chain g) then Inl OutsideChain
          else
            (case hash_json eng (Some args) of
               None \<Rightarrow> Inl ArgumentsUnhashable
             | Some hash \<Rightarrow>
                 if hash \<noteq> gr_arguments_hash g then Inl ArgumentsChanged
                 else if registry_tools h w = None then Inl NoToolRegistry
                 else
                   (case live_implementation h w tool_id of
                      None \<Rightarrow> Inl ImplementationUnknown
                    | Some implementation \<Rightarrow>
                        if implementation \<noteq> gr_implementation g then Inl ImplementationChanged
                        else
                          (case get_submission st (gr_submission g) of
                             None \<Rightarrow> Inl SubmissionGone
                           | Some sub \<Rightarrow>
                               if sub_status sub \<noteq> ''executing'' \<or> sub_agent sub \<noteq> agent_id
                               then Inl NotExecuting
                               else if bindings_from (bindings (sub_report sub)) \<noteq> gr_bindings g
                               then Inl BindingsDiffer
                               else
                                 (case get_receipt st (gr_submission g) of
                                    None \<Rightarrow> Inl NoReceipt
                                  | Some r \<Rightarrow>
                                      if er_status r \<noteq> ''running'' \<or> er_agent r \<noteq> agent_id
                                         \<or> er_certificate r \<noteq> gr_certificate_id g
                                      then Inl ReceiptMismatch
                                      else
                                        map_sum CertificateRefused id
                                          (validate_certificate (eng_cert eng) (gr_certificate g) (gr_bindings g)
                                            (sub_agent_revision sub) (clock_ms h w)))))))"

lemma map_sum_Inr [simp]: "map_sum f id m = Inr u \<longleftrightarrow> m = Inr u"
  by (cases m) auto

lemma authorize_iff:
  "authorize_dispatch eng h w st scope agent_id tool_id args = Inr () \<longleftrightarrow>
     (\<exists>g sub r. scope = Some g \<and> gr_agent g = agent_id \<and> tool_id \<in> set (gr_chain g)
        \<and> hash_json eng (Some args) = Some (gr_arguments_hash g)
        \<and> registry_tools h w \<noteq> None \<and> live_implementation h w tool_id = Some (gr_implementation g)
        \<and> get_submission st (gr_submission g) = Some sub
        \<and> sub_status sub = ''executing'' \<and> sub_agent sub = agent_id
        \<and> bindings_from (bindings (sub_report sub)) = gr_bindings g
        \<and> get_receipt st (gr_submission g) = Some r
        \<and> er_status r = ''running'' \<and> er_agent r = agent_id \<and> er_certificate r = gr_certificate_id g
        \<and> validate_certificate (eng_cert eng) (gr_certificate g) (gr_bindings g)
            (sub_agent_revision sub) (clock_ms h w) = Inr ())"
  by (auto simp: authorize_dispatch_def split: option.split)

subsection \<open>The status columns mirror the records\<close>

definition statuses_mirror :: "safe_store \<Rightarrow> bool" where
  "statuses_mirror st \<longleftrightarrow> (\<forall>s \<in> set (submission_rows st). srow_status s = sub_status (srow_record s))"

lemma statuses_mirror_update:
  "\<forall>s \<in> set rows. srow_status s = sub_status (srow_record s) \<Longrightarrow>
     \<forall>s \<in> set (fst (update_where p (set_submission r) rows)). srow_status s = sub_status (srow_record s)"
  by (auto simp: update_where_mem)

lemma statuses_mirror_step:
  assumes "store_step st st'" and "statuses_mirror st"
  shows "statuses_mirror st'"
  using assms
proof (induction rule: store_step.induct)
  case (step_insert r st)
  then show ?case by (rule_tac insert_submission_cases [of r st]) (auto simp: statuses_mirror_def)
next
  case (step_start from_statuses r receipt i st)
  then show ?case
    by (rule_tac start_execution_cases [of i from_statuses r receipt st])
      (simp_all add: statuses_mirror_def statuses_mirror_update)
next
  case (step_finish receipt r st)
  then show ?case
    by (rule_tac save_terminal_cases [of receipt r st])
      (simp_all add: statuses_mirror_def statuses_mirror_update)
next
  case (step_restart st t)
  then show ?case by (auto simp: statuses_mirror_def init_store_rows recovered_submission_def)
qed (simp_all add: statuses_mirror_def statuses_mirror_update policy_frame transition_frame)

lemma reachable_mirror: "store_step\<^sup>*\<^sup>* empty_store st \<Longrightarrow> statuses_mirror st"
proof (induction rule: rtranclp_induct)
  case base
  show ?case by (simp add: statuses_mirror_def empty_store_def)
qed (rule statuses_mirror_step)

lemma get_submission_row:
  assumes "get_submission st i = Some sub" and "statuses_mirror st"
  obtains row where "row \<in> set (submission_rows st)" and "srow_id row = i" and "srow_record row = sub"
    and "srow_status row = sub_status sub"
proof -
  obtain row where "List.find (\<lambda>row. srow_id row = i) (submission_rows st) = Some row"
    and "srow_record row = sub"
    using assms(1) by (auto simp: get_submission_def)
  with find_Some that assms(2) show thesis by (fastforce simp: statuses_mirror_def)
qed

text \<open>The grant of an execution that has ended authorizes nothing, ever.\<close>

lemma ended_grant_refused:
  assumes reach: "store_step\<^sup>*\<^sup>* empty_store st" and later: "store_step\<^sup>*\<^sup>* st st'"
    and row: "row \<in> set (receipt_rows st)" "rrow_submission row = gr_submission g"
      "rrow_status row \<noteq> ''running''"
  shows "authorize_dispatch eng h w st' (Some g) agent_id tool_id args \<noteq> Inr ()"
proof
  assume "authorize_dispatch eng h w st' (Some g) agent_id tool_id args = Inr ()"
  then obtain sub where sub: "get_submission st' (gr_submission g) = Some sub"
      "sub_status sub = ''executing''"
    by (auto simp: authorize_iff)
  have reach': "store_step\<^sup>*\<^sup>* empty_store st'" using reach later by (rule rtranclp_trans)
  from get_submission_row [OF sub(1) reachable_mirror [OF reach']] obtain s
    where s: "s \<in> set (submission_rows st')" "srow_id s = gr_submission g" "srow_status s = sub_status sub" .
  have kept: "row \<in> set (receipt_rows st')" using finished_forever [OF later row(1,3)] .
  have "row_linked (receipt_rows st') s" using status_linkedD [OF reachable_ok [OF reach'] s(1)] .
  then have "linked_pair row s" using kept row(2) s(2) by (simp add: row_linked_def)
  then show False using linked_executing row(3) s(3) sub(2) by metis
qed

end
