(* ===== verification/SafeActions_Replay.thy ===== *)
theory SafeActions_Replay
  imports SafeActions_Dispatch
begin

section \<open>Requests that are made again\<close>

text \<open>
  A client that did not hear an answer asks again under the same request id.  The lemmas say what
  that can do: once an execution of the submission was started, asking again only ever reports.
  They also say which certificate an execution runs under (\<open>renew_certificate\<close>).
\<close>

subsection \<open>Ids and keys stay\<close>

abbreviation id_key :: "submission_row \<Rightarrow> string \<times> string" where
  "id_key row \<equiv> (srow_id row, srow_key row)"

lemma id_key_update:
  "id_key ` set (fst (update_where p (set_submission r) rows)) = id_key ` set rows"
proof -
  have "map id_key (fst (update_where p (set_submission r) rows)) = map id_key rows"
    by (auto simp: update_where_def)
  from arg_cong [OF this, of set] show ?thesis by simp
qed

lemma step_keeps_id_keys:
  assumes "store_step st st'"
  shows "id_key ` set (submission_rows st) \<subseteq> id_key ` set (submission_rows st')"
  using assms
proof (induction rule: store_step.induct)
  case (step_insert r st)
  then show ?case by (rule_tac insert_submission_cases [of r st]) auto
next
  case (step_start from_statuses r receipt i st)
  then show ?case
    by (rule_tac start_execution_cases [of i from_statuses r receipt st]) (simp_all add: id_key_update)
next
  case (step_finish receipt r st)
  then show ?case
    by (rule_tac save_terminal_cases [of receipt r st]) (simp_all add: id_key_update)
next
  case (step_restart st t)
  have "map id_key (submission_rows (init_store t st)) = map id_key (submission_rows st)"
    by (auto simp: init_store_rows recovered_submission_def)
  from arg_cong [OF this, of set] show ?case by simp
qed (simp_all add: policy_frame transition_frame id_key_update)

lemma steps_keep_keys:
  "store_step\<^sup>*\<^sup>* st st' \<Longrightarrow> id_key ` set (submission_rows st) \<subseteq> id_key ` set (submission_rows st')"
  by (induction rule: rtranclp_induct) (use step_keeps_id_keys in blast)+

lemma steps_keep_started:
  "store_step\<^sup>*\<^sup>* st st' \<Longrightarrow> set (map rrow_submission (receipt_rows st)) \<subseteq> set (map rrow_submission (receipt_rows st'))"
proof (induction rule: rtranclp_induct)
  case (step y z)
  have "rrow_submission ` set (receipt_rows y) \<subseteq> rrow_submission ` set (receipt_rows z)"
    using image_mono [OF step_keeps_pairs [OF step(2)], of snd] by (simp add: image_image)
  with step(3) show ?case by (simp add: subset_trans)
qed simp

subsection \<open>A started submission is never ready\<close>

lemma started_not_ready:
  assumes "store_step\<^sup>*\<^sup>* empty_store st" and "row \<in> set (submission_rows st)"
    and "srow_id row \<in> set (map rrow_submission (receipt_rows st))"
  shows "sub_status (srow_record row) \<notin> {''certified'', ''approved''}"
proof -
  have "srow_status row = sub_status (srow_record row)"
    using reachable_mirror [OF assms(1)] assms(2) by (simp add: statuses_mirror_def)
  moreover obtain r where r: "r \<in> set (receipt_rows st)" "rrow_submission r = srow_id row"
    using assms(3) by auto
  moreover have "linked_pair r row"
    using status_linkedD [OF reachable_ok [OF assms(1)] assms(2)] r by (simp add: row_linked_def)
  ultimately show ?thesis by (auto simp: linked_pair_def status_defs)
qed

lemma submission_by_key:
  assumes "keys_unique st" and "row \<in> set (submission_rows st)" and "srow_key row = key"
  shows "get_submission_by_key st key = Some (srow_record row)"
proof -
  obtain found where found: "List.find (\<lambda>r. srow_key r = key) (submission_rows st) = Some found"
    using assms(2,3) by (cases "List.find (\<lambda>r. srow_key r = key) (submission_rows st)")
      (auto simp: find_None_iff)
  then have "found = row"
    using assms find_Some [OF found] by (auto simp: keys_unique_def distinct_map dest: inj_onD)
  with found show ?thesis by (simp add: get_submission_by_key_def)
qed

lemma continue_reports:
  assumes "sub_status stored \<notin> {''certified'', ''approved''}"
  shows "continue_with eng h p stored s \<in>
    {(Inl RequestIdReused, s), (Inl HashError, s), submission_response h stored s}"
  using assms by (auto simp: continue_with_def split: option.split)

lemma resubmission_reports:
  assumes h: "respects_store h" and reach: "store_step\<^sup>*\<^sup>* empty_store (snd s)"
    and row: "row \<in> set (submission_rows (snd s))"
    and started: "srow_id row \<in> set (map rrow_submission (receipt_rows (snd s)))"
    and key: "hash_json eng (Some (request_json agent_id conversation request_id)) = Some (srow_key row)"
    and valid: "valid_request_id request_id"
  obtains stored where "sub_status stored \<notin> {''certified'', ''approved''}"
    and "submit eng h agent_id request_id p conversation s \<in>
      {(Inl RequestIdReused, take_turn h s), (Inl HashError, take_turn h s),
       submission_response h stored (take_turn h s)}"
proof -
  let ?s1 = "take_turn h s"
  have run: "store_step\<^sup>*\<^sup>* (snd s) (snd ?s1)" by (rule take_turn_runs [OF h])
  have reach1: "store_step\<^sup>*\<^sup>* empty_store (snd ?s1)" using reach run by (rule rtranclp_trans)
  have "id_key row \<in> id_key ` set (submission_rows (snd ?s1))"
    using steps_keep_keys [OF run] row by blast
  then obtain row1 where row1: "row1 \<in> set (submission_rows (snd ?s1))"
      "srow_id row1 = srow_id row" "srow_key row1 = srow_key row"
    by auto
  have "srow_id row1 \<in> set (map rrow_submission (receipt_rows (snd ?s1)))"
    using steps_keep_started [OF run] started row1(2) by auto
  from started_not_ready [OF reach1 row1(1) this]
  have ready: "sub_status (srow_record row1) \<notin> {''certified'', ''approved''}" .
  have "get_submission_by_key (snd ?s1) (srow_key row) = Some (srow_record row1)"
    using reachable_ok [OF reach1] row1 by (intro submission_by_key) (simp_all add: store_ok_def)
  then have "submit eng h agent_id request_id p conversation s =
      continue_with eng h p (srow_record row1) ?s1"
    using key valid by (simp add: submit_def)
  then show thesis using that [OF ready] continue_reports [OF ready] by metis
qed

subsection \<open>The certificate of an execution\<close>

lemma validate_expired:
  assumes "validate_certificate k cert expected revision now = Inl Expired"
  shows "cd_bindings (cert_data cert) = expected \<and> cb_agent_revision expected = revision
    \<and> data_hash k (cert_data cert) = Some (integrity_hash cert) \<and> expires_at (cert_data cert) \<le> now"
proof -
  have "and_check a b = Inl Expired \<longleftrightarrow> a = Inl Expired \<or> a = Inr () \<and> b = Inl Expired" for a b :: "certificate_error + unit"
    by (auto simp: and_check_def split: sum.split)
  moreover have "check_binding a b n \<noteq> Inl Expired" for a b n by (simp add: check_binding_def)
  ultimately show ?thesis
    using assms by (cases "cd_bindings (cert_data cert)"; cases expected)
      (auto simp: validate_certificate_def Let_def split: option.splits if_splits)
qed

lemma renewed_certificate:
  assumes "renew_certificate eng h sub cert report revision s = (Inr (sub1, cert1), s1)"
  shows "validate_certificate (eng_cert eng) cert (bindings_from (bindings report)) revision (clock_ms h (fst s)) = Inr ()
      \<and> sub1 = sub \<and> cert1 = cert \<and> s1 = s
    \<or> sub_status sub = ''approved''
      \<and> cd_bindings (cert_data cert) = bindings_from (bindings report)
      \<and> expires_at (cert_data cert) \<le> clock_ms h (fst s)
      \<and> cd_bindings (cert_data cert1) = bindings_from (bindings (sub_report sub))
      \<and> issued_at (cert_data cert1) = clock_ms h (fst s)
      \<and> sub_status sub1 = ''approved'' \<and> sub_certificate sub1 = Some cert1
      \<and> sub_plan sub1 = sub_plan sub"
  using assms
  by (auto simp: renew_certificate_def Let_def split: if_splits sum.splits prod.splits
      dest!: validate_expired issued_certificate(3))

end
