(* ===== verification/SafeActions_Trial.thy ===== *)
theory SafeActions_Trial
  imports SafeActions_Sample SafeActions_Replay
begin

section \<open>A concrete run\<close>

text \<open>
  A host on which the service runs from end to end: the two tools of the sample input, one agent
  restricted to them, and a store with a policy and the contracts of both.  The world counts the ids
  that were handed out.  Nothing here models code of the program.
\<close>

definition trial_engine :: engine where
  "trial_engine =
     \<lparr>eng_ser = sample_serializer, eng_cert = sample_certifier, eng_pointer = sample_pointer,
      eng_message = (\<lambda>e. []), ser_contract = (\<lambda>c. Some JNull)\<rparr>"

definition trial_agent :: agent_record where
  "trial_agent =
     \<lparr>ag_id = ''agent'', ag_updated = None, ag_lifecycle = ''active'',
      ag_safety = ''verified_plan_only'', ag_tools = [''fs.list'', ''fs.read''], ag_profiles = []\<rparr>"

definition trial_tool :: "tool_descriptor \<Rightarrow> registry_tool" where
  "trial_tool d =
     \<lparr>rt_id = td_name d, rt_server = ''fs'', rt_input = Some (input_schema d),
      rt_output = Some (output_schema d)\<rparr>"

definition trial_result :: "string \<Rightarrow> json" where
  "trial_result tool =
     (if tool = ''fs.list'' then JArray [JString ''a.txt'', JString ''b.txt''] else JString ''text'')"

definition trial_host :: "nat host" where
  "trial_host =
     \<lparr>agent_of = (\<lambda>w i. if i = ''agent'' then Some trial_agent else None),
      registry_tools = (\<lambda>w. Some [trial_tool read_tool, trial_tool list_tool]),
      chain_of = (\<lambda>w t. Some [''fs'']),
      implementation_of = (\<lambda>w t c. Some (if rt_id t = ''fs.list'' then ''h1'' else ''h2'')),
      live_implementation = (\<lambda>w t. Some (if t = ''fs.list'' then ''h1'' else ''h2'')),
      clock_ms = (\<lambda>w. 15), clock_text = (\<lambda>w. ''t''),
      fresh_id = (\<lambda>w. (replicate (Suc w) CHR ''i'', Suc w)),
      wait_turn = Pair,
      run_tool = (\<lambda>w st g who tool v. (Some (trial_result tool), w, st))\<rparr>"

lemma trial_respects: "respects_store trial_host"
  by (simp add: respects_store_def trial_host_def)

definition trial_contract :: "string \<Rightarrow> string \<Rightarrow> effect_contract \<Rightarrow> contract_record" where
  "trial_contract tool implementation c =
     \<lparr>cr_tool = tool, cr_contract = c, cr_contract_hash = [], cr_implementation_hash = implementation,
      cr_attested_by = ''operator'', cr_created = [], cr_updated = []\<rparr>"

definition trial_policy_record :: policy_record where
  "trial_policy_record = sample_policy_record\<lparr>pr_hash := to_lower_hex (map of_char ''policy'')\<rparr>"

definition trial_store :: safe_store where
  "trial_store =
     snd (put_policy ''t0'' trial_policy_record None
       (empty_store\<lparr>contract_rows :=
          [trial_contract ''fs.list'' ''h1'' list_contract, trial_contract ''fs.read'' ''h2'' read_contract]\<rparr>))"

definition trial_request :: request where
  "trial_request = Submit ''agent'' ''req-1'' sample_plan None"

definition trial_loaded :: loaded where
  "trial_loaded =
     \<lparr>ld_input = \<lparr>plan = sample_plan, policy_of = sample_policy, catalog = [list_tool, read_tool],
        agent_revision = []\<rparr>,
      ld_policy_id = ''p1'', ld_agent = trial_agent\<rparr>"

lemma trial_loads: "load_input trial_engine trial_host w trial_store ''agent'' sample_plan None = Inr trial_loaded"
  by code_simp

definition trial_report :: verification_report where
  "trial_report = verify sample_serializer (ld_input trial_loaded)"

lemma trial_proved: "decision trial_report = Proved"
  by code_simp

text \<open>The evidence is read from the policies and contracts only, so it is the same all through a run.\<close>

lemma load_input_rows:
  assumes "policy_rows st = policy_rows st'" and "binding_rows st = binding_rows st'"
    and "contract_rows st = contract_rows st'"
  shows "load_input eng h w st agent p override = load_input eng h w st' agent p override"
proof -
  have "policy_for_agent st agent = policy_for_agent st' agent"
    using assms(1,2)
    by (simp add: policy_for_agent_def get_policy_def hydrate_policy_bindings_def bound_agents_def
        split: option.split prod.split)
  moreover have "trusted_contracts eng st = trusted_contracts eng st'"
    using assms(3) by (simp add: trusted_contracts_def)
  ultimately have "load_policy eng st agent override = load_policy eng st' agent override"
    and "service_catalog eng h w st = service_catalog eng h w st'"
    by (auto simp: load_policy_def service_catalog_def fun_eq_iff split: option.split)
  then show ?thesis by (simp add: load_input_def split: sum.split option.split prod.split)
qed

definition trial_certificate :: certificate where
  "trial_certificate =
     \<lparr>cert_data = \<lparr>cd_schema_version = 1, cd_bindings = bindings_from (bindings trial_report),
        issued_at = 10, expires_at = 20\<rparr>,
      integrity_hash = to_lower_hex [10]\<rparr>"

lemma trial_certified:
  "validate_certificate sample_certifier trial_certificate (bindings_from (bindings trial_report)) [] 15 = Inr ()"
  by code_simp

definition trial_submission :: submission_record where
  "trial_submission = (sample_submission ''executing'')\<lparr>sub_report := trial_report\<rparr>"

definition running_store :: safe_store where
  "running_store = trial_store\<lparr>submission_rows := [sample_row ''executing''],
     receipt_rows := [sample_receipt_row ''running'']\<rparr>"

definition trial_context :: "nat exec_context" where
  "trial_context =
     initial_context trial_submission trial_certificate trial_agent (sample_receipt ''running'')
       (0, running_store)"

lemma trial_revalidates:
  assumes "policy_rows (db ctx) = policy_rows trial_store" "binding_rows (db ctx) = binding_rows trial_store"
    "contract_rows (db ctx) = contract_rows trial_store"
    and "submission ctx = trial_submission" "held_certificate ctx = trial_certificate"
    and "d \<in> {list_tool, read_tool}"
  shows "revalidate_execution trial_engine trial_host ctx (td_name d) =
    (Inr d, ctx\<lparr>who := (who ctx)\<lparr>id_allowlist := ag_tools trial_agent, id_profiles := ag_profiles trial_agent\<rparr>\<rparr>)"
proof -
  have "load_input trial_engine trial_host (world ctx) (db ctx) ''agent'' sample_plan None = Inr trial_loaded"
    using load_input_rows [OF assms(1-3)] trial_loads by metis
  moreover have "List.find (\<lambda>e. td_name e = td_name d) [list_tool, read_tool] = Some d"
    using assms(6) by (auto simp: list_tool_def read_tool_def)
  moreover have "validate_certificate sample_certifier trial_certificate
      (bindings_from (bindings trial_report)) [] 15 = Inr ()"
    by (rule trial_certified)
  ultimately show ?thesis
    using assms(4,5) trial_proved
    by (simp add: revalidate_execution_def trial_submission_def sample_submission_def Let_def
        trial_engine_def trial_loaded_def trial_report_def trial_host_def)
qed

text \<open>The first call of the plan is dispatched.\<close>

lemma trial_first_call:
  "\<exists>g. dispatched (snd (execute_call trial_engine trial_host ''list'' ''fs.list'' (PObject []) trial_context))
     = [(g, ''fs.list'', JObject [])]"
proof -
  let ?ctx1 = "trial_context\<lparr>who := (who trial_context)\<lparr>id_allowlist := ag_tools trial_agent,
    id_profiles := ag_profiles trial_agent\<rparr>\<rparr>"
  have wait: "wait_turn trial_host = Pair" and tools: "registry_tools trial_host w = Some [trial_tool read_tool, trial_tool list_tool]" for w
    by (simp_all add: trial_host_def)
  have rev: "revalidate_execution trial_engine trial_host trial_context ''fs.list'' = (Inr list_tool, ?ctx1)"
    using trial_revalidates [of trial_context list_tool]
    by (simp add: trial_context_def initial_context_def running_store_def list_tool_def)
  have args: "materialize (eng_pointer trial_engine) outs (PObject []) = Inr (JObject [])" for outs
    by simp
  have valid: "validate_runtime_value (JObject []) (input_schema list_tool) = Inr ()"
    by code_simp
  have hash: "hash_json trial_engine (Some (JObject [])) = Some []"
    by code_simp
  have saved: "fst (record_step s ctx) = Inr ()" if "db ctx = running_store" "er_id (receipt ctx) = ''r1''"
    for s and ctx :: "nat exec_context"
    using that by (simp add: record_step_def save_step_def Let_def running_store_def sample_receipt_row_def)
  let ?ctx2 = "?ctx1\<lparr>ordinal := sat_add_u64 (ordinal ?ctx1) 1\<rparr>"
  let ?s = "\<lparr>sr_step = ''list'', sr_ordinal = ordinal ?ctx2, sr_tool = ''fs.list'', sr_arguments_hash = [],
    sr_result_hash = None, sr_status = ''running'', sr_error = None,
    sr_started = clock_text trial_host (world ?ctx2), sr_finished = None\<rparr>"
  obtain ctx3 where rec: "record_step ?s ?ctx2 = (Inr (), ctx3)"
    using saved [of ?ctx2 ?s] by (cases "record_step ?s ?ctx2")
      (simp add: trial_context_def initial_context_def sample_receipt_def)
  have none: "dispatched ctx3 = []"
    using record_step_frame(1) [OF rec] by (simp add: trial_context_def initial_context_def)
  have "execute_call trial_engine trial_host ''list'' ''fs.list'' (PObject []) trial_context =
      dispatch_call trial_engine trial_host list_tool ''list'' ''fs.list'' (JObject []) [] ?s ctx3"
    using rev args valid hash rec tools by (simp add: execute_call_def prepare_call_def wait Let_def)
  then show ?thesis by (simp add: dispatch_call_dispatched none)
qed

lemma trial_dispatches:
  "dispatched (snd (execute_node trial_engine trial_host (root (sub_plan trial_submission)) trial_context)) \<noteq> []"
proof -
  let ?run = "execute_call trial_engine trial_host ''list'' ''fs.list'' (PObject []) trial_context"
  have first: "dispatched (snd ?run) \<noteq> []" using trial_first_call by force
  have more: "dispatched (snd (execute_nodes trial_engine trial_host ns c)) \<noteq> []"
    if "dispatched c \<noteq> []" for ns c
    using execute_dispatches(2) [of trial_engine trial_host ns c] that by (auto simp: dispatches_def)
  have plan: "root (sub_plan trial_submission) =
      Sequence ''all'' [Call ''list'' ''fs.list'' (PObject []), sample_reads]"
    by (simp add: trial_submission_def sample_submission_def sample_plan_def)
  obtain r c where run: "?run = (r, c)" by (cases ?run)
  have walk: "execute_nodes trial_engine trial_host [Call ''list'' ''fs.list'' (PObject []), sample_reads] trial_context =
      (case r of
         Inl e \<Rightarrow> (Inl e, c)
       | Inr v \<Rightarrow> apfst (map_sum id (Cons v)) (execute_nodes trial_engine trial_host [sample_reads] c))"
    by (simp only: execute_nodes.simps(2) [of _ _ "Call i t a" for i t a] execute_node.simps(1) run prod.case)
  have "dispatched c \<noteq> []" using first run by simp
  then have "dispatched (snd (execute_nodes trial_engine trial_host
      [Call ''list'' ''fs.list'' (PObject []), sample_reads] trial_context)) \<noteq> []"
    unfolding walk using more [of c "[sample_reads]"] by (cases r) simp_all
  then show ?thesis by (simp only: plan execute_node.simps(2) snd_apfst not_False_eq_True)
qed

text \<open>A submission under the key of a request of the trial, accepted and then started.\<close>

definition keyed_submission :: "string \<Rightarrow> submission_record" where
  "keyed_submission status = (sample_submission status)\<lparr>submission_key := []\<rparr>"

definition keyed_row :: submission_row where
  "keyed_row =
     \<lparr>srow_id = ''s1'', srow_key = [], srow_agent = ''agent'', srow_status = ''executing'',
      srow_record = keyed_submission ''executing''\<rparr>"

definition keyed_store :: safe_store where
  "keyed_store = empty_store\<lparr>submission_rows := [keyed_row], receipt_rows := [sample_receipt_row ''running'']\<rparr>"

lemma keyed_reachable: "store_step\<^sup>*\<^sup>* empty_store keyed_store"
proof (rule converse_rtranclp_into_rtranclp)
  let ?st = "snd (insert_submission (keyed_submission ''certified'') empty_store)"
  show "store_step empty_store ?st"
    by (rule step_insert) (simp add: keyed_submission_def sample_submission_def initial_statuses_def)
  have "keyed_store = snd (start_execution ''s1'' [''certified''] (keyed_submission ''executing'')
      (sample_receipt ''running'') ?st)"
    by (simp add: keyed_store_def keyed_row_def keyed_submission_def start_execution_def insert_submission_def
        get_submission_by_key_def update_where_def empty_store_def sample_submission_def sample_receipt_def
        set_submission_def sample_receipt_row_def)
  moreover have "store_step ?st (snd (start_execution ''s1'' [''certified''] (keyed_submission ''executing'')
      (sample_receipt ''running'') ?st))"
    by (rule step_start) (simp_all add: keyed_submission_def sample_submission_def sample_receipt_def)
  ultimately show "store_step\<^sup>*\<^sup>* ?st keyed_store" by (simp add: r_into_rtranclp)
qed

lemma trial_key: "hash_json trial_engine (Some (request_json ''agent'' None ''req-1'')) = Some []"
  by code_simp

text \<open>A certificate that has expired, of a submission that was approved.\<close>

definition expired_certificate :: certificate where
  "expired_certificate =
     \<lparr>cert_data = \<lparr>cd_schema_version = 1, cd_bindings = bindings_from (bindings trial_report),
        issued_at = 5, expires_at = 10\<rparr>,
      integrity_hash = to_lower_hex [5]\<rparr>"

definition approved_submission :: submission_record where
  "approved_submission = (sample_submission ''approved'')\<lparr>sub_report := trial_report\<rparr>"

definition approved_store :: safe_store where
  "approved_store = empty_store\<lparr>submission_rows :=
     [\<lparr>srow_id = ''s1'', srow_key = ''k1'', srow_agent = ''agent'', srow_status = ''approved'',
       srow_record = approved_submission\<rparr>]\<rparr>"

lemma certificate_expired:
  "validate_certificate sample_certifier expired_certificate (bindings_from (bindings trial_report)) [] 15
     = Inl Expired"
  by code_simp

lemma certificate_issued: "\<exists>c. issue_certificate sample_certifier (trial_report\<lparr>decision := Proved\<rparr>) 15 (sat_add_u64 15 CERTIFICATE_TTL_MS) = Inr c"
proof -
  have "sat_add_u64 15 CERTIFICATE_TTL_MS = 300015" by code_simp
  then show ?thesis
    by (simp add: issue_certificate_def data_hash_def sha256_canonical_def canonical_json_def
        sample_certifier_def sample_codec_def)
qed

lemma approved_renewed:
  "\<exists>sub1 cert1 s1. renew_certificate trial_engine trial_host approved_submission expired_certificate
     trial_report [] (0, approved_store) = (Inr (sub1, cert1), s1)"
proof -
  have frame: "sub_report approved_submission = trial_report" "sub_status approved_submission = ''approved''"
    "sub_id approved_submission = ''s1''"
    by (simp_all add: approved_submission_def sample_submission_def)
  obtain c where c: "issue_certificate sample_certifier (trial_report\<lparr>decision := Proved\<rparr>) 15
      (sat_add_u64 15 CERTIFICATE_TTL_MS) = Inr c"
    using certificate_issued by blast
  have moved: "fst (transition_submission t ''s1'' [''approved''] r approved_store)" for t r
    by (simp add: transition_submission_def update_where_def approved_store_def empty_store_def Let_def)
  have "take_turn trial_host (0, approved_store) = (0, approved_store)"
    by (simp add: take_turn_def trial_host_def)
  moreover have "clock_ms trial_host 0 = 15" "eng_cert trial_engine = sample_certifier"
    by (simp_all add: trial_host_def trial_engine_def)
  ultimately show ?thesis
    using certificate_expired c moved frame
    by (simp add: renew_certificate_def Let_def case_prod_beta')
qed

end
