(* ===== verification/SafeActions_Moment.thy ===== *)
theory SafeActions_Moment
  imports SafeActions_Run
begin

section \<open>When a call is dispatched\<close>

text \<open>
  Where the walk over a plan stands when it comes to a call (\<open>comes_to\<close>), and what a call that is
  dispatched from there rests on: the plan was verified again in the world and the store of the very
  turn in which the tool is run (\<open>dispatched_from\<close>), not in those of the start or of an earlier step.
\<close>

subsection \<open>The calls the walk comes to\<close>

inductive comes_to ::
    "engine \<Rightarrow> 'w host \<Rightarrow> plan_node \<Rightarrow> 'w exec_context \<Rightarrow> string \<times> string \<times> plan_value
       \<Rightarrow> 'w exec_context \<Rightarrow> bool"
  and comes_within ::
    "engine \<Rightarrow> 'w host \<Rightarrow> plan_node list \<Rightarrow> 'w exec_context \<Rightarrow> string \<times> string \<times> plan_value
       \<Rightarrow> 'w exec_context \<Rightarrow> bool"
  for eng :: engine and h :: "'w host"
where
  at_call: "comes_to eng h (Call i tool args) c (i, tool, args) c"
| in_sequence: "comes_within eng h ns ctx call c \<Longrightarrow> comes_to eng h (Sequence i ns) ctx call c"
| in_parallel: "comes_within eng h ns ctx call c \<Longrightarrow> comes_to eng h (Parallel i ns) ctx call c"
| in_branch:
    "evaluate_predicate (eng_pointer eng) (step_outputs ctx) p = Inr b \<Longrightarrow>
     comes_to eng h (if b then th else el) ctx call c \<Longrightarrow> comes_to eng h (IfNode i p th el) ctx call c"
| at_head: "comes_to eng h n ctx call c \<Longrightarrow> comes_within eng h (n # ns) ctx call c"
| after_head:
    "execute_node eng h n ctx = (Inr v, ctx1) \<Longrightarrow> comes_within eng h ns ctx1 call c \<Longrightarrow>
     comes_within eng h (n # ns) ctx call c"

lemmas comes_intros = at_call in_sequence in_parallel at_head after_head

text \<open>A call that is reached is a call of the plan, and the evidence is still that of the start.\<close>

lemma comes_to_call:
  "comes_to eng h n ctx call c \<Longrightarrow> call \<in> set (plan_calls n)"
  "comes_within eng h ns ctx call c \<Longrightarrow> call \<in> set (concat (map plan_calls ns))"
  by (induction rule: comes_to_comes_within.inducts) (auto split: if_splits)

lemma execute_fixed: "fixed_part (snd (execute_node eng h n ctx)) = fixed_part ctx"
  using execute_dispatches(1) [of eng h n ctx] by (simp add: dispatches_def)

lemma comes_to_fixed:
  "comes_to eng h n ctx call c \<Longrightarrow> fixed_part c = fixed_part ctx"
  "comes_within eng h ns ctx call c \<Longrightarrow> fixed_part c = fixed_part ctx"
proof (induction rule: comes_to_comes_within.inducts)
  case (after_head n ctx v ctx1 ns call c)
  then show ?case using execute_fixed [of eng h n ctx] by simp
qed simp_all

subsection \<open>What one call rests on\<close>

text \<open>
  The entry \<open>e\<close> of a call that the walk comes to in the state \<open>c\<close>: the call waits for its turn, which
  leaves the world \<open>w\<close> and the store \<open>st\<close>; there the plan is verified again; and in \<open>w\<close> the tool is run,
  with the grant and the arguments of the entry.
\<close>

definition dispatched_from ::
  "engine \<Rightarrow> 'w host \<Rightarrow> 'w exec_context \<Rightarrow> string \<times> string \<times> plan_value
     \<Rightarrow> step_grant \<times> string \<times> json \<Rightarrow> bool" where
  "dispatched_from eng h c call e \<longleftrightarrow>
     (\<exists>i tool args w st d v hash st1 me.
        call = (i, tool, args) \<and> e = (grant_for c i d hash, tool, v)
        \<and> wait_turn h (world c) (db c) = (w, st)
        \<and> revalidated eng h w st (submission c) (held_certificate c) tool d
        \<and> materialize (eng_pointer eng) (step_outputs c) args = Inr v
        \<and> validate_runtime_value v (input_schema d) = Inr ()
        \<and> hash_json eng (Some v) = Some hash
        \<and> world (snd (execute_call eng h i tool args c))
            = fst (snd (run_tool h w st1 (grant_for c i d hash) me tool v)))"

lemma dispatched_fromE:
  assumes "dispatched_from eng h c call e"
  obtains i tool args w st d v hash st1 me where "call = (i, tool, args)" "e = (grant_for c i d hash, tool, v)"
    "wait_turn h (world c) (db c) = (w, st)"
    "revalidated eng h w st (submission c) (held_certificate c) tool d"
    "materialize (eng_pointer eng) (step_outputs c) args = Inr v"
    "validate_runtime_value v (input_schema d) = Inr ()" "hash_json eng (Some v) = Some hash"
    "world (snd (execute_call eng h i tool args c))
      = fst (snd (run_tool h w st1 (grant_for c i d hash) me tool v))"
  using assms unfolding dispatched_from_def by blast

lemma fail_step_world: "world (snd (fail_step eng s status failure e ctx)) = world ctx"
  by (auto simp: fail_step_def Let_def record_step_def split: prod.splits sum.splits option.splits)

lemma accept_output_world: "world (snd (accept_output eng d i s out ctx)) = world ctx"
  by (auto simp: accept_output_def Let_def fail_step_world record_step_def
      split: prod.splits sum.splits option.splits)

lemma dispatch_call_world:
  "world (snd (dispatch_call eng h d i tool v hash s ctx)) =
     fst (snd (run_tool h (world ctx) (db ctx) (grant_for ctx i d hash) (who ctx) tool v))"
  by (simp add: dispatch_call_def Let_def case_prod_beta' fail_step_world accept_output_world
      split: option.split)

lemma grant_for_fixed: "fixed_part c = fixed_part ctx \<Longrightarrow> grant_for c = grant_for ctx"
  by (intro ext) (simp add: grant_for_def fixed_part_def)

lemma prepare_call_moment:
  assumes "prepare_call eng h tool args ctx = (Inr (d, v, hash), ctx1)"
  obtains w st where "wait_turn h (world ctx) (db ctx) = (w, st)"
    and "revalidated eng h w st (submission ctx) (held_certificate ctx) tool d"
    and "materialize (eng_pointer eng) (step_outputs ctx) args = Inr v"
    and "validate_runtime_value v (input_schema d) = Inr ()" and "hash_json eng (Some v) = Some hash"
    and "world ctx1 = w" and "fixed_part ctx1 = fixed_part ctx" and "dispatched ctx1 = dispatched ctx"
proof -
  obtain w st where turn: "wait_turn h (world ctx) (db ctx) = (w, st)"
    by (cases "wait_turn h (world ctx) (db ctx)")
  define ctx0 where "ctx0 = ctx\<lparr>world := w, db := st\<rparr>"
  obtain q ctx2 where rev: "revalidate_execution eng h ctx0 tool = (q, ctx2)"
    by (cases "revalidate_execution eng h ctx0 tool")
  have q: "q = Inr d" and same: "ctx1 = ctx2" "step_outputs ctx2 = step_outputs ctx"
    and v: "materialize (eng_pointer eng) (step_outputs ctx2) args = Inr v"
      "validate_runtime_value v (input_schema d) = Inr ()" "hash_json eng (Some v) = Some hash"
    using assms revalidate_frame(4) [of eng h ctx0 tool]
    by (auto simp: prepare_call_def turn ctx0_def [symmetric] rev split: sum.splits option.splits)
      (simp_all add: ctx0_def)
  have ran: "revalidated eng h w st (submission ctx) (held_certificate ctx) tool d"
    using revalidate_ok [OF rev [unfolded q]] by (simp add: ctx0_def)
  have "world ctx2 = w \<and> fixed_part ctx2 = fixed_part ctx \<and> dispatched ctx2 = dispatched ctx"
    using rev by (auto simp: revalidate_execution_def Let_def ctx0_def fixed_part_def
        split: sum.splits option.splits if_splits)
  with turn ran v same show thesis using that by simp
qed

lemma execute_call_moment:
  "dispatched (snd (execute_call eng h i tool args c)) = dispatched c
   \<or> (\<exists>e. dispatched (snd (execute_call eng h i tool args c)) = dispatched c @ [e]
        \<and> dispatched_from eng h c (i, tool, args) e)"
proof (cases "prepare_call eng h tool args c")
  case prep: (Pair r ctx1)
  show ?thesis
  proof (cases r)
    case (Inl e)
    then have "execute_call eng h i tool args c = (Inl e, ctx1)" by (simp add: execute_call_def prep)
    then show ?thesis using prepare_call_frame(2) [OF prep] by simp
  next
    case (Inr q)
    obtain d v hash where q: "q = (d, v, hash)" by (cases q)
    obtain w st where moment: "wait_turn h (world c) (db c) = (w, st)"
        "revalidated eng h w st (submission c) (held_certificate c) tool d"
        "materialize (eng_pointer eng) (step_outputs c) args = Inr v"
        "validate_runtime_value v (input_schema d) = Inr ()" "hash_json eng (Some v) = Some hash"
      and here: "world ctx1 = w" "fixed_part ctx1 = fixed_part c" "dispatched ctx1 = dispatched c"
      using prepare_call_moment [OF prep [unfolded Inr q]] .
    define ctx2 where "ctx2 = ctx1\<lparr>ordinal := sat_add_u64 (ordinal ctx1) 1\<rparr>"
    define s where "s = \<lparr>sr_step = i, sr_ordinal = ordinal ctx2, sr_tool = tool,
       sr_arguments_hash = hash, sr_result_hash = None, sr_status = ''running'', sr_error = None,
       sr_started = clock_text h (world ctx2), sr_finished = None\<rparr>"
    obtain x ctx3 where saved: "record_step s ctx2 = (x, ctx3)" by (cases "record_step s ctx2")
    have call: "execute_call eng h i tool args c =
      (case x of Inl e \<Rightarrow> (Inl e, ctx3)
       | Inr y \<Rightarrow> if registry_tools h (world ctx3) = None then (Inl NoRegistry, ctx3)
           else dispatch_call eng h d i tool v hash s ctx3)"
      using saved by (cases x) (simp_all add: execute_call_def prep Inr q ctx2_def s_def Let_def)
    have kept: "world ctx3 = w" "fixed_part ctx3 = fixed_part c" "dispatched ctx3 = dispatched c"
      using saved here
      by (auto simp: record_step_def ctx2_def fixed_part_def split: prod.splits sum.splits)
    show ?thesis
    proof (cases "isl x \<or> registry_tools h (world ctx3) = None")
      case True
      then have "snd (execute_call eng h i tool args c) = ctx3" using call by (cases x) auto
      then show ?thesis using kept by simp
    next
      case False
      then have "execute_call eng h i tool args c = dispatch_call eng h d i tool v hash s ctx3"
        using call by (cases x) auto
      moreover from this have "dispatched_from eng h c (i, tool, args) (grant_for c i d hash, tool, v)"
        using moment kept grant_for_fixed [OF kept(2)]
        by (auto simp: dispatched_from_def dispatch_call_world)
      ultimately show ?thesis
        using kept grant_for_fixed [OF kept(2)] by (auto simp: dispatch_call_dispatched)
    qed
  qed
qed

subsection \<open>What an execution rests on\<close>

text \<open>
  Entries \<open>j\<close> and later of what is dispatched: each comes from a call that the walk comes to in a
  state in which exactly the entries before it were dispatched.
\<close>

definition each_from ::
  "engine \<Rightarrow> 'w host \<Rightarrow> (string \<times> string \<times> plan_value \<Rightarrow> 'w exec_context \<Rightarrow> bool) \<Rightarrow> nat
     \<Rightarrow> 'w exec_context \<Rightarrow> bool" where
  "each_from eng h comes j ctx \<longleftrightarrow>
     (\<forall>k. j \<le> k \<longrightarrow> k < length (dispatched ctx) \<longrightarrow>
        (\<exists>call c. comes call c \<and> dispatched c = take k (dispatched ctx)
           \<and> dispatched_from eng h c call (dispatched ctx ! k)))"

lemma each_from_mono:
  "each_from eng h P j ctx \<Longrightarrow> (\<And>call c. P call c \<Longrightarrow> Q call c) \<Longrightarrow> each_from eng h Q j ctx"
  unfolding each_from_def by blast

lemma each_from_none: "dispatched ctx' = dispatched ctx \<Longrightarrow> each_from eng h P (length (dispatched ctx)) ctx'"
  by (simp add: each_from_def)

lemma each_from_append:
  assumes "each_from eng h P j ctx1" and "dispatched ctx2 = dispatched ctx1 @ new"
    and "each_from eng h P (length (dispatched ctx1)) ctx2"
  shows "each_from eng h P j ctx2"
  unfolding each_from_def
proof (intro allI impI)
  fix k assume k: "j \<le> k" "k < length (dispatched ctx2)"
  show "\<exists>call c. P call c \<and> dispatched c = take k (dispatched ctx2)
      \<and> dispatched_from eng h c call (dispatched ctx2 ! k)"
  proof (cases "k < length (dispatched ctx1)")
    case True
    then have "take k (dispatched ctx2) = take k (dispatched ctx1)"
      "dispatched ctx2 ! k = dispatched ctx1 ! k"
      using assms(2) by (simp_all add: nth_append)
    then show ?thesis using assms(1) k(1) True by (auto simp: each_from_def)
  next
    case False
    then show ?thesis using assms(3) k(2) by (simp add: each_from_def)
  qed
qed

lemma execute_appends:
  "\<exists>new. dispatched (snd (execute_node eng h n ctx)) = dispatched ctx @ new"
  "\<exists>new. dispatched (snd (execute_nodes eng h ns ctx)) = dispatched ctx @ new"
  using execute_dispatches(1) [of eng h n ctx] execute_dispatches(2) [of eng h ns ctx]
  by (auto simp: dispatches_def)

lemma execute_each_from:
  "each_from eng h (comes_to eng h n ctx) (length (dispatched ctx)) (snd (execute_node eng h n ctx))"
  "each_from eng h (comes_within eng h ns ctx) (length (dispatched ctx)) (snd (execute_nodes eng h ns ctx))"
proof (induction eng h n ctx and eng h ns ctx rule: execute_node_execute_nodes.induct)
  case (1 eng h i tool args ctx)
  from execute_call_moment [of eng h i tool args ctx] show ?case
    by (auto simp: each_from_def nth_append) (metis at_call)+
next
  case (2 eng h i nodes ctx)
  then show ?case
    by (auto simp: apfst_def map_prod_def case_prod_beta' intro: in_sequence elim: each_from_mono)
next
  case (3 eng h i nodes ctx)
  then show ?case
    by (auto simp: apfst_def map_prod_def case_prod_beta' intro: in_parallel elim: each_from_mono)
next
  case (4 eng h i p th el ctx)
  show ?case
  proof (cases "evaluate_predicate (eng_pointer eng) (step_outputs ctx) p")
    case (Inl e)
    then show ?thesis by (simp add: each_from_none)
  next
    case (Inr b)
    have "each_from eng h (comes_to eng h (if b then th else el) ctx) (length (dispatched ctx))
        (snd (execute_node eng h (if b then th else el) ctx))"
      using 4 Inr by (cases b) simp_all
    then have "each_from eng h (comes_to eng h (IfNode i p th el) ctx) (length (dispatched ctx))
        (snd (execute_node eng h (if b then th else el) ctx))"
      by (rule each_from_mono) (rule in_branch [OF Inr])
    then show ?thesis using Inr by (simp split: if_splits)
  qed
next
  case (5 eng h ctx)
  then show ?case by (simp add: each_from_none)
next
  case (6 eng h n ns ctx)
  obtain r ctx1 where run: "execute_node eng h n ctx = (r, ctx1)" by (cases "execute_node eng h n ctx")
  have first: "each_from eng h (comes_within eng h (n # ns) ctx) (length (dispatched ctx)) ctx1"
    using 6(1) run by (auto elim: each_from_mono intro: at_head)
  show ?case
  proof (cases r)
    case (Inl e)
    then show ?thesis using first run by simp
  next
    case (Inr v)
    note ran = run [unfolded Inr]
    obtain new where "dispatched (snd (execute_nodes eng h ns ctx1)) = dispatched ctx1 @ new"
      using execute_appends(2) by blast
    moreover have "each_from eng h (comes_within eng h (n # ns) ctx) (length (dispatched ctx1))
        (snd (execute_nodes eng h ns ctx1))"
      using 6(2) [OF run [symmetric]] Inr by (auto elim: each_from_mono intro: after_head [OF ran])
    ultimately show ?thesis
      using each_from_append [OF first] ran by (simp add: apfst_def map_prod_def case_prod_beta')
  qed
qed

end
