(* ===== verification/SafeActions_Review.thy ===== *)
theory SafeActions_Review
  imports SafeActions_Store
begin

section \<open>What a reviewer is shown\<close>

text \<open>
  The review projection of \<open>apps/core/src/safe_actions/mod.rs\<close>: every literal of the plan is
  replaced by a marker before the record leaves Core, and the calls of the JSON that is sent are
  flagged.  The lemmas say that no literal survives, and that everything a reviewer decides on (ids,
  tools, structure, references) does.
\<close>

definition CORE_REDACTION_MARKER :: string where
  "CORE_REDACTION_MARKER = ''[redacted by Core]''"

fun redact_review_value :: "plan_value \<Rightarrow> plan_value" where
  "redact_review_value (PLiteral v) = PLiteral (JString CORE_REDACTION_MARKER)"
| "redact_review_value (PObject kvs) = PObject (map (\<lambda>(k, c). (k, redact_review_value c)) kvs)"
| "redact_review_value (PArray items) = PArray (map redact_review_value items)"
| "redact_review_value (PStepOutput i p t) = PStepOutput i p t"

fun redact_review_predicate :: "predicate \<Rightarrow> predicate" where
  "redact_review_predicate (PCompare l op r) = PCompare (redact_review_value l) op (redact_review_value r)"
| "redact_review_predicate (PAll ps) = PAll (map redact_review_predicate ps)"
| "redact_review_predicate (PAny ps) = PAny (map redact_review_predicate ps)"
| "redact_review_predicate (PNot p) = PNot (redact_review_predicate p)"
| "redact_review_predicate (PExists v) = PExists (redact_review_value v)"

fun redact_review_node :: "plan_node \<Rightarrow> plan_node" where
  "redact_review_node (Call i tool args) = Call i tool (redact_review_value args)"
| "redact_review_node (Sequence i nodes) = Sequence i (map redact_review_node nodes)"
| "redact_review_node (Parallel i nodes) = Parallel i (map redact_review_node nodes)"
| "redact_review_node (IfNode i p th el) =
     IfNode i (redact_review_predicate p) (redact_review_node th) (redact_review_node el)"

subsection \<open>The flag on the calls\<close>

text \<open>\<open>Map::insert\<close> and \<open>get_mut\<close> on the entries of an object.\<close>

definition set_entry :: "string \<Rightarrow> json \<Rightarrow> (string \<times> json) list \<Rightarrow> (string \<times> json) list" where
  "set_entry k v kvs =
     (if k \<in> fst ` set kvs then map (\<lambda>(a, b). (a, if a = k then v else b)) kvs else kvs @ [(k, v)])"

definition at_entries :: "string list \<Rightarrow> (json \<Rightarrow> json) \<Rightarrow> (string \<times> json) list \<Rightarrow> (string \<times> json) list" where
  "at_entries ks f kvs = map (\<lambda>(a, b). (a, if a \<in> set ks then f b else b)) kvs"

lemma at_entries_cong [fundef_cong]:
  "ks = ks' \<Longrightarrow> kvs = kvs' \<Longrightarrow> (\<And>k b. (k, b) \<in> set kvs' \<Longrightarrow> f b = g b) \<Longrightarrow>
     at_entries ks f kvs = at_entries ks' g kvs'"
  by (auto simp: at_entries_def)

definition at_items :: "(json \<Rightarrow> json) \<Rightarrow> json \<Rightarrow> json" where
  "at_items f v = (case v of JArray xs \<Rightarrow> JArray (map f xs) | _ \<Rightarrow> v)"

lemma at_items_cong [fundef_cong]:
  "v = v' \<Longrightarrow> (\<And>xs x. v' = JArray xs \<Longrightarrow> x \<in> set xs \<Longrightarrow> f x = g x) \<Longrightarrow> at_items f v = at_items g v'"
  by (auto simp: at_items_def split: json.split)

lemma entry_array_size:
  "(k, JArray xs) \<in> set kvs \<Longrightarrow> x \<in> set xs \<Longrightarrow> size x < Suc (size_list (size_prod (\<lambda>x. 0) size) kvs)"
  using entry_size_less [of k "JArray xs" kvs] item_size [of x xs] by simp

function mark_review_calls_redacted :: "json \<Rightarrow> json" where
  "mark_review_calls_redacted node =
     (case node of
        JObject kvs \<Rightarrow>
          (case Option.bind (map_of kvs ''kind'') as_str of
             Some kind \<Rightarrow>
               if kind = ''call'' then JObject (set_entry ''arguments_redacted'' (JBool True) kvs)
               else if kind = ''sequence'' \<or> kind = ''parallel''
               then JObject (at_entries [''nodes''] (at_items mark_review_calls_redacted) kvs)
               else if kind = ''if''
               then JObject (at_entries [''then_node'', ''else_node''] mark_review_calls_redacted kvs)
               else node
           | None \<Rightarrow> node)
      | _ \<Rightarrow> node)"
  by pat_completeness auto
termination
  by (relation "measure size") (auto intro: entry_array_size entry_size_less)

declare mark_review_calls_redacted.simps [simp del]

text \<open>\<open>pointer_mut("/plan/root")\<close> on the serialized record.\<close>

definition at_field :: "string \<Rightarrow> (json \<Rightarrow> json) \<Rightarrow> json \<Rightarrow> json" where
  "at_field k f v = (case v of JObject kvs \<Rightarrow> JObject (at_entries [k] f kvs) | _ \<Rightarrow> v)"

definition review_projection ::
  "(submission_record \<Rightarrow> json option) \<Rightarrow> submission_record \<Rightarrow> json option" where
  "review_projection ser_submission r =
     (let projected = r\<lparr>sub_plan := (sub_plan r)\<lparr>root := redact_review_node (root (sub_plan r))\<rparr>\<rparr>
      in map_option (at_field ''plan'' (at_field ''root'' mark_review_calls_redacted))
           (ser_submission projected))"

subsection \<open>No literal survives\<close>

fun value_literals :: "plan_value \<Rightarrow> json list" where
  "value_literals (PLiteral v) = [v]"
| "value_literals (PObject kvs) = concat (map (\<lambda>(k, c). value_literals c) kvs)"
| "value_literals (PArray items) = concat (map value_literals items)"
| "value_literals (PStepOutput i p t) = []"

fun predicate_literals :: "predicate \<Rightarrow> json list" where
  "predicate_literals (PCompare l op r) = value_literals l @ value_literals r"
| "predicate_literals (PAll ps) = concat (map predicate_literals ps)"
| "predicate_literals (PAny ps) = concat (map predicate_literals ps)"
| "predicate_literals (PNot p) = predicate_literals p"
| "predicate_literals (PExists v) = value_literals v"

fun node_literals :: "plan_node \<Rightarrow> json list" where
  "node_literals (Call i tool args) = value_literals args"
| "node_literals (Sequence i nodes) = concat (map node_literals nodes)"
| "node_literals (Parallel i nodes) = concat (map node_literals nodes)"
| "node_literals (IfNode i p th el) = predicate_literals p @ node_literals th @ node_literals el"

lemma redacted_value: "set (value_literals (redact_review_value v)) \<subseteq> {JString CORE_REDACTION_MARKER}"
  by (induction v rule: redact_review_value.induct) fastforce+

lemma redacted_predicate:
  "set (predicate_literals (redact_review_predicate p)) \<subseteq> {JString CORE_REDACTION_MARKER}"
  using redacted_value by (induction p rule: redact_review_predicate.induct) fastforce+

lemma redacted_node: "set (node_literals (redact_review_node n)) \<subseteq> {JString CORE_REDACTION_MARKER}"
  using redacted_value redacted_predicate by (induction n rule: redact_review_node.induct) fastforce+

subsection \<open>What does survive\<close>

text \<open>References to outputs of earlier steps, in order.\<close>

fun value_references :: "plan_value \<Rightarrow> (string \<times> string) list" where
  "value_references (PLiteral v) = []"
| "value_references (PObject kvs) = concat (map (\<lambda>(k, c). value_references c) kvs)"
| "value_references (PArray items) = concat (map value_references items)"
| "value_references (PStepOutput i p t) = [(i, p)]"

lemma map_cong_concat: "(\<And>x. x \<in> set xs \<Longrightarrow> f (g x) = f x) \<Longrightarrow> concat (map f (map g xs)) = concat (map f xs)"
  by (induction xs) auto

lemma redact_references: "value_references (redact_review_value v) = value_references v"
proof (induction v rule: redact_review_value.induct)
  case (2 kvs)
  have "concat (map (\<lambda>(k, c). value_references c) (map (\<lambda>(k, c). (k, redact_review_value c)) kvs)) =
      concat (map (\<lambda>(k, c). value_references c) kvs)"
    by (rule map_cong_concat) (use 2 in auto)
  then show ?case by simp
next
  case (3 items)
  then show ?case using map_cong_concat [of items value_references redact_review_value] by simp
qed auto

lemma redact_shape:
  "plan_ids (redact_review_node n) = plan_ids n"
  "map (\<lambda>(i, tool, args). (i, tool, value_references args)) (plan_calls (redact_review_node n)) =
     map (\<lambda>(i, tool, args). (i, tool, value_references args)) (plan_calls n)"
proof (induction n rule: redact_review_node.induct)
  case (2 i nodes)
  { case 1 then show ?case using 2 map_cong_concat [of nodes plan_ids redact_review_node] by simp
  next
    case 2 then show ?case using "2.IH" by (simp add: map_concat o_def cong: map_cong) }
next
  case (3 i nodes)
  { case 1 then show ?case using 3 map_cong_concat [of nodes plan_ids redact_review_node] by simp
  next
    case 2 then show ?case using "3.IH" by (simp add: map_concat o_def cong: map_cong) }
qed (simp_all add: redact_references)

end
