(* ===== verification/Ryu_Trim.thy ===== *)
theory Ryu_Trim
  imports Ryu_Prelude
begin

section \<open>Trimming\<close>

text \<open>
  \<open>str::trim\<close> on strings as their UTF-8 bytes: the characters of Unicode's \<open>White_Space\<close> are
  removed from both ends.  In valid UTF-8 an encoding is found at an end of the bytes exactly when
  its character is at that end of the text.
\<close>

definition whitespace_encodings :: "string list" where
  "whitespace_encodings =
     map (\<lambda>n. [char_of (n :: nat)]) [9, 10, 11, 12, 13, 32]
     @ [[CHR 0xC2, CHR 0x85], [CHR 0xC2, CHR 0xA0], [CHR 0xE1, CHR 0x9A, CHR 0x80]]
     @ map (\<lambda>n. [CHR 0xE2, CHR 0x80, char_of (n :: nat)])
         [0x80, 0x81, 0x82, 0x83, 0x84, 0x85, 0x86, 0x87, 0x88, 0x89, 0x8A, 0xA8, 0xA9, 0xAF]
     @ [[CHR 0xE2, CHR 0x81, CHR 0x9F], [CHR 0xE3, CHR 0x80, CHR 0x80]]"

lemma whitespace_nonempty: "w \<in> set whitespace_encodings \<Longrightarrow> w \<noteq> []"
  by (auto simp: whitespace_encodings_def)

text \<open>The rest of a string that starts with white space.\<close>

definition skip_space :: "string \<Rightarrow> string option" where
  "skip_space s =
     (case List.find (\<lambda>w. strip_prefix w s \<noteq> None) whitespace_encodings of
        None \<Rightarrow> None
      | Some w \<Rightarrow> strip_prefix w s)"

lemma skip_space_Some: "skip_space s = Some t \<Longrightarrow> \<exists>w \<in> set whitespace_encodings. s = w @ t"
  by (auto simp: skip_space_def find_Some_iff strip_prefix_Some split: option.splits)

lemma skip_space_length: "skip_space s = Some t \<Longrightarrow> length t < length s"
  using skip_space_Some whitespace_nonempty by fastforce

function trim_start :: "string \<Rightarrow> string" where
  "trim_start s = (case skip_space s of None \<Rightarrow> s | Some t \<Rightarrow> trim_start t)"
  by pat_completeness auto
termination
  by (relation "measure length") (auto dest: skip_space_length)

declare trim_start.simps [simp del]

definition skip_space_end :: "string \<Rightarrow> string option" where
  "skip_space_end s =
     (case List.find (\<lambda>w. strip_suffix w s \<noteq> None) whitespace_encodings of
        None \<Rightarrow> None
      | Some w \<Rightarrow> strip_suffix w s)"

lemma skip_space_end_Some: "skip_space_end s = Some t \<Longrightarrow> \<exists>w \<in> set whitespace_encodings. s = t @ w"
  by (auto simp: skip_space_end_def find_Some_iff strip_suffix_Some split: option.splits)

lemma skip_space_end_length: "skip_space_end s = Some t \<Longrightarrow> length t < length s"
  using skip_space_end_Some whitespace_nonempty by fastforce

function trim_end :: "string \<Rightarrow> string" where
  "trim_end s = (case skip_space_end s of None \<Rightarrow> s | Some t \<Rightarrow> trim_end t)"
  by pat_completeness auto
termination
  by (relation "measure length") (auto dest: skip_space_end_length)

declare trim_end.simps [simp del]

definition trim :: "string \<Rightarrow> string" where
  "trim s = trim_end (trim_start s)"

lemma trim_start_skip: "skip_space (trim_start s) = None"
  by (induction s rule: trim_start.induct) (subst trim_start.simps, auto split: option.splits)

lemma trim_start_id: "skip_space s = None \<Longrightarrow> trim_start s = s"
  by (subst trim_start.simps) simp

lemma trim_end_id: "skip_space_end s = None \<Longrightarrow> trim_end s = s"
  by (subst trim_end.simps) simp

lemma trim_end_length: "length (trim_end s) \<le> length s"
proof (induction s rule: trim_end.induct)
  case (1 s)
  then show ?case
    using skip_space_end_length [of s] by (subst trim_end.simps) (fastforce split: option.split)
qed

lemma trim_length: "length (trim s) \<le> length s"
proof -
  have "length (trim_start s) \<le> length s"
  proof (induction s rule: trim_start.induct)
    case (1 s)
    then show ?case
      using skip_space_length [of s] by (subst trim_start.simps) (fastforce split: option.split)
  qed
  then show ?thesis using trim_end_length [of "trim_start s"] by (simp add: trim_def)
qed

end
