(* ===== verification/Core_Identity.thy ===== *)
theory Core_Identity
  imports Ryu_Trim
begin

section \<open>Identity and access\<close>

text \<open>
  The role ladder and the access decision of \<open>apps/core/src/identity_verify/mod.rs\<close>, after the
  signature of a token was verified: \<open>to_caller_for_org\<close> narrows the claims to the organization of
  the node, \<open>can_access\<close> decides what the caller may do with a resource.  The lemmas say that no
  role or team of another organization counts, and that access is only ever granted for one of the
  documented reasons.  (Fetching keys and verifying tokens is not modelled.)
\<close>

subsection \<open>Roles\<close>

datatype org_role = Owner | Admin | Member | Viewer

fun role_rank :: "org_role \<Rightarrow> nat" where
  "role_rank Owner = 3"
| "role_rank Admin = 2"
| "role_rank Member = 1"
| "role_rank Viewer = 0"

definition role_satisfies :: "org_role \<Rightarrow> org_role \<Rightarrow> bool" where
  "role_satisfies r required \<longleftrightarrow> role_rank required \<le> role_rank r"

definition role_of_part :: "string \<Rightarrow> org_role option" where
  "role_of_part part =
     (let normalized = to_ascii_lowercase (trim part) in
      if normalized = ''owner'' then Some Owner
      else if normalized = ''admin'' then Some Admin
      else if normalized = ''member'' then Some Member
      else if normalized = ''viewer'' then Some Viewer
      else None)"

definition better_role :: "string \<Rightarrow> org_role \<Rightarrow> org_role" where
  "better_role part best =
     (case role_of_part part of
        None \<Rightarrow> best
      | Some c \<Rightarrow> if role_rank best < role_rank c then c else best)"

definition role_from_string :: "string \<Rightarrow> org_role" where
  "role_from_string s = fold better_role (split_on (CHR '','') s) Viewer"

lemma role_rank_inj: "role_rank a = role_rank b \<longleftrightarrow> a = b"
  by (cases a; cases b) simp_all

instantiation org_role :: linorder
begin

definition less_eq_org_role :: "org_role \<Rightarrow> org_role \<Rightarrow> bool" where
  "less_eq_org_role a b \<longleftrightarrow> role_rank a \<le> role_rank b"

definition less_org_role :: "org_role \<Rightarrow> org_role \<Rightarrow> bool" where
  "less_org_role a b \<longleftrightarrow> role_rank a < role_rank b"

instance
  by standard (auto simp: less_eq_org_role_def less_org_role_def role_rank_inj)

end

lemma role_satisfies_le: "role_satisfies r required \<longleftrightarrow> required \<le> r"
  by (simp add: role_satisfies_def less_eq_org_role_def)

lemma Viewer_least [simp]: "Viewer \<le> r"
  by (simp add: less_eq_org_role_def)

lemma better_role_max: "better_role part best = (case role_of_part part of None \<Rightarrow> best | Some c \<Rightarrow> max c best)"
  by (auto simp: better_role_def max_def less_eq_org_role_def not_less role_rank_inj split: option.split)

text \<open>The role of a string is the highest one any part of it names, and \<open>Viewer\<close> when none does.\<close>

lemma fold_better_role:
  "fold better_role parts r = fold max (List.map_filter role_of_part parts) r"
  by (induction parts arbitrary: r)
    (auto simp: better_role_max split: option.split)

lemma fold_max_Max: "fold max (xs :: 'a :: linorder list) r = Max (insert r (set xs))"
  by (metis Max.set_eq_fold list.simps(15))

lemma role_from_string_Max:
  "role_from_string s =
     Max (insert Viewer (set (List.map_filter role_of_part (split_on (CHR '','') s))))"
  by (simp add: role_from_string_def fold_better_role fold_max_Max)

subsection \<open>Callers\<close>

record org_membership =
  om_id :: string
  om_role :: string

record team_membership =
  tm_id :: string
  tm_org :: string
  tm_role :: string

record verified_claims =
  vc_user :: string
  vc_email :: "string option"
  vc_orgs :: "org_membership list"
  vc_teams :: "team_membership list"

record verified_caller =
  caller_user :: string
  caller_email :: "string option"
  caller_org :: "string option"
  caller_role :: org_role
  caller_teams :: "team_membership list"

definition to_caller_for_org :: "verified_claims \<Rightarrow> string option \<Rightarrow> verified_caller" where
  "to_caller_for_org claims node_org =
     (let (org, role) =
        (case node_org of
           None \<Rightarrow> (None, Viewer)
         | Some node \<Rightarrow>
             (case List.find (\<lambda>m. om_id m = node) (vc_orgs claims) of
                None \<Rightarrow> (None, Viewer)
              | Some m \<Rightarrow> (Some node, role_from_string (om_role m))))
      in \<lparr>caller_user = vc_user claims, caller_email = vc_email claims, caller_org = org,
          caller_role = role,
          caller_teams =
            (case org of
               None \<Rightarrow> []
             | Some o1 \<Rightarrow> filter (\<lambda>t. tm_org t = o1) (vc_teams claims))\<rparr>)"

subsection \<open>Access\<close>

datatype access = NoAccess | ReadAccess | WriteAccess

fun access_rank :: "access \<Rightarrow> nat" where
  "access_rank NoAccess = 0"
| "access_rank ReadAccess = 1"
| "access_rank WriteAccess = 2"

definition at_least :: "access \<Rightarrow> access \<Rightarrow> bool" where
  "at_least a required \<longleftrightarrow> access_rank required \<le> access_rank a"

record collaborator =
  co_user :: string
  co_access :: access

definition role_access :: "org_role \<Rightarrow> access" where
  "role_access r = (if role_satisfies r Member then WriteAccess else ReadAccess)"

definition org_access :: "verified_caller \<Rightarrow> string option \<Rightarrow> access" where
  "org_access caller org =
     (case (caller_org caller, org) of
        (Some a, Some b) \<Rightarrow> if a = b then role_access (caller_role caller) else NoAccess
      | _ \<Rightarrow> NoAccess)"

definition team_access :: "verified_caller \<Rightarrow> string option \<Rightarrow> string option \<Rightarrow> access" where
  "team_access caller org team =
     (case (caller_org caller, org, team) of
        (Some a, Some b, Some t) \<Rightarrow>
          if a \<noteq> b then NoAccess
          else
            (case List.find (\<lambda>m. tm_id m = t \<and> tm_org m = b) (caller_teams caller) of
               None \<Rightarrow> NoAccess
             | Some m \<Rightarrow> role_access (role_from_string (tm_role m)))
      | _ \<Rightarrow> NoAccess)"

definition can_access ::
  "verified_caller \<Rightarrow> string option \<Rightarrow> string option \<Rightarrow> string \<Rightarrow> string option \<Rightarrow> collaborator list
     \<Rightarrow> access" where
  "can_access caller owner org visibility team collaborators =
     (if owner = Some (caller_user caller) then WriteAccess
      else
        (case (if org = None \<or> caller_org caller = org
               then List.find (\<lambda>c. co_user c = caller_user caller) collaborators else None) of
           Some c \<Rightarrow> co_access c
         | None \<Rightarrow>
             if visibility = ''private'' then NoAccess
             else if visibility = ''org'' then org_access caller org
             else if visibility = ''team'' then team_access caller org team
             else NoAccess))"

subsection \<open>What grants access\<close>

lemma find_SomeD: "List.find p xs = Some x \<Longrightarrow> x \<in> set xs \<and> p x"
  by (auto simp: find_Some_iff)

lemma caller_org_member:
  assumes "caller_org (to_caller_for_org claims node_org) = Some a"
  shows "node_org = Some a \<and> (\<exists>m \<in> set (vc_orgs claims). om_id m = a
    \<and> caller_role (to_caller_for_org claims node_org) = role_from_string (om_role m))"
  using assms
  by (auto simp: to_caller_for_org_def split: option.splits dest: find_SomeD)

lemma caller_teams_narrowed:
  assumes "t \<in> set (caller_teams (to_caller_for_org claims node_org))"
  shows "t \<in> set (vc_teams claims) \<and> caller_org (to_caller_for_org claims node_org) = Some (tm_org t)"
  using assms by (auto simp: to_caller_for_org_def split: option.splits)

lemma org_access_member:
  "org_access c org \<noteq> NoAccess \<Longrightarrow> \<exists>a. caller_org c = Some a \<and> org = Some a"
  by (auto simp: org_access_def split: option.splits if_splits)

lemma team_access_member:
  "team_access c org team \<noteq> NoAccess \<Longrightarrow>
     \<exists>a t. caller_org c = Some a \<and> org = Some a \<and> t \<in> set (caller_teams c) \<and> tm_org t = a
       \<and> team = Some (tm_id t)"
  by (auto simp: team_access_def split: option.splits if_splits dest: find_SomeD)

lemma access_granted:
  assumes "can_access (to_caller_for_org claims node_org) owner org visibility team collaborators \<noteq> NoAccess"
  shows "owner = Some (vc_user claims)
    \<or> (\<exists>c \<in> set collaborators. co_user c = vc_user claims \<and> (org = None \<or> node_org = org))
    \<or> (org \<noteq> None \<and> node_org = org \<and> org \<in> (Some \<circ> om_id) ` set (vc_orgs claims)
        \<and> (visibility = ''org'' \<or> visibility = ''team''
             \<and> (\<exists>t \<in> set (vc_teams claims). team = Some (tm_id t) \<and> org = Some (tm_org t))))"
proof -
  let ?c = "to_caller_for_org claims node_org"
  have user: "caller_user ?c = vc_user claims"
    by (simp add: to_caller_for_org_def split: prod.split)
  have member: "node_org = Some a \<and> Some a \<in> (Some \<circ> om_id) ` set (vc_orgs claims)"
    if "caller_org ?c = Some a" for a
    using caller_org_member [OF that] by auto
  let ?direct = "if org = None \<or> caller_org ?c = org
    then List.find (\<lambda>c. co_user c = caller_user ?c) collaborators else None"
  show ?thesis
  proof (cases "owner = Some (vc_user claims)")
    case False
    show ?thesis
    proof (cases ?direct)
      case (Some c)
      then have "c \<in> set collaborators" "co_user c = vc_user claims" "org = None \<or> caller_org ?c = org"
        using user by (auto split: if_splits dest: find_SomeD)
      then show ?thesis using member by (cases org) auto
    next
      case None
      then have "visibility = ''org'' \<and> org_access ?c org \<noteq> NoAccess
          \<or> visibility = ''team'' \<and> team_access ?c org team \<noteq> NoAccess"
        using assms False user by (simp add: can_access_def split: if_splits)
      then show ?thesis
      proof (elim disjE conjE)
        assume vis: "visibility = ''org''" and granted: "org_access ?c org \<noteq> NoAccess"
        from org_access_member [OF granted] vis member show ?thesis by auto
      next
        assume vis: "visibility = ''team''" and granted: "team_access ?c org team \<noteq> NoAccess"
        from team_access_member [OF granted] obtain a t where t: "caller_org ?c = Some a" "org = Some a"
          "t \<in> set (caller_teams ?c)" "tm_org t = a" "team = Some (tm_id t)" by blast
        from caller_teams_narrowed [OF t(3)] member [OF t(1)] t vis show ?thesis by auto
      qed
    qed
  qed simp
qed

text \<open>Write access through an organization or a team needs a role that is at least a member's.\<close>

lemma shared_write_role:
  "org_access c org = WriteAccess \<Longrightarrow> role_satisfies (caller_role c) Member"
  "team_access c org team = WriteAccess \<Longrightarrow>
     \<exists>t \<in> set (caller_teams c). team = Some (tm_id t) \<and> role_satisfies (role_from_string (tm_role t)) Member"
  by (auto simp: org_access_def team_access_def role_access_def split: option.splits if_splits
      dest: find_SomeD)

end
