(* ===== verification/Core_Acl.thy ===== *)
theory Core_Acl
  imports Ryu_Prelude
begin

section \<open>Permissions on shared resources\<close>

text \<open>
  The resolver of \<open>apps/core/src/acl/mod.rs\<close>: a registry of permission ids with an implication graph,
  a catalog of roles, and overwrites that allow or deny ids on a resource for an organization, a
  team, a role or a member.  A \<open>BTreeSet\<close> is the ordered list of its elements, a \<open>BTreeMap\<close> the
  ordered association list of the prelude.

  The lemmas say that the worklist of \<open>closure\<close> computes exactly what is reachable in the graph, that
  denials travel exactly against the edges grants travel along, that \<open>resolve\<close> decides by the most
  specific tier that mentions an id, and that what it allows is closed under implication.
\<close>

subsection \<open>Ordered sets\<close>

definition bs_insert :: "'a::linorder \<Rightarrow> 'a list \<Rightarrow> 'a list" where
  "bs_insert x xs = (if x \<in> set xs then xs else insort x xs)"

definition bs_from :: "'a::linorder list \<Rightarrow> 'a list" where
  "bs_from xs = fold bs_insert xs []"

lemma set_bs_insert [simp]: "set (bs_insert x xs) = insert x (set xs)"
  by (auto simp: bs_insert_def set_insort_key)

lemma set_fold_bs_insert: "set (fold bs_insert xs ys) = set xs \<union> set ys"
  by (induction xs arbitrary: ys) auto

lemma set_bs_from [simp]: "set (bs_from xs) = set xs"
  by (simp add: bs_from_def set_fold_bs_insert)

subsection \<open>The registry\<close>

type_synonym edges = "(string \<times> string list) list"

record permission_registry =
  declared :: "string list"
  implies :: edges
  implied_by :: edges

definition new_registry :: "string list \<Rightarrow> permission_registry" where
  "new_registry ids = \<lparr>declared = bs_from ids, implies = [], implied_by = []\<rparr>"

text \<open>\<open>entry(from).or_default().insert(to)\<close>.\<close>

definition add_edge :: "string \<Rightarrow> string \<Rightarrow> edges \<Rightarrow> edges" where
  "add_edge src dst es =
     bt_insert src (bs_insert dst (case bt_get es src of None \<Rightarrow> [] | Some ts \<Rightarrow> ts)) es"

definition with_implication :: "string \<Rightarrow> string \<Rightarrow> permission_registry \<Rightarrow> permission_registry" where
  "with_implication implier implied r =
     (if implier \<notin> set (declared r) \<or> implied \<notin> set (declared r) then r
      else r\<lparr>implies := add_edge implier implied (implies r),
             implied_by := add_edge implied implier (implied_by r)\<rparr>)"

text \<open>The graph of an edge map, and what \<open>add_edge\<close> makes of it.\<close>

definition graph_of :: "edges \<Rightarrow> (string \<times> string) set" where
  "graph_of es = {(a, b). \<exists>ts. bt_get es a = Some ts \<and> b \<in> set ts}"

lemma graph_add_edge: "graph_of (add_edge a b es) = insert (a, b) (graph_of es)"
  by (auto simp: graph_of_def add_edge_def bt_get_insert split: option.splits if_splits)

definition registry_ok :: "permission_registry \<Rightarrow> bool" where
  "registry_ok r \<longleftrightarrow> graph_of (implied_by r) = (graph_of (implies r))\<inverse>
     \<and> graph_of (implies r) \<subseteq> set (declared r) \<times> set (declared r)"

lemma registry_ok_new: "registry_ok (new_registry ids)"
  by (auto simp: registry_ok_def new_registry_def graph_of_def bt_get_def)

lemma registry_ok_with: "registry_ok r \<Longrightarrow> registry_ok (with_implication a b r)"
  by (auto simp: registry_ok_def with_implication_def graph_add_edge)

subsection \<open>Closure\<close>

lemma unvisited_less:
  assumes "bt_get es i = Some ts" and "i \<notin> set out"
  shows "card (set (bt_keys es) - insert i (set out)) < card (set (bt_keys es) - set out)"
proof (rule psubset_card_mono)
  have "i \<in> set (bt_keys es)" using assms(1) bt_get_None [of es i] by auto
  with assms(2) show "set (bt_keys es) - insert i (set out) \<subset> set (bt_keys es) - set out" by auto
qed simp

lemma unvisited_le: "card (set (bt_keys es) - insert i A) \<le> card (set (bt_keys es) - A)"
  by (rule card_mono) auto

text \<open>
  The loop of \<open>closure\<close>.  \<open>Vec::pop\<close> takes the last element: the queue is written with that element
  first.  It ends because a round either shortens the queue or visits an id of the graph for the
  first time.
\<close>

function closure_loop :: "edges \<Rightarrow> string list \<Rightarrow> string list \<Rightarrow> string list" where
  "closure_loop es [] out = out"
| "closure_loop es (i # queue) out =
     (if i \<in> set out then closure_loop es queue out
      else
        (case bt_get es i of
           None \<Rightarrow> closure_loop es queue (bs_insert i out)
         | Some ts \<Rightarrow> closure_loop es (rev ts @ queue) (bs_insert i out)))"
  by pat_completeness auto

termination
proof (relation "measures [\<lambda>(es, q, out). card (set (bt_keys es) - set out), \<lambda>(es, q, out). length q]")
  fix es :: edges and i :: string and queue out :: "string list"
  show "((es, queue, bs_insert i out), es, i # queue, out)
    \<in> measures [\<lambda>(es, q, out). card (set (bt_keys es) - set out), \<lambda>(es, q, out). length q]"
    using unvisited_le [of es i "set out"] by (auto simp: le_less)
qed (simp_all add: unvisited_less)

definition closure :: "permission_registry \<Rightarrow> string list \<Rightarrow> edges \<Rightarrow> string list" where
  "closure r seeds es = closure_loop es (rev (filter (\<lambda>i. i \<in> set (declared r)) seeds)) []"

definition grant_closure :: "permission_registry \<Rightarrow> string list \<Rightarrow> string list" where
  "grant_closure r seeds = closure r seeds (implies r)"

definition denial_closure :: "permission_registry \<Rightarrow> string list \<Rightarrow> string list" where
  "denial_closure r seeds = closure r seeds (implied_by r)"

text \<open>The loop adds what is reachable from its queue, when what it has is closed but for the queue.\<close>

lemma closure_loop_sound: "set (closure_loop es q out) \<subseteq> set out \<union> (graph_of es)\<^sup>* `` set q"
proof (induction es q out rule: closure_loop.induct)
  case (2 es i queue out)
  show ?case
  proof (cases "i \<in> set out")
    case True
    with 2(1) show ?thesis by auto
  next
    case False
    show ?thesis
    proof (cases "bt_get es i")
      case None
      with False 2(2) [OF False None] show ?thesis by auto
    next
      case (Some ts)
      then have "(i, t) \<in> graph_of es" if "t \<in> set ts" for t
        using that by (auto simp: graph_of_def)
      then have "(graph_of es)\<^sup>* `` set ts \<subseteq> (graph_of es)\<^sup>* `` {i}"
        by (blast intro: converse_rtrancl_into_rtrancl)
      with False Some 2(3) [OF False Some] show ?thesis by auto
    qed
  qed
qed simp

lemma closure_loop_contains: "set q \<union> set out \<subseteq> set (closure_loop es q out)"
  by (induction es q out rule: closure_loop.induct) (auto split: option.splits)

lemma closure_loop_closed:
  assumes "graph_of es `` set out \<subseteq> set out \<union> set q"
  shows "graph_of es `` set (closure_loop es q out) \<subseteq> set (closure_loop es q out)"
  using assms
proof (induction es q out rule: closure_loop.induct)
  case (2 es i queue out)
  show ?case
  proof (cases "i \<in> set out")
    case True
    with 2(1) 2(4) show ?thesis by auto
  next
    case False
    show ?thesis
    proof (cases "bt_get es i")
      case None
      then have "graph_of es `` {i} = {}" by (auto simp: graph_of_def)
      then have "graph_of es `` set (bs_insert i out) \<subseteq> set (bs_insert i out) \<union> set queue"
        using 2(4) by auto
      with False None 2(2) [OF False None] show ?thesis by simp
    next
      case (Some ts)
      then have "graph_of es `` {i} \<subseteq> set ts" by (auto simp: graph_of_def)
      then have "graph_of es `` set (bs_insert i out) \<subseteq> set (bs_insert i out) \<union> set (rev ts @ queue)"
        using 2(4) by auto
      with False Some 2(3) [OF False Some] show ?thesis by simp
    qed
  qed
qed simp

lemma set_closure: "set (closure r seeds es) = (graph_of es)\<^sup>* `` (set seeds \<inter> set (declared r))"
proof
  let ?q = "rev (filter (\<lambda>i. i \<in> set (declared r)) seeds)"
  have q: "set ?q = set seeds \<inter> set (declared r)" by auto
  show "set (closure r seeds es) \<subseteq> (graph_of es)\<^sup>* `` (set seeds \<inter> set (declared r))"
    using closure_loop_sound [of es ?q "[]"] unfolding closure_def q by simp
  have closed: "graph_of es `` set (closure r seeds es) \<subseteq> set (closure r seeds es)"
    unfolding closure_def by (rule closure_loop_closed) simp
  have "set seeds \<inter> set (declared r) \<subseteq> set (closure r seeds es)"
    using closure_loop_contains [of ?q "[]" es] unfolding closure_def q by simp
  then have "(graph_of es)\<^sup>* `` (set seeds \<inter> set (declared r)) \<subseteq> (graph_of es)\<^sup>* `` set (closure r seeds es)"
    by (rule Image_mono [OF order_refl])
  also have "\<dots> = set (closure r seeds es)" using closed by (rule Image_closed_trancl)
  finally show "(graph_of es)\<^sup>* `` (set seeds \<inter> set (declared r)) \<subseteq> set (closure r seeds es)" .
qed

text \<open>Holding \<open>a\<close> means holding \<open>b\<close>: along the edges.\<close>

definition entails :: "permission_registry \<Rightarrow> string \<Rightarrow> string \<Rightarrow> bool" where
  "entails r a b \<longleftrightarrow> (a, b) \<in> (graph_of (implies r))\<^sup>*"

lemma grant_closure_iff:
  "p \<in> set (grant_closure r seeds) \<longleftrightarrow> (\<exists>a \<in> set seeds. a \<in> set (declared r) \<and> entails r a p)"
  by (auto simp: grant_closure_def set_closure entails_def)

lemma denial_closure_iff:
  assumes "registry_ok r"
  shows "p \<in> set (denial_closure r seeds) \<longleftrightarrow> (\<exists>a \<in> set seeds. a \<in> set (declared r) \<and> entails r p a)"
  using assms by (auto simp: denial_closure_def set_closure entails_def registry_ok_def rtrancl_converse)

subsection \<open>Principals and overwrites\<close>

type_synonym role_catalog = "(string \<times> string list) list"

definition with_role :: "string \<Rightarrow> string list \<Rightarrow> role_catalog \<Rightarrow> role_catalog" where
  "with_role role base catalog = bt_insert role (bs_from base) catalog"

record principal =
  p_user :: string
  p_org :: "string option"
  p_teams :: "string list"
  p_roles :: "string list"

datatype tier = OrgTier | TeamTier | RoleTier | MemberTier

definition TIERS_MOST_SPECIFIC_FIRST :: "tier list" where
  "TIERS_MOST_SPECIFIC_FIRST = [MemberTier, RoleTier, TeamTier, OrgTier]"

datatype overwrite_target = ForOrg string | ForTeam string | ForRole string | ForMember string

fun target_tier :: "overwrite_target \<Rightarrow> tier" where
  "target_tier (ForOrg i) = OrgTier"
| "target_tier (ForTeam i) = TeamTier"
| "target_tier (ForRole i) = RoleTier"
| "target_tier (ForMember i) = MemberTier"

fun target_matches :: "overwrite_target \<Rightarrow> principal \<Rightarrow> bool" where
  "target_matches (ForOrg i) p \<longleftrightarrow> p_org p = Some i"
| "target_matches (ForTeam i) p \<longleftrightarrow> i \<in> set (p_teams p)"
| "target_matches (ForRole i) p \<longleftrightarrow> i \<in> set (p_roles p)"
| "target_matches (ForMember i) p \<longleftrightarrow> p_user p = i"

record overwrite =
  ow_target :: overwrite_target
  ow_allow :: "string list"
  ow_deny :: "string list"

definition allowing :: "string list \<Rightarrow> overwrite \<Rightarrow> overwrite" where
  "allowing ids ow = ow\<lparr>ow_allow := fold bs_insert ids (ow_allow ow)\<rparr>"

definition denying :: "string list \<Rightarrow> overwrite \<Rightarrow> overwrite" where
  "denying ids ow = ow\<lparr>ow_deny := fold bs_insert ids (ow_deny ow)\<rparr>"

subsection \<open>Resolution\<close>

datatype acl_decision = AclDenied | AclAllowed

text \<open>The loop of \<open>tier_sets\<close> collects the seeds of both polarities.\<close>

definition aimed :: "principal \<Rightarrow> overwrite list \<Rightarrow> tier \<Rightarrow> overwrite list" where
  "aimed p acl t = filter (\<lambda>ow. target_tier (ow_target ow) = t \<and> target_matches (ow_target ow) p) acl"

definition tier_sets ::
  "permission_registry \<Rightarrow> principal \<Rightarrow> overwrite list \<Rightarrow> tier \<Rightarrow> string list \<times> string list" where
  "tier_sets r p acl t =
     (grant_closure r (concat (map ow_allow (aimed p acl t))),
      denial_closure r (concat (map ow_deny (aimed p acl t))))"

definition base_permissions :: "permission_registry \<Rightarrow> role_catalog \<Rightarrow> principal \<Rightarrow> string list" where
  "base_permissions r catalog p =
     grant_closure r (concat (List.map_filter (bt_get catalog) (p_roles p)))"

fun resolve_tiers ::
  "permission_registry \<Rightarrow> principal \<Rightarrow> overwrite list \<Rightarrow> string \<Rightarrow> tier list \<Rightarrow> acl_decision option" where
  "resolve_tiers r p acl permission [] = None"
| "resolve_tiers r p acl permission (t # ts) =
     (let (allow, deny) = tier_sets r p acl t
      in if permission \<in> set deny then Some AclDenied
         else if permission \<in> set allow then Some AclAllowed
         else resolve_tiers r p acl permission ts)"

definition resolve ::
  "permission_registry \<Rightarrow> role_catalog \<Rightarrow> principal \<Rightarrow> overwrite list \<Rightarrow> string \<Rightarrow> acl_decision" where
  "resolve r catalog p acl permission =
     (if permission \<notin> set (declared r) then AclDenied
      else
        (case resolve_tiers r p acl permission TIERS_MOST_SPECIFIC_FIRST of
           Some d \<Rightarrow> d
         | None \<Rightarrow>
             if permission \<in> set (base_permissions r catalog p) then AclAllowed else AclDenied))"

definition effective_permissions ::
  "permission_registry \<Rightarrow> role_catalog \<Rightarrow> principal \<Rightarrow> overwrite list \<Rightarrow> string list" where
  "effective_permissions r catalog p acl =
     filter (\<lambda>i. resolve r catalog p acl i = AclAllowed) (declared r)"

subsection \<open>What decides\<close>

text \<open>
  A tier allows an id when an overwrite aimed at the principal allows one that entails it, and denies
  it when one denies an id it entails.
\<close>

definition tier_allows :: "permission_registry \<Rightarrow> principal \<Rightarrow> overwrite list \<Rightarrow> tier \<Rightarrow> string \<Rightarrow> bool" where
  "tier_allows r p acl t i \<longleftrightarrow>
     (\<exists>ow \<in> set (aimed p acl t). \<exists>a \<in> set (ow_allow ow). a \<in> set (declared r) \<and> entails r a i)"

definition tier_denies :: "permission_registry \<Rightarrow> principal \<Rightarrow> overwrite list \<Rightarrow> tier \<Rightarrow> string \<Rightarrow> bool" where
  "tier_denies r p acl t i \<longleftrightarrow>
     (\<exists>ow \<in> set (aimed p acl t). \<exists>a \<in> set (ow_deny ow). a \<in> set (declared r) \<and> entails r i a)"

definition base_grants :: "permission_registry \<Rightarrow> role_catalog \<Rightarrow> principal \<Rightarrow> string \<Rightarrow> bool" where
  "base_grants r catalog p i \<longleftrightarrow>
     (\<exists>role \<in> set (p_roles p). \<exists>base. bt_get catalog role = Some base
        \<and> (\<exists>a \<in> set base. a \<in> set (declared r) \<and> entails r a i))"

lemma tier_sets_iff:
  "i \<in> set (fst (tier_sets r p acl t)) \<longleftrightarrow> tier_allows r p acl t i"
  "registry_ok r \<Longrightarrow> i \<in> set (snd (tier_sets r p acl t)) \<longleftrightarrow> tier_denies r p acl t i"
  by (auto simp: tier_sets_def grant_closure_iff denial_closure_iff tier_allows_def tier_denies_def)

lemma mem_map_filter: "y \<in> set (List.map_filter f xs) \<longleftrightarrow> (\<exists>x \<in> set xs. f x = Some y)"
  by (induction xs) (auto split: option.splits)

lemma base_permissions_iff: "i \<in> set (base_permissions r catalog p) \<longleftrightarrow> base_grants r catalog p i"
proof -
  have "a \<in> set (concat (List.map_filter (bt_get catalog) (p_roles p))) \<longleftrightarrow>
      (\<exists>role \<in> set (p_roles p). \<exists>base. bt_get catalog role = Some base \<and> a \<in> set base)" for a
    unfolding set_concat UN_iff Bex_def mem_map_filter by blast
  then show ?thesis
    unfolding base_permissions_def grant_closure_iff base_grants_def Bex_def by blast
qed

definition silent :: "permission_registry \<Rightarrow> principal \<Rightarrow> overwrite list \<Rightarrow> string \<Rightarrow> tier \<Rightarrow> bool" where
  "silent r p acl i t \<longleftrightarrow> \<not> tier_allows r p acl t i \<and> \<not> tier_denies r p acl t i"

lemma first_split:
  "(\<exists>before x after. y # ys = before @ x # after \<and> list_all S before \<and> P x) \<longleftrightarrow>
     P y \<or> S y \<and> (\<exists>before x after. ys = before @ x # after \<and> list_all S before \<and> P x)"
  (is "?first \<longleftrightarrow> P y \<or> S y \<and> ?rest")
proof
  assume ?first
  then obtain before x after where split: "y # ys = before @ x # after" "list_all S before" "P x" by blast
  then show "P y \<or> S y \<and> ?rest" by (cases before) auto
next
  assume "P y \<or> S y \<and> ?rest"
  then show ?first
  proof
    assume "P y"
    then have "y # ys = [] @ y # ys \<and> list_all S [] \<and> P y" by simp
    then show ?first by blast
  next
    assume "S y \<and> ?rest"
    then obtain before x after where "y # ys = (y # before) @ x # after \<and> list_all S (y # before) \<and> P x"
      by auto
    then show ?first by blast
  qed
qed

lemma resolve_tiers_iff:
  assumes "registry_ok r"
  shows "resolve_tiers r p acl i ts = None \<longleftrightarrow> list_all (silent r p acl i) ts"
    and "resolve_tiers r p acl i ts = Some AclAllowed \<longleftrightarrow>
      (\<exists>before t after. ts = before @ t # after \<and> list_all (silent r p acl i) before
         \<and> (tier_allows r p acl t i \<and> \<not> tier_denies r p acl t i))"
proof (induction ts)
  case (Cons t ts)
  have sets: "i \<in> set (fst (tier_sets r p acl t)) \<longleftrightarrow> tier_allows r p acl t i"
    "i \<in> set (snd (tier_sets r p acl t)) \<longleftrightarrow> tier_denies r p acl t i"
    "silent r p acl i t \<longleftrightarrow> \<not> tier_allows r p acl t i \<and> \<not> tier_denies r p acl t i"
    using tier_sets_iff assms by (auto simp: silent_def)
  { case 1 then show ?case using Cons.IH(1) sets by (simp add: Let_def case_prod_beta')
  next
    case 2
    show ?case
      unfolding first_split using Cons.IH(2) sets by (simp add: Let_def case_prod_beta') }
qed simp_all

text \<open>What is allowed is closed under implication.\<close>

lemma entails_trans: "entails r a b \<Longrightarrow> entails r b c \<Longrightarrow> entails r a c"
  unfolding entails_def by (rule rtrancl_trans)

lemma entails_declared: "registry_ok r \<Longrightarrow> entails r a b \<Longrightarrow> a \<in> set (declared r) \<Longrightarrow> b \<in> set (declared r)"
  unfolding entails_def by (erule rtrancl_induct) (auto simp: registry_ok_def)

lemma tier_entails:
  assumes "entails r a b"
  shows "tier_allows r p acl t a \<Longrightarrow> tier_allows r p acl t b"
    and "tier_denies r p acl t b \<Longrightarrow> tier_denies r p acl t a"
  using assms entails_trans unfolding tier_allows_def tier_denies_def by blast+

lemma resolve_tiers_entails:
  assumes ok: "registry_ok r" and ab: "entails r a b"
  shows "resolve_tiers r p acl a ts = Some AclAllowed \<Longrightarrow> resolve_tiers r p acl b ts = Some AclAllowed"
    and "resolve_tiers r p acl a ts = None \<Longrightarrow> resolve_tiers r p acl b ts \<in> {None, Some AclAllowed}"
proof (induction ts)
  case (Cons t ts)
  note [simp] = tier_sets_iff(1) tier_sets_iff(2) [OF ok]
  { case 1 then show ?case
      using Cons.IH tier_entails [OF ab, of p acl t] by (auto simp: Let_def case_prod_beta' split: if_splits)
  next
    case 2 then show ?case
      using Cons.IH tier_entails [OF ab, of p acl t] by (auto simp: Let_def case_prod_beta' split: if_splits) }
qed simp_all

lemma resolve_entails:
  assumes ok: "registry_ok r" and ab: "entails r a b" and a: "resolve r catalog p acl a = AclAllowed"
  shows "resolve r catalog p acl b = AclAllowed"
proof -
  have "a \<in> set (declared r)" using a by (auto simp: resolve_def split: if_splits)
  then have b: "b \<in> set (declared r)" using entails_declared [OF ok ab] by simp
  have base: "base_grants r catalog p a \<Longrightarrow> base_grants r catalog p b"
    using ab entails_trans unfolding base_grants_def by blast
  show ?thesis
    using a b base resolve_tiers_entails [OF ok ab, of p acl TIERS_MOST_SPECIFIC_FIRST]
    by (auto simp: resolve_def base_permissions_iff split: option.splits if_splits acl_decision.splits)
qed

text \<open>The declarative reading of \<open>resolve\<close>.\<close>

lemma resolve_iff:
  assumes "registry_ok r"
  shows "resolve r catalog p acl i = AclAllowed \<longleftrightarrow>
    i \<in> set (declared r)
    \<and> ((\<exists>before t after. TIERS_MOST_SPECIFIC_FIRST = before @ t # after \<and> list_all (silent r p acl i) before
          \<and> (tier_allows r p acl t i \<and> \<not> tier_denies r p acl t i))
       \<or> list_all (silent r p acl i) TIERS_MOST_SPECIFIC_FIRST \<and> base_grants r catalog p i)"
  using resolve_tiers_iff [OF assms, of p acl i TIERS_MOST_SPECIFIC_FIRST]
  by (cases "resolve_tiers r p acl i TIERS_MOST_SPECIFIC_FIRST")
    (auto simp: resolve_def base_permissions_iff)

lemma effective_iff:
  "i \<in> set (effective_permissions r catalog p acl) \<longleftrightarrow> resolve r catalog p acl i = AclAllowed"
  by (auto simp: effective_permissions_def resolve_def split: if_splits)

end
