(* ===== verification/Core_PluginManifest.thy ===== *)
theory Core_PluginManifest
  imports Ryu_Trim
begin

section \<open>Plugin manifests\<close>

text \<open>
  What the lifecycle of plugins reads of a manifest
  (\<open>crates/core/kernel-contracts/src/manifest.rs\<close>): its identity and version, the plugins and the
  capabilities it requires, the capabilities it provides, and the grants it asks for.  The \<open>semver\<close>
  crate is the parameter \<open>semver\<close>: parsing, printing and comparing versions, parsing requirements,
  and matching; a parse error is its text.
\<close>

record app_dependency =
  ad_id :: string
  ad_min_version :: "string option"

record capability_req =
  cr_capability :: string
  cr_min_version :: "string option"

record requires =
  rq_apps :: "app_dependency list"
  rq_capabilities :: "capability_req list"
  rq_grants :: "string list"

record provides_entry =
  pe_capability :: string
  pe_version :: string
  pe_title :: "string option"
  pe_selectable :: bool
  pe_default_provider :: bool

record plugin_manifest =
  pm_id :: string
  pm_version :: string
  pm_permission_grants :: "string list"
  pm_requires :: "requires option"
  pm_provides :: "provides_entry list"

definition dependencies :: "plugin_manifest \<Rightarrow> app_dependency list" where
  "dependencies m = (case pm_requires m of None \<Rightarrow> [] | Some r \<Rightarrow> rq_apps r)"

definition required_capabilities :: "plugin_manifest \<Rightarrow> capability_req list" where
  "required_capabilities m = (case pm_requires m of None \<Rightarrow> [] | Some r \<Rightarrow> rq_capabilities r)"

subsection \<open>Versions\<close>

record ('v, 'r) semver =
  parse_version :: "string \<Rightarrow> string + 'v"
  show_version :: "'v \<Rightarrow> string"
  version_less :: "'v \<Rightarrow> 'v \<Rightarrow> bool"
  version_eq :: "'v \<Rightarrow> 'v \<Rightarrow> bool"
  parse_req :: "string \<Rightarrow> string + 'r"
  req_matches :: "'r \<Rightarrow> 'v \<Rightarrow> bool"

text \<open>The character code 39 is the quote.\<close>

definition quoted :: "string \<Rightarrow> string" where
  "quoted s = CHR 0x27 # s @ [CHR 0x27]"

definition invalid_min_version :: "string \<Rightarrow> string \<Rightarrow> string" where
  "invalid_min_version raw e = ''invalid min_version '' @ quoted raw @ '': '' @ e"

text \<open>A bare version is a minimum; anything else is comparator syntax.\<close>

definition parse_min_version :: "('v, 'r) semver \<Rightarrow> string \<Rightarrow> string + 'r" where
  "parse_min_version sv raw =
     (let trimmed = trim raw in
      if trimmed = [] then Inl ''min_version must not be empty''
      else
        map_sum (invalid_min_version raw) id
          (parse_req sv
             (case parse_version sv trimmed of
                Inr v \<Rightarrow> ''>='' @ show_version sv v
              | Inl e \<Rightarrow> trimmed)))"

fun sep_join :: "string \<Rightarrow> string list \<Rightarrow> string" where
  "sep_join sep [] = []"
| "sep_join sep [s] = s"
| "sep_join sep (s # t # ts) = s @ sep @ sep_join sep (t # ts)"

lemma map_sum_eq_Inl: "map_sum f g x = Inl y \<longleftrightarrow> (\<exists>z. x = Inl z \<and> y = f z)"
  by (cases x) auto

lemma map_sum_eq_Inr: "map_sum f g x = Inr y \<longleftrightarrow> (\<exists>z. x = Inr z \<and> y = g z)"
  by (cases x) auto

lemma set_map_filter: "y \<in> set (List.map_filter f xs) \<longleftrightarrow> (\<exists>x \<in> set xs. f x = Some y)"
  by (induction xs) (auto split: option.splits)

lemma map_filter_Nil_iff: "List.map_filter f xs = [] \<longleftrightarrow> (\<forall>x \<in> set xs. f x = None)"
  by (induction xs) (auto split: option.splits)

end
