(* ===== verification/Core_PluginGraph.thy ===== *)
theory Core_PluginGraph
  imports Core_PluginManifest
begin

section \<open>The plugin dependency graph\<close>

text \<open>
  \<open>apps/core/src/plugins/graph.rs\<close>: the failures of the dependency graph and the order in which a
  plugin and what it depends on are enabled.

  The search recurses along the graph and is written with fuel; \<open>None\<close> is running out of it.  The
  lemmas show that the number of manifests bounds the depth, also of a cyclic graph, so that it
  always returns, that the enable order is a topological order of exactly what the target needs, and
  that a reported error is of an edge of something needed, a reported cycle one of the graph.
\<close>

subsection \<open>Failures\<close>

datatype dependency_error =
    NotInstalled string
  | SelfDependency string
  | MissingDependency string string "string option"
  | VersionMismatch string string string string
  | InvalidVersionReq string string string string
  | Cycle "string list"
  | BlockedByDependents string "string list"
  | DependentVersionMismatch string string string string

text \<open>\<open>DependencyError::code\<close> and the texts of \<open>Display\<close>.\<close>

fun dependency_code :: "dependency_error \<Rightarrow> string" where
  "dependency_code (NotInstalled p) = ''not_installed''"
| "dependency_code (SelfDependency p) = ''self_dependency''"
| "dependency_code (MissingDependency p d r) = ''missing_dependency''"
| "dependency_code (VersionMismatch p d r i) = ''version_mismatch''"
| "dependency_code (InvalidVersionReq p d r e) = ''invalid_version_req''"
| "dependency_code (Cycle c) = ''cycle''"
| "dependency_code (BlockedByDependents p ds) = ''blocked_by_dependents''"
| "dependency_code (DependentVersionMismatch p d r i) = ''dependent_version_mismatch''"

fun dependency_text :: "dependency_error \<Rightarrow> string" where
  "dependency_text (NotInstalled p) = ''plugin '' @ quoted p @ '' is not installed''"
| "dependency_text (SelfDependency p) = ''plugin '' @ quoted p @ '' cannot depend on itself''"
| "dependency_text (MissingDependency p d (Some r)) =
     ''plugin '' @ quoted p @ '' requires '' @ quoted d @ '' ('' @ r @ ''), which is not installed''"
| "dependency_text (MissingDependency p d None) =
     ''plugin '' @ quoted p @ '' requires '' @ quoted d @ '', which is not installed''"
| "dependency_text (VersionMismatch p d r i) =
     ''plugin '' @ quoted p @ '' requires '' @ quoted d @ '' '' @ r @ '', but version '' @ i
       @ '' is installed''"
| "dependency_text (InvalidVersionReq p d r e) =
     ''plugin '' @ quoted p @ '' declares an invalid version requirement '' @ quoted r @ '' for ''
       @ quoted d @ '': '' @ e"
| "dependency_text (Cycle c) = ''dependency cycle detected: '' @ sep_join '' -> '' c"
| "dependency_text (BlockedByDependents p ds) =
     ''cannot disable '' @ quoted p @ '': still required by '' @ sep_join '', '' ds"
| "dependency_text (DependentVersionMismatch p d r i) =
     ''updating '' @ quoted d @ '' to '' @ i @ '' would break '' @ quoted p @ '', which requires ''
       @ quoted r"

text \<open>Collecting into a \<open>HashMap\<close>: a later manifest with the same id wins.\<close>

definition index :: "plugin_manifest list \<Rightarrow> (string \<times> plugin_manifest) list" where
  "index ms = rev (map (\<lambda>m. (pm_id m, m)) ms)"

subsection \<open>The enable order\<close>

text \<open>The state of the walk: the ids in progress and done, the order so far, the stack.\<close>

datatype mark = InProgress | Done

record walk =
  marks :: "string \<Rightarrow> mark option"
  order :: "string list"
  stack :: "string list"

text \<open>What is checked of one edge before it is followed.\<close>

definition check_edge ::
  "('v, 'r) semver \<Rightarrow> (string \<times> plugin_manifest) list \<Rightarrow> plugin_manifest \<Rightarrow> app_dependency
     \<Rightarrow> dependency_error option" where
  "check_edge sv by_id m dep =
     (if ad_id dep = pm_id m then Some (SelfDependency (pm_id m))
      else
        (case map_of by_id (ad_id dep) of
           None \<Rightarrow> Some (MissingDependency (pm_id m) (ad_id dep) (ad_min_version dep))
         | Some installed \<Rightarrow>
             (case ad_min_version dep of
                None \<Rightarrow> None
              | Some min_version \<Rightarrow>
                  (case parse_min_version sv min_version of
                     Inl e \<Rightarrow> Some (InvalidVersionReq (pm_id m) (ad_id dep) min_version e)
                   | Inr req \<Rightarrow>
                       (case parse_version sv (pm_version installed) of
                          Inl e \<Rightarrow> Some (InvalidVersionReq (pm_id m) (ad_id dep) min_version
                              (''installed version '' @ quoted (pm_version installed)
                                 @ '' is not valid semver: '' @ e))
                        | Inr have \<Rightarrow>
                            if req_matches sv req have then None
                            else Some (VersionMismatch (pm_id m) (ad_id dep) min_version
                                         (pm_version installed)))))))"

fun visit_deps ::
    "nat \<Rightarrow> ('v, 'r) semver \<Rightarrow> (string \<times> plugin_manifest) list \<Rightarrow> string \<Rightarrow> walk
       \<Rightarrow> (dependency_error + walk) option"
  and visit_each ::
    "nat \<Rightarrow> ('v, 'r) semver \<Rightarrow> (string \<times> plugin_manifest) list \<Rightarrow> plugin_manifest \<Rightarrow> app_dependency list
       \<Rightarrow> walk \<Rightarrow> (dependency_error + walk) option"
where
  "visit_deps 0 sv by_id i w = None"
| "visit_deps (Suc n) sv by_id i w =
     (case marks w i of
        Some Done \<Rightarrow> Some (Inr w)
      | Some InProgress \<Rightarrow>
          Some (Inl (Cycle ((if i \<in> set (stack w) then dropWhile (\<lambda>s. s \<noteq> i) (stack w) else stack w) @ [i])))
      | None \<Rightarrow>
          (case map_of by_id i of
             None \<Rightarrow> Some (Inr w)
           | Some m \<Rightarrow>
               (case visit_each n sv by_id m (dependencies m)
                       (w\<lparr>marks := (marks w)(i \<mapsto> InProgress), stack := stack w @ [i]\<rparr>) of
                  None \<Rightarrow> None
                | Some (Inl e) \<Rightarrow> Some (Inl e)
                | Some (Inr w1) \<Rightarrow>
                    Some (Inr (w1\<lparr>marks := (marks w1)(i \<mapsto> Done), order := order w1 @ [i],
                                  stack := butlast (stack w1)\<rparr>)))))"
| "visit_each n sv by_id m [] w = Some (Inr w)"
| "visit_each n sv by_id m (dep # deps) w =
     (case check_edge sv by_id m dep of
        Some e \<Rightarrow> Some (Inl e)
      | None \<Rightarrow>
          (case visit_deps n sv by_id (ad_id dep) w of
             None \<Rightarrow> None
           | Some (Inl e) \<Rightarrow> Some (Inl e)
           | Some (Inr w1) \<Rightarrow> visit_each n sv by_id m deps w1))"

definition resolve_enable_order ::
  "('v, 'r) semver \<Rightarrow> string \<Rightarrow> plugin_manifest list \<Rightarrow> (dependency_error + string list) option" where
  "resolve_enable_order sv target installed =
     (let by_id = index installed in
      if map_of by_id target = None then Some (Inl (NotInstalled target))
      else
        map_option (map_sum id order)
          (visit_deps (Suc (length installed)) sv by_id target
             \<lparr>marks = Map.empty, order = [], stack = []\<rparr>))"

subsection \<open>The walk returns\<close>

lemma index_id: "map_of (index ms) i = Some m \<Longrightarrow> pm_id m = i"
  by (auto simp: index_def dest!: map_of_SomeD)

lemma index_mem: "map_of (index ms) i = Some m \<Longrightarrow> m \<in> set ms"
  by (auto simp: index_def dest!: map_of_SomeD)

lemma check_edge_installed: "check_edge sv by_id m dep = None \<Longrightarrow> ad_id dep \<in> dom (map_of by_id)"
  by (auto simp: check_edge_def split: if_splits option.splits)

definition unmarked :: "(string \<times> plugin_manifest) list \<Rightarrow> walk \<Rightarrow> string set" where
  "unmarked by_id w = {i \<in> dom (map_of by_id). marks w i = None}"

lemma unmarked_finite [simp]: "finite (unmarked by_id w)"
  by (simp add: unmarked_def finite_dom_map_of)

lemma marks_grow:
  "visit_deps n sv by_id i w = Some (Inr w') \<Longrightarrow> dom (marks w) \<subseteq> dom (marks w')"
  "visit_each n sv by_id m deps w = Some (Inr w') \<Longrightarrow> dom (marks w) \<subseteq> dom (marks w')"
proof (induction n sv by_id i w and n sv by_id m deps w arbitrary: w' and w'
    rule: visit_deps_visit_each.induct)
  case (2 n sv by_id i w)
  show ?case
  proof (cases "marks w i")
    case None
    show ?thesis
    proof (cases "map_of by_id i")
      case None
      with \<open>marks w i = None\<close> 2(2) show ?thesis by simp
    next
      case (Some m)
      with \<open>marks w i = None\<close> 2(2) obtain w1
        where run: "visit_each n sv by_id m (dependencies m)
            (w\<lparr>marks := (marks w)(i \<mapsto> InProgress), stack := stack w @ [i]\<rparr>) = Some (Inr w1)"
          and w': "w' = w1\<lparr>marks := (marks w1)(i \<mapsto> Done), order := order w1 @ [i], stack := butlast (stack w1)\<rparr>"
        by (auto split: option.splits sum.splits)
      have "a \<in> dom (marks w1)" if "a = i \<or> a \<in> dom (marks w)" for a
        using subsetD [OF 2(1) [OF \<open>marks w i = None\<close> Some run], of a] that
        by (auto simp: dom_def split: if_splits)
      then have "dom (marks w) \<subseteq> dom (marks w1)" by blast
      then show ?thesis unfolding w' by auto
    qed
  next
    case (Some k)
    with 2(2) show ?thesis by (cases k) auto
  qed
next
  case (4 n sv by_id m dep deps w)
  from 4(3) obtain w1 where 1: "check_edge sv by_id m dep = None"
    and 2: "visit_deps n sv by_id (ad_id dep) w = Some (Inr w1)"
    and 3: "visit_each n sv by_id m deps w1 = Some (Inr w')"
    by (auto split: option.splits sum.splits)
  from 4(1) [OF 1 2] 4(2) [OF 1 2 refl 3] show ?case by (rule order_trans)
qed auto

lemma visit_returns:
  "card (unmarked by_id w) < n \<Longrightarrow> visit_deps n sv by_id i w \<noteq> None"
  "card (unmarked by_id w) < n \<Longrightarrow> visit_each n sv by_id m deps w \<noteq> None"
proof (induction n sv by_id i w and n sv by_id m deps w rule: visit_deps_visit_each.induct)
  case (2 n sv by_id i w)
  show ?case
  proof (cases "marks w i = None \<and> i \<in> dom (map_of by_id)")
    case True
    then obtain m where m: "marks w i = None" "map_of by_id i = Some m" by auto
    let ?w = "w\<lparr>marks := (marks w)(i \<mapsto> InProgress), stack := stack w @ [i]\<rparr>"
    have "unmarked by_id ?w = unmarked by_id w - {i}" by (auto simp: unmarked_def)
    moreover have "i \<in> unmarked by_id w" using True by (simp add: unmarked_def)
    ultimately have "card (unmarked by_id ?w) < n"
      using 2(2) card_Diff1_less [OF unmarked_finite \<open>i \<in> unmarked by_id w\<close>] by simp
    from 2(1) [OF m this] show ?thesis using m by (auto split: option.split sum.split)
  next
    case False
    then show ?thesis by (auto split: option.split mark.split)
  qed
next
  case (4 n sv by_id m dep deps w)
  show ?case
  proof (cases "check_edge sv by_id m dep")
    case None
    with 4(1) 4(3) obtain r where r: "visit_deps n sv by_id (ad_id dep) w = Some r" by auto
    show ?thesis
    proof (cases r)
      case (Inr w1)
      have "unmarked by_id w1 \<subseteq> unmarked by_id w"
        using marks_grow(1) [of n sv by_id "ad_id dep" w w1] r Inr by (auto simp: unmarked_def)
      then have "card (unmarked by_id w1) < n"
        using card_mono [OF unmarked_finite] 4(3) by (meson le_less_trans)
      with 4(2) [OF None _ ] r Inr None show ?thesis by simp
    qed (simp add: None r)
  qed simp
qed auto

lemma resolve_returns: "resolve_enable_order sv target installed \<noteq> None"
proof -
  let ?w = "\<lparr>marks = Map.empty, order = [], stack = []\<rparr>"
  have "card (unmarked (index installed) ?w) \<le> card (fst ` set (index installed))"
    by (rule card_mono) (auto simp: unmarked_def dom_map_of_conv_image_fst)
  also have "\<dots> \<le> length (index installed)"
    by (metis card_length length_map set_map)
  finally have "card (unmarked (index installed) ?w) < Suc (length installed)"
    by (simp add: index_def)
  from visit_returns(1) [OF this, of sv target] show ?thesis
    by (simp add: resolve_enable_order_def Let_def del: visit_deps.simps)
qed

subsection \<open>What the walk finds\<close>

definition depends :: "(string \<times> plugin_manifest) list \<Rightarrow> (string \<times> string) set" where
  "depends by_id = {(a, b). \<exists>m. map_of by_id a = Some m \<and> b \<in> ad_id ` set (dependencies m)}"

text \<open>An order in which the dependencies of each plugin are satisfied by plugins before it.\<close>

definition settled :: "('v, 'r) semver \<Rightarrow> (string \<times> plugin_manifest) list \<Rightarrow> string list \<Rightarrow> bool" where
  "settled sv by_id os \<longleftrightarrow>
     (\<forall>before x after. os = before @ x # after \<longrightarrow>
        (\<exists>m. map_of by_id x = Some m
           \<and> (\<forall>dep \<in> set (dependencies m). check_edge sv by_id m dep = None \<and> ad_id dep \<in> set before)))"

lemma settled_Nil: "settled sv by_id []"
  by (simp add: settled_def)

lemma settled_snoc:
  assumes "settled sv by_id os" and "map_of by_id x = Some m"
    and "\<And>dep. dep \<in> set (dependencies m) \<Longrightarrow> check_edge sv by_id m dep = None \<and> ad_id dep \<in> set os"
  shows "settled sv by_id (os @ [x])"
  unfolding settled_def
proof (intro allI impI)
  fix before y after
  assume split: "os @ [x] = before @ y # after"
  show "\<exists>m. map_of by_id y = Some m
      \<and> (\<forall>dep \<in> set (dependencies m). check_edge sv by_id m dep = None \<and> ad_id dep \<in> set before)"
  proof (cases after rule: rev_cases)
    case Nil
    with split assms(2,3) show ?thesis by auto
  next
    case (snoc ys z)
    with split have "os = before @ y # ys" by simp
    with assms(1) show ?thesis unfolding settled_def by blast
  qed
qed

text \<open>The invariant of the walk, and a path along the edges.\<close>

definition walk_ok :: "('v, 'r) semver \<Rightarrow> (string \<times> plugin_manifest) list \<Rightarrow> walk \<Rightarrow> bool" where
  "walk_ok sv by_id w \<longleftrightarrow>
     set (order w) = {i. marks w i = Some Done} \<and> distinct (order w) \<and> settled sv by_id (order w)
     \<and> set (stack w) = {i. marks w i = Some InProgress} \<and> distinct (stack w)
     \<and> successively (\<lambda>a b. (a, b) \<in> depends by_id) (stack w)"

text \<open>What a part of the walk that succeeds has done, for the ids it was asked for.\<close>

definition extends ::
  "('v, 'r) semver \<Rightarrow> (string \<times> plugin_manifest) list \<Rightarrow> string set \<Rightarrow> walk \<Rightarrow> walk \<Rightarrow> bool" where
  "extends sv by_id asked w w' \<longleftrightarrow>
     walk_ok sv by_id w' \<and> stack w' = stack w \<and> asked \<subseteq> set (order w')
     \<and> (\<exists>new. order w' = order w @ new \<and> set new \<subseteq> (depends by_id)\<^sup>* `` asked)"

lemma extends_refl: "walk_ok sv by_id w \<Longrightarrow> asked \<subseteq> set (order w) \<Longrightarrow> extends sv by_id asked w w"
  by (simp add: extends_def)

lemma extends_trans:
  assumes "extends sv by_id A w w1" and "extends sv by_id B w1 w2"
  shows "extends sv by_id (A \<union> B) w w2"
proof -
  obtain new1 where 1: "walk_ok sv by_id w1" "stack w1 = stack w" "A \<subseteq> set (order w1)"
      "order w1 = order w @ new1" "set new1 \<subseteq> (depends by_id)\<^sup>* `` A"
    using assms(1) by (auto simp: extends_def)
  obtain new2 where 2: "walk_ok sv by_id w2" "stack w2 = stack w1" "B \<subseteq> set (order w2)"
      "order w2 = order w1 @ new2" "set new2 \<subseteq> (depends by_id)\<^sup>* `` B"
    using assms(2) by (auto simp: extends_def)
  show ?thesis
    unfolding extends_def
  proof (intro conjI exI)
    show "order w2 = order w @ (new1 @ new2)" using 1 2 by simp
    show "set (new1 @ new2) \<subseteq> (depends by_id)\<^sup>* `` (A \<union> B)" using 1(5) 2(5) by (auto simp: Image_Un)
    show "A \<union> B \<subseteq> set (order w2)" using 1(3) 2(3,4) by auto
  qed (use 1 2 in simp_all)
qed

text \<open>What a failure means: a checked edge of something needed is at fault, or there is a cycle.\<close>

definition real_cycle :: "(string \<times> plugin_manifest) list \<Rightarrow> string list \<Rightarrow> bool" where
  "real_cycle by_id c \<longleftrightarrow>
     2 \<le> length c \<and> hd c = last c \<and> successively (\<lambda>a b. (a, b) \<in> depends by_id) c"

definition justified_error ::
  "('v, 'r) semver \<Rightarrow> (string \<times> plugin_manifest) list \<Rightarrow> string set \<Rightarrow> dependency_error \<Rightarrow> bool" where
  "justified_error sv by_id asked e \<longleftrightarrow>
     (\<exists>i m dep. i \<in> (depends by_id)\<^sup>* `` asked \<and> map_of by_id i = Some m
        \<and> dep \<in> set (dependencies m) \<and> check_edge sv by_id m dep = Some e)
     \<or> (\<exists>c. e = Cycle c \<and> real_cycle by_id c)"

lemma justified_error_mono:
  "justified_error sv by_id A e \<Longrightarrow> (depends by_id)\<^sup>* `` A \<subseteq> (depends by_id)\<^sup>* `` B \<Longrightarrow> justified_error sv by_id B e"
  unfolding justified_error_def by blast

definition outcome ::
  "('v, 'r) semver \<Rightarrow> (string \<times> plugin_manifest) list \<Rightarrow> string set \<Rightarrow> walk
     \<Rightarrow> (dependency_error + walk) option \<Rightarrow> bool" where
  "outcome sv by_id asked w r \<longleftrightarrow>
     (case r of
        None \<Rightarrow> True
      | Some (Inl e) \<Rightarrow> justified_error sv by_id asked e
      | Some (Inr w') \<Rightarrow> extends sv by_id asked w w')"

lemma dropWhile_first: "x \<notin> set xs \<Longrightarrow> dropWhile (\<lambda>s. s \<noteq> x) (xs @ x # ys) = x # ys"
  by (induction xs) auto

lemma cycle_found:
  assumes "walk_ok sv by_id w" and "marks w i = Some InProgress"
    and "stack w \<noteq> [] \<Longrightarrow> (last (stack w), i) \<in> depends by_id"
  shows "i \<in> set (stack w) \<and> real_cycle by_id (dropWhile (\<lambda>s. s \<noteq> i) (stack w) @ [i])"
proof -
  have i: "i \<in> set (stack w)" using assms(1,2) by (simp add: walk_ok_def)
  then obtain xs ys where st: "stack w = xs @ i # ys" "i \<notin> set xs" by (meson split_list_first)
  have drop: "dropWhile (\<lambda>s. s \<noteq> i) (stack w) = i # ys" unfolding st(1) by (rule dropWhile_first [OF st(2)])
  have "successively (\<lambda>a b. (a, b) \<in> depends by_id) (i # ys)"
    using assms(1) st by (simp add: walk_ok_def successively_append_iff)
  moreover have "(last (i # ys), i) \<in> depends by_id" using assms(3) st by auto
  ultimately have "successively (\<lambda>a b. (a, b) \<in> depends by_id) ((i # ys) @ [i])"
    by (simp only: successively_append_iff) simp
  then show ?thesis using i by (simp add: drop real_cycle_def)
qed

text \<open>Entering a plugin and leaving it keep the invariant.\<close>

lemma walk_ok_enter:
  assumes "walk_ok sv by_id w" and "marks w i = None"
    and "stack w \<noteq> [] \<Longrightarrow> (last (stack w), i) \<in> depends by_id"
  shows "walk_ok sv by_id (w\<lparr>marks := (marks w)(i \<mapsto> InProgress), stack := stack w @ [i]\<rparr>)"
  using assms unfolding walk_ok_def
  by (auto simp: successively_append_iff split: if_splits)

lemma walk_ok_leave:
  assumes "walk_ok sv by_id w1" and st: "stack w1 = st @ [i]" and "map_of by_id i = Some m"
    and deps: "\<And>dep. dep \<in> set (dependencies m) \<Longrightarrow> check_edge sv by_id m dep = None \<and> ad_id dep \<in> set (order w1)"
  shows "walk_ok sv by_id (w1\<lparr>marks := (marks w1)(i \<mapsto> Done), order := order w1 @ [i],
    stack := butlast (stack w1)\<rparr>)"
proof -
  have "i \<in> set (stack w1)" using st by simp
  then have i: "marks w1 i = Some InProgress" using assms(1) unfolding walk_ok_def by blast
  have "settled sv by_id (order w1 @ [i])"
    using assms by (intro settled_snoc) (auto simp: walk_ok_def)
  moreover have "set st = set (stack w1) - {i}" using assms(1) st by (auto simp: walk_ok_def)
  ultimately show ?thesis
    using assms(1) i unfolding walk_ok_def st by (auto simp: successively_append_iff)
qed

lemma depends_edge: "map_of by_id i = Some m \<Longrightarrow> dep \<in> set (dependencies m) \<Longrightarrow> (i, ad_id dep) \<in> depends by_id"
  by (auto simp: depends_def)

lemma reach_step: "(i, j) \<in> r \<Longrightarrow> r\<^sup>* `` {j} \<subseteq> r\<^sup>* `` {i}"
  by (auto intro: converse_rtrancl_into_rtrancl)

lemma reach_steps: "(\<And>j. j \<in> A \<Longrightarrow> (i, j) \<in> r) \<Longrightarrow> r\<^sup>* `` A \<subseteq> r\<^sup>* `` {i}"
  by (auto intro: converse_rtrancl_into_rtrancl)

text \<open>The loop over the dependencies also checks each edge.\<close>

definition edges_outcome ::
  "('v, 'r) semver \<Rightarrow> (string \<times> plugin_manifest) list \<Rightarrow> plugin_manifest \<Rightarrow> string \<Rightarrow> app_dependency list
     \<Rightarrow> walk \<Rightarrow> (dependency_error + walk) option \<Rightarrow> bool" where
  "edges_outcome sv by_id m i deps w r \<longleftrightarrow>
     (case r of
        None \<Rightarrow> True
      | Some (Inl e) \<Rightarrow> justified_error sv by_id {i} e
      | Some (Inr w') \<Rightarrow> extends sv by_id (ad_id ` set deps) w w'
          \<and> (\<forall>dep \<in> set deps. check_edge sv by_id m dep = None))"

lemma visit_outcome:
  "\<lbrakk>walk_ok sv by_id w; i \<in> dom (map_of by_id); stack w \<noteq> [] \<Longrightarrow> (last (stack w), i) \<in> depends by_id\<rbrakk>
     \<Longrightarrow> outcome sv by_id {i} w (visit_deps n sv by_id i w)"
  "\<lbrakk>walk_ok sv by_id w; map_of by_id j = Some m; set deps \<subseteq> set (dependencies m); stack w \<noteq> [];
      last (stack w) = j\<rbrakk>
     \<Longrightarrow> edges_outcome sv by_id m j deps w (visit_each n sv by_id m deps w)"
proof (induction n sv by_id i w and n sv by_id m deps w arbitrary: and j
    rule: visit_deps_visit_each.induct)
  case (2 n sv by_id i w)
  show ?case
  proof (cases "marks w i")
    case None
    from 2(3) obtain m where m: "map_of by_id i = Some m" by auto
    let ?w = "w\<lparr>marks := (marks w)(i \<mapsto> InProgress), stack := stack w @ [i]\<rparr>"
    let ?r = "visit_each n sv by_id m (dependencies m) ?w"
    have enter: "walk_ok sv by_id ?w" using 2(2) None 2(4) by (rule walk_ok_enter)
    have run: "edges_outcome sv by_id m i (dependencies m) ?w ?r"
      by (rule 2(1) [OF None m enter m]) auto
    show ?thesis
    proof (cases ?r)
      case (Some r)
      show ?thesis
      proof (cases r)
        case (Inr w1)
        then obtain new where ext: "walk_ok sv by_id w1" "stack w1 = stack w @ [i]"
            "ad_id ` set (dependencies m) \<subseteq> set (order w1)" "order w1 = order w @ new"
            "set new \<subseteq> (depends by_id)\<^sup>* `` (ad_id ` set (dependencies m))"
          and edges: "\<forall>dep \<in> set (dependencies m). check_edge sv by_id m dep = None"
          using run Some by (auto simp: edges_outcome_def extends_def)
        let ?w' = "w1\<lparr>marks := (marks w1)(i \<mapsto> Done), order := order w1 @ [i], stack := butlast (stack w1)\<rparr>"
        have "walk_ok sv by_id ?w'"
          by (rule walk_ok_leave [OF ext(1,2) m]) (use edges ext(3) in auto)
        moreover have "set (new @ [i]) \<subseteq> (depends by_id)\<^sup>* `` {i}"
          using subset_trans [OF ext(5) reach_steps, of i] depends_edge [OF m] by auto
        ultimately have "extends sv by_id {i} w ?w'"
          using ext(2,4) unfolding extends_def by auto
        then show ?thesis using Some Inr None m by (simp add: outcome_def)
      qed (use run Some None m in \<open>simp add: outcome_def edges_outcome_def\<close>)
    qed (use None m in \<open>simp add: outcome_def\<close>)
  next
    case (Some k)
    show ?thesis
    proof (cases k)
      case InProgress
      with cycle_found [OF 2(2) _ 2(4)] Some show ?thesis
        by (auto simp: outcome_def justified_error_def)
    next
      case Done
      with 2(2) Some have "i \<in> set (order w)" by (simp add: walk_ok_def)
      with 2(2) Some Done show ?thesis by (simp add: outcome_def extends_refl)
    qed
  qed
next
  case (3 n sv by_id m w)
  then show ?case by (simp add: edges_outcome_def extends_refl)
next
  case (4 n sv by_id m dep deps w)
  show ?case
  proof (cases "check_edge sv by_id m dep")
    case None
    have edge: "(j, ad_id dep) \<in> depends by_id" using 4(4,5) depends_edge by auto
    let ?r = "visit_deps n sv by_id (ad_id dep) w"
    have run: "outcome sv by_id {ad_id dep} w ?r"
      using 4(1) [OF None 4(3) check_edge_installed [OF None]] 4(7) edge by simp
    show ?thesis
    proof (cases ?r)
      case (Some r)
      show ?thesis
      proof (cases r)
        case (Inl e)
        with run Some have "justified_error sv by_id {ad_id dep} e" by (simp add: outcome_def)
        then have "justified_error sv by_id {j} e" using justified_error_mono reach_step [OF edge] by blast
        then show ?thesis using None Some Inl by (simp add: edges_outcome_def)
      next
        case (Inr w1)
        with run Some have ext: "extends sv by_id {ad_id dep} w w1" by (simp add: outcome_def)
        then have "walk_ok sv by_id w1" "stack w1 = stack w" by (simp_all add: extends_def)
        then have rest: "edges_outcome sv by_id m j deps w1 (visit_each n sv by_id m deps w1)"
          using 4(2) [OF None Some Inr] 4(4,5,6,7) by simp
        then show ?thesis
          using None Some Inr extends_trans [OF ext]
          by (auto simp: edges_outcome_def split: option.splits sum.splits)
      qed
    qed (simp add: None edges_outcome_def)
  next
    case (Some e)
    have "justified_error sv by_id {j} e"
      using 4(4,5) Some unfolding justified_error_def by (intro disjI1) auto
    then show ?thesis using Some by (simp add: edges_outcome_def)
  qed
qed (simp_all add: outcome_def edges_outcome_def)

lemma resolve_order:
  assumes "resolve_enable_order sv target installed = Some (Inr os)"
  shows "distinct os \<and> os \<noteq> [] \<and> last os = target
    \<and> set os = (depends (index installed))\<^sup>* `` {target} \<and> settled sv (index installed) os"
proof -
  let ?w = "\<lparr>marks = Map.empty, order = [], stack = []\<rparr>"
  let ?by = "index installed"
  from assms obtain w' where t: "target \<in> dom (map_of ?by)"
    and run: "visit_deps (Suc (length installed)) sv ?by target ?w = Some (Inr w')" and os: "os = order w'"
    by (auto simp: resolve_enable_order_def Let_def map_sum_eq_Inr simp del: visit_deps.simps
        split: if_splits)
  have "walk_ok sv ?by ?w" by (simp add: walk_ok_def settled_Nil)
  from visit_outcome(1) [OF this t, of "Suc (length installed)"] run
  have ext: "extends sv ?by {target} ?w w'" by (simp add: outcome_def del: visit_deps.simps)
  then have settled: "settled sv ?by os" and "distinct os" and mem: "target \<in> set os"
    and sub: "set os \<subseteq> (depends ?by)\<^sup>* `` {target}"
    by (auto simp: extends_def walk_ok_def os)
  have "j \<in> set os" if "(target, j) \<in> (depends ?by)\<^sup>*" for j
    using that
  proof (induction rule: rtrancl_induct)
    case (step j k)
    then obtain before after where "os = before @ j # after" by (meson split_list)
    with settled step.hyps(2) show ?case by (fastforce simp: settled_def depends_def)
  qed (rule mem)
  then have "set os = (depends ?by)\<^sup>* `` {target}" using sub by auto
  moreover have "last os = target"
    using run t by (auto simp: os split: option.splits sum.splits)
  ultimately show ?thesis using \<open>distinct os\<close> settled mem by auto
qed

lemma resolve_error:
  assumes "resolve_enable_order sv target installed = Some (Inl e)"
  shows "(e = NotInstalled target \<and> target \<notin> pm_id ` set installed)
    \<or> justified_error sv (index installed) {target} e"
proof (cases "map_of (index installed) target")
  case None
  then have "target \<notin> pm_id ` set installed"
    by (auto simp: map_of_eq_None_iff index_def image_iff)
  then show ?thesis using assms None by (simp add: resolve_enable_order_def)
next
  case (Some m)
  let ?w = "\<lparr>marks = Map.empty, order = [], stack = []\<rparr>"
  have "walk_ok sv (index installed) ?w" by (simp add: walk_ok_def settled_Nil)
  from visit_outcome(1) [OF this, of target "Suc (length installed)"] Some assms
  show ?thesis
    by (auto simp: outcome_def resolve_enable_order_def Let_def map_sum_eq_Inl simp del: visit_deps.simps)
qed

text \<open>A cycle through the target rules out every order, so an order means there is none.\<close>

lemma settled_acyclic:
  assumes "settled sv by_id os" and "distinct os" and "a \<in> set os"
  shows "(a, a) \<notin> (depends by_id)\<^sup>+"
proof
  have before: "\<exists>xs ys zs. os = xs @ b # ys @ a # zs" if "(a, b) \<in> (depends by_id)\<^sup>+" "a \<in> set os" for a b
    using that
  proof (induction rule: trancl_induct)
    case (base b)
    then obtain xs zs where os: "os = xs @ a # zs" by (meson split_list)
    with assms(1) base(1) have "b \<in> set xs" by (fastforce simp: settled_def depends_def)
    then show ?case using os by (metis append.assoc append_Cons split_list)
  next
    case (step b c)
    then obtain xs ys zs where os: "os = xs @ b # ys @ a # zs" by blast
    with assms(1) step(2) have "c \<in> set xs" by (fastforce simp: settled_def depends_def)
    then obtain us vs where "xs = us @ c # vs" by (meson split_list)
    then show ?case using os by (intro exI [of _ us] exI [of _ "vs @ b # ys"] exI [of _ zs]) simp
  qed
  assume "(a, a) \<in> (depends by_id)\<^sup>+"
  from before [OF this assms(3)] assms(2) show False by auto
qed

end
