(* ===== verification/Core_PluginDisable.thy ===== *)
theory Core_PluginDisable
  imports Core_PluginGraph
begin

section \<open>Dependents\<close>

text \<open>
  The other half of \<open>apps/core/src/plugins/graph.rs\<close>: the reverse adjacency, the post-order walk over
  it, the disable order and the transitive dependents, and the check that the direct dependents of an
  updated plugin accept its new version.  The walk is written with fuel; it always returns, also on a
  cyclic graph, and what it returns is everything that depends on the plugin, each after its own
  dependents when there is no cycle.
\<close>

subsection \<open>The walk\<close>

text \<open>\<open>entry(k).or_default().push(v)\<close>.\<close>

definition entry_push :: "string \<Rightarrow> string \<Rightarrow> (string \<Rightarrow> string list option) \<Rightarrow> string \<Rightarrow> string list option" where
  "entry_push k v r = r(k \<mapsto> (case r k of None \<Rightarrow> [] | Some vs \<Rightarrow> vs) @ [v])"

definition reverse_edges :: "plugin_manifest list \<Rightarrow> string \<Rightarrow> string list option" where
  "reverse_edges ms =
     map_option sort \<circ>
       fold (\<lambda>m. fold (\<lambda>dep. entry_push (ad_id dep) (pm_id m)) (dependencies m)) ms Map.empty"

record dependents_walk =
  seen :: "string list"
  emitted :: "string list"

fun walk_dependents ::
    "nat \<Rightarrow> (string \<Rightarrow> string list option) \<Rightarrow> string \<Rightarrow> dependents_walk \<Rightarrow> dependents_walk option"
  and walk_each ::
    "nat \<Rightarrow> (string \<Rightarrow> string list option) \<Rightarrow> string list \<Rightarrow> dependents_walk \<Rightarrow> dependents_walk option"
where
  "walk_dependents 0 rv i s = None"
| "walk_dependents (Suc n) rv i s =
     (if i \<in> set (seen s) then Some s
      else
        (case walk_each n rv (case rv i of None \<Rightarrow> [] | Some ds \<Rightarrow> ds) (s\<lparr>seen := i # seen s\<rparr>) of
           None \<Rightarrow> None
         | Some s1 \<Rightarrow> Some (s1\<lparr>emitted := emitted s1 @ [i]\<rparr>)))"
| "walk_each n rv [] s = Some s"
| "walk_each n rv (d # ds) s =
     (case walk_dependents n rv d s of None \<Rightarrow> None | Some s1 \<Rightarrow> walk_each n rv ds s1)"

definition collect_dependents :: "string \<Rightarrow> plugin_manifest list \<Rightarrow> string list option" where
  "collect_dependents i ms =
     map_option emitted
       (walk_dependents (length ms + 2) (reverse_edges ms) i \<lparr>seen = [], emitted = []\<rparr>)"

definition resolve_disable_order :: "string \<Rightarrow> plugin_manifest list \<Rightarrow> string list option" where
  "resolve_disable_order i ms = collect_dependents i ms"

definition dependents_of :: "string \<Rightarrow> plugin_manifest list \<Rightarrow> string list option" where
  "dependents_of i ms = map_option butlast (collect_dependents i ms)"

subsection \<open>The update check\<close>

definition dependent_accepts ::
  "('v, 'r) semver \<Rightarrow> plugin_manifest \<Rightarrow> 'v \<Rightarrow> plugin_manifest \<Rightarrow> app_dependency
     \<Rightarrow> dependency_error + unit" where
  "dependent_accepts sv updated incoming m dep =
     (if ad_id dep \<noteq> pm_id updated then Inr ()
      else
        (case ad_min_version dep of
           None \<Rightarrow> Inr ()
         | Some min_version \<Rightarrow>
             (case parse_min_version sv min_version of
                Inl e \<Rightarrow> Inl (InvalidVersionReq (pm_id m) (pm_id updated) min_version e)
              | Inr req \<Rightarrow>
                  if req_matches sv req incoming then Inr ()
                  else Inl (DependentVersionMismatch (pm_id m) (pm_id updated) min_version
                         (pm_version updated)))))"

definition validate_dependents_of_update ::
  "('v, 'r) semver \<Rightarrow> plugin_manifest \<Rightarrow> plugin_manifest list \<Rightarrow> dependency_error + unit" where
  "validate_dependents_of_update sv updated installed =
     (case parse_version sv (pm_version updated) of
        Inl e \<Rightarrow> Inl (InvalidVersionReq (pm_id updated) (pm_id updated) (pm_version updated)
                  (''incoming version '' @ quoted (pm_version updated) @ '' is not valid semver: '' @ e))
      | Inr incoming \<Rightarrow>
          try_all (\<lambda>m. if pm_id m = pm_id updated then Inr ()
                      else try_all (dependent_accepts sv updated incoming m) (dependencies m))
            installed)"

subsection \<open>The edges\<close>

definition declares :: "plugin_manifest list \<Rightarrow> (string \<times> string) set" where
  "declares ms = {(a, b). \<exists>m \<in> set ms. pm_id m = a \<and> b \<in> ad_id ` set (dependencies m)}"

lemma index_Some: "distinct (map pm_id ms) \<Longrightarrow> map_of (index ms) a = Some m \<longleftrightarrow> m \<in> set ms \<and> pm_id m = a"
proof -
  assume "distinct (map pm_id ms)"
  then have "distinct (map fst (index ms))" by (simp add: index_def rev_map [symmetric] comp_def)
  then show ?thesis by (auto simp: index_def dest: map_of_SomeD)
qed

lemma depends_index: "distinct (map pm_id ms) \<Longrightarrow> depends (index ms) = declares ms"
  by (auto simp: depends_def declares_def index_Some)

definition dependents_at :: "(string \<Rightarrow> string list option) \<Rightarrow> string \<Rightarrow> string set" where
  "dependents_at r i = (case r i of None \<Rightarrow> {} | Some ds \<Rightarrow> set ds)"

lemma listed_push: "dependents_at (entry_push k v r) i = dependents_at r i \<union> (if i = k then {v} else {})"
  by (auto simp: dependents_at_def entry_push_def split: option.splits if_splits)

lemma listed_deps:
  "dependents_at (fold (\<lambda>dep. entry_push (ad_id dep) j) deps r) i
   = dependents_at r i \<union> (if i \<in> ad_id ` set deps then {j} else {})"
  by (induction deps arbitrary: r) (auto simp: listed_push)

lemma listed_all:
  "dependents_at (fold (\<lambda>m. fold (\<lambda>dep. entry_push (ad_id dep) (pm_id m)) (dependencies m)) ms r) i
   = dependents_at r i \<union> {d. (d, i) \<in> declares ms}"
  by (induction ms arbitrary: r) (auto simp: listed_deps declares_def)

lemma listed_reverse: "dependents_at (reverse_edges ms) i = {d. (d, i) \<in> declares ms}"
proof -
  have "dependents_at (map_option sort \<circ> r) i = dependents_at r i" for r
    by (auto simp: dependents_at_def split: option.splits)
  then show ?thesis by (simp add: reverse_edges_def listed_all) (simp add: dependents_at_def)
qed

subsection \<open>The walk returns\<close>

lemma seen_grows:
  "walk_dependents n rv i s = Some s' \<Longrightarrow> set (seen s) \<subseteq> set (seen s')"
  "walk_each n rv ds s = Some s' \<Longrightarrow> set (seen s) \<subseteq> set (seen s')"
proof (induction n rv i s and n rv ds s arbitrary: s' and s' rule: walk_dependents_walk_each.induct)
  case (2 n rv i s)
  then show ?case by (fastforce split: if_splits option.splits)
next
  case (4 n rv d ds s)
  from 4(3) obtain s1 where 1: "walk_dependents n rv d s = Some s1" and 2: "walk_each n rv ds s1 = Some s'"
    by (auto split: option.splits)
  from 4(1) [OF 1] 4(2) [OF 1 2] show ?case by (rule order_trans)
qed auto

lemma walk_returns:
  assumes U: "finite U" and closed: "\<And>j. dependents_at rv j \<subseteq> U"
  shows "i \<in> U \<Longrightarrow> card (U - set (seen s)) < n \<Longrightarrow> walk_dependents n rv i s \<noteq> None"
    "set ds \<subseteq> U \<Longrightarrow> card (U - set (seen s)) < n \<Longrightarrow> walk_each n rv ds s \<noteq> None"
  using closed
proof (induction n rv i s and n rv ds s rule: walk_dependents_walk_each.induct)
  case (2 n rv i s)
  show ?case
  proof (cases "i \<in> set (seen s)")
    case False
    have "U - set (seen (s\<lparr>seen := i # seen s\<rparr>)) = (U - set (seen s)) - {i}" by auto
    moreover have "card (U - set (seen s) - {i}) < card (U - set (seen s))"
      by (rule card_Diff1_less) (use U 2(2) False in auto)
    ultimately have "card (U - set (seen (s\<lparr>seen := i # seen s\<rparr>))) < n"
      using 2(3) by simp
    moreover have "set (case rv i of None \<Rightarrow> [] | Some ds \<Rightarrow> ds) \<subseteq> U"
      using 2(4) [of i] by (auto simp: dependents_at_def split: option.splits)
    ultimately show ?thesis using 2(1) [OF False] 2(4) False by (auto split: option.split)
  qed simp
next
  case (4 n rv d ds s)
  then obtain s1 where s1: "walk_dependents n rv d s = Some s1" by auto
  have "card (U - set (seen s1)) < n"
    using seen_grows(1) [OF s1] 4(4) U by (meson Diff_mono card_mono finite_Diff le_less_trans order_refl)
  then show ?case using 4(2) [OF s1] 4(3,5) s1 by auto
qed auto

subsection \<open>What the walk emits\<close>

text \<open>Each plugin is emitted after all that \<open>r\<close> leads to from it.\<close>

definition in_order :: "(string \<times> string) set \<Rightarrow> string list \<Rightarrow> bool" where
  "in_order r os \<longleftrightarrow> (\<forall>before x after. os = before @ x # after \<longrightarrow> r `` {x} \<subseteq> set before)"

lemma in_order_snoc:
  assumes "in_order r os" and "r `` {x} \<subseteq> set os"
  shows "in_order r (os @ [x])"
  unfolding in_order_def
proof (intro allI impI)
  fix before y after
  assume split: "os @ [x] = before @ y # after"
  show "r `` {y} \<subseteq> set before"
  proof (cases after rule: rev_cases)
    case Nil
    with split assms(2) show ?thesis by simp
  next
    case (snoc ys z)
    with split have "os = before @ y # ys" by simp
    with assms(1) show ?thesis unfolding in_order_def by blast
  qed
qed

definition emit_ok :: "(string \<times> string) set \<Rightarrow> dependents_walk \<Rightarrow> bool" where
  "emit_ok r s \<longleftrightarrow> set (emitted s) \<subseteq> set (seen s) \<and> distinct (emitted s)
     \<and> r `` set (emitted s) \<subseteq> set (seen s)"

definition emits :: "(string \<times> string) set \<Rightarrow> string set \<Rightarrow> dependents_walk \<Rightarrow> dependents_walk \<Rightarrow> bool" where
  "emits r asked s s' \<longleftrightarrow>
     emit_ok r s' \<and> set (seen s) \<union> asked \<subseteq> set (seen s')
     \<and> set (seen s') - set (emitted s') = set (seen s) - set (emitted s)
     \<and> (\<exists>new. emitted s' = emitted s @ new \<and> set new \<subseteq> r\<^sup>* `` asked)
     \<and> (acyclic r \<and> in_order r (emitted s) \<longrightarrow> in_order r (emitted s') \<and> asked \<subseteq> set (emitted s'))"

text \<open>What is still open lies above what is walked.\<close>

definition above :: "(string \<times> string) set \<Rightarrow> string \<Rightarrow> dependents_walk \<Rightarrow> bool" where
  "above r i s \<longleftrightarrow> (\<forall>j \<in> set (seen s) - set (emitted s). (j, i) \<in> r\<^sup>+)"

lemma emits_refl: "emit_ok r s \<Longrightarrow> asked \<subseteq> set (emitted s) \<Longrightarrow> emits r asked s s"
  by (auto simp: emits_def emit_ok_def)

lemma emits_trans:
  assumes "emits r A s s1" and "emits r B s1 s2"
  shows "emits r (A \<union> B) s s2"
proof -
  obtain new1 where new1: "emitted s1 = emitted s @ new1" "set new1 \<subseteq> r\<^sup>* `` A"
    using assms(1) by (auto simp: emits_def)
  obtain new2 where new2: "emitted s2 = emitted s1 @ new2" "set new2 \<subseteq> r\<^sup>* `` B"
    using assms(2) by (auto simp: emits_def)
  have grow: "set (seen s) \<union> A \<subseteq> set (seen s1)" "set (seen s1) \<union> B \<subseteq> set (seen s2)"
    using assms by (simp_all add: emits_def)
  show ?thesis
    unfolding emits_def
  proof (intro conjI exI impI)
    show "emitted s2 = emitted s @ (new1 @ new2)" using new1(1) new2(1) by simp
    show "set (new1 @ new2) \<subseteq> r\<^sup>* `` (A \<union> B)" using new1(2) new2(2) by (auto simp: Image_Un)
    show "set (seen s) \<union> (A \<union> B) \<subseteq> set (seen s2)" using grow by blast
    assume acyc: "acyclic r \<and> in_order r (emitted s)"
    with assms have "in_order r (emitted s1)" "A \<subseteq> set (emitted s1)" by (simp_all add: emits_def)
    with acyc assms show "in_order r (emitted s2)" "A \<union> B \<subseteq> set (emitted s2)"
      using new2(1) by (auto simp: emits_def)
  qed (use assms in \<open>simp_all add: emits_def\<close>)
qed

lemma above_step:
  assumes "emits r A s s1" and "above r i s"
  shows "above r i s1"
  using assms unfolding emits_def above_def by simp

lemma above_enter: "above r i s \<Longrightarrow> (i, d) \<in> r \<Longrightarrow> above r d (s\<lparr>seen := i # seen s\<rparr>)"
  by (auto simp: above_def intro: trancl_into_trancl)

lemma emits_leave:
  assumes run: "emits r (r `` {i}) (s\<lparr>seen := i # seen s\<rparr>) s1"
    and start: "emit_ok r s" and fresh: "i \<notin> set (seen s)"
  shows "emits r {i} s (s1\<lparr>emitted := emitted s1 @ [i]\<rparr>)"
proof -
  have seen: "set (seen s1) - set (emitted s1) = insert i (set (seen s)) - set (emitted s)"
    and ok: "emit_ok r s1" and sub: "insert i (set (seen s)) \<union> r `` {i} \<subseteq> set (seen s1)"
    using run by (auto simp: emits_def)
  obtain new where new: "emitted s1 = emitted s @ new" "set new \<subseteq> r\<^sup>* `` (r `` {i})"
    using run by (auto simp: emits_def)
  have "i \<notin> set (emitted s)" using start fresh by (auto simp: emit_ok_def)
  then have i: "i \<notin> set (emitted s1)" using seen by blast
  have 1: "emit_ok r (s1\<lparr>emitted := emitted s1 @ [i]\<rparr>)" using ok i sub by (auto simp: emit_ok_def)
  have 2: "set (new @ [i]) \<subseteq> r\<^sup>* `` {i}"
    using new(2) by (auto intro: converse_rtrancl_into_rtrancl)
  have 3: "in_order r (emitted s1 @ [i])" if "acyclic r" "in_order r (emitted s)"
    using run that by (intro in_order_snoc) (auto simp: emits_def)
  have 4: "set (seen s1) - insert i (set (emitted s1)) = set (seen s) - set (emitted s)"
    using seen fresh by blast
  show ?thesis unfolding emits_def using 1 2 3 4 sub new(1) by auto
qed

lemma walk_emits:
  "walk_dependents n rv i s = Some s' \<Longrightarrow> (\<And>j. dependents_at rv j = r `` {j}) \<Longrightarrow> emit_ok r s \<Longrightarrow> above r i s
     \<Longrightarrow> emits r {i} s s'"
  "walk_each n rv ds s = Some s' \<Longrightarrow> (\<And>j. dependents_at rv j = r `` {j}) \<Longrightarrow> emit_ok r s
     \<Longrightarrow> (\<And>d. d \<in> set ds \<Longrightarrow> above r d s) \<Longrightarrow> emits r (set ds) s s'"
proof (induction n rv i s and n rv ds s arbitrary: s' and s' rule: walk_dependents_walk_each.induct)
  case (2 n rv i s)
  show ?case
  proof (cases "i \<in> set (seen s)")
    case True
    then have "s' = s" using 2(2) by simp
    moreover have "i \<in> set (emitted s)" if "acyclic r"
      using 2(5) True that by (auto simp: above_def acyclic_def)
    ultimately show ?thesis using 2(4) True by (auto simp: emits_def)
  next
    case False
    let ?s = "s\<lparr>seen := i # seen s\<rparr>"
    let ?ds = "case rv i of None \<Rightarrow> [] | Some ds \<Rightarrow> ds"
    have ds: "set ?ds = r `` {i}" using 2(3) [of i] by (cases "rv i") (auto simp: dependents_at_def)
    from 2(2) False obtain s1 where run: "walk_each n rv ?ds ?s = Some s1"
      and s': "s' = s1\<lparr>emitted := emitted s1 @ [i]\<rparr>"
      by (auto split: option.splits)
    have "emit_ok r ?s" using 2(4) by (auto simp: emit_ok_def)
    then have "emits r (set ?ds) ?s s1"
      using 2(1) [OF False run 2(3)] above_enter [OF 2(5)] ds by simp
    then show ?thesis unfolding s' using emits_leave 2(4) False by (simp add: ds)
  qed
next
  case (3 n rv s)
  then show ?case by (simp add: emits_refl)
next
  case (4 n rv d ds s)
  from 4(3) obtain s1 where 1: "walk_dependents n rv d s = Some s1" and 2: "walk_each n rv ds s1 = Some s'"
    by (auto split: option.splits)
  have head: "emits r {d} s s1" using 4(1) [OF 1 4(4,5)] 4(6) by simp
  have "emits r (set ds) s1 s'"
    using 4(2) [OF 1 2 4(4)] head above_step [OF head] 4(6) by (simp add: emits_def)
  then show ?case using emits_trans [OF head] by simp
qed auto

subsection \<open>The disable order\<close>

lemma disable_order_sound:
  "\<exists>os. resolve_disable_order i ms = Some os \<and> distinct os \<and> os \<noteq> [] \<and> last os = i
     \<and> set os = {j. (j, i) \<in> (declares ms)\<^sup>*}
     \<and> (acyclic (declares ms) \<longrightarrow> in_order ((declares ms)\<inverse>) os)"
proof -
  let ?s = "\<lparr>seen = [], emitted = []\<rparr>" and ?r = "(declares ms)\<inverse>" and ?rv = "reverse_edges ms"
  let ?U = "insert i (pm_id ` set ms)"
  have "dependents_at ?rv j \<subseteq> ?U" for j by (auto simp: listed_reverse declares_def)
  moreover have "card (?U - set (seen ?s)) < length ms + 2"
    using card_length [of "map pm_id ms"] card_insert_le_m1 [of "length ms + 1" "pm_id ` set ms" i]
    by simp
  ultimately obtain s' where run: "walk_dependents (length ms + 2) ?rv i ?s = Some s'"
    using walk_returns(1) [of ?U ?rv i ?s "length ms + 2"] by auto
  have "emits ?r {i} ?s s'"
    by (rule walk_emits(1) [OF run]) (auto simp: listed_reverse emit_ok_def above_def)
  then have all: "set (seen s') = set (emitted s')" "distinct (emitted s')" "i \<in> set (emitted s')"
      "?r `` set (emitted s') \<subseteq> set (emitted s')" "set (emitted s') \<subseteq> ?r\<^sup>* `` {i}"
      "acyclic ?r \<Longrightarrow> in_order ?r (emitted s')"
    by (auto simp: emits_def emit_ok_def in_order_def)
  have "?r\<^sup>* `` {i} \<subseteq> set (emitted s')"
    using all(3,4) Image_closed_trancl [OF all(4)] by (auto simp: Image_def)
  with all(5) have "set (emitted s') = {j. (j, i) \<in> (declares ms)\<^sup>*}"
    by (auto simp: rtrancl_converse)
  moreover have "last (emitted s') = i \<and> emitted s' \<noteq> []"
    using run by (auto split: option.splits)
  ultimately show ?thesis
    using run all(2,6) by (simp add: resolve_disable_order_def collect_dependents_def del: walk_dependents.simps)
qed

lemma dependents_of_sound:
  "\<exists>ds. dependents_of i ms = Some ds \<and> distinct ds \<and> resolve_disable_order i ms = Some (ds @ [i])
     \<and> set ds = {j. (j, i) \<in> (declares ms)\<^sup>*} - {i}"
proof -
  obtain os where os: "collect_dependents i ms = Some os" "distinct os" "os \<noteq> []" "last os = i"
      "set os = {j. (j, i) \<in> (declares ms)\<^sup>*}"
    using disable_order_sound [of i ms] unfolding resolve_disable_order_def by blast
  define ds where "ds = butlast os"
  have "os = ds @ [i]" using os(3,4) by (metis append_butlast_last_id ds_def)
  then show ?thesis using os(1,2,5) by (auto simp: dependents_of_def resolve_disable_order_def)
qed

subsection \<open>The update check\<close>

lemma update_accepted:
  "validate_dependents_of_update sv updated installed = Inr () \<longleftrightarrow>
     (\<exists>v. parse_version sv (pm_version updated) = Inr v
        \<and> (\<forall>m \<in> set installed. pm_id m \<noteq> pm_id updated \<longrightarrow>
             (\<forall>dep \<in> set (dependencies m). ad_id dep = pm_id updated \<longrightarrow>
                (\<forall>s. ad_min_version dep = Some s \<longrightarrow>
                   (\<exists>req. parse_min_version sv s = Inr req \<and> req_matches sv req v)))))"
proof (cases "parse_version sv (pm_version updated)")
  case (Inr v)
  have "dependent_accepts sv updated v m dep = Inr () \<longleftrightarrow>
      (ad_id dep = pm_id updated \<longrightarrow> (\<forall>s. ad_min_version dep = Some s \<longrightarrow>
         (\<exists>req. parse_min_version sv s = Inr req \<and> req_matches sv req v)))" for m dep
    by (auto simp: dependent_accepts_def split: option.splits sum.splits)
  with Inr show ?thesis by (auto simp: validate_dependents_of_update_def)
qed (simp add: validate_dependents_of_update_def)

end
