(* ===== verification/Core_PluginBinding.thy ===== *)
theory Core_PluginBinding
  imports Core_PluginDisable
begin

section \<open>Capability bindings\<close>

text \<open>
  \<open>apps/core/src/plugins/binding.rs\<close>: a plugin may require a capability rather than a plugin, and
  each such edge is resolved to the plugin that provides it: an override of the user's, the only
  provider, or, when every provider is selectable, the default or the lowest id.  Lowering turns the
  bindings into edges of the dependency graph.

  The lemmas show what a binding is, and that it survives the removal of plugins it is not to: so the
  edges found over the enabled set when something is disabled are those found when it was enabled.
\<close>

type_synonym overrides = "(string \<times> string) list"

record binding =
  bd_capability :: string
  bd_provider_id :: string
  bd_provided_version :: string

datatype binding_error =
    Unprovided string
  | Ambiguous string "string list"
  | OverrideNotProvider string string
  | VersionUnsatisfied string string string string
  | InvalidCapabilityReq string string string

fun binding_code :: "binding_error \<Rightarrow> string" where
  "binding_code (Unprovided c) = ''capability_unprovided''"
| "binding_code (Ambiguous c ps) = ''capability_ambiguous''"
| "binding_code (OverrideNotProvider c p) = ''capability_override_not_provider''"
| "binding_code (VersionUnsatisfied c p r v) = ''capability_version_unsatisfied''"
| "binding_code (InvalidCapabilityReq c r e) = ''capability_invalid_version_req''"

subsection \<open>The pick\<close>

type_synonym candidate = "plugin_manifest \<times> provides_entry"

text \<open>\<open>min_by\<close> on the id: the first of the least.\<close>

fun lowest_by :: "('a \<Rightarrow> string) \<Rightarrow> 'a list \<Rightarrow> 'a option" where
  "lowest_by f [] = None"
| "lowest_by f (x # xs) =
     (case lowest_by f xs of
        None \<Rightarrow> Some x
      | Some y \<Rightarrow> Some (if f y < f x then y else x))"

definition pick_selectable :: "candidate list \<Rightarrow> candidate option" where
  "pick_selectable providers =
     (if \<not> list_all (\<lambda>(m, p). pe_selectable p) providers then None
      else
        (let defaults = filter (\<lambda>(m, p). pe_default_provider p) providers in
         if defaults = [] then lowest_by (pm_id \<circ> fst) providers
         else lowest_by (pm_id \<circ> fst) defaults))"

definition is_selectable :: "plugin_manifest list \<Rightarrow> string \<Rightarrow> bool" where
  "is_selectable candidates cap =
     (let entries = filter (\<lambda>p. pe_capability p = cap) (concat (map pm_provides candidates)) in
      entries \<noteq> [] \<and> list_all pe_selectable entries)"

text \<open>A title is the trimmed, non-blank title of an entry; the pick is as above, without unanimity.\<close>

definition capability_title :: "plugin_manifest list \<Rightarrow> string \<Rightarrow> string option" where
  "capability_title known cap =
     (let named = concat (map (\<lambda>m. List.map_filter (\<lambda>p.
            if pe_capability p \<noteq> cap then None
            else (case map_option trim (pe_title p) of
                    None \<Rightarrow> None
                  | Some t \<Rightarrow> if t = [] then None else Some (pm_id m, pe_default_provider p, t)))
            (pm_provides m)) known);
          defaults = filter (\<lambda>(i, d, t). d) named in
      map_option (\<lambda>(i, d, t). t) (lowest_by fst (if defaults = [] then named else defaults)))"

subsection \<open>Resolution\<close>

definition provider_entry :: "string \<Rightarrow> plugin_manifest \<Rightarrow> provides_entry option" where
  "provider_entry cap m = find (\<lambda>p. pe_capability p = cap) (pm_provides m)"

definition providers_of :: "plugin_manifest list \<Rightarrow> string \<Rightarrow> candidate list" where
  "providers_of candidates cap =
     List.map_filter (\<lambda>m. map_option (Pair m) (provider_entry cap m)) candidates"

definition pick_provider :: "overrides \<Rightarrow> string \<Rightarrow> candidate list \<Rightarrow> binding_error + candidate" where
  "pick_provider cfg cap providers =
     (if providers = [] then Inl (Unprovided cap)
      else
        (case bt_get cfg cap of
           Some chosen \<Rightarrow>
             (case find (\<lambda>(m, p). pm_id m = chosen) providers of
                None \<Rightarrow> Inl (OverrideNotProvider cap chosen)
              | Some x \<Rightarrow> Inr x)
         | None \<Rightarrow>
             if length providers = 1 then Inr (hd providers)
             else
               (case pick_selectable providers of
                  Some x \<Rightarrow> Inr x
                | None \<Rightarrow> Inl (Ambiguous cap (sort (map (pm_id \<circ> fst) providers))))))"

text \<open>The version floor, against the version of the capability.\<close>

definition check_floor ::
  "('v, 'r) semver \<Rightarrow> capability_req \<Rightarrow> candidate \<Rightarrow> binding_error option" where
  "check_floor sv req = (\<lambda>(m, entry).
     (case cr_min_version req of
        None \<Rightarrow> None
      | Some min_version \<Rightarrow>
          (case parse_min_version sv min_version of
             Inl e \<Rightarrow> Some (InvalidCapabilityReq (cr_capability req) min_version e)
           | Inr want \<Rightarrow>
               (case parse_version sv (pe_version entry) of
                  Inl e \<Rightarrow> Some (InvalidCapabilityReq (cr_capability req) (pe_version entry)
                             (''provider version is not valid semver: '' @ e))
                | Inr have \<Rightarrow>
                    if req_matches sv want have then None
                    else Some (VersionUnsatisfied (cr_capability req) (pm_id m) min_version
                                 (pe_version entry))))))"

definition resolve_capability ::
  "('v, 'r) semver \<Rightarrow> overrides \<Rightarrow> plugin_manifest list \<Rightarrow> capability_req \<Rightarrow> binding_error + binding" where
  "resolve_capability sv cfg candidates req =
     (case pick_provider cfg (cr_capability req) (providers_of candidates (cr_capability req)) of
        Inl e \<Rightarrow> Inl e
      | Inr (m, entry) \<Rightarrow>
          (case check_floor sv req (m, entry) of
             Some e \<Rightarrow> Inl e
           | None \<Rightarrow> Inr \<lparr>bd_capability = cr_capability req, bd_provider_id = pm_id m,
                         bd_provided_version = pe_version entry\<rparr>))"

definition resolve_provider ::
  "('v, 'r) semver \<Rightarrow> overrides \<Rightarrow> plugin_manifest list \<Rightarrow> string \<Rightarrow> binding_error + candidate" where
  "resolve_provider sv cfg candidates cap =
     (case resolve_capability sv cfg candidates \<lparr>cr_capability = cap, cr_min_version = None\<rparr> of
        Inl e \<Rightarrow> Inl e
      | Inr b \<Rightarrow>
          (case find (\<lambda>m. pm_id m = bd_provider_id b) candidates of
             None \<Rightarrow> Inl (Unprovided cap)
           | Some m \<Rightarrow>
               (case provider_entry cap m of
                  None \<Rightarrow> Inl (Unprovided cap)
                | Some p \<Rightarrow> Inr (m, p))))"

definition resolve_all ::
  "('v, 'r) semver \<Rightarrow> overrides \<Rightarrow> plugin_manifest list \<Rightarrow> plugin_manifest
     \<Rightarrow> binding list \<times> binding_error list" where
  "resolve_all sv cfg candidates m =
     (let rs = map (resolve_capability sv cfg candidates) (required_capabilities m) in
      (List.map_filter (\<lambda>r. case r of Inr b \<Rightarrow> Some b | Inl e \<Rightarrow> None) rs,
       List.map_filter (\<lambda>r. case r of Inl e \<Rightarrow> Some e | Inr b \<Rightarrow> None) rs))"

fun first_error ::
  "('v, 'r) semver \<Rightarrow> overrides \<Rightarrow> plugin_manifest list \<Rightarrow> plugin_manifest list
     \<Rightarrow> (string \<times> binding_error) option" where
  "first_error sv cfg candidates [] = None"
| "first_error sv cfg candidates (m # ms) =
     (case snd (resolve_all sv cfg candidates m) of
        e # es \<Rightarrow> Some (pm_id m, e)
      | [] \<Rightarrow> first_error sv cfg candidates ms)"

definition first_binding_error ::
  "('v, 'r) semver \<Rightarrow> overrides \<Rightarrow> plugin_manifest list \<Rightarrow> (string \<times> binding_error) option" where
  "first_binding_error sv cfg candidates = first_error sv cfg candidates candidates"

subsection \<open>Lowering\<close>

definition lower_edge :: "string \<Rightarrow> binding \<Rightarrow> app_dependency list \<Rightarrow> app_dependency list" where
  "lower_edge own b apps =
     (if bd_provider_id b = own \<or> bd_provider_id b \<in> ad_id ` set apps then apps
      else apps @ [\<lparr>ad_id = bd_provider_id b, ad_min_version = None\<rparr>])"

definition lower_manifest ::
  "('v, 'r) semver \<Rightarrow> overrides \<Rightarrow> plugin_manifest list \<Rightarrow> plugin_manifest \<Rightarrow> plugin_manifest" where
  "lower_manifest sv cfg candidates m =
     (let bindings = fst (resolve_all sv cfg candidates m) in
      if bindings = [] then m
      else
        (let rq = (case pm_requires m of
                     None \<Rightarrow> \<lparr>rq_apps = [], rq_capabilities = [], rq_grants = []\<rparr>
                   | Some r \<Rightarrow> r) in
         m\<lparr>pm_requires := Some (rq\<lparr>rq_apps := fold (lower_edge (pm_id m)) bindings (rq_apps rq)\<rparr>)\<rparr>))"

definition lower_manifests ::
  "('v, 'r) semver \<Rightarrow> overrides \<Rightarrow> plugin_manifest list \<Rightarrow> plugin_manifest list" where
  "lower_manifests sv cfg ms = map (lower_manifest sv cfg ms) ms"

subsection \<open>What a pick is\<close>

lemma lowest_by_None [simp]: "lowest_by f xs = None \<longleftrightarrow> xs = []"
  by (cases xs) (auto split: option.split)

lemma lowest_by_least: "lowest_by f xs = Some x \<Longrightarrow> x \<in> set xs \<and> (\<forall>y \<in> set xs. f x \<le> f y)"
proof (induction xs arbitrary: x)
  case (Cons z zs)
  then show ?case
    by (cases "lowest_by f zs") (auto split: if_splits intro: order.trans [OF less_imp_le])
qed simp

text \<open>The first of the least stays the first of the least of any part that has it.\<close>

lemma lowest_by_filter: "lowest_by f xs = Some x \<Longrightarrow> P x \<Longrightarrow> lowest_by f (filter P xs) = Some x"
proof (induction xs arbitrary: x)
  case (Cons z zs)
  show ?case
  proof (cases "lowest_by f zs")
    case None
    with Cons.prems show ?thesis by simp
  next
    case (Some y)
    show ?thesis
    proof (cases "f y < f z")
      case True
      with Some Cons.prems have "x = y" by simp
      with Cons.IH [OF Some] Cons.prems(2) True show ?thesis by simp
    next
      case False
      with Some Cons.prems have x: "x = z" by simp
      have "\<not> f w < f z" if "lowest_by f (filter P zs) = Some w" for w
        using lowest_by_least [OF that] lowest_by_least [OF Some] False by fastforce
      with x Cons.prems(2) show ?thesis by (auto split: option.split)
    qed
  qed
qed simp

lemma find_mem: "find Q xs = Some x \<Longrightarrow> x \<in> set xs \<and> Q x"
  by (induction xs) (auto split: if_splits)

lemma find_filter: "find Q xs = Some x \<Longrightarrow> P x \<Longrightarrow> find Q (filter P xs) = Some x"
  by (induction xs) (auto split: if_splits)

lemma pick_selectable_filter:
  assumes "pick_selectable ps = Some x" and "P x"
  shows "pick_selectable (filter P ps) = Some x"
proof -
  let ?d = "filter (\<lambda>(m, p). pe_default_provider p)"
  have all: "list_all (\<lambda>(m, p). pe_selectable p) ps"
    using assms(1) by (auto simp: pick_selectable_def split: if_splits)
  then have all': "list_all (\<lambda>(m, p). pe_selectable p) (filter P ps)" by (auto simp: list_all_iff)
  have comm: "?d (filter P ps) = filter P (?d ps)" by (simp add: conj_commute)
  show ?thesis
  proof (cases "?d ps = []")
    case True
    then have "lowest_by (pm_id \<circ> fst) ps = Some x"
      using assms(1) all by (simp add: pick_selectable_def Let_def)
    from lowest_by_filter [where P = P, OF this assms(2)] True all' comm show ?thesis
      by (simp add: pick_selectable_def Let_def)
  next
    case False
    then have low: "lowest_by (pm_id \<circ> fst) (?d ps) = Some x"
      using assms(1) all by (simp add: pick_selectable_def Let_def)
    from lowest_by_filter [where P = P, OF low assms(2)]
    have low': "lowest_by (pm_id \<circ> fst) (?d (filter P ps)) = Some x" by (simp only: comm)
    then have "?d (filter P ps) \<noteq> []" by auto
    with low' all' show ?thesis unfolding pick_selectable_def Let_def by simp
  qed
qed

lemma pick_provider_mem:
  "pick_provider cfg cap ps = Inr x \<Longrightarrow> x \<in> set ps"
  by (auto simp: pick_provider_def pick_selectable_def Let_def length_Suc_conv
      split: if_splits option.splits dest!: lowest_by_least find_mem)

lemma pick_provider_filter:
  assumes pick: "pick_provider cfg cap ps = Inr x" and "P x"
  shows "pick_provider cfg cap (filter P ps) = Inr x"
proof -
  have "x \<in> set ps" using pick by (rule pick_provider_mem)
  then have ne: "filter P ps \<noteq> []" using assms(2) by (auto simp: filter_empty_conv)
  show ?thesis
  proof (cases "bt_get cfg cap")
    case (Some chosen)
    with pick have "find (\<lambda>(m, p). pm_id m = chosen) ps = Some x"
      by (auto simp: pick_provider_def split: if_splits option.splits)
    from find_filter [where P = P, OF this assms(2)] Some ne show ?thesis by (simp add: pick_provider_def)
  next
    case None
    show ?thesis
    proof (cases "length ps = 1")
      case True
      then have "filter P ps = [x]"
        using \<open>x \<in> set ps\<close> assms(2) by (auto simp: length_Suc_conv)
      with None show ?thesis by (simp add: pick_provider_def)
    next
      case False
      then have sel: "pick_selectable ps = Some x"
        using pick None by (auto simp: pick_provider_def split: if_splits option.splits)
      show ?thesis
      proof (cases "length (filter P ps) = 1")
        case True
        then obtain y where y: "filter P ps = [y]" by (auto simp: length_Suc_conv)
        moreover have "x \<in> set (filter P ps)" using \<open>x \<in> set ps\<close> assms(2) by simp
        ultimately have "filter P ps = [x]" by (simp only: y) simp
        with None show ?thesis by (simp add: pick_provider_def)
      next
        case False
        with pick_selectable_filter [where P = P, OF sel assms(2)] None ne show ?thesis
          by (simp add: pick_provider_def)
      qed
    qed
  qed
qed

subsection \<open>What a binding is\<close>

lemma providers_of_mem:
  "(m, p) \<in> set (providers_of ms cap) \<Longrightarrow> m \<in> set ms \<and> p \<in> set (pm_provides m) \<and> pe_capability p = cap"
  by (auto simp: providers_of_def provider_entry_def set_map_filter dest!: find_mem)

lemma providers_of_filter:
  "providers_of (filter Q ms) cap = filter (\<lambda>x. Q (fst x)) (providers_of ms cap)"
  by (induction ms) (auto simp: providers_of_def split: option.splits)

lemma resolve_capability_sound:
  assumes "resolve_capability sv cfg ms req = Inr b"
  shows "bd_capability b = cr_capability req
    \<and> (\<exists>m \<in> set ms. \<exists>p \<in> set (pm_provides m). pm_id m = bd_provider_id b
         \<and> pe_capability p = cr_capability req \<and> pe_version p = bd_provided_version b
         \<and> (\<forall>s. cr_min_version req = Some s \<longrightarrow>
              (\<exists>want have. parse_min_version sv s = Inr want \<and> parse_version sv (pe_version p) = Inr have
                 \<and> req_matches sv want have)))"
proof -
  from assms obtain m p where pick: "pick_provider cfg (cr_capability req) (providers_of ms (cr_capability req)) = Inr (m, p)"
    and floor: "check_floor sv req (m, p) = None"
    and b: "b = \<lparr>bd_capability = cr_capability req, bd_provider_id = pm_id m, bd_provided_version = pe_version p\<rparr>"
    by (auto simp: resolve_capability_def split: sum.splits option.splits)
  have mem: "m \<in> set ms \<and> p \<in> set (pm_provides m) \<and> pe_capability p = cr_capability req"
    by (rule providers_of_mem [OF pick_provider_mem [OF pick]])
  have "\<exists>want have. parse_min_version sv s = Inr want \<and> parse_version sv (pe_version p) = Inr have
      \<and> req_matches sv want have" if "cr_min_version req = Some s" for s
    using floor that by (auto simp: check_floor_def split: sum.splits if_splits)
  with mem show ?thesis unfolding b by auto
qed

text \<open>Removing plugins leaves a binding that is not to one of them as it is.\<close>

lemma resolve_capability_filter:
  assumes "resolve_capability sv cfg ms req = Inr b"
    and "\<And>m. m \<in> set ms \<Longrightarrow> pm_id m = bd_provider_id b \<Longrightarrow> Q m"
  shows "resolve_capability sv cfg (filter Q ms) req = Inr b"
proof -
  let ?c = "cr_capability req"
  from assms(1) obtain m p where pick: "pick_provider cfg ?c (providers_of ms ?c) = Inr (m, p)"
    and floor: "check_floor sv req (m, p) = None" and "pm_id m = bd_provider_id b"
    by (auto simp: resolve_capability_def split: sum.splits option.splits)
  moreover have "m \<in> set ms" using providers_of_mem [OF pick_provider_mem [OF pick]] by simp
  ultimately have "Q m" using assms(2) by blast
  then have "pick_provider cfg ?c (filter (\<lambda>x. Q (fst x)) (providers_of ms ?c)) = Inr (m, p)"
    by (intro pick_provider_filter [OF pick]) simp
  then show ?thesis using pick floor assms(1) by (simp add: resolve_capability_def providers_of_filter)
qed

lemma resolve_all_errors:
  "snd (resolve_all sv cfg ms m) = [] \<longleftrightarrow>
     (\<forall>req \<in> set (required_capabilities m). \<exists>b. resolve_capability sv cfg ms req = Inr b)"
  by (auto simp: resolve_all_def Let_def map_filter_Nil_iff split: sum.splits) (meson sum.exhaust)

lemma first_error_None:
  "first_error sv cfg cs ms = None \<longleftrightarrow> (\<forall>m \<in> set ms. snd (resolve_all sv cfg cs m) = [])"
  by (induction ms) (auto split: list.splits)

lemma first_binding_error_None:
  "first_binding_error sv cfg ms = None \<longleftrightarrow>
     (\<forall>m \<in> set ms. \<forall>req \<in> set (required_capabilities m). \<exists>b. resolve_capability sv cfg ms req = Inr b)"
  by (simp add: first_binding_error_def first_error_None resolve_all_errors)

subsection \<open>What lowering adds\<close>

lemma lower_edges:
  "set apps \<subseteq> set (fold (lower_edge own) bs apps)
   \<and> ad_id ` set (fold (lower_edge own) bs apps)
     = ad_id ` set apps \<union> (bd_provider_id ` set bs - {own})"
proof (induction bs arbitrary: apps)
  case (Cons b bs)
  have "set apps \<subseteq> set (lower_edge own b apps)" by (auto simp: lower_edge_def)
  moreover have "ad_id ` set (lower_edge own b apps) \<union> (bd_provider_id ` set bs - {own})
      = ad_id ` set apps \<union> (bd_provider_id ` set (b # bs) - {own})"
    by (auto simp: lower_edge_def)
  ultimately show ?case using Cons.IH [of "lower_edge own b apps"] by auto
qed simp

lemma lower_id [simp]: "pm_id (lower_manifest sv cfg ms m) = pm_id m"
  by (simp add: lower_manifest_def Let_def)

lemma lower_ids [simp]: "map pm_id (lower_manifests sv cfg ms) = map pm_id ms"
  by (simp add: lower_manifests_def comp_def)

lemma lower_dependencies:
  "set (dependencies m) \<subseteq> set (dependencies (lower_manifest sv cfg ms m))
   \<and> ad_id ` set (dependencies (lower_manifest sv cfg ms m))
     = ad_id ` set (dependencies m)
       \<union> (bd_provider_id ` set (fst (resolve_all sv cfg ms m)) - {pm_id m})"
  using lower_edges [of "dependencies m" "pm_id m" "fst (resolve_all sv cfg ms m)"]
  by (auto simp: lower_manifest_def dependencies_def Let_def split: option.splits)

lemma resolve_all_bindings:
  "b \<in> set (fst (resolve_all sv cfg ms m)) \<longleftrightarrow>
     Inr b \<in> resolve_capability sv cfg ms ` set (required_capabilities m)"
proof -
  have "(case r of Inr b \<Rightarrow> Some b | Inl e \<Rightarrow> None) = Some b \<longleftrightarrow> r = Inr b" for r :: "binding_error + binding"
    by (cases r) auto
  then show ?thesis by (simp add: resolve_all_def Let_def set_map_filter)
qed

end
