(* ===== verification/Core_PluginStore.thy ===== *)
theory Core_PluginStore
  imports Core_PluginBinding Ryu_Json
begin

section \<open>The plugin store\<close>

text \<open>
  The lifecycle records of \<open>apps/core/src/plugins/mod.rs\<close> with the operations on them, the tiers of
  \<open>plugins/builtins.rs\<close>, the read mask of Safe Mode, and the validation of grants through the
  gateway of \<open>plugins/lifecycle.rs\<close>.

  A store is the list of its rows in order of creation; the id is the primary key.  Of a row the
  columns of the channel, the provenance and the time stamps are left out.  A statement that fails
  leaves the store as it is; which ones fail is the parameter \<open>faults\<close>.
\<close>

subsection \<open>Tiers\<close>

definition mandatory_plugins :: "string list" where
  "mandatory_plugins =
     [''@ryu/spaces'', ''@ryu/rag'', ''@ryu/layers'', ''@ryu/skills'', ''@ryu/media'', ''@ryu/hardware'']"

definition is_mandatory :: "string \<Rightarrow> bool" where
  "is_mandatory i \<longleftrightarrow> i \<in> set mandatory_plugins"

definition load_bearing_plugins :: "string list" where
  "load_bearing_plugins = [''@ryu/engines'', ''@ryu/durable'', ''@ryu/agents'']"

definition is_load_bearing :: "string \<Rightarrow> bool" where
  "is_load_bearing i \<longleftrightarrow> i \<in> set load_bearing_plugins"

definition system_plugins :: "string list" where
  "system_plugins = [''@ryu/ghost'', ''@ryu/shadow'', ''@ryu/agentbrowser'', ''@ryu/browser'']"

definition is_system_plugin :: "string \<Rightarrow> bool" where
  "is_system_plugin i \<longleftrightarrow> i \<in> set system_plugins"

definition core_preinstalled :: "string list" where
  "core_preinstalled =
     [''@ryu/engines'', ''@ryu/durable'', ''@ryu/goal'', ''@ryu/proof'', ''@ryu/receipts'',
      ''@ryu/double-check'', ''@ryu/chat-title'', ''@ryu/side-chats'', ''@ryu/ghost-chats'',
      ''@ryu/expanded-composer'', ''@ryu/stats'', ''@ryu/reactions'', ''@ryu/whatsapp'', ''@ryu/rules'',
      ''@ryu/pi-shell'', ''@ryu/pi-subagent'', ''@ryu/pi-monitor'', ''@ryu/ghost'', ''@ryu/shadow'',
      ''@ryu/spider'', ''@ryu/agentbrowser'', ''@ryu/exa'', ''@ryu/docs'', ''@ryu/composio-connect'',
      ''@ryu/rag'', ''@ryu/auto-expand'', ''@ryu/markitdown'', ''@ryu/spaces'', ''@ryu/skills'',
      ''@ryu/learning'', ''@ryu/hardware'', ''@ryu/agents'', ''@ryu/memory'', ''@ryu/dictation'',
      ''@ryu/voice'', ''@ryu/media'', ''@ryu/webhooks'', ''@ryu/calendar'', ''@ryu/help-center'',
      ''@ryu/sites'', ''@ryu/chat-broadcast'', ''@ryu/layers'', ''@ryu/output-styles'']"

definition is_preinstalled :: "string \<Rightarrow> bool" where
  "is_preinstalled i \<longleftrightarrow> i \<in> set core_preinstalled"

definition is_uninstall_protected :: "string \<Rightarrow> bool" where
  "is_uninstall_protected i \<longleftrightarrow> is_mandatory i \<or> is_system_plugin i \<or> is_preinstalled i"

text \<open>\<open>safe_mode::keeps_plugin_enabled\<close>.\<close>

definition keeps_plugin_enabled :: "string \<Rightarrow> bool" where
  "keeps_plugin_enabled i \<longleftrightarrow> is_mandatory i \<or> is_load_bearing i"

subsection \<open>Records\<close>

record plugin_record =
  plr_id :: string
  plr_version :: string
  plr_enabled :: bool
  plr_approved_grants :: "string list"
  plr_ui_code :: "string option"

type_synonym plugin_store = "plugin_record list"

record faults =
  read_fault :: "string option"
  reread_fault :: "string \<Rightarrow> string option"
  insert_fault :: "string \<Rightarrow> string option"
  enable_fault :: "string \<Rightarrow> string option"
  disable_fault :: "string \<Rightarrow> string option"
  update_fault :: "string \<Rightarrow> string option"
  remove_fault :: "string \<Rightarrow> string option"

definition list_all_records :: "faults \<Rightarrow> plugin_store \<Rightarrow> string + plugin_record list" where
  "list_all_records fs st = (case read_fault fs of Some e \<Rightarrow> Inl e | None \<Rightarrow> Inr st)"

definition get_record :: "faults \<Rightarrow> string \<Rightarrow> plugin_store \<Rightarrow> string + plugin_record option" where
  "get_record fs i st =
     (case read_fault fs of Some e \<Rightarrow> Inl e | None \<Rightarrow> Inr (find (\<lambda>r. plr_id r = i) st))"

definition apply_safe_mode_mask :: "plugin_record list \<Rightarrow> bool \<Rightarrow> plugin_record list" where
  "apply_safe_mode_mask records active =
     (if \<not> active then records
      else map (\<lambda>r. if keeps_plugin_enabled (plr_id r) then r
                   else r\<lparr>plr_enabled := False, plr_approved_grants := []\<rparr>) records)"

definition get_masked :: "faults \<Rightarrow> bool \<Rightarrow> string \<Rightarrow> plugin_store \<Rightarrow> string + plugin_record option" where
  "get_masked fs safe i st =
     (case get_record fs i st of
        Inl e \<Rightarrow> Inl e
      | Inr None \<Rightarrow> Inr None
      | Inr (Some r) \<Rightarrow> Inr (Some (last (apply_safe_mode_mask [r] safe))))"

subsection \<open>Writes\<close>

text \<open>
  \<open>UPDATE apps SET \<dots> WHERE id = i\<close>, then \<open>get\<close>, which can fail when the update did not:
  \<open>None\<close> when no row was affected.
\<close>

definition update_row ::
  "string option \<Rightarrow> faults \<Rightarrow> bool \<Rightarrow> (plugin_record \<Rightarrow> plugin_record) \<Rightarrow> string \<Rightarrow> plugin_store
     \<Rightarrow> plugin_store \<times> (string + plugin_record option)" where
  "update_row fault fs safe f i st =
     (case fault of
        Some e \<Rightarrow> (st, Inl e)
      | None \<Rightarrow>
          if i \<notin> plr_id ` set st then (st, Inr None)
          else
            (let st' = map (\<lambda>r. if plr_id r = i then f r else r) st in
             (st', (case reread_fault fs i of
                      Some e \<Rightarrow> Inl e
                    | None \<Rightarrow> get_masked fs safe i st'))))"

definition insert_record ::
  "faults \<Rightarrow> string \<Rightarrow> string \<Rightarrow> plugin_store \<Rightarrow> plugin_store \<times> (string + plugin_record)" where
  "insert_record fs i version st =
     (case insert_fault fs i of
        Some e \<Rightarrow> (st, Inl e)
      | None \<Rightarrow>
          if i \<in> plr_id ` set st then (st, Inl (''inserting app '' @ quoted i))
          else (let r = \<lparr>plr_id = i, plr_version = version, plr_enabled = False, plr_approved_grants = [],
                          plr_ui_code = None\<rparr>
                in (st @ [r], Inr r)))"

definition set_enabled ::
  "faults \<Rightarrow> bool \<Rightarrow> string \<Rightarrow> string list \<Rightarrow> plugin_store
     \<Rightarrow> plugin_store \<times> (string + plugin_record option)" where
  "set_enabled fs safe i grants =
     update_row (enable_fault fs i) fs safe (\<lambda>r. r\<lparr>plr_enabled := True, plr_approved_grants := grants\<rparr>) i"

definition set_disabled ::
  "faults \<Rightarrow> bool \<Rightarrow> string \<Rightarrow> plugin_store \<Rightarrow> plugin_store \<times> (string + plugin_record option)" where
  "set_disabled fs safe i =
     update_row (disable_fault fs i) fs safe (\<lambda>r. r\<lparr>plr_enabled := False, plr_approved_grants := []\<rparr>) i"

definition set_version ::
  "faults \<Rightarrow> bool \<Rightarrow> string \<Rightarrow> string \<Rightarrow> plugin_store
     \<Rightarrow> plugin_store \<times> (string + plugin_record option)" where
  "set_version fs safe i version =
     update_row (update_fault fs i) fs safe (\<lambda>r. r\<lparr>plr_version := version\<rparr>) i"

definition set_approved_grants ::
  "faults \<Rightarrow> bool \<Rightarrow> string \<Rightarrow> string list \<Rightarrow> plugin_store
     \<Rightarrow> plugin_store \<times> (string + plugin_record option)" where
  "set_approved_grants fs safe i grants =
     update_row (update_fault fs i) fs safe (\<lambda>r. r\<lparr>plr_approved_grants := grants\<rparr>) i"

definition set_ui_code ::
  "faults \<Rightarrow> string \<Rightarrow> string option \<Rightarrow> plugin_store \<Rightarrow> plugin_store \<times> (string + bool)" where
  "set_ui_code fs i code st =
     (case update_fault fs i of
        Some e \<Rightarrow> (st, Inl e)
      | None \<Rightarrow> (map (\<lambda>r. if plr_id r = i then r\<lparr>plr_ui_code := code\<rparr> else r) st,
                 Inr (i \<in> plr_id ` set st)))"

definition remove_record :: "faults \<Rightarrow> string \<Rightarrow> plugin_store \<Rightarrow> plugin_store \<times> (string + bool)" where
  "remove_record fs i st =
     (case remove_fault fs i of
        Some e \<Rightarrow> (st, Inl e)
      | None \<Rightarrow> (filter (\<lambda>r. plr_id r \<noteq> i) st, Inr (i \<in> plr_id ` set st)))"

definition push_new :: "string \<Rightarrow> string list \<Rightarrow> string list" where
  "push_new g gs = (if g \<in> set gs then gs else gs @ [g])"

definition add_approved_grants ::
  "faults \<Rightarrow> bool \<Rightarrow> string \<Rightarrow> string list \<Rightarrow> plugin_store
     \<Rightarrow> plugin_store \<times> (string + plugin_record option)" where
  "add_approved_grants fs safe i grants st =
     (case get_masked fs safe i st of
        Inl e \<Rightarrow> (st, Inl e)
      | Inr None \<Rightarrow> (st, Inr None)
      | Inr (Some r) \<Rightarrow>
          (let merged = fold push_new grants (plr_approved_grants r) in
           if length merged = length (plr_approved_grants r) then (st, Inr (Some r))
           else update_row (update_fault fs i) fs safe (\<lambda>r. r\<lparr>plr_approved_grants := merged\<rparr>) i st))"

text \<open>\<open>UPDATE OR IGNORE \<dots> SET id\<close>, then the \<open>DELETE\<close> of the old row, when it is still there.\<close>

definition rekey :: "faults \<Rightarrow> string \<Rightarrow> string \<Rightarrow> plugin_store \<Rightarrow> plugin_store \<times> (string + bool)" where
  "rekey fs src dst st =
     (case update_fault fs src of
        Some e \<Rightarrow> (st, Inl e)
      | None \<Rightarrow>
          (let st' = (if dst \<in> plr_id ` set st then st
                      else map (\<lambda>r. if plr_id r = src then r\<lparr>plr_id := dst\<rparr> else r) st) in
           (case remove_fault fs src of
              Some e \<Rightarrow> (st', Inl e)
            | None \<Rightarrow> (filter (\<lambda>r. plr_id r \<noteq> src) st', Inr (src \<in> plr_id ` set st')))))"

end
