(* ===== verification/Core_PluginLifecycle.thy ===== *)
theory Core_PluginLifecycle
  imports Core_PluginStore
begin

section \<open>The lifecycle of plugins\<close>

text \<open>
  The operations of \<open>apps/core/src/plugins/lifecycle.rs\<close>: enabling a plugin with what it depends on,
  disabling it with what depends on it, uninstalling, editing grants and updating.  Each is a function
  of the store that returns the store it leaves and the result or the error.

  Loading manifests, \<open>active_config\<close> and the HTTP client are arguments: the manifests in memory, the
  overrides, and the gateway as the function from the body of the request to its JSON answer.
  Invalidating the vocabulary of permissions, logging and the capture of provenance are left out.
\<close>

subsection \<open>Installing\<close>

text \<open>
  \<open>ui\<close> is the bundle compiled into the binary for an id; attaching it never fails the install, and
  the record that is returned is the one inserted.
\<close>

definition install_app ::
  "('v, 'r) semver \<Rightarrow> faults \<Rightarrow> (string \<Rightarrow> string option) \<Rightarrow> plugin_manifest \<Rightarrow> plugin_store
     \<Rightarrow> plugin_store \<times> (string + plugin_record)" where
  "install_app sv fs ui m st =
     (case parse_version sv (pm_version m) of
        Inl e \<Rightarrow> (st, Inl (''manifest version '' @ quoted (pm_version m) @ '' is not valid semver: '' @ e))
      | Inr v \<Rightarrow>
          (case insert_record fs (pm_id m) (pm_version m) st of
             (st1, Inl e) \<Rightarrow> (st1, Inl (''install failed: '' @ e))
           | (st1, Inr r) \<Rightarrow>
               (case ui (pm_id m) of
                  None \<Rightarrow> (st1, Inr r)
                | Some code \<Rightarrow> (fst (set_ui_code fs (pm_id m) (Some code) st1), Inr r))))"

subsection \<open>Validation of grants\<close>

record validation =
  va_approved :: "string list"
  va_denied :: "string list"
  va_all_approved :: bool

record gateway =
  gw_stub_mode :: bool
  gw_release :: bool
  gw_validate :: "string \<Rightarrow> string list \<Rightarrow> string + json"

definition is_arbitrary_code_execution_grant :: "string \<Rightarrow> bool" where
  "is_arbitrary_code_execution_grant g \<longleftrightarrow>
     g \<in> {''sidecar:process'', ''runtime:external'', ''mcp:server'', ''pi:extension''}"

definition stub_may_approve :: "gateway \<Rightarrow> string \<Rightarrow> bool" where
  "stub_may_approve gw g \<longleftrightarrow> \<not> (gw_release gw \<and> is_arbitrary_code_execution_grant g)"

definition json_strings :: "json \<Rightarrow> string list option" where
  "json_strings j =
     (case as_array j of
        None \<Rightarrow> None
      | Some xs \<Rightarrow> if list_all (\<lambda>x. as_str x \<noteq> None) xs then Some (map (the \<circ> as_str) xs) else None)"

definition as_bool :: "json \<Rightarrow> bool option" where
  "as_bool j = (case j of JBool b \<Rightarrow> Some b | _ \<Rightarrow> None)"

text \<open>The loop over the answer; \<open>over\<close> is the set of the grants it went over.\<close>

fun covers_once :: "string list \<Rightarrow> string list \<Rightarrow> string list \<Rightarrow> string list option" where
  "covers_once requested over [] = Some over"
| "covers_once requested over (g # gs) =
     (if g \<notin> set requested \<or> g \<in> set over then None else covers_once requested (g # over) gs)"

definition parse_grant_validation_response :: "json \<Rightarrow> string list \<Rightarrow> string + validation" where
  "parse_grant_validation_response j requested =
     (case Option.bind (jget j ''approved'') json_strings of
        None \<Rightarrow> Inl ''approved must be an array''
      | Some approved \<Rightarrow>
          (case Option.bind (jget j ''denied'') json_strings of
             None \<Rightarrow> Inl ''denied must be an array''
           | Some denied \<Rightarrow>
               (case Option.bind (jget j ''all_approved'') as_bool of
                  None \<Rightarrow> Inl ''all_approved must be a boolean''
                | Some all_approved \<Rightarrow>
                    (case covers_once requested [] (approved @ denied) of
                       None \<Rightarrow> Inl ''approved and denied must partition the requested grants''
                     | Some over \<Rightarrow>
                         if length over \<noteq> card (set requested) \<or> all_approved \<noteq> (denied = [])
                         then Inl ''grant validation response does not cover every requested grant''
                         else Inr \<lparr>va_approved = approved, va_denied = denied,
                                    va_all_approved = all_approved\<rparr>))))"

datatype enable_error =
    GrantsDenied string "string list"
  | GatewayUnreachable string
  | EnableDependency dependency_error
  | EnableBinding string binding_error
  | EnableOther string

definition validate_grants_via_gateway ::
  "gateway \<Rightarrow> string list \<Rightarrow> string \<Rightarrow> enable_error + validation" where
  "validate_grants_via_gateway gw grants app =
     (if grants = [] then Inr \<lparr>va_approved = [], va_denied = [], va_all_approved = True\<rparr>
      else if gw_stub_mode gw then
        (let approved = filter (stub_may_approve gw) grants;
             denied = filter (\<lambda>g. \<not> stub_may_approve gw g) grants in
         Inr \<lparr>va_approved = approved, va_denied = denied, va_all_approved = (denied = [])\<rparr>)
      else
        (case gw_validate gw app grants of
           Inl reason \<Rightarrow> Inl (GatewayUnreachable reason)
         | Inr result \<Rightarrow>
             map_sum (\<lambda>reason. GatewayUnreachable (''invalid grant validation response: '' @ reason)) id
               (parse_grant_validation_response result grants)))"

subsection \<open>Enabling\<close>

text \<open>What does not change during an operation: \<open>safe\<close> is whether Safe Mode is active.\<close>

record ('v, 'r) env =
  env_semver :: "('v, 'r) semver"
  env_overrides :: overrides
  env_gateway :: gateway
  env_faults :: faults
  env_safe :: bool

definition installed_manifests ::
  "plugin_record list \<Rightarrow> plugin_manifest \<Rightarrow> plugin_manifest list \<Rightarrow> plugin_manifest list" where
  "installed_manifests records m all =
     (let installed = filter (\<lambda>x. pm_id x \<in> plr_id ` set records) all in
      if pm_id m \<in> pm_id ` set installed then installed else installed @ [m])"

record pending =
  pd_id :: string
  pd_approved :: "string list"
  pd_is_target :: bool

text \<open>Phase 2: the grants of every plugin of the order that is not enabled yet, and of the target.\<close>

fun validate_order ::
  "gateway \<Rightarrow> plugin_manifest \<Rightarrow> plugin_manifest list \<Rightarrow> plugin_record list \<Rightarrow> string list
     \<Rightarrow> enable_error + pending list" where
  "validate_order gw m installed records [] = Inr []"
| "validate_order gw m installed records (i # os) =
     (let is_target = (i = pm_id m) in
      if \<not> is_target \<and> (\<exists>r \<in> set records. plr_id r = i \<and> plr_enabled r)
      then validate_order gw m installed records os
      else
        (case (if is_target then Some m else find (\<lambda>x. pm_id x = i) installed) of
           None \<Rightarrow> Inl (EnableOther (''manifest '' @ quoted i @ '' disappeared''))
         | Some dep \<Rightarrow>
             (case validate_grants_via_gateway gw (pm_permission_grants dep) (pm_id dep) of
                Inl e \<Rightarrow> Inl e
              | Inr v \<Rightarrow>
                  if \<not> va_all_approved v then Inl (GrantsDenied (pm_id dep) (va_denied v))
                  else
                    (case validate_order gw m installed records os of
                       Inl e \<Rightarrow> Inl e
                     | Inr ps \<Rightarrow>
                         Inr (\<lparr>pd_id = pm_id dep, pd_approved = va_approved v,
                               pd_is_target = is_target\<rparr> # ps)))))"

text \<open>Phases 1 and 2: everything that is decided before a bit is flipped.\<close>

definition plan_enable ::
  "('v, 'r) env \<Rightarrow> plugin_manifest \<Rightarrow> plugin_manifest list \<Rightarrow> plugin_record list
     \<Rightarrow> enable_error + pending list" where
  "plan_enable env m all records =
     (let installed = installed_manifests records m all;
          lowered = lower_manifests (env_semver env) (env_overrides env) installed in
      (case the (resolve_enable_order (env_semver env) (pm_id m) lowered) of
         Inl e \<Rightarrow> Inl (EnableDependency e)
       | Inr os \<Rightarrow>
           (let post_enabled = filter (\<lambda>x. pm_id x \<in> set os
                    \<or> (\<exists>r \<in> set records. plr_enabled r \<and> plr_id r = pm_id x)) installed in
            (case first_binding_error (env_semver env) (env_overrides env) post_enabled of
               Some (plugin, source) \<Rightarrow> Inl (EnableBinding plugin source)
             | None \<Rightarrow> validate_order (env_gateway env) m installed records os))))"

text \<open>\<open>rollback_enabled\<close>: newest first; a write that fails is logged.\<close>

definition rollback_enabled :: "faults \<Rightarrow> bool \<Rightarrow> string list \<Rightarrow> plugin_store \<Rightarrow> plugin_store" where
  "rollback_enabled fs safe flipped st =
     fold (\<lambda>i st. fst (set_disabled fs safe i st)) (rev flipped) st"

text \<open>Phase 3: \<open>done\<close> are the records enabled so far, \<open>target\<close> the one of the target.\<close>

fun flip ::
  "faults \<Rightarrow> bool \<Rightarrow> pending list \<Rightarrow> string list \<Rightarrow> plugin_record list \<Rightarrow> plugin_record option \<Rightarrow> plugin_store
     \<Rightarrow> plugin_store \<times> (enable_error + plugin_record list \<times> plugin_record option)" where
  "flip fs safe [] flipped deps target st = (st, Inr (deps, target))"
| "flip fs safe (p # ps) flipped deps target st =
     (case set_enabled fs safe (pd_id p) (pd_approved p) st of
        (st1, Inl e) \<Rightarrow> (rollback_enabled fs safe flipped st1, Inl (EnableOther e))
      | (st1, Inr None) \<Rightarrow>
          (rollback_enabled fs safe flipped st1,
           Inl (EnableOther (''app '' @ quoted (pd_id p) @ '' disappeared during enable'')))
      | (st1, Inr (Some r)) \<Rightarrow>
          if pd_is_target p then flip fs safe ps (flipped @ [pd_id p]) deps (Some r) st1
          else flip fs safe ps (flipped @ [pd_id p]) (deps @ [r]) target st1)"

text \<open>The same without a write, on the records that were read.\<close>

fun project ::
  "plugin_record list \<Rightarrow> pending list \<Rightarrow> plugin_record list \<Rightarrow> plugin_record option
     \<Rightarrow> enable_error + plugin_record list \<times> plugin_record option" where
  "project records [] deps target = Inr (deps, target)"
| "project records (p # ps) deps target =
     (case find (\<lambda>r. plr_id r = pd_id p) records of
        None \<Rightarrow> Inl (EnableOther (''app '' @ quoted (pd_id p) @ '' disappeared during enable''))
      | Some r \<Rightarrow>
          (let r' = r\<lparr>plr_enabled := True, plr_approved_grants := pd_approved p\<rparr> in
           if pd_is_target p then project records ps deps (Some r')
           else project records ps (deps @ [r']) target))"

record enable_outcome =
  eo_dependencies :: "plugin_record list"
  eo_target :: plugin_record

definition enable_app_inner ::
  "('v, 'r) env \<Rightarrow> bool \<Rightarrow> plugin_manifest \<Rightarrow> plugin_manifest list \<Rightarrow> plugin_store
     \<Rightarrow> plugin_store \<times> (enable_error + enable_outcome)" where
  "enable_app_inner env dry_run m all st =
     (case get_record (env_faults env) (pm_id m) st of
        Inl e \<Rightarrow> (st, Inl (EnableOther e))
      | Inr None \<Rightarrow> (st, Inl (EnableOther (''app '' @ quoted (pm_id m) @ '' is not installed'')))
      | Inr (Some _) \<Rightarrow>
          (case list_all_records (env_faults env) st of
             Inl e \<Rightarrow> (st, Inl (EnableOther e))
           | Inr records \<Rightarrow>
               (case plan_enable env m all records of
                  Inl e \<Rightarrow> (st, Inl e)
                | Inr ps \<Rightarrow>
                    (case (if dry_run then (st, project records ps [] None)
                           else flip (env_faults env) (env_safe env) ps [] [] None st) of
                       (st1, Inl e) \<Rightarrow> (st1, Inl e)
                     | (st1, Inr (deps, None)) \<Rightarrow>
                         (st1, Inl (EnableOther
                            (''app '' @ quoted (pm_id m) @ '' was not in its own enable order'')))
                     | (st1, Inr (deps, Some target)) \<Rightarrow>
                         (st1, Inr \<lparr>eo_dependencies = deps, eo_target = target\<rparr>)))))"

definition plan_enable_app ::
  "('v, 'r) env \<Rightarrow> plugin_manifest \<Rightarrow> plugin_manifest list \<Rightarrow> plugin_store
     \<Rightarrow> plugin_store \<times> (enable_error + enable_outcome)" where
  "plan_enable_app env = enable_app_inner env True"

definition enable_app ::
  "('v, 'r) env \<Rightarrow> plugin_manifest \<Rightarrow> plugin_manifest list \<Rightarrow> plugin_store
     \<Rightarrow> plugin_store \<times> (enable_error + enable_outcome)" where
  "enable_app env = enable_app_inner env False"

text \<open>
  An enable that others overtake: nothing is locked while the gateway is asked, so between the reads of
  the records and the first write any other operation may run, here \<open>others\<close>.
\<close>

definition enable_app_meanwhile ::
  "('v, 'r) env \<Rightarrow> (plugin_store \<Rightarrow> plugin_store) \<Rightarrow> plugin_manifest \<Rightarrow> plugin_manifest list
     \<Rightarrow> plugin_store \<Rightarrow> plugin_store \<times> (enable_error + enable_outcome)" where
  "enable_app_meanwhile env others m all st =
     (case get_record (env_faults env) (pm_id m) st of
        Inl e \<Rightarrow> (st, Inl (EnableOther e))
      | Inr None \<Rightarrow> (st, Inl (EnableOther (''app '' @ quoted (pm_id m) @ '' is not installed'')))
      | Inr (Some _) \<Rightarrow>
          (case list_all_records (env_faults env) st of
             Inl e \<Rightarrow> (st, Inl (EnableOther e))
           | Inr records \<Rightarrow>
               (case plan_enable env m all records of
                  Inl e \<Rightarrow> (others st, Inl e)
                | Inr ps \<Rightarrow>
                    (case flip (env_faults env) (env_safe env) ps [] [] None (others st) of
                       (st1, Inl e) \<Rightarrow> (st1, Inl e)
                     | (st1, Inr (deps, None)) \<Rightarrow>
                         (st1, Inl (EnableOther
                            (''app '' @ quoted (pm_id m) @ '' was not in its own enable order'')))
                     | (st1, Inr (deps, Some target)) \<Rightarrow>
                         (st1, Inr \<lparr>eo_dependencies = deps, eo_target = target\<rparr>)))))"

subsection \<open>Editing grants\<close>

definition set_app_grants ::
  "('v, 'r) env \<Rightarrow> plugin_manifest \<Rightarrow> string list \<Rightarrow> plugin_store
     \<Rightarrow> plugin_store \<times> (enable_error + plugin_record)" where
  "set_app_grants env m desired st =
     (case get_record (env_faults env) (pm_id m) st of
        Inl e \<Rightarrow> (st, Inl (EnableOther e))
      | Inr None \<Rightarrow> (st, Inl (EnableOther (''app '' @ quoted (pm_id m) @ '' is not installed'')))
      | Inr (Some r) \<Rightarrow>
          if \<not> plr_enabled r then
            (st, Inl (EnableOther
               (''app '' @ quoted (pm_id m) @ '' must be enabled before its grants can be edited'')))
          else
            (case find (\<lambda>g. g \<notin> set (pm_permission_grants m)) desired of
               Some g \<Rightarrow>
                 (st, Inl (EnableOther
                    (''grant '' @ quoted g @ '' is not declared by app '' @ quoted (pm_id m))))
             | None \<Rightarrow>
                 (case validate_grants_via_gateway (env_gateway env) desired (pm_id m) of
                    Inl e \<Rightarrow> (st, Inl e)
                  | Inr v \<Rightarrow>
                      if \<not> va_all_approved v then (st, Inl (GrantsDenied (pm_id m) (va_denied v)))
                      else
                        (case set_enabled (env_faults env) (env_safe env) (pm_id m) (va_approved v) st of
                           (st1, Inl e) \<Rightarrow> (st1, Inl (EnableOther e))
                         | (st1, Inr None) \<Rightarrow>
                             (st1, Inl (EnableOther
                                (''app '' @ quoted (pm_id m) @ '' disappeared during grant update'')))
                         | (st1, Inr (Some r1)) \<Rightarrow> (st1, Inr r1)))))"

subsection \<open>Disabling\<close>

datatype disable_error =
    DisableNotInstalled string
  | DisableMandatory string
  | DisableLoadBearing string
  | DisableDependency dependency_error
  | DisableOther string

definition enabled_manifests :: "plugin_record list \<Rightarrow> plugin_manifest list \<Rightarrow> plugin_manifest list" where
  "enabled_manifests records all =
     filter (\<lambda>m. \<exists>r \<in> set records. plr_enabled r \<and> plr_id r = pm_id m) all"

text \<open>Everything that is decided before a bit is flipped: the order of the disable.\<close>

definition plan_disable ::
  "('v, 'r) env \<Rightarrow> string \<Rightarrow> plugin_manifest list \<Rightarrow> bool \<Rightarrow> bool \<Rightarrow> plugin_record list
     \<Rightarrow> disable_error + string list" where
  "plan_disable env i all cascade force records =
     (if i \<notin> plr_id ` set records then Inl (DisableNotInstalled i)
      else if is_mandatory i then Inl (DisableMandatory i)
      else if \<not> force \<and> is_load_bearing i then Inl (DisableLoadBearing i)
      else
        (let enabled = lower_manifests (env_semver env) (env_overrides env) (enabled_manifests records all);
             dependents = the (dependents_of i enabled) in
         if dependents \<noteq> [] \<and> \<not> cascade then Inl (DisableDependency (BlockedByDependents i dependents))
         else
           (let os = (if dependents = [] then [i] else the (resolve_disable_order i enabled)) in
            (case find is_mandatory os of
               Some j \<Rightarrow> Inl (DisableMandatory j)
             | None \<Rightarrow>
                 (case (if force then None else find is_load_bearing os) of
                    Some j \<Rightarrow> Inl (DisableLoadBearing j)
                  | None \<Rightarrow> Inr os)))))"

fun disable_each ::
  "faults \<Rightarrow> bool \<Rightarrow> string \<Rightarrow> string list \<Rightarrow> plugin_record list \<Rightarrow> plugin_store
     \<Rightarrow> plugin_store \<times> (disable_error + plugin_record list)" where
  "disable_each fs safe i [] disabled st = (st, Inr disabled)"
| "disable_each fs safe i (j # js) disabled st =
     (case set_disabled fs safe j st of
        (st1, Inl e) \<Rightarrow> (st1, Inl (DisableOther e))
      | (st1, Inr (Some r)) \<Rightarrow> disable_each fs safe i js (disabled @ [r]) st1
      | (st1, Inr None) \<Rightarrow>
          if j \<noteq> i then disable_each fs safe i js disabled st1
          else (st1, Inl (DisableNotInstalled i)))"

fun list_disabled ::
  "plugin_record list \<Rightarrow> string \<Rightarrow> string list \<Rightarrow> plugin_record list
     \<Rightarrow> disable_error + plugin_record list" where
  "list_disabled records i [] disabled = Inr disabled"
| "list_disabled records i (j # js) disabled =
     (case find (\<lambda>r. plr_id r = j) records of
        Some r \<Rightarrow> list_disabled records i js (disabled @ [r])
      | None \<Rightarrow>
          if j \<noteq> i then list_disabled records i js disabled
          else Inl (DisableNotInstalled i))"

definition disable_app_inner ::
  "('v, 'r) env \<Rightarrow> bool \<Rightarrow> string \<Rightarrow> plugin_manifest list \<Rightarrow> bool \<Rightarrow> bool \<Rightarrow> plugin_store
     \<Rightarrow> plugin_store \<times> (disable_error + plugin_record list)" where
  "disable_app_inner env dry_run i all cascade force st =
     (case list_all_records (env_faults env) st of
        Inl e \<Rightarrow> (st, Inl (DisableOther e))
      | Inr records \<Rightarrow>
          (case plan_disable env i all cascade force records of
             Inl e \<Rightarrow> (st, Inl e)
           | Inr os \<Rightarrow>
               if dry_run then (st, list_disabled records i os [])
               else disable_each (env_faults env) (env_safe env) i os [] st))"

definition plan_disable_app ::
  "('v, 'r) env \<Rightarrow> string \<Rightarrow> plugin_manifest list \<Rightarrow> bool \<Rightarrow> bool \<Rightarrow> plugin_store
     \<Rightarrow> plugin_store \<times> (disable_error + plugin_record list)" where
  "plan_disable_app env = disable_app_inner env True"

definition disable_app ::
  "('v, 'r) env \<Rightarrow> string \<Rightarrow> plugin_manifest list \<Rightarrow> bool \<Rightarrow> bool \<Rightarrow> plugin_store
     \<Rightarrow> plugin_store \<times> (disable_error + plugin_record list)" where
  "disable_app env = disable_app_inner env False"

subsection \<open>Uninstalling\<close>

datatype uninstall_error =
    UninstallNotInstalled string
  | Protected string
  | UninstallDependency dependency_error
  | UninstallOther string

fun uninstall_of_disable :: "disable_error \<Rightarrow> uninstall_error" where
  "uninstall_of_disable (DisableNotInstalled i) = UninstallNotInstalled i"
| "uninstall_of_disable (DisableMandatory i) = Protected i"
| "uninstall_of_disable (DisableLoadBearing i) = Protected i"
| "uninstall_of_disable (DisableDependency e) = UninstallDependency e"
| "uninstall_of_disable (DisableOther e) = UninstallOther e"

text \<open>A scheduled job, with the app that owns it; a job that cannot be deleted stays.\<close>

record job =
  job_id :: string
  job_owner :: "string option"

definition remove_owned_scheduler_jobs :: "(string \<Rightarrow> bool) \<Rightarrow> string \<Rightarrow> job list \<Rightarrow> job list" where
  "remove_owned_scheduler_jobs undeletable i jobs =
     filter (\<lambda>j. job_owner j \<noteq> Some i \<or> undeletable (job_id j)) jobs"

record uninstall_outcome =
  uo_removed :: string
  uo_disabled :: "plugin_record list"

definition uninstall_app_inner ::
  "('v, 'r) env \<Rightarrow> (string \<Rightarrow> bool) \<Rightarrow> bool \<Rightarrow> string \<Rightarrow> plugin_manifest list \<Rightarrow> bool
     \<Rightarrow> plugin_store \<times> job list \<Rightarrow> (plugin_store \<times> job list) \<times> (uninstall_error + uninstall_outcome)" where
  "uninstall_app_inner env undeletable dry_run i all cascade = (\<lambda>(st, jobs).
     (case list_all_records (env_faults env) st of
        Inl e \<Rightarrow> ((st, jobs), Inl (UninstallOther e))
      | Inr records \<Rightarrow>
          if i \<notin> plr_id ` set records then ((st, jobs), Inl (UninstallNotInstalled i))
          else if is_uninstall_protected i then ((st, jobs), Inl (Protected i))
          else
            (case disable_app_inner env dry_run i all cascade False st of
               (st1, Inl e) \<Rightarrow> ((st1, jobs), Inl (uninstall_of_disable e))
             | (st1, Inr disabled) \<Rightarrow>
                 if dry_run then ((st1, jobs), Inr \<lparr>uo_removed = i, uo_disabled = disabled\<rparr>)
                 else
                   (case remove_record (env_faults env) i st1 of
                      (st2, Inl e) \<Rightarrow> ((st2, jobs), Inl (UninstallOther e))
                    | (st2, Inr _) \<Rightarrow>
                        ((st2, remove_owned_scheduler_jobs undeletable i jobs),
                         Inr \<lparr>uo_removed = i, uo_disabled = disabled\<rparr>)))))"

subsection \<open>Updating\<close>

datatype update_error = Downgrade string string | UpdateOther string

datatype update_plan = NoOp | Proceed

definition plan_update ::
  "('v, 'r) semver \<Rightarrow> string \<Rightarrow> string \<Rightarrow> bool \<Rightarrow> update_error + update_plan" where
  "plan_update sv installed requested force =
     (case parse_version sv installed of
        Inl e \<Rightarrow> Inl (UpdateOther (''installed version '' @ quoted installed @ '' is not valid semver: '' @ e))
      | Inr old \<Rightarrow>
          (case parse_version sv requested of
             Inl e \<Rightarrow> Inl (UpdateOther (''new version '' @ quoted requested @ '' is not valid semver: '' @ e))
           | Inr new \<Rightarrow>
               if \<not> force \<and> version_less sv new old then Inl (Downgrade installed requested)
               else if version_eq sv new old then Inr NoOp
               else Inr Proceed))"

definition disappeared :: "string \<Rightarrow> string \<Rightarrow> update_error" where
  "disappeared i what = UpdateOther (''app '' @ quoted i @ '' disappeared '' @ what)"

definition update_app ::
  "('v, 'r) env \<Rightarrow> plugin_manifest \<Rightarrow> string option \<Rightarrow> bool \<Rightarrow> plugin_store
     \<Rightarrow> plugin_store \<times> (update_error + plugin_record)" where
  "update_app env m ui_code force st =
     (let fs = env_faults env; safe = env_safe env; i = pm_id m in
      (case get_record fs i st of
         Inl e \<Rightarrow> (st, Inl (UpdateOther e))
       | Inr None \<Rightarrow> (st, Inl (UpdateOther (''app '' @ quoted i @ '' is not installed'')))
       | Inr (Some r) \<Rightarrow>
           (case plan_update (env_semver env) (plr_version r) (pm_version m) force of
              Inl e \<Rightarrow> (st, Inl e)
            | Inr NoOp \<Rightarrow> (st, Inr r)
            | Inr Proceed \<Rightarrow>
                (case set_version fs safe i (pm_version m) st of
                   (st1, Inl e) \<Rightarrow> (st1, Inl (UpdateOther e))
                 | (st1, Inr None) \<Rightarrow> (st1, Inl (disappeared i ''during update''))
                 | (st1, Inr (Some updated)) \<Rightarrow>
                     (let reconciled = filter (\<lambda>g. g \<in> set (pm_permission_grants m)) (plr_approved_grants r) in
                      (case (if length reconciled \<noteq> length (plr_approved_grants r)
                             then set_approved_grants fs safe i reconciled st1
                             else (st1, Inr (Some updated))) of
                         (st2, Inl e) \<Rightarrow> (st2, Inl (UpdateOther e))
                       | (st2, Inr None) \<Rightarrow> (st2, Inl (disappeared i ''while reconciling grants''))
                       | (st2, Inr (Some updated2)) \<Rightarrow>
                           (case set_ui_code fs i ui_code st2 of
                              (st3, Inl e) \<Rightarrow> (st3, Inl (UpdateOther e))
                            | (st3, Inr _) \<Rightarrow> (st3, Inr updated2))))))))"

end
