(* ===== verification/Core_PluginSound.thy ===== *)
theory Core_PluginSound
  imports Core_PluginLifecycle
begin

section \<open>Enabled plugins have what they need\<close>

text \<open>
  The invariant that the dependency graph, the bindings and the store keep together: every enabled
  plugin finds each plugin it requires enabled, at a version it accepts, and each capability it
  requires bound over the enabled set.  Enabling establishes it for what it turns on, disabling in
  the order of the dependents never breaks it, not even part of the way.
\<close>

subsection \<open>What the writes do to the enabled set\<close>

definition enabled_ids :: "plugin_store \<Rightarrow> string set" where
  "enabled_ids st = {plr_id r | r. r \<in> set st \<and> plr_enabled r}"

definition store_ids :: "plugin_store \<Rightarrow> string set" where
  "store_ids st = plr_id ` set st"

lemma enabled_subset: "enabled_ids st \<subseteq> store_ids st"
  by (auto simp: enabled_ids_def store_ids_def)

lemma enabled_Nil [simp]: "enabled_ids [] = {}"
  by (simp add: enabled_ids_def)

lemma enabled_Cons [simp]:
  "enabled_ids (r # st) = (if plr_enabled r then insert (plr_id r) (enabled_ids st) else enabled_ids st)"
  by (auto simp: enabled_ids_def)

lemma store_ids_simps [simp]: "store_ids [] = {}" "store_ids (r # st) = insert (plr_id r) (store_ids st)"
  by (simp_all add: store_ids_def)

lemma enabled_map_on:
  "enabled_ids (map (\<lambda>r. if plr_id r = i then r\<lparr>plr_enabled := True, plr_approved_grants := g\<rparr> else r) st)
   = (if i \<in> store_ids st then insert i (enabled_ids st) else enabled_ids st)"
  by (induction st) auto

lemma enabled_map_off:
  "enabled_ids (map (\<lambda>r. if plr_id r = i then r\<lparr>plr_enabled := False, plr_approved_grants := g\<rparr> else r) st)
   = enabled_ids st - {i}"
  by (induction st) auto

lemma store_ids_map: "(\<And>r. plr_id (f r) = plr_id r) \<Longrightarrow> store_ids (map (\<lambda>r. if P r then f r else r) st) = store_ids st"
  by (induction st) auto

lemma get_masked_cases:
  "get_masked fs safe i st =
     (case read_fault fs of Some e \<Rightarrow> Inl e
      | None \<Rightarrow> Inr (map_option (\<lambda>r. last (apply_safe_mode_mask [r] safe)) (find (\<lambda>r. plr_id r = i) st)))"
  by (auto simp: get_masked_def get_record_def split: option.split)

lemma find_row: "i \<in> store_ids st \<Longrightarrow> find (\<lambda>r. plr_id r = i) st \<noteq> None"
  by (auto simp: find_None_iff store_ids_def)

text \<open>An update either affects nothing, or changes the row and re-reads it.\<close>

lemma update_row_cases:
  assumes "update_row fault fs safe f i st = (st1, res)" and id: "\<And>r. plr_id (f r) = plr_id r"
  obtains (unchanged) e where "fault = Some e" "st1 = st" "res = Inl e"
  | (missing) "fault = None" "i \<notin> store_ids st" "st1 = st" "res = Inr None"
  | (unread) e where "fault = None" "i \<in> store_ids st"
      "st1 = map (\<lambda>r. if plr_id r = i then f r else r) st" "res = Inl e"
      "reread_fault fs i \<noteq> None \<or> read_fault fs \<noteq> None"
  | (written) r where "fault = None" "i \<in> store_ids st"
      "st1 = map (\<lambda>r. if plr_id r = i then f r else r) st" "res = Inr (Some r)"
proof (cases fault)
  case None
  note fault = this
  show ?thesis
  proof (cases "i \<in> store_ids st")
    case True
    let ?st = "map (\<lambda>r. if plr_id r = i then f r else r) st"
    have "i \<in> store_ids ?st" using True store_ids_map [of f, OF id] by simp
    then obtain r where r: "find (\<lambda>r. plr_id r = i) ?st = Some r" using find_row by blast
    have st1: "st1 = ?st" and res: "res = (case reread_fault fs i of Some e \<Rightarrow> Inl e | None \<Rightarrow> get_masked fs safe i ?st)"
      using assms(1) fault True by (simp_all add: update_row_def Let_def store_ids_def)
    show ?thesis
    proof (cases "reread_fault fs i = None \<and> read_fault fs = None")
      case ok: True
      with res r have "res = Inr (Some (last (apply_safe_mode_mask [r] safe)))"
        by (simp add: get_masked_cases)
      with fault True st1 show ?thesis by (rule written)
    next
      case False
      with res obtain e where "res = Inl e" by (auto simp: get_masked_cases split: option.splits)
      with fault True st1 False show ?thesis by (intro unread [of e]) auto
    qed
  next
    case False
    with assms(1) fault have "st1 = st" "res = Inr None" by (auto simp: update_row_def store_ids_def)
    with fault False show ?thesis by (rule missing)
  qed
next
  case (Some e)
  with assms(1) have "st1 = st" "res = Inl e" by (auto simp: update_row_def)
  with Some show ?thesis by (rule unchanged)
qed

lemma update_row_ids:
  "(\<And>r. plr_id (f r) = plr_id r) \<Longrightarrow> store_ids (fst (update_row fault fs safe f i st)) = store_ids st"
  by (simp add: update_row_def Let_def store_ids_map split: option.split)

lemma set_enabled_ids [simp]: "store_ids (fst (set_enabled fs safe i g st)) = store_ids st"
  by (simp add: set_enabled_def update_row_ids)

lemma set_disabled_ids [simp]: "store_ids (fst (set_disabled fs safe i st)) = store_ids st"
  by (simp add: set_disabled_def update_row_ids)

lemma set_enabled_some:
  "set_enabled fs safe i g st = (st1, Inr (Some r)) \<Longrightarrow> enabled_ids st1 = insert i (enabled_ids st)"
  unfolding set_enabled_def by (erule update_row_cases) (auto simp: enabled_map_on)

lemma set_enabled_none: "set_enabled fs safe i g st = (st1, Inr None) \<Longrightarrow> st1 = st"
  unfolding set_enabled_def by (erule update_row_cases) auto

lemma set_enabled_err:
  "set_enabled fs safe i g st = (st1, Inl e) \<Longrightarrow> reread_fault fs i = None \<Longrightarrow> read_fault fs = None
     \<Longrightarrow> st1 = st"
  unfolding set_enabled_def by (erule update_row_cases) auto

lemma set_disabled_any:
  "set_disabled fs safe i st = (st1, res) \<Longrightarrow>
     enabled_ids st1 = enabled_ids st \<or> enabled_ids st1 = enabled_ids st - {i}"
  unfolding set_disabled_def by (erule update_row_cases) (auto simp: enabled_map_off)

lemma set_disabled_inr:
  "set_disabled fs safe i st = (st1, Inr r) \<Longrightarrow> enabled_ids st1 = enabled_ids st - {i}"
  using enabled_subset [of st] unfolding set_disabled_def
  by (elim update_row_cases) (auto simp: enabled_map_off)

lemma set_disabled_ok:
  assumes "disable_fault fs i = None"
  shows "enabled_ids (fst (set_disabled fs safe i st)) = enabled_ids st - {i}"
proof -
  obtain st1 res where run: "set_disabled fs safe i st = (st1, res)" by (cases "set_disabled fs safe i st")
  then have "enabled_ids st1 = enabled_ids st - {i}"
    using enabled_subset [of st] assms unfolding set_disabled_def
    by (elim update_row_cases) (auto simp: enabled_map_off)
  then show ?thesis using run by simp
qed

text \<open>The answer of \<open>rekey\<close>: true when the new id was taken, false when the row was moved.\<close>

lemma rekey_reports_the_opposite:
  assumes "update_fault fs src = None" and "remove_fault fs src = None" and "src \<noteq> dst"
    and "src \<in> store_ids st"
  shows "snd (rekey fs src dst st) = Inr (dst \<in> store_ids st)"
    and "dst \<notin> store_ids st \<Longrightarrow> dst \<in> store_ids (fst (rekey fs src dst st))"
proof -
  let ?st = "map (\<lambda>r. if plr_id r = src then r\<lparr>plr_id := dst\<rparr> else r) st"
  have gone: "src \<notin> plr_id ` set ?st"
    by (induction st) (use assms(3) in simp_all)
  have come: "dst \<in> store_ids (filter (\<lambda>r. plr_id r \<noteq> src) ?st)"
    using assms(4) by (induction st) (use assms(3) in auto)
  show "snd (rekey fs src dst st) = Inr (dst \<in> store_ids st)"
  proof (cases "dst \<in> store_ids st")
    case True
    then show ?thesis using assms by (simp add: rekey_def Let_def store_ids_def)
  next
    case False
    then have "rekey fs src dst st = (filter (\<lambda>r. plr_id r \<noteq> src) ?st, Inr False)"
      using assms gone by (simp add: rekey_def Let_def store_ids_def del: set_map)
    then show ?thesis using False by simp
  qed
  assume "dst \<notin> store_ids st"
  then have "fst (rekey fs src dst st) = filter (\<lambda>r. plr_id r \<noteq> src) ?st"
    using assms by (simp add: rekey_def Let_def store_ids_def)
  then show "dst \<in> store_ids (fst (rekey fs src dst st))" using come by simp
qed

subsection \<open>The three phases of an enable\<close>

lemma validate_order_Cons:
  assumes "validate_order gw m installed records (i # os) = Inr ps"
  obtains (skipped) "i \<noteq> pm_id m" "i \<in> enabled_ids records"
      "validate_order gw m installed records os = Inr ps"
  | (approved) d v qs where "i = pm_id m \<or> i \<notin> enabled_ids records" "d = m \<or> d \<in> set installed"
      "pm_id d = i" "validate_grants_via_gateway gw (pm_permission_grants d) i = Inr v" "va_all_approved v"
      "validate_order gw m installed records os = Inr qs"
      "ps = \<lparr>pd_id = i, pd_approved = va_approved v, pd_is_target = (i = pm_id m)\<rparr> # qs"
proof (cases "i \<noteq> pm_id m \<and> i \<in> enabled_ids records")
  case True
  then obtain r where "r \<in> set records" "plr_id r = i" "plr_enabled r" by (auto simp: enabled_ids_def)
  then have "validate_order gw m installed records (i # os) = validate_order gw m installed records os"
    using True by auto
  with True assms skipped show ?thesis by simp
next
  case False
  then have run: "\<not> (i \<noteq> pm_id m \<and> (\<exists>r \<in> set records. plr_id r = i \<and> plr_enabled r))"
    by (auto simp: enabled_ids_def)
  show ?thesis
  proof (cases "if i = pm_id m then Some m else find (\<lambda>x. pm_id x = i) installed")
    case None
    with assms run show ?thesis by (simp add: Let_def)
  next
    case (Some d)
    then have d: "pm_id d = i" "d = m \<or> d \<in> set installed" by (auto split: if_splits dest: find_mem)
    from assms run Some d(1) obtain v where
      "validate_grants_via_gateway gw (pm_permission_grants d) i = Inr v" "va_all_approved v"
      and rest: "(case validate_order gw m installed records os of Inl e \<Rightarrow> Inl e
          | Inr qs \<Rightarrow> Inr (\<lparr>pd_id = i, pd_approved = va_approved v, pd_is_target = (i = pm_id m)\<rparr> # qs)) = Inr ps"
      by (auto simp: Let_def simp del: find.simps split: sum.splits if_splits)
    with d False approved [of d v] show ?thesis by (auto split: sum.splits)
  qed
qed

lemma validate_order_ids:
  "validate_order gw m installed records os = Inr ps \<Longrightarrow>
     map pd_id ps = filter (\<lambda>i. i = pm_id m \<or> i \<notin> enabled_ids records) os"
proof (induction os arbitrary: ps)
  case (Cons i os)
  from Cons.prems show ?case by (rule validate_order_Cons) (use Cons.IH in auto)
qed simp

lemma validate_order_target:
  "validate_order gw m installed records os = Inr ps \<Longrightarrow>
     \<forall>p \<in> set ps. pd_is_target p \<longleftrightarrow> pd_id p = pm_id m"
proof (induction os arbitrary: ps)
  case (Cons i os)
  from Cons.prems show ?case by (rule validate_order_Cons) (use Cons.IH in auto)
qed simp

lemma flip_done:
  "flip fs safe ps flipped deps t st = (st', Inr x) \<Longrightarrow>
     enabled_ids st' = enabled_ids st \<union> pd_id ` set ps"
proof (induction ps arbitrary: flipped deps t st)
  case (Cons p ps)
  from Cons.prems obtain r st1 where step: "set_enabled fs safe (pd_id p) (pd_approved p) st = (st1, Inr (Some r))"
    by (auto split: prod.splits sum.splits option.splits)
  with Cons show ?case by (auto simp: set_enabled_some [OF step] split: if_splits)
qed simp

lemma flip_ids: "store_ids (fst (flip fs safe ps flipped deps t st)) = store_ids st"
proof (induction ps arbitrary: flipped deps t st)
  case (Cons p ps)
  have restored: "store_ids (rollback_enabled fs safe js st) = store_ids st" for js st
  proof -
    have "store_ids (fold (\<lambda>i st. fst (set_disabled fs safe i st)) ks st) = store_ids st" for ks st
      by (induction ks arbitrary: st) simp_all
    then show ?thesis by (simp add: rollback_enabled_def)
  qed
  show ?case
  proof (cases "set_enabled fs safe (pd_id p) (pd_approved p) st")
    case (Pair st1 res)
    then have "store_ids st1 = store_ids st" using set_enabled_ids by (metis fst_conv)
    then show ?thesis using Pair by (simp add: Cons.IH restored split: sum.split option.split)
  qed
qed simp

definition quiet :: "faults \<Rightarrow> bool" where
  "quiet fs \<longleftrightarrow> read_fault fs = None \<and> (\<forall>i. reread_fault fs i = None \<and> disable_fault fs i = None)"

lemma rollback_ids:
  "quiet fs \<Longrightarrow> enabled_ids (rollback_enabled fs safe ks st) = enabled_ids st - set ks"
proof -
  assume q: "quiet fs"
  have "enabled_ids (fold (\<lambda>i st. fst (set_disabled fs safe i st)) js st) = enabled_ids st - set js" for js st
    by (induction js arbitrary: st) (use q in \<open>auto simp: quiet_def set_disabled_ok\<close>)
  then show ?thesis by (simp add: rollback_enabled_def)
qed

lemma flip_failed:
  assumes "quiet fs"
  shows "flip fs safe ps flipped deps t st = (st', Inl e) \<Longrightarrow>
    \<exists>pre. set pre \<subseteq> set (butlast (map pd_id ps)) \<and> enabled_ids st' = enabled_ids st \<union> set pre - (set flipped \<union> set pre)"
proof (induction ps arbitrary: flipped deps t st)
  case (Cons p ps)
  show ?case
  proof (cases "\<exists>r st1. set_enabled fs safe (pd_id p) (pd_approved p) st = (st1, Inr (Some r))")
    case True
    then obtain r st1 where step: "set_enabled fs safe (pd_id p) (pd_approved p) st = (st1, Inr (Some r))"
      by blast
    have "\<exists>deps t. flip fs safe ps (flipped @ [pd_id p]) deps t st1 = (st', Inl e)"
      using Cons.prems step by (auto split: if_splits)
    then obtain pre where pre: "set pre \<subseteq> set (butlast (map pd_id ps))"
      "enabled_ids st' = enabled_ids st1 \<union> set pre - (set (flipped @ [pd_id p]) \<union> set pre)"
      using Cons.IH by blast
    moreover have "ps \<noteq> []" using Cons.prems step by (auto split: if_splits)
    ultimately show ?thesis using set_enabled_some [OF step]
      by (intro exI [of _ "pd_id p # pre"]) auto
  next
    case False
    obtain st1 res where step: "set_enabled fs safe (pd_id p) (pd_approved p) st = (st1, res)"
      by (cases "set_enabled fs safe (pd_id p) (pd_approved p) st")
    have "st1 = st"
    proof (cases res)
      case (Inl e)
      then show ?thesis using set_enabled_err step assms by (simp add: quiet_def)
    next
      case (Inr o')
      then have "o' = None" using False step by (cases o') auto
      then show ?thesis using set_enabled_none step Inr by simp
    qed
    moreover have "st' = rollback_enabled fs safe flipped st1"
      using Cons.prems step False by (auto split: sum.splits option.splits)
    ultimately have "st' = rollback_enabled fs safe flipped st" by simp
    then show ?thesis using rollback_ids [OF assms] by (intro exI [of _ "[]"]) simp
  qed
qed simp

subsection \<open>The invariant\<close>

definition within :: "string set \<Rightarrow> plugin_manifest list \<Rightarrow> plugin_manifest list" where
  "within ids all = filter (\<lambda>m. pm_id m \<in> ids) all"

definition needs_met ::
  "('v, 'r) semver \<Rightarrow> overrides \<Rightarrow> plugin_manifest list \<Rightarrow> string set \<Rightarrow> plugin_manifest \<Rightarrow> bool" where
  "needs_met sv cfg all ids m \<longleftrightarrow>
     (\<forall>dep \<in> set (dependencies m). check_edge sv (index (within ids all)) m dep = None)
     \<and> (\<forall>req \<in> set (required_capabilities m). \<exists>b. resolve_capability sv cfg (within ids all) req = Inr b)"

definition sound :: "('v, 'r) env \<Rightarrow> plugin_manifest list \<Rightarrow> plugin_store \<Rightarrow> bool" where
  "sound env all st \<longleftrightarrow>
     (\<forall>m \<in> set all. pm_id m \<in> enabled_ids st \<longrightarrow>
        needs_met (env_semver env) (env_overrides env) all (enabled_ids st) m)"

lemma enabled_iff: "(\<exists>r \<in> set st. plr_enabled r \<and> plr_id r = i) \<longleftrightarrow> i \<in> enabled_ids st"
  by (induction st) auto

lemma enabled_manifests_within: "enabled_manifests st all = within (enabled_ids st) all"
  by (simp add: enabled_manifests_def within_def enabled_iff)

text \<open>What an edge depends on: the id of the plugin, and the version it finds.\<close>

lemma check_edge_cong:
  assumes "pm_id m = pm_id m'"
    and "map_option pm_version (map_of a (ad_id dep)) = map_option pm_version (map_of b (ad_id dep))"
  shows "check_edge sv a m dep = check_edge sv b m' dep"
proof (cases "map_of a (ad_id dep)")
  case None
  with assms(2) have "map_of b (ad_id dep) = None" by simp
  with None assms(1) show ?thesis by (simp add: check_edge_def)
next
  case (Some x)
  with assms(2) have "map_option pm_version (map_of b (ad_id dep)) = Some (pm_version x)" by simp
  then obtain y where "map_of b (ad_id dep) = Some y" "pm_version y = pm_version x" by auto
  with Some assms(1) show ?thesis by (simp add: check_edge_def split: option.split sum.split)
qed

lemma index_within: "map_of (index (within ids all)) j = (if j \<in> ids then map_of (index all) j else None)"
proof -
  have "index (within ids all) = filter (\<lambda>x. fst x \<in> ids) (index all)"
    unfolding index_def within_def rev_filter [symmetric] filter_map by (simp add: comp_def)
  moreover have "map_of (filter (\<lambda>x. fst x \<in> ids) xs) j = (if j \<in> ids then map_of xs j else None)"
    for xs :: "(string \<times> plugin_manifest) list"
    by (induction xs) auto
  ultimately show ?thesis by simp
qed

lemma index_lower:
  "map_of (index (lower_manifests sv cfg ms)) j
   = map_option (lower_manifest sv cfg ms) (map_of (index ms) j)"
proof -
  have "index (lower_manifests sv cfg ms) = map (\<lambda>(k, m). (k, lower_manifest sv cfg ms m)) (index ms)"
    by (simp add: index_def lower_manifests_def rev_map comp_def)
  then show ?thesis by (simp add: map_of_map)
qed

lemma lower_version [simp]: "pm_version (lower_manifest sv cfg ms m) = pm_version m"
  by (simp add: lower_manifest_def Let_def)

lemma check_edge_met: "check_edge sv (index (within ids all)) m dep = None \<Longrightarrow> ad_id dep \<in> ids"
  by (drule check_edge_installed) (auto simp: index_within split: if_splits)

lemma check_edge_within:
  assumes "check_edge sv (index (within ids all)) m dep = None" and "ad_id dep \<in> ids'"
  shows "check_edge sv (index (within ids' all)) m dep = None"
proof -
  have "map_of (index (within ids' all)) (ad_id dep) = map_of (index (within ids all)) (ad_id dep)"
    using check_edge_met [OF assms(1)] assms(2) by (simp add: index_within)
  then have "check_edge sv (index (within ids' all)) m dep = check_edge sv (index (within ids all)) m dep"
    by (intro check_edge_cong) simp_all
  with assms(1) show ?thesis by simp
qed

lemma check_edge_lowered:
  assumes "check_edge sv (index (lower_manifests sv cfg (within ids all))) (lower_manifest sv cfg (within ids all) m) dep = None"
  shows "check_edge sv (index (within ids all)) m dep = None"
proof -
  let ?ms = "within ids all"
  have "map_option pm_version (map_of (index (lower_manifests sv cfg ?ms)) (ad_id dep))
      = map_option pm_version (map_of (index ?ms) (ad_id dep))"
    by (simp add: index_lower option.map_comp comp_def)
  then have "check_edge sv (index (lower_manifests sv cfg ?ms)) (lower_manifest sv cfg ?ms m) dep
      = check_edge sv (index ?ms) m dep"
    by (intro check_edge_cong) simp_all
  with assms show ?thesis by simp
qed

lemma needs_met_enabled:
  assumes "needs_met sv cfg all ids m"
  shows "(\<forall>dep \<in> set (dependencies m). ad_id dep \<in> ids \<and> check_edge sv (index (within ids all)) m dep = None)
    \<and> (\<forall>req \<in> set (required_capabilities m). \<exists>b.
          resolve_capability sv cfg (within ids all) req = Inr b \<and> bd_provider_id b \<in> ids)"
proof (intro conjI ballI)
  fix dep assume "dep \<in> set (dependencies m)"
  with assms show "check_edge sv (index (within ids all)) m dep = None" by (simp add: needs_met_def)
  then show "ad_id dep \<in> ids" by (rule check_edge_met)
next
  fix req assume "req \<in> set (required_capabilities m)"
  with assms obtain b where b: "resolve_capability sv cfg (within ids all) req = Inr b"
    unfolding needs_met_def by blast
  then have "bd_provider_id b \<in> ids" using resolve_capability_sound [OF b] by (auto simp: within_def)
  with b show "\<exists>b. resolve_capability sv cfg (within ids all) req = Inr b \<and> bd_provider_id b \<in> ids" by blast
qed

subsection \<open>Enabling keeps it\<close>

text \<open>What was decided when an enable was planned.\<close>

lemma plan_enable_Inr:
  assumes plan: "plan_enable env m all st = Inr ps"
    and m: "m \<in> set all" "pm_id m \<in> store_ids st"
  obtains os where
    "resolve_enable_order (env_semver env) (pm_id m)
       (lower_manifests (env_semver env) (env_overrides env) (within (store_ids st) all)) = Some (Inr os)"
    "first_binding_error (env_semver env) (env_overrides env)
       (within (enabled_ids st \<union> set os) (within (store_ids st) all)) = None"
    "validate_order (env_gateway env) m (within (store_ids st) all) st os = Inr ps"
proof -
  have inst: "installed_manifests st m all = within (store_ids st) all"
    using m by (auto simp: installed_manifests_def within_def store_ids_def Let_def)
  obtain r where r: "resolve_enable_order (env_semver env) (pm_id m)
       (lower_manifests (env_semver env) (env_overrides env) (within (store_ids st) all)) = Some r"
    using resolve_returns by blast
  have post: "filter (\<lambda>x. pm_id x \<in> set os \<or> (\<exists>r \<in> set st. plr_enabled r \<and> plr_id r = pm_id x)) ms
      = within (enabled_ids st \<union> set os) ms" for os ms
    by (simp add: within_def enabled_iff disj_commute)
  show ?thesis
  proof (cases r)
    case (Inl e)
    with plan r inst show ?thesis by (simp add: plan_enable_def Let_def)
  next
    case (Inr os)
    with plan r inst show ?thesis
      by (intro that [of os]) (auto simp: plan_enable_def Let_def post split: option.splits)
  qed
qed

lemma within_within: "ids \<subseteq> ids' \<Longrightarrow> within ids (within ids' all) = within ids all"
  unfolding within_def filter_filter by (intro filter_cong) auto

lemma order_installed:
  assumes "settled sv (index (lower_manifests sv cfg (within ids all))) os"
  shows "set os \<subseteq> ids"
proof
  fix j assume "j \<in> set os"
  then obtain before after where "os = before @ j # after" by (meson split_list)
  with assms obtain x where "map_of (index (lower_manifests sv cfg (within ids all))) j = Some x"
    unfolding settled_def by blast
  then show "j \<in> ids" by (auto simp: index_lower index_within split: if_splits)
qed

lemma settled_met:
  assumes os: "settled sv (index (lower_manifests sv cfg (within ids all))) os"
    and all: "distinct (map pm_id all)" and m: "m \<in> set all" "pm_id m \<in> set os"
    and dep: "dep \<in> set (dependencies m)"
  shows "check_edge sv (index (within ids all)) m dep = None \<and> ad_id dep \<in> set os"
proof -
  let ?low = "lower_manifest sv cfg (within ids all)"
  from m(2) obtain before after where split: "os = before @ pm_id m # after" by (meson split_list)
  have "pm_id m \<in> ids" using order_installed [OF os] m(2) by auto
  moreover have "map_of (index all) (pm_id m) = Some m"
    using all m(1) by (simp add: index_Some)
  ultimately have "map_of (index (lower_manifests sv cfg (within ids all))) (pm_id m) = Some (?low m)"
    by (simp add: index_lower index_within)
  with os split have "\<forall>dep \<in> set (dependencies (?low m)).
      check_edge sv (index (lower_manifests sv cfg (within ids all))) (?low m) dep = None \<and> ad_id dep \<in> set before"
    unfolding settled_def by fastforce
  moreover have "dep \<in> set (dependencies (?low m))" using dep lower_dependencies by blast
  ultimately have "check_edge sv (index (lower_manifests sv cfg (within ids all))) (?low m) dep = None"
    and "ad_id dep \<in> set before" by auto
  then show ?thesis using split by (auto intro: check_edge_lowered)
qed

lemma enable_needs_met:
  assumes plan: "plan_enable env m all st = Inr ps"
    and all: "distinct (map pm_id all)" and m: "m \<in> set all" "pm_id m \<in> store_ids st"
    and sound: "sound env all st"
    and after: "enabled_ids st' = enabled_ids st \<union> pd_id ` set ps"
  shows "sound env all st'"
proof -
  let ?sv = "env_semver env" and ?cfg = "env_overrides env" and ?ids = "store_ids st"
  obtain os where res: "resolve_enable_order ?sv (pm_id m) (lower_manifests ?sv ?cfg (within ?ids all)) = Some (Inr os)"
    and bind: "first_binding_error ?sv ?cfg (within (enabled_ids st \<union> set os) (within ?ids all)) = None"
    and val: "validate_order (env_gateway env) m (within ?ids all) st os = Inr ps"
    by (rule plan_enable_Inr [OF plan m])
  have os: "settled ?sv (index (lower_manifests ?sv ?cfg (within ?ids all))) os"
    using resolve_order [OF res] by blast
  have "pd_id ` set ps = set (map pd_id ps)" by simp
  then have E: "enabled_ids st' = enabled_ids st \<union> set os"
    using after unfolding validate_order_ids [OF val] by auto
  have sub: "enabled_ids st \<union> set os \<subseteq> ?ids"
    using order_installed [OF os] enabled_subset [of st] by simp
  have "needs_met ?sv ?cfg all (enabled_ids st') x" if x: "x \<in> set all" "pm_id x \<in> enabled_ids st'" for x
    unfolding needs_met_def
  proof (intro conjI ballI)
    fix dep assume dep: "dep \<in> set (dependencies x)"
    show "check_edge ?sv (index (within (enabled_ids st') all)) x dep = None"
    proof (cases "pm_id x \<in> set os")
      case True
      from settled_met [OF os all x(1) True dep] show ?thesis
        using check_edge_within E by blast
    next
      case False
      with x E have "pm_id x \<in> enabled_ids st" by simp
      with sound x(1) dep have "check_edge ?sv (index (within (enabled_ids st) all)) x dep = None"
        by (simp add: sound_def needs_met_def)
      with check_edge_met [OF this] show ?thesis using check_edge_within E by blast
    qed
  next
    fix req assume "req \<in> set (required_capabilities x)"
    moreover have "x \<in> set (within (enabled_ids st \<union> set os) all)"
      using x E by (simp add: within_def)
    ultimately show "\<exists>b. resolve_capability ?sv ?cfg (within (enabled_ids st') all) req = Inr b"
      using bind by (simp add: first_binding_error_None within_within [OF sub] E)
  qed
  then show ?thesis by (simp add: sound_def)
qed

lemma plan_target_last:
  assumes plan: "plan_enable env m all st = Inr ps" and m: "m \<in> set all" "pm_id m \<in> store_ids st"
  shows "\<exists>ds. map pd_id ps = ds @ [pm_id m] \<and> set ds \<inter> insert (pm_id m) (enabled_ids st) = {}
    \<and> distinct ds \<and> set ds \<subseteq> store_ids st"
proof -
  obtain os where res: "resolve_enable_order (env_semver env) (pm_id m)
      (lower_manifests (env_semver env) (env_overrides env) (within (store_ids st) all)) = Some (Inr os)"
    and val: "validate_order (env_gateway env) m (within (store_ids st) all) st os = Inr ps"
    by (rule plan_enable_Inr [OF plan m])
  have os: "distinct os" "os \<noteq> []" "last os = pm_id m" "set os \<subseteq> store_ids st"
    using resolve_order [OF res] order_installed by blast+
  then obtain front where front: "os = front @ [pm_id m]" by (metis append_butlast_last_id)
  then have "map pd_id ps = filter (\<lambda>i. i = pm_id m \<or> i \<notin> enabled_ids st) front @ [pm_id m]"
    using validate_order_ids [OF val] by simp
  then show ?thesis using os(1,4) front by (intro exI conjI) auto
qed

lemma flip_target:
  "flip fs safe ps flipped deps t st = (st', Inr (deps', t')) \<Longrightarrow>
     t \<noteq> None \<or> (\<exists>p \<in> set ps. pd_is_target p) \<Longrightarrow> t' \<noteq> None"
proof (induction ps arbitrary: flipped deps t st)
  case (Cons p ps)
  from Cons.prems(1) obtain r st1 where step: "set_enabled fs safe (pd_id p) (pd_approved p) st = (st1, Inr (Some r))"
    by (auto split: prod.splits sum.splits option.splits)
  with Cons show ?case by (cases "pd_is_target p") auto
qed simp

text \<open>An enable is refused, fails while the bits are flipped, or turns on what was planned.\<close>

lemma enable_app_cases:
  assumes run: "enable_app env m all st = (st', res)" and m: "m \<in> set all"
  obtains (refused) e where "st' = st" "res = Inl e"
  | (failed) ps e where "plan_enable env m all st = Inr ps" "pm_id m \<in> store_ids st"
      "flip (env_faults env) (env_safe env) ps [] [] None st = (st', Inl e)" "res = Inl e"
  | (turned_on) ps deps r where "plan_enable env m all st = Inr ps" "pm_id m \<in> store_ids st"
      "flip (env_faults env) (env_safe env) ps [] [] None st = (st', Inr (deps, Some r))"
      "res = Inr \<lparr>eo_dependencies = deps, eo_target = r\<rparr>"
proof (cases "read_fault (env_faults env) = None \<and> pm_id m \<in> store_ids st")
  case False
  have "find (\<lambda>r. plr_id r = pm_id m) st = None" if "pm_id m \<notin> store_ids st"
    using that by (force simp: find_None_iff store_ids_def)
  with False have "st' = st \<and> (\<exists>e. res = Inl e)"
    using run by (cases "read_fault (env_faults env)")
      (auto simp: enable_app_def enable_app_inner_def get_record_def)
  with refused show ?thesis by blast
next
  case True
  then obtain r where r: "find (\<lambda>r. plr_id r = pm_id m) st = Some r" using find_row by blast
  show ?thesis
  proof (cases "plan_enable env m all st")
    case (Inl e)
    with run r True refused show ?thesis
      by (auto simp: enable_app_def enable_app_inner_def get_record_def list_all_records_def)
  next
    case (Inr ps)
    obtain st1 out where fl: "flip (env_faults env) (env_safe env) ps [] [] None st = (st1, out)"
      by (cases "flip (env_faults env) (env_safe env) ps [] [] None st")
    show ?thesis
    proof (cases out)
      case (Inl e)
      with run r True \<open>plan_enable env m all st = Inr ps\<close> fl have "st' = st1" "res = Inl e"
        by (simp_all add: enable_app_def enable_app_inner_def get_record_def list_all_records_def)
      with failed Inr True fl Inl show ?thesis by simp
    next
      case (Inr x)
      obtain deps t where x: "x = (deps, t)" by (cases x)
      obtain ds where "map pd_id ps = ds @ [pm_id m]"
        using plan_target_last [OF \<open>plan_enable env m all st = Inr ps\<close> m] True by blast
      then have "pm_id m \<in> pd_id ` set ps" by (metis image_set in_set_conv_decomp)
      moreover have "\<forall>p \<in> set ps. pd_is_target p \<longleftrightarrow> pd_id p = pm_id m"
        using plan_enable_Inr [OF \<open>plan_enable env m all st = Inr ps\<close> m] True validate_order_target by metis
      ultimately have "\<exists>p \<in> set ps. pd_is_target p" by auto
      with flip_target fl Inr x have "t \<noteq> None" by metis
      then obtain rec where "t = Some rec" by blast
      with run r True \<open>plan_enable env m all st = Inr ps\<close> fl Inr x
      have "st' = st1" "res = Inr \<lparr>eo_dependencies = deps, eo_target = rec\<rparr>"
        by (simp_all add: enable_app_def enable_app_inner_def get_record_def list_all_records_def)
      with turned_on \<open>plan_enable env m all st = Inr ps\<close> True fl Inr x \<open>t = Some rec\<close> show ?thesis by simp
    qed
  qed
qed

lemma enable_failed_same:
  assumes run: "enable_app env m all st = (st', Inl e)" and m: "m \<in> set all" and q: "quiet (env_faults env)"
  shows "enabled_ids st' = enabled_ids st"
  using run m
proof (rule enable_app_cases)
  fix ps e' assume plan: "plan_enable env m all st = Inr ps" and i: "pm_id m \<in> store_ids st"
    and fl: "flip (env_faults env) (env_safe env) ps [] [] None st = (st', Inl e')"
  obtain pre where pre: "set pre \<subseteq> set (butlast (map pd_id ps))"
      "enabled_ids st' = enabled_ids st \<union> set pre - (set [] \<union> set pre)"
    using flip_failed [OF q fl] by blast
  obtain ds where "map pd_id ps = ds @ [pm_id m]" "set ds \<inter> insert (pm_id m) (enabled_ids st) = {}"
    using plan_target_last [OF plan m i] by blast
  with pre show ?thesis by auto
qed simp_all

lemma enable_keeps_sound:
  assumes run: "enable_app env m all st = (st', res)" and m: "m \<in> set all"
    and all: "distinct (map pm_id all)" and sound: "sound env all st"
    and q: "\<And>e. res = Inl e \<Longrightarrow> quiet (env_faults env)"
  shows "sound env all st'"
  using run m
proof (rule enable_app_cases)
  fix ps e assume "flip (env_faults env) (env_safe env) ps [] [] None st = (st', Inl e)" and "res = Inl e"
  then have "enabled_ids st' = enabled_ids st" using enable_failed_same run m q by blast
  then show ?thesis using sound by (simp add: sound_def)
next
  fix ps deps r assume "plan_enable env m all st = Inr ps" "pm_id m \<in> store_ids st"
    "flip (env_faults env) (env_safe env) ps [] [] None st = (st', Inr (deps, Some r))"
  then show ?thesis using enable_needs_met all m sound flip_done by blast
qed (use sound in simp)

subsection \<open>Disabling keeps it\<close>

definition enabled_graph :: "('v, 'r) env \<Rightarrow> plugin_manifest list \<Rightarrow> plugin_store \<Rightarrow> (string \<times> string) set" where
  "enabled_graph env all st =
     declares (lower_manifests (env_semver env) (env_overrides env) (within (enabled_ids st) all))"

lemma enabled_graph_edge:
  assumes x: "x \<in> set all" "pm_id x \<in> enabled_ids st"
  shows "dep \<in> set (dependencies x) \<Longrightarrow> (pm_id x, ad_id dep) \<in> enabled_graph env all st"
    and "req \<in> set (required_capabilities x) \<Longrightarrow>
      resolve_capability (env_semver env) (env_overrides env) (within (enabled_ids st) all) req = Inr b \<Longrightarrow>
      bd_provider_id b \<noteq> pm_id x \<Longrightarrow> (pm_id x, bd_provider_id b) \<in> enabled_graph env all st"
proof -
  let ?low = "lower_manifest (env_semver env) (env_overrides env) (within (enabled_ids st) all)"
  have mem: "?low x \<in> set (lower_manifests (env_semver env) (env_overrides env) (within (enabled_ids st) all))"
    using x by (simp add: lower_manifests_def within_def)
  have edge: "(pm_id x, j) \<in> enabled_graph env all st" if "j \<in> ad_id ` set (dependencies (?low x))" for j
    unfolding enabled_graph_def declares_def using that mem lower_id by blast
  { assume "dep \<in> set (dependencies x)"
    then show "(pm_id x, ad_id dep) \<in> enabled_graph env all st"
      using edge lower_dependencies by blast }
  { assume "req \<in> set (required_capabilities x)"
      and "resolve_capability (env_semver env) (env_overrides env) (within (enabled_ids st) all) req = Inr b"
      and "bd_provider_id b \<noteq> pm_id x"
    then have "b \<in> set (fst (resolve_all (env_semver env) (env_overrides env) (within (enabled_ids st) all) x))"
      unfolding resolve_all_bindings by (metis image_eqI)
    with \<open>bd_provider_id b \<noteq> pm_id x\<close> have "bd_provider_id b \<in> ad_id ` set (dependencies (?low x))"
      unfolding conjunct2 [OF lower_dependencies] by blast
    then show "(pm_id x, bd_provider_id b) \<in> enabled_graph env all st" by (rule edge) }
qed

text \<open>Removing a set that has, with each plugin, those that depend on it.\<close>

lemma removal_sound:
  assumes sound: "sound env all st" and after: "enabled_ids st' = enabled_ids st - D"
    and closed: "\<And>x y. x \<in> D \<Longrightarrow> (y, x) \<in> enabled_graph env all st \<Longrightarrow> y \<in> D"
  shows "sound env all st'"
proof -
  let ?sv = "env_semver env" and ?cfg = "env_overrides env" and ?E = "enabled_ids st"
  have "needs_met ?sv ?cfg all (?E - D) x" if x: "x \<in> set all" "pm_id x \<in> ?E - D" for x
    unfolding needs_met_def
  proof (intro conjI ballI)
    fix dep assume dep: "dep \<in> set (dependencies x)"
    with sound x have met: "check_edge ?sv (index (within ?E all)) x dep = None"
      by (simp add: sound_def needs_met_def)
    have "ad_id dep \<notin> D" using closed enabled_graph_edge(1) [OF x(1) _ dep] x(2) by blast
    then show "check_edge ?sv (index (within (?E - D) all)) x dep = None"
      using check_edge_within [OF met] check_edge_met [OF met] by simp
  next
    fix req assume req: "req \<in> set (required_capabilities x)"
    with sound x obtain b where b: "resolve_capability ?sv ?cfg (within ?E all) req = Inr b"
      unfolding sound_def needs_met_def by blast
    have "bd_provider_id b \<notin> D"
      using closed enabled_graph_edge(2) [OF x(1) _ req b] x(2) by (metis DiffD1 DiffD2)
    then have "resolve_capability ?sv ?cfg (filter (\<lambda>m. pm_id m \<notin> D) (within ?E all)) req = Inr b"
      by (intro resolve_capability_filter [OF b]) simp
    moreover have "filter (\<lambda>m. pm_id m \<notin> D) (within ?E all) = within (?E - D) all"
      by (simp add: within_def conj_commute)
    ultimately show "\<exists>b. resolve_capability ?sv ?cfg (within (?E - D) all) req = Inr b" by auto
  qed
  then show ?thesis by (simp add: sound_def after)
qed

lemma plan_disable_Inr:
  assumes "plan_disable env i all cascade force st = Inr os"
  shows "resolve_disable_order i (lower_manifests (env_semver env) (env_overrides env)
           (within (enabled_ids st) all)) = Some os"
    and "\<forall>j \<in> set os. \<not> is_mandatory j \<and> (force \<or> \<not> is_load_bearing j)"
    and "i \<in> store_ids st"
proof -
  let ?ms = "lower_manifests (env_semver env) (env_overrides env) (within (enabled_ids st) all)"
  obtain ds where ds: "dependents_of i ?ms = Some ds" "resolve_disable_order i ?ms = Some (ds @ [i])"
    using dependents_of_sound by blast
  have ne: "find P js = None \<longleftrightarrow> (\<forall>j \<in> set js. \<not> P j)" for P and js :: "string list"
    by (auto simp: find_None_iff)
  from assms ds show "resolve_disable_order i ?ms = Some os"
    by (auto simp: plan_disable_def Let_def enabled_manifests_within split: if_splits option.splits)
  from assms ds show "\<forall>j \<in> set os. \<not> is_mandatory j \<and> (force \<or> \<not> is_load_bearing j)"
    by (auto simp: plan_disable_def Let_def enabled_manifests_within ne split: if_splits option.splits)
  from assms show "i \<in> store_ids st" by (auto simp: plan_disable_def store_ids_def split: if_splits)
qed

lemma disable_each_prefix:
  "disable_each fs safe i os ds st = (st', res) \<Longrightarrow>
     \<exists>k. enabled_ids st' = enabled_ids st - set (take k os) \<and> (\<forall>x. res = Inr x \<longrightarrow> k = length os)"
proof (induction os arbitrary: ds st)
  case (Cons j os)
  obtain st1 r where step: "set_disabled fs safe j st = (st1, r)" by (cases "set_disabled fs safe j st")
  show ?case
  proof (cases "\<exists>ds. disable_each fs safe i os ds st1 = (st', res) \<and> (\<exists>x. r = Inr x)")
    case True
    then obtain ds' x where rest: "disable_each fs safe i os ds' st1 = (st', res)" "r = Inr x" by blast
    from Cons.IH [OF rest(1)] obtain k where k: "enabled_ids st' = enabled_ids st1 - set (take k os)"
      "\<forall>x. res = Inr x \<longrightarrow> k = length os" by blast
    then show ?thesis using set_disabled_inr step rest(2)
      by (intro exI [of _ "Suc k"]) auto
  next
    case False
    with Cons.prems step have "st' = st1" "\<exists>e. res = Inl e"
      by (auto split: sum.splits option.splits if_splits)
    then show ?thesis using set_disabled_any [OF step]
      by (elim disjE) (auto intro: exI [of _ 0] exI [of _ 1])
  qed
qed auto

text \<open>A disable removes a beginning of the disable order, all of it when it succeeds.\<close>

lemma disable_app_prefix:
  assumes "disable_app env i all cascade force st = (st', res)"
  shows "(st' = st \<and> (\<exists>e. res = Inl e))
    \<or> (\<exists>os k. plan_disable env i all cascade force st = Inr os
         \<and> enabled_ids st' = enabled_ids st - set (take k os)
         \<and> (\<forall>x. res = Inr x \<longrightarrow> k = length os))"
proof (cases "read_fault (env_faults env)")
  case None
  show ?thesis
  proof (cases "plan_disable env i all cascade force st")
    case (Inr os)
    with assms None have "disable_each (env_faults env) (env_safe env) i os [] st = (st', res)"
      by (simp add: disable_app_def disable_app_inner_def list_all_records_def)
    from disable_each_prefix [OF this] Inr show ?thesis by blast
  qed (use assms None in \<open>auto simp: disable_app_def disable_app_inner_def list_all_records_def\<close>)
qed (use assms in \<open>auto simp: disable_app_def disable_app_inner_def list_all_records_def\<close>)

lemma take_closed: "in_order r os \<Longrightarrow> x \<in> set (take k os) \<Longrightarrow> r `` {x} \<subseteq> set (take k os)"
proof -
  assume io: "in_order r os" and "x \<in> set (take k os)"
  then obtain before after where split: "take k os = before @ x # after" by (meson split_list)
  then have "os = before @ x # (after @ drop k os)" by (metis append.assoc append_Cons append_take_drop_id)
  with io have "r `` {x} \<subseteq> set before" unfolding in_order_def by blast
  then show ?thesis using split by auto
qed

lemma disable_keeps_sound:
  assumes run: "disable_app env i all cascade force st = (st', res)" and sound: "sound env all st"
    and acyc: "\<And>e. res = Inl e \<Longrightarrow> acyclic (enabled_graph env all st)"
  shows "sound env all st'"
  using disable_app_prefix [OF run]
proof (elim disjE exE conjE)
  fix os k assume plan: "plan_disable env i all cascade force st = Inr os"
    and after: "enabled_ids st' = enabled_ids st - set (take k os)"
    and full: "\<forall>x. res = Inr x \<longrightarrow> k = length os"
  let ?g = "enabled_graph env all st"
  obtain os' where os': "resolve_disable_order i (lower_manifests (env_semver env) (env_overrides env)
      (within (enabled_ids st) all)) = Some os'" "set os' = {j. (j, i) \<in> ?g\<^sup>*}" "acyclic ?g \<longrightarrow> in_order (?g\<inverse>) os'"
    using disable_order_sound unfolding enabled_graph_def by blast
  with plan_disable_Inr(1) [OF plan] have os: "set os = {j. (j, i) \<in> ?g\<^sup>*}" "acyclic ?g \<longrightarrow> in_order (?g\<inverse>) os"
    by simp_all
  show ?thesis
  proof (rule removal_sound [OF sound after])
    fix x y assume x: "x \<in> set (take k os)" and e: "(y, x) \<in> ?g"
    show "y \<in> set (take k os)"
    proof (cases res)
      case (Inl err)
      then show ?thesis using os(2) acyc take_closed x e by blast
    next
      case (Inr out)
      with full x os(1) e show ?thesis by (auto intro: converse_rtrancl_into_rtrancl)
    qed
  qed
qed (use sound in simp)

lemma disable_spares:
  assumes run: "disable_app env i all cascade force st = (st', res)"
    and j: "j \<in> enabled_ids st" "is_mandatory j \<or> \<not> force \<and> is_load_bearing j"
  shows "j \<in> enabled_ids st'"
  using disable_app_prefix [OF run]
proof (elim disjE exE conjE)
  fix os k assume plan: "plan_disable env i all cascade force st = Inr os"
    and "enabled_ids st' = enabled_ids st - set (take k os)"
  moreover have "j \<notin> set os" using plan_disable_Inr(2) [OF plan] j(2) by blast
  ultimately show ?thesis using j(1) set_take_subset [of k os] by blast
qed (use j in simp)

end
