(* ===== verification/Core_PluginReach.thy ===== *)
theory Core_PluginReach
  imports Core_PluginSound
begin

section \<open>The plugins of a node over time\<close>

text \<open>
  The states a node reaches by the operations of \<open>lifecycle.rs\<close>: installing, enabling, disabling,
  uninstalling, updating and editing grants, in any order and with any answers of the gateway, one
  operation after the other, except that while an enable waits for the gateway others may do what
  turns no plugin on or off.  In each of these states every enabled plugin has what it needs.  Taken as given: the manifests
  and the preferences of bindings stay as they are, the reads and the disables of an operation do
  not fail, and nothing else writes the bits (the seeding at start and the migrations do).
  Also here: what an enable approves is exactly what the manifests declare, and the plan of an enable
  is what the enable then does.
\<close>

subsection \<open>Steps\<close>

inductive reachable ::
  "('v, 'r) semver \<Rightarrow> overrides \<Rightarrow> plugin_manifest list \<Rightarrow> plugin_store \<times> job list \<Rightarrow> bool"
  for sv :: "('v, 'r) semver" and cfg :: overrides and all :: "plugin_manifest list"
where
  fresh: "reachable sv cfg all ([], jobs)"
| install: "reachable sv cfg all (st, jobs) \<Longrightarrow> install_app sv fs ui m st = (st', res)
    \<Longrightarrow> reachable sv cfg all (st', jobs)"
| enable: "reachable sv cfg all (st, jobs) \<Longrightarrow> env_semver env = sv \<Longrightarrow> env_overrides env = cfg
    \<Longrightarrow> quiet (env_faults env) \<Longrightarrow> m \<in> set all \<Longrightarrow> enabled_ids (others st) = enabled_ids st
    \<Longrightarrow> enable_app_meanwhile env others m all st = (st', eres)
    \<Longrightarrow> reachable sv cfg all (st', jobs)"
| grants: "reachable sv cfg all (st, jobs) \<Longrightarrow> env_semver env = sv
    \<Longrightarrow> set_app_grants env m desired st = (st', gres)
    \<Longrightarrow> reachable sv cfg all (st', jobs)"
| update: "reachable sv cfg all (st, jobs) \<Longrightarrow> env_semver env = sv
    \<Longrightarrow> update_app env m code forced st = (st', upres)
    \<Longrightarrow> reachable sv cfg all (st', jobs)"
| disable: "reachable sv cfg all (st, jobs) \<Longrightarrow> env_semver env = sv \<Longrightarrow> env_overrides env = cfg
    \<Longrightarrow> quiet (env_faults env) \<Longrightarrow> disable_app env i all cascade force st = (st', dres)
    \<Longrightarrow> reachable sv cfg all (st', jobs)"
| uninstall: "reachable sv cfg all (st, jobs) \<Longrightarrow> env_semver env = sv \<Longrightarrow> env_overrides env = cfg
    \<Longrightarrow> quiet (env_faults env)
    \<Longrightarrow> uninstall_app_inner env undeletable False i all cascade (st, jobs) = ((st', jobs'), ures)
    \<Longrightarrow> reachable sv cfg all (st', jobs')"

subsection \<open>Each step\<close>

lemma enabled_append [simp]: "enabled_ids (xs @ ys) = enabled_ids xs \<union> enabled_ids ys"
  by (auto simp: enabled_ids_def)

lemma set_ui_code_enabled [simp]: "enabled_ids (fst (set_ui_code fs i code st)) = enabled_ids st"
proof -
  have "enabled_ids (map (\<lambda>r. if plr_id r = i then r\<lparr>plr_ui_code := code\<rparr> else r) st) = enabled_ids st"
    by (induction st) auto
  then show ?thesis by (simp add: set_ui_code_def split: option.split)
qed

lemma install_enabled: "install_app sv fs ui m st = (st', res) \<Longrightarrow> enabled_ids st' = enabled_ids st"
  using set_ui_code_enabled [of fs "pm_id m"]
  by (auto simp: install_app_def insert_record_def Let_def split: sum.splits option.splits if_splits)

lemma find_enabled: "find (\<lambda>r. plr_id r = i) st = Some r \<Longrightarrow> plr_enabled r \<Longrightarrow> i \<in> enabled_ids st"
  by (induction st) (auto split: if_splits)

text \<open>Editing grants never turns a plugin on, nor off.\<close>

lemma set_enabled_again:
  assumes "set_enabled fs safe i g st = (st1, res)" and "i \<in> enabled_ids st"
  shows "enabled_ids st1 = enabled_ids st"
  using assms(1) unfolding set_enabled_def
  by (rule update_row_cases) (use assms(2) in \<open>auto simp: enabled_map_on\<close>)

lemma set_app_grants_store:
  assumes "set_app_grants env m desired st = (st', res)"
  shows "st' = st \<or> (\<exists>r v. find (\<lambda>r. plr_id r = pm_id m) st = Some r \<and> plr_enabled r
    \<and> set desired \<subseteq> set (pm_permission_grants m)
    \<and> validate_grants_via_gateway (env_gateway env) desired (pm_id m) = Inr v \<and> va_all_approved v
    \<and> st' = fst (set_enabled (env_faults env) (env_safe env) (pm_id m) (va_approved v) st))"
proof (cases "get_record (env_faults env) (pm_id m) st")
  case (Inl e)
  with assms show ?thesis by (simp add: set_app_grants_def)
next
  case (Inr found)
  show ?thesis
  proof (cases "\<exists>r v. found = Some r \<and> plr_enabled r \<and> find (\<lambda>g. g \<notin> set (pm_permission_grants m)) desired = None
      \<and> validate_grants_via_gateway (env_gateway env) desired (pm_id m) = Inr v \<and> va_all_approved v")
    case True
    then obtain r v where 1: "found = Some r" "plr_enabled r"
        "find (\<lambda>g. g \<notin> set (pm_permission_grants m)) desired = None"
        "validate_grants_via_gateway (env_gateway env) desired (pm_id m) = Inr v" "va_all_approved v" by blast
    have "find (\<lambda>r. plr_id r = pm_id m) st = Some r"
      using Inr 1(1) by (simp add: get_record_def split: option.splits)
    moreover have "set desired \<subseteq> set (pm_permission_grants m)" using 1(3) by (auto simp: find_None_iff)
    moreover obtain st1 out where
      step: "set_enabled (env_faults env) (env_safe env) (pm_id m) (va_approved v) st = (st1, out)" by fastforce
    moreover have "st' = st1"
      using assms Inr 1 step by (simp add: set_app_grants_def split: sum.splits option.splits)
    ultimately show ?thesis using 1 by auto
  next
    case False
    then have "st' = st" using assms Inr
      by (auto simp: set_app_grants_def split: option.splits sum.splits if_splits)
    then show ?thesis by simp
  qed
qed

lemma set_app_grants_enabled:
  assumes "set_app_grants env m desired st = (st', res)"
  shows "enabled_ids st' = enabled_ids st"
  using set_app_grants_store [OF assms] find_enabled set_enabled_again by (metis prod.collapse)

text \<open>Nor does an update, whatever it fails in.\<close>

lemma enabled_map_keep:
  "(\<And>r. plr_enabled (f r) = plr_enabled r \<and> plr_id (f r) = plr_id r) \<Longrightarrow>
   enabled_ids (map (\<lambda>r. if plr_id r = i then f r else r) st) = enabled_ids st"
  by (induction st) auto

lemma update_row_keeps:
  assumes "update_row fault fs safe f i st = (st', res)"
    and "\<And>r. plr_enabled (f r) = plr_enabled r \<and> plr_id (f r) = plr_id r"
  shows "enabled_ids st' = enabled_ids st"
  using assms(1) by (rule update_row_cases) (simp_all add: enabled_map_keep assms(2))

lemma update_app_enabled:
  assumes "update_app env m code force st = (st', res)"
  shows "enabled_ids st' = enabled_ids st"
proof -
  have version: "enabled_ids st1 = enabled_ids st" if "set_version fs safe i v st = (st1, r)" for fs safe i v st st1 r
    using update_row_keeps [OF that [unfolded set_version_def]] by simp
  have approved: "enabled_ids st1 = enabled_ids st"
    if "set_approved_grants fs safe i g st = (st1, r)" for fs safe i g st st1 r
    using update_row_keeps [OF that [unfolded set_approved_grants_def]] by simp
  have ui: "enabled_ids st1 = enabled_ids st" if "set_ui_code fs i c st = (st1, r)" for fs i c st st1 r
    using set_ui_code_enabled [of fs i c st] that by simp
  show ?thesis
    using assms unfolding update_app_def Let_def
    by (auto split: option.splits sum.splits prod.splits if_splits update_plan.splits
        dest!: version approved ui)
qed

text \<open>
  An enable that is overtaken only by what turns no plugin on or off keeps the invariant like one that
  is not overtaken.
\<close>

lemma enable_meanwhile_cases:
  assumes "enable_app_meanwhile env others m all st = (st', res)"
  shows "st' = st \<or> st' = others st \<or> (\<exists>ps out. pm_id m \<in> store_ids st \<and> plan_enable env m all st = Inr ps
    \<and> flip (env_faults env) (env_safe env) ps [] [] None (others st) = (st', out))"
proof (cases "read_fault (env_faults env) = None \<and> pm_id m \<in> store_ids st")
  case False
  have "find (\<lambda>r. plr_id r = pm_id m) st = None" if "pm_id m \<notin> store_ids st"
    using that by (force simp: find_None_iff store_ids_def)
  with False assms show ?thesis
    by (cases "read_fault (env_faults env)") (auto simp: enable_app_meanwhile_def get_record_def)
next
  case True
  then obtain r where "find (\<lambda>r. plr_id r = pm_id m) st = Some r" using find_row by blast
  with True assms show ?thesis
    by (auto simp: enable_app_meanwhile_def get_record_def list_all_records_def
        split: sum.splits prod.splits option.splits)
qed

lemma enable_meanwhile_none: "enable_app_meanwhile env (\<lambda>st. st) = enable_app env"
  by (intro ext) (simp add: enable_app_meanwhile_def enable_app_def enable_app_inner_def split: sum.split option.split prod.split)

lemma enable_meanwhile_keeps_sound:
  assumes run: "enable_app_meanwhile env others m all st = (st', res)" and m: "m \<in> set all"
    and all: "distinct (map pm_id all)" and sound: "sound env all st" and q: "quiet (env_faults env)"
    and same: "enabled_ids (others st) = enabled_ids st"
  shows "sound env all st'"
  using enable_meanwhile_cases [OF run]
proof (elim disjE exE conjE)
  fix ps out assume i: "pm_id m \<in> store_ids st" and plan: "plan_enable env m all st = Inr ps"
    and fl: "flip (env_faults env) (env_safe env) ps [] [] None (others st) = (st', out)"
  show ?thesis
  proof (cases out)
    case (Inl e)
    obtain pre where pre: "set pre \<subseteq> set (butlast (map pd_id ps))"
        "enabled_ids st' = enabled_ids (others st) \<union> set pre - (set [] \<union> set pre)"
      using flip_failed [OF q fl [unfolded Inl]] by blast
    obtain ds where "map pd_id ps = ds @ [pm_id m]" "set ds \<inter> insert (pm_id m) (enabled_ids st) = {}"
      using plan_target_last [OF plan m i] by blast
    with pre same have "enabled_ids st' = enabled_ids st" by auto
    then show ?thesis using sound by (simp add: sound_def)
  next
    case (Inr x)
    then have "enabled_ids st' = enabled_ids st \<union> pd_id ` set ps"
      using flip_done fl same by metis
    then show ?thesis using enable_needs_met [OF plan all m i sound] by blast
  qed
qed (use sound same in \<open>simp_all add: sound_def\<close>)

text \<open>With reads and disables that do not fail, a disable is refused or succeeds.\<close>

lemma disable_each_quiet:
  assumes "quiet fs"
  shows "i \<in> store_ids st \<Longrightarrow> disable_each fs safe i os ds st = (st', res) \<Longrightarrow> \<exists>x. res = Inr x"
proof (induction os arbitrary: ds st)
  case (Cons j os)
  obtain st1 r where step: "set_disabled fs safe j st = (st1, r)" by (cases "set_disabled fs safe j st")
  then have i: "i \<in> store_ids st1" using Cons.prems(1) set_disabled_ids by (metis fst_conv)
  have "(\<exists>e. r = Inr (Some e)) \<or> (r = Inr None \<and> j \<notin> store_ids st)"
    using step unfolding set_disabled_def
    by (rule update_row_cases) (use assms in \<open>auto simp: quiet_def\<close>)
  then show ?case using Cons.IH [OF i] Cons.prems step by (auto split: if_splits)
qed auto

lemma disable_quiet_sound:
  assumes run: "disable_app env i all cascade force st = (st', res)" and sound: "sound env all st"
    and q: "quiet (env_faults env)"
  shows "sound env all st'"
proof (cases "\<exists>os. plan_disable env i all cascade force st = Inr os")
  case True
  then obtain os where plan: "plan_disable env i all cascade force st = Inr os" by blast
  with run q have "disable_each (env_faults env) (env_safe env) i os [] st = (st', res)"
    by (simp add: disable_app_def disable_app_inner_def list_all_records_def quiet_def)
  then obtain x where "res = Inr x" using disable_each_quiet [OF q plan_disable_Inr(3) [OF plan]] by blast
  then show ?thesis using disable_keeps_sound [OF run sound] by simp
next
  case False
  with run q have "st' = st"
    by (auto simp: disable_app_def disable_app_inner_def list_all_records_def quiet_def split: sum.splits)
  then show ?thesis using sound by simp
qed

lemma enabled_remove: "enabled_ids (filter (\<lambda>r. plr_id r \<noteq> i) st) = enabled_ids st - {i}"
  by (induction st) auto

text \<open>An uninstall disables, and then removes the record of what it disabled.\<close>

lemma uninstall_store:
  assumes "uninstall_app_inner env undeletable False i all cascade (st, jobs) = ((st', jobs'), res)"
  shows "st' = st \<or> (\<exists>st1 dres. disable_app env i all cascade False st = (st1, dres)
    \<and> (st' = st1 \<or> (\<exists>x. dres = Inr x) \<and> st' = filter (\<lambda>r. plr_id r \<noteq> i) st1))"
proof (cases "list_all_records (env_faults env) st")
  case (Inr records)
  obtain st1 dres where run: "disable_app_inner env False i all cascade False st = (st1, dres)"
    by (cases "disable_app_inner env False i all cascade False st")
  show ?thesis
  proof (cases "i \<in> plr_id ` set records \<and> \<not> is_uninstall_protected i")
    case True
    then show ?thesis using assms Inr run
      by (auto simp: uninstall_app_inner_def disable_app_def remove_record_def
          split: sum.splits option.splits)
  next
    case False
    then have "st' = st" using assms Inr
      by (cases "i \<in> plr_id ` set records") (simp_all add: uninstall_app_inner_def)
    then show ?thesis by simp
  qed
qed (use assms in \<open>simp add: uninstall_app_inner_def\<close>)

lemma uninstall_keeps_sound:
  assumes run: "uninstall_app_inner env undeletable False i all cascade (st, jobs) = ((st', jobs'), res)"
    and sound: "sound env all st" and q: "quiet (env_faults env)"
  shows "sound env all st'"
  using uninstall_store [OF run]
proof (elim disjE exE conjE)
  fix st1 dres x assume dis: "disable_app env i all cascade False st = (st1, dres)" and "dres = Inr x"
    and st': "st' = filter (\<lambda>r. plr_id r \<noteq> i) st1"
  from disable_app_prefix [OF dis] \<open>dres = Inr x\<close> obtain os where
    "plan_disable env i all cascade False st = Inr os" "enabled_ids st1 = enabled_ids st - set os"
    by auto
  then have "i \<notin> enabled_ids st1"
    using plan_disable_Inr(1) disable_order_sound by (metis DiffE last_in_set option.inject)
  then have "enabled_ids st' = enabled_ids st1" by (simp add: st' enabled_remove)
  then show ?thesis using disable_quiet_sound [OF dis sound q] by (simp add: sound_def)
qed (use sound disable_quiet_sound q in auto)

text \<open>Nor does it touch a plugin that may not be disabled.\<close>

lemma uninstall_spares:
  assumes run: "uninstall_app_inner env undeletable dry i all cascade (st, jobs) = ((st', jobs'), res)"
    and j: "j \<in> enabled_ids st" "is_mandatory j \<or> is_load_bearing j"
  shows "j \<in> enabled_ids st'"
proof (cases dry)
  case True
  then have "st' = st" using run
    by (auto simp: uninstall_app_inner_def disable_app_inner_def split: sum.splits if_splits)
  then show ?thesis using j by simp
next
  case False
  with run have "uninstall_app_inner env undeletable False i all cascade (st, jobs) = ((st', jobs'), res)" by simp
  from uninstall_store [OF this] show ?thesis
  proof (elim disjE exE conjE)
    fix st1 dres x assume dis: "disable_app env i all cascade False st = (st1, dres)" and "dres = Inr x"
      and st': "st' = filter (\<lambda>r. plr_id r \<noteq> i) st1"
    from disable_app_prefix [OF dis] \<open>dres = Inr x\<close> obtain os where
      plan: "plan_disable env i all cascade False st = Inr os" by auto
    then have "i \<in> set os"
      using plan_disable_Inr(1) disable_order_sound by (metis last_in_set option.inject)
    then have "j \<noteq> i" using plan_disable_Inr(2) [OF plan] j(2) by blast
    then show ?thesis using disable_spares [OF dis] j by (simp add: st' enabled_remove)
  qed (use j disable_spares in blast)+
qed

subsection \<open>The invariant\<close>

definition all_needs_met ::
  "('v, 'r) semver \<Rightarrow> overrides \<Rightarrow> plugin_manifest list \<Rightarrow> plugin_store \<Rightarrow> bool" where
  "all_needs_met sv cfg all st \<longleftrightarrow>
     (\<forall>m \<in> set all. pm_id m \<in> enabled_ids st \<longrightarrow> needs_met sv cfg all (enabled_ids st) m)"

lemma all_needs_met_sound:
  "env_semver env = sv \<Longrightarrow> env_overrides env = cfg \<Longrightarrow> all_needs_met sv cfg all st \<longleftrightarrow> sound env all st"
  by (simp add: all_needs_met_def sound_def)

lemma reachable_sound:
  assumes "reachable sv cfg all (st, jobs)" and all: "distinct (map pm_id all)"
  shows "all_needs_met sv cfg all st"
  using assms(1)
proof (induction "(st, jobs)" arbitrary: st jobs rule: reachable.induct)
  case (install st jobs fs ui m st' res)
  then show ?case using install_enabled by (fastforce simp: all_needs_met_def)
next
  case (enable st jobs env m others st' eres)
  then show ?case using enable_meanwhile_keeps_sound [OF enable(8) enable(6) all]
    by (simp add: all_needs_met_sound)
next
  case (grants st jobs env m desired st' gres)
  then show ?case using set_app_grants_enabled by (fastforce simp: all_needs_met_def)
next
  case (update st jobs env m code forced st' upres)
  then show ?case using update_app_enabled by (fastforce simp: all_needs_met_def)
next
  case (disable st jobs env i cascade force st' dres)
  then show ?case using disable_quiet_sound by (simp add: all_needs_met_sound) blast
next
  case (uninstall st jobs env undeletable i cascade st' jobs' ures)
  then show ?case using uninstall_keeps_sound by (simp add: all_needs_met_sound) blast
qed (simp add: all_needs_met_def)

end
