(* ===== verification/Core_PluginGrants.thy ===== *)
theory Core_PluginGrants
  imports Core_PluginSound
begin

section \<open>Grants, and planning an enable\<close>

text \<open>
  What the validation of grants lets through, with which grants an enable leaves the plugins it
  turned on, and that planning an enable reports what the enable then does.
\<close>

subsection \<open>Validation\<close>

lemma covers_once_Some:
  "covers_once requested over gs = Some over' \<Longrightarrow> distinct over \<Longrightarrow>
     over' = rev gs @ over \<and> set gs \<subseteq> set requested \<and> distinct over'"
proof (induction gs arbitrary: over)
  case (Cons g gs)
  from Cons.prems have g: "g \<in> set requested" "g \<notin> set over"
    and rest: "covers_once requested (g # over) gs = Some over'" by (auto split: if_splits)
  from Cons.IH [OF rest] g Cons.prems(2) show ?case by auto
qed simp

lemma parse_validation_partition:
  assumes "parse_grant_validation_response j requested = Inr v"
  shows "set (va_approved v) \<union> set (va_denied v) = set requested
    \<and> set (va_approved v) \<inter> set (va_denied v) = {} \<and> (va_all_approved v \<longleftrightarrow> va_denied v = [])"
proof -
  from assms obtain over where cov: "covers_once requested [] (va_approved v @ va_denied v) = Some over"
    and len: "length over = card (set requested)" and ok: "va_all_approved v \<longleftrightarrow> va_denied v = []"
    by (auto simp: parse_grant_validation_response_def split: option.splits if_splits)
  from covers_once_Some [OF cov] have over: "over = rev (va_approved v @ va_denied v)"
    "set (va_approved v @ va_denied v) \<subseteq> set requested" "distinct over" by auto
  have "card (set over) = card (set requested)" using distinct_card [OF over(3)] len by simp
  then have "set over = set requested" using over(1,2) by (intro card_subset_eq) auto
  then show ?thesis using over(1,3) ok by auto
qed

lemma validation_partition:
  assumes "validate_grants_via_gateway gw grants app = Inr v"
  shows "set (va_approved v) \<union> set (va_denied v) = set grants \<and> (va_all_approved v \<longleftrightarrow> va_denied v = [])"
proof -
  from assms consider (none) "grants = []" "v = \<lparr>va_approved = [], va_denied = [], va_all_approved = True\<rparr>"
    | (stub) "v = \<lparr>va_approved = filter (stub_may_approve gw) grants,
        va_denied = filter (\<lambda>g. \<not> stub_may_approve gw g) grants,
        va_all_approved = (filter (\<lambda>g. \<not> stub_may_approve gw g) grants = [])\<rparr>"
    | (asked) result where "parse_grant_validation_response result grants = Inr v"
    by (auto simp: validate_grants_via_gateway_def Let_def map_sum_eq_Inr split: if_splits sum.splits)
  then show ?thesis
    by cases (auto dest: parse_validation_partition)
qed

text \<open>A validation that approves everything approves exactly what was asked.\<close>

lemma validation_all:
  "validate_grants_via_gateway gw grants app = Inr v \<Longrightarrow> va_all_approved v \<Longrightarrow>
     set (va_approved v) = set grants"
  using validation_partition by fastforce

text \<open>In a release build the stub never approves a grant that runs code.\<close>

lemma stub_refuses_code:
  assumes "validate_grants_via_gateway gw grants app = Inr v" and "gw_stub_mode gw" and "gw_release gw"
  shows "g \<in> set (va_approved v) \<Longrightarrow> \<not> is_arbitrary_code_execution_grant g"
  using assms by (auto simp: validate_grants_via_gateway_def Let_def stub_may_approve_def split: if_splits)

subsection \<open>The grants of what is enabled\<close>

definition grants_of :: "string \<Rightarrow> plugin_store \<Rightarrow> string list set" where
  "grants_of i st = {plr_approved_grants r | r. r \<in> set st \<and> plr_id r = i}"

lemma grants_simps [simp]:
  "grants_of i [] = {}"
  "grants_of i (r # st) = (if plr_id r = i then insert (plr_approved_grants r) (grants_of i st) else grants_of i st)"
  by (auto simp: grants_of_def)

lemma grants_map_on:
  "grants_of i (map (\<lambda>r. if plr_id r = i then r\<lparr>plr_enabled := True, plr_approved_grants := g\<rparr> else r) st)
   = (if i \<in> store_ids st then {g} else {})"
  by (induction st) simp_all

lemma grants_map_other:
  "j \<noteq> i \<Longrightarrow>
   grants_of j (map (\<lambda>r. if plr_id r = i then r\<lparr>plr_enabled := True, plr_approved_grants := g\<rparr> else r) st)
   = grants_of j st"
  by (induction st) simp_all

lemma set_enabled_grants:
  assumes "set_enabled fs safe i g st = (st1, Inr (Some r))"
  shows "grants_of j st1 = (if j = i then {g} else grants_of j st)"
  using assms unfolding set_enabled_def
  by (rule update_row_cases) (simp_all add: grants_map_on grants_map_other)

lemma flip_grants:
  "flip fs safe ps flipped deps t st = (st', Inr x) \<Longrightarrow> distinct (map pd_id ps) \<Longrightarrow>
     (\<forall>p \<in> set ps. grants_of (pd_id p) st' = {pd_approved p})
     \<and> (\<forall>j. j \<notin> pd_id ` set ps \<longrightarrow> grants_of j st' = grants_of j st)"
proof (induction ps arbitrary: flipped deps t st)
  case (Cons p ps)
  from Cons.prems(1) obtain r st1 where step: "set_enabled fs safe (pd_id p) (pd_approved p) st = (st1, Inr (Some r))"
    by (auto split: prod.splits sum.splits option.splits)
  have "\<exists>deps t. flip fs safe ps (flipped @ [pd_id p]) deps t st1 = (st', Inr x)"
    using Cons.prems(1) step by (auto split: if_splits)
  with Cons.IH Cons.prems(2) have "(\<forall>q \<in> set ps. grants_of (pd_id q) st' = {pd_approved q})"
    "\<forall>j. j \<notin> pd_id ` set ps \<longrightarrow> grants_of j st' = grants_of j st1"
    by auto
  then show ?case using Cons.prems(2) set_enabled_grants [OF step] by auto
qed simp

lemma validate_order_grants:
  "validate_order gw m installed records os = Inr ps \<Longrightarrow> p \<in> set ps \<Longrightarrow>
     \<exists>d. (d = m \<or> d \<in> set installed) \<and> pm_id d = pd_id p
       \<and> set (pd_approved p) = set (pm_permission_grants d)"
proof (induction os arbitrary: ps)
  case (Cons i os)
  from Cons.prems(1) show ?case
  proof (rule validate_order_Cons)
    fix d v qs assume "d = m \<or> d \<in> set installed" "pm_id d = i"
      "validate_grants_via_gateway gw (pm_permission_grants d) i = Inr v" "va_all_approved v"
      "validate_order gw m installed records os = Inr qs"
      "ps = \<lparr>pd_id = i, pd_approved = va_approved v, pd_is_target = (i = pm_id m)\<rparr> # qs"
    then show ?thesis using Cons.IH Cons.prems(2) validation_all by fastforce
  qed (use Cons in blast)
qed simp

lemma enable_grants:
  assumes run: "enable_app env m all st = (st', Inr out)" and m: "m \<in> set all"
    and all: "distinct (map pm_id all)" and x: "x \<in> set all"
    and new: "x = m \<or> pm_id x \<in> enabled_ids st' - enabled_ids st"
  shows "\<exists>g. grants_of (pm_id x) st' = {g} \<and> set g = set (pm_permission_grants x)"
  using run m
proof (rule enable_app_cases)
  fix ps deps r assume plan: "plan_enable env m all st = Inr ps" and i: "pm_id m \<in> store_ids st"
    and fl: "flip (env_faults env) (env_safe env) ps [] [] None st = (st', Inr (deps, Some r))"
  obtain ds where ds: "map pd_id ps = ds @ [pm_id m]" "set ds \<inter> insert (pm_id m) (enabled_ids st) = {}" "distinct ds"
    using plan_target_last [OF plan m i] by blast
  have "pd_id ` set ps = insert (pm_id m) (set ds)" using arg_cong [OF ds(1), of set] by simp
  moreover have "enabled_ids st' = enabled_ids st \<union> pd_id ` set ps" using fl by (rule flip_done)
  ultimately have "pm_id x \<in> pd_id ` set ps" using new by auto
  then obtain p where p: "p \<in> set ps" "pd_id p = pm_id x" by (metis imageE)
  have "distinct (map pd_id ps)" using ds by simp
  then have "grants_of (pm_id x) st' = {pd_approved p}" using flip_grants [OF fl] p by metis
  moreover obtain d where "d = m \<or> d \<in> set (within (store_ids st) all)" "pm_id d = pd_id p"
      "set (pd_approved p) = set (pm_permission_grants d)"
    using plan_enable_Inr [OF plan m i] validate_order_grants p(1) by metis
  moreover have "d = x" if "d = m \<or> d \<in> set (within (store_ids st) all)" "pm_id d = pm_id x" for d
    using all x m that by (auto simp: distinct_map within_def dest: inj_onD)
  ultimately show ?thesis using p(2) by metis
qed simp_all

subsection \<open>Planning\<close>

definition no_faults :: "faults \<Rightarrow> bool" where
  "no_faults fs \<longleftrightarrow> read_fault fs = None \<and> (\<forall>i. reread_fault fs i = None \<and> enable_fault fs i = None)"

lemma find_map_on:
  "(\<And>r. plr_id (f r) = plr_id r) \<Longrightarrow>
   find (\<lambda>r. plr_id r = j) (map (\<lambda>r. if plr_id r = i then f r else r) st)
   = (if j = i then map_option f (find (\<lambda>r. plr_id r = j) st) else find (\<lambda>r. plr_id r = j) st)"
  by (induction st) auto

lemma flip_projects:
  assumes nf: "no_faults fs"
  shows "distinct (map pd_id ps) \<Longrightarrow>
    (\<forall>p \<in> set ps. find (\<lambda>r. plr_id r = pd_id p) st = find (\<lambda>r. plr_id r = pd_id p) records
       \<and> pd_id p \<in> store_ids st) \<Longrightarrow>
    snd (flip fs False ps flipped deps t st) = project records ps deps t"
proof (induction ps arbitrary: flipped deps t st)
  case (Cons p ps)
  let ?f = "\<lambda>r. r\<lparr>plr_enabled := True, plr_approved_grants := pd_approved p\<rparr>"
  let ?st = "map (\<lambda>r. if plr_id r = pd_id p then ?f r else r) st"
  have i: "pd_id p \<in> store_ids st" using Cons.prems(2) by simp
  then obtain r where r: "find (\<lambda>r. plr_id r = pd_id p) st = Some r" using find_row by blast
  have step: "set_enabled fs False (pd_id p) (pd_approved p) st = (?st, Inr (Some (?f r)))"
    using nf i r
    by (simp add: set_enabled_def update_row_def Let_def no_faults_def get_masked_cases find_map_on
        apply_safe_mode_mask_def store_ids_def)
  have "find (\<lambda>r. plr_id r = pd_id q) ?st = find (\<lambda>r. plr_id r = pd_id q) records \<and> pd_id q \<in> store_ids ?st"
    if q: "q \<in> set ps" for q
  proof -
    have "pd_id q \<noteq> pd_id p" using Cons.prems(1) q by (metis distinct.simps(2) image_eqI list.set_map list.simps(9))
    then show ?thesis using Cons.prems(2) q by (simp add: find_map_on store_ids_map)
  qed
  with Cons.IH Cons.prems(1) have IH: "snd (flip fs False ps fl d t' ?st) = project records ps d t'" for fl d t'
    by simp
  have "find (\<lambda>r. plr_id r = pd_id p) records = Some r" using Cons.prems(2) r by simp
  then show ?case by (simp add: step IH)
qed simp

lemma plan_is_enable:
  assumes "no_faults (env_faults env)" and "\<not> env_safe env" and m: "m \<in> set all"
  shows "snd (plan_enable_app env m all st) = snd (enable_app env m all st)
    \<and> fst (plan_enable_app env m all st) = st"
proof (cases "\<exists>ps. plan_enable env m all st = Inr ps \<and> pm_id m \<in> store_ids st")
  case True
  then obtain ps where plan: "plan_enable env m all st = Inr ps" and i: "pm_id m \<in> store_ids st" by blast
  obtain ds where ds: "map pd_id ps = ds @ [pm_id m]" "set ds \<inter> insert (pm_id m) (enabled_ids st) = {}"
      "distinct ds" "set ds \<subseteq> store_ids st"
    using plan_target_last [OF plan m i] by blast
  have "set (map pd_id ps) \<subseteq> store_ids st" unfolding ds(1) using ds(4) i by simp
  then have "\<forall>p \<in> set ps. pd_id p \<in> store_ids st" by auto
  then have "snd (flip (env_faults env) False ps [] [] None st) = project st ps [] None"
    using ds by (intro flip_projects assms) auto
  then show ?thesis using assms(1,2) plan
    by (cases "flip (env_faults env) False ps [] [] None st")
      (auto simp: plan_enable_app_def enable_app_def enable_app_inner_def get_record_def
        list_all_records_def no_faults_def split: option.splits sum.splits prod.splits)
next
  case False
  have none: "find (\<lambda>r. plr_id r = pm_id m) st = None" if "pm_id m \<notin> store_ids st"
    using that by (force simp: find_None_iff store_ids_def)
  from False show ?thesis
    by (cases "pm_id m \<in> store_ids st"; cases "plan_enable env m all st")
      (auto simp: plan_enable_app_def enable_app_def enable_app_inner_def get_record_def none
        list_all_records_def split: option.splits)
qed

end
