(* ===== verification/Core_PluginTrial.thy ===== *)
theory Core_PluginTrial
  imports Core_PluginReach Core_PluginGrants "HOL-Library.Code_Target_Nat"
begin

section \<open>A node with three plugins\<close>

text \<open>
  The concrete input the witnesses evaluate: a note-taking app that requires the retrieval plugin,
  which requires the capability of an engine that a third party provides.  Versions are numbers, and
  the gateway approves what it is asked.
\<close>

definition trial_semver :: "(nat, nat) semver" where
  "trial_semver =
     \<lparr>parse_version = (\<lambda>s. case parse_usize s of Some n \<Rightarrow> Inr n | None \<Rightarrow> Inl ''not a number''),
      show_version = show_nat, version_less = (<), version_eq = (=),
      parse_req = (\<lambda>s. case strip_prefix ''>='' s of
         None \<Rightarrow> Inl ''no comparator''
       | Some t \<Rightarrow> (case parse_usize t of Some n \<Rightarrow> Inr n | None \<Rightarrow> Inl ''not a number'')),
      req_matches = (\<le>)\<rparr>"

definition trial_engine_plugin :: plugin_manifest where
  "trial_engine_plugin =
     \<lparr>pm_id = ''acme.engine'', pm_version = ''3'', pm_permission_grants = [], pm_requires = None,
      pm_provides = [\<lparr>pe_capability = ''engines'', pe_version = ''2'', pe_title = None,
        pe_selectable = False, pe_default_provider = False\<rparr>]\<rparr>"

definition trial_rag_plugin :: plugin_manifest where
  "trial_rag_plugin =
     \<lparr>pm_id = ''@ryu/rag'', pm_version = ''4'', pm_permission_grants = [],
      pm_requires = Some \<lparr>rq_apps = [],
        rq_capabilities = [\<lparr>cr_capability = ''engines'', cr_min_version = Some ''1''\<rparr>], rq_grants = []\<rparr>,
      pm_provides = []\<rparr>"

definition trial_notes_plugin :: plugin_manifest where
  "trial_notes_plugin =
     \<lparr>pm_id = ''notes'', pm_version = ''1'', pm_permission_grants = [''files:read''],
      pm_requires = Some \<lparr>rq_apps = [\<lparr>ad_id = ''@ryu/rag'', ad_min_version = Some ''2''\<rparr>],
        rq_capabilities = [], rq_grants = []\<rparr>,
      pm_provides = []\<rparr>"

definition trial_manifests :: "plugin_manifest list" where
  "trial_manifests = [trial_notes_plugin, trial_rag_plugin, trial_engine_plugin]"

definition trial_faults :: faults where
  "trial_faults =
     \<lparr>read_fault = None, reread_fault = \<lambda>_. None, insert_fault = \<lambda>_. None, enable_fault = \<lambda>_. None,
      disable_fault = \<lambda>_. None, update_fault = \<lambda>_. None, remove_fault = \<lambda>_. None\<rparr>"

definition trial_gateway :: gateway where
  "trial_gateway =
     \<lparr>gw_stub_mode = False, gw_release = True,
      gw_validate = (\<lambda>app grants. Inr (JObject
        [(''approved'', JArray (map JString grants)), (''denied'', JArray []),
         (''all_approved'', JBool True)]))\<rparr>"

definition trial_env :: "(nat, nat) env" where
  "trial_env =
     \<lparr>env_semver = trial_semver, env_overrides = [], env_gateway = trial_gateway,
      env_faults = trial_faults, env_safe = False\<rparr>"

definition trial_record :: "string \<Rightarrow> string \<Rightarrow> plugin_record" where
  "trial_record i version =
     \<lparr>plr_id = i, plr_version = version, plr_enabled = False, plr_approved_grants = [], plr_ui_code = None\<rparr>"

definition trial_installed :: plugin_store where
  "trial_installed =
     [trial_record ''acme.engine'' ''3'', trial_record ''@ryu/rag'' ''4'', trial_record ''notes'' ''1'']"

definition trial_enabled :: plugin_store where
  "trial_enabled =
     [(trial_record ''acme.engine'' ''3'')\<lparr>plr_enabled := True\<rparr>,
      (trial_record ''@ryu/rag'' ''4'')\<lparr>plr_enabled := True\<rparr>,
      (trial_record ''notes'' ''1'')\<lparr>plr_enabled := True, plr_approved_grants := [''files:read'']\<rparr>]"

lemma trial_ids: "distinct (map pm_id trial_manifests)"
  by code_simp

lemma trial_order:
  "resolve_enable_order trial_semver ''notes''
     (lower_manifests trial_semver [] trial_manifests) = Some (Inr [''acme.engine'', ''@ryu/rag'', ''notes''])"
  by code_simp

definition trial_outcome :: enable_outcome where
  "trial_outcome = \<lparr>eo_dependencies = take 2 trial_enabled, eo_target = last trial_enabled\<rparr>"

lemma trial_enable:
  "enable_app trial_env trial_notes_plugin trial_manifests trial_installed = (trial_enabled, Inr trial_outcome)"
  by code_simp

text \<open>
  The store refuses to enable the app itself: its dependencies, enabled before it, are disabled again.
\<close>

definition trial_locked_env :: "(nat, nat) env" where
  "trial_locked_env = trial_env\<lparr>env_faults := trial_faults
     \<lparr>enable_fault := \<lambda>i. if i = ''notes'' then Some ''locked'' else None\<rparr>\<rparr>"

lemma trial_locked:
  "enable_app trial_locked_env trial_notes_plugin trial_manifests trial_installed
   = (trial_installed, Inl (EnableOther ''locked''))"
  by code_simp

lemma trial_reachable: "reachable trial_semver [] trial_manifests (trial_enabled, [])"
proof -
  let ?i = "install_app trial_semver trial_faults (\<lambda>_. None)"
  have 1: "fst (?i trial_engine_plugin []) = take 1 trial_installed" by code_simp
  have 2: "fst (?i trial_rag_plugin (take 1 trial_installed)) = take 2 trial_installed" by code_simp
  have 3: "fst (?i trial_notes_plugin (take 2 trial_installed)) = trial_installed" by code_simp
  have step: "reachable trial_semver [] trial_manifests (fst (?i m st), [])"
    if "reachable trial_semver [] trial_manifests (st, [])" for m st
    using reachable.install [OF that] by (metis prod.collapse)
  have "reachable trial_semver [] trial_manifests (trial_installed, [])"
    using step [OF step [OF step [OF reachable.fresh, of trial_engine_plugin, unfolded 1],
      of trial_rag_plugin, unfolded 2], of trial_notes_plugin, unfolded 3] .
  then show ?thesis
    by (rule reachable.enable [where env = trial_env and others = "\<lambda>st. st" and m = trial_notes_plugin,
          OF _ _ _ _ _ _ trial_enable [folded enable_meanwhile_none]])
      (simp_all add: trial_env_def quiet_def trial_faults_def trial_manifests_def)
qed

text \<open>
  Uninstalling the engine with its dependents is refused as if the retrieval plugin, which is
  mandatory, were the protected target.
\<close>

lemma trial_uninstall:
  "uninstall_app_inner trial_env (\<lambda>_. False) False ''acme.engine'' trial_manifests True (trial_enabled, [])
   = ((trial_enabled, []), Inl (Protected ''@ryu/rag''))"
  by code_simp

lemma trial_not_protected: "\<not> is_uninstall_protected ''acme.engine''"
  by code_simp

text \<open>A system plugin that is not pre-installed.\<close>

lemma browser_not_preinstalled: "is_system_plugin ''@ryu/browser'' \<and> \<not> is_preinstalled ''@ryu/browser''"
  by code_simp

text \<open>
  A re-read that fails after the write: the enable of the engine reports a failure and the engine stays
  enabled, for the rollback does not know of it.
\<close>

lemma unread_enable_stays:
  "enable_app (trial_env\<lparr>env_faults := trial_faults\<lparr>reread_fault := \<lambda>_. Some ''busy''\<rparr>\<rparr>)
     trial_engine_plugin trial_manifests trial_installed
   = (take 1 trial_enabled @ drop 1 trial_installed, Inl (EnableOther ''busy''))"
  by code_simp

text \<open>
  Nothing locks the plugins while an enable waits for the gateway: a disable that runs in between sees
  no dependent, and leaves an enabled plugin whose requirement is disabled.
\<close>

definition simple_notes_plugin :: plugin_manifest where
  "simple_notes_plugin = trial_notes_plugin\<lparr>pm_requires := Some
     \<lparr>rq_apps = [\<lparr>ad_id = ''acme.engine'', ad_min_version = None\<rparr>], rq_capabilities = [], rq_grants = []\<rparr>\<rparr>"

definition simple_manifests :: "plugin_manifest list" where
  "simple_manifests = [simple_notes_plugin, trial_engine_plugin]"

definition disable_engine :: "plugin_store \<Rightarrow> plugin_store" where
  "disable_engine st = fst (disable_app trial_env ''acme.engine'' simple_manifests False False st)"

lemma overtaken_enable_breaks_needs:
  "enable_app_meanwhile trial_env disable_engine simple_notes_plugin simple_manifests
     [(trial_record ''acme.engine'' ''3'')\<lparr>plr_enabled := True\<rparr>, trial_record ''notes'' ''1'']
   = ([trial_record ''acme.engine'' ''3'',
       (trial_record ''notes'' ''1'')\<lparr>plr_enabled := True, plr_approved_grants := [''files:read'']\<rparr>],
      Inr \<lparr>eo_dependencies = [],
        eo_target = (trial_record ''notes'' ''1'')\<lparr>plr_enabled := True, plr_approved_grants := [''files:read'']\<rparr>\<rparr>)"
  by code_simp

end
