(* ===== verification/Gateway_Machine.thy ===== *)
theory Gateway_Machine
  imports Ryu_Trim
begin

section \<open>Machines of small steps\<close>

text \<open>
  The shared state of the gateway is changed by many requests at once.  A component is a machine:
  a partial function from an event and a state to the next state, \<open>None\<close> where the event cannot
  happen; a run is a list of events, in the order in which the locks of the code put them.  The
  two locales hold what is proved once for every machine: an invariant of the steps holds after
  every run, and what a run of the right events must bring about.
\<close>

lemma unat_u32: "unat (w :: u32) < 4294967296"
  by (rule order.strict_trans2 [OF unsigned_less]) simp

lemma unat_succ_below: "(a :: u32) < b \<Longrightarrow> unat (a + 1) = unat a + 1 \<and> a + 1 \<le> b"
  using unat_u32 [of b]
  by (simp add: word_less_nat_alt word_le_nat_alt unat_word_ariths)

fun run_events :: "('e \<Rightarrow> 's \<Rightarrow> 's option) \<Rightarrow> 'e list \<Rightarrow> 's \<Rightarrow> 's option" where
  "run_events step [] s = Some s"
| "run_events step (e # es) s = (case step e s of None \<Rightarrow> None | Some s' \<Rightarrow> run_events step es s')"

lemma run_events_append:
  "run_events step (es @ fs) s = Option.bind (run_events step es s) (run_events step fs)"
  by (induction es arbitrary: s) (auto split: option.splits)

locale invariant_machine =
  fixes step :: "'e \<Rightarrow> 's \<Rightarrow> 's option"
    and ok :: "'s \<Rightarrow> bool"
  assumes ok_step: "step e s = Some s' \<Longrightarrow> ok s \<Longrightarrow> ok s'"
begin

lemma ok_run: "run_events step es s = Some s' \<Longrightarrow> ok s \<Longrightarrow> ok s'"
  by (induction es arbitrary: s) (auto split: option.splits dest: ok_step)

end

text \<open>
  Progress: while the goal is not reached, an event that counts brings it one nearer and no event
  that is allowed takes it further away; once reached, it stays.
\<close>

locale progress_machine = invariant_machine step ok
  for step :: "'e \<Rightarrow> 's \<Rightarrow> 's option" and ok :: "'s \<Rightarrow> bool" +
  fixes allowed :: "'e \<Rightarrow> bool"
    and counts :: "'e \<Rightarrow> bool"
    and goal :: "'s \<Rightarrow> bool"
    and distance :: "'s \<Rightarrow> nat"
  assumes goal_stays: "step e s = Some s' \<Longrightarrow> ok s \<Longrightarrow> allowed e \<Longrightarrow> goal s \<Longrightarrow> goal s'"
    and nearer: "step e s = Some s' \<Longrightarrow> ok s \<Longrightarrow> allowed e \<Longrightarrow> \<not> goal s
      \<Longrightarrow> goal s' \<or> distance s' + (if counts e then 1 else 0) \<le> distance s"
begin

lemma goal_kept: "run_events step es s = Some s' \<Longrightarrow> ok s \<Longrightarrow> \<forall>e \<in> set es. allowed e \<Longrightarrow> goal s \<Longrightarrow> goal s'"
  by (induction es arbitrary: s) (auto split: option.splits dest: ok_step goal_stays)

lemma distance_run:
  assumes "run_events step es s = Some s'" and "ok s" and "\<forall>e \<in> set es. allowed e"
  shows "goal s' \<or> distance s' + length (filter counts es) \<le> distance s"
  using assms
proof (induction es arbitrary: s)
  case (Cons e es)
  then obtain t where t: "step e s = Some t" and run: "run_events step es t = Some s'"
    by (auto split: option.splits)
  from t Cons.prems have ok: "ok t" by (blast intro: ok_step)
  show ?case
  proof (cases "goal t")
    case True
    with run ok Cons.prems show ?thesis by (auto intro: goal_kept)
  next
    case False
    then have "\<not> goal s" using goal_stays [OF t] Cons.prems by auto
    then have "distance t + (if counts e then 1 else 0) \<le> distance s"
      using nearer [OF t] Cons.prems False by auto
    with Cons.IH [OF run ok] Cons.prems show ?thesis by auto
  qed
qed simp

lemma goal_reached:
  assumes "run_events step es s = Some s'" and "ok s" and "\<forall>e \<in> set es. allowed e"
    and "distance s < length (filter counts es)"
  shows "goal s'"
  using distance_run [OF assms(1-3)] assms(4) by linarith

end

end
