(* ===== verification/Gateway_Admission.thy ===== *)
theory Gateway_Admission
  imports Gateway_Machine
begin

section \<open>Admission to the local engine\<close>

text \<open>
  \<open>apps/gateway/src/concurrency/mod.rs\<close>: the priority gate in front of the local engine.  At most
  \<open>max_in_flight\<close> requests hold a slot; the others wait in two queues, of which the interactive one
  is served first; a slot is handed from the request that ends to the next waiter.

  The gate is shared, so it is a machine of small steps.  One step is what the code does under the
  lock, or one operation on a one-shot channel.  A channel is known by its number: \<open>channels\<close> holds
  the state of each receiver.  Of the channel the model uses its contract only: \<open>send\<close> gives the
  value back when the receiver was dropped, otherwise the value waits in the channel until it is
  received, or is dropped with the receiver.
\<close>

subsection \<open>Priorities\<close>

datatype priority = Interactive | Background

definition from_header :: "string option \<Rightarrow> priority" where
  "from_header header =
     (case map_option (\<lambda>v. to_ascii_lowercase (trim v)) header of
        Some v \<Rightarrow> if v \<in> {''background'', ''low'', ''batch''} then Background else Interactive
      | None \<Rightarrow> Interactive)"

subsection \<open>The gate\<close>

record gate_state =
  in_flight :: u32
  interactive :: "nat list"
  background :: "nat list"

record provider_gate =
  pg_name :: string
  max_in_flight :: u32
  max_queued :: u32
  pg_state :: gate_state
  queued_total :: u32

record queue_full =
  qf_provider :: string
  qf_queued :: u32

definition new_gate :: "string \<Rightarrow> u32 \<Rightarrow> u32 \<Rightarrow> provider_gate" where
  "new_gate n m q =
     \<lparr>pg_name = n, max_in_flight = m, max_queued = q,
      pg_state = \<lparr>in_flight = 0, interactive = [], background = []\<rparr>, queued_total = 0\<rparr>"

definition queue_len :: "gate_state \<Rightarrow> nat" where
  "queue_len g = length (interactive g) + length (background g)"

text \<open>\<open>(g.interactive.len() + g.background.len()) as u32\<close> keeps the low 32 bits.\<close>

definition queued :: "gate_state \<Rightarrow> u32" where
  "queued g = word_of_nat (queue_len g)"

text \<open>\<open>tx\<close> is the channel that the code creates when it enqueues.\<close>

definition try_acquire_or_enqueue ::
  "priority \<Rightarrow> nat \<Rightarrow> provider_gate \<Rightarrow> (queue_full + nat option) \<times> provider_gate" where
  "try_acquire_or_enqueue prio tx pg =
     (let g = pg_state pg in
      if in_flight g < max_in_flight pg
      then (Inr None, pg\<lparr>pg_state := g\<lparr>in_flight := in_flight g + 1\<rparr>\<rparr>)
      else if max_queued pg \<le> queued g
      then (Inl \<lparr>qf_provider = pg_name pg, qf_queued = queued g\<rparr>, pg)
      else
        (let g' = (case prio of
             Interactive \<Rightarrow> g\<lparr>interactive := interactive g @ [tx]\<rparr>
           | Background \<Rightarrow> g\<lparr>background := background g @ [tx]\<rparr>)
         in (Inr (Some tx), pg\<lparr>pg_state := g', queued_total := queued g'\<rparr>)))"

text \<open>What \<open>release\<close> does under the lock: the next waiter, or the slot is free again.\<close>

definition pop_next :: "provider_gate \<Rightarrow> nat option \<times> provider_gate" where
  "pop_next pg =
     (let g = pg_state pg in
      case interactive g of
        tx # rest \<Rightarrow>
          (let g' = g\<lparr>interactive := rest\<rparr> in (Some tx, pg\<lparr>pg_state := g', queued_total := queued g'\<rparr>))
      | [] \<Rightarrow>
          (case background g of
             tx # rest \<Rightarrow>
               (let g' = g\<lparr>background := rest\<rparr>
                in (Some tx, pg\<lparr>pg_state := g', queued_total := queued g'\<rparr>))
           | [] \<Rightarrow>
               (None, pg\<lparr>pg_state := g\<lparr>in_flight := (if in_flight g = 0 then 0 else in_flight g - 1)\<rparr>,
                         queued_total := 0\<rparr>)))"

record gate_snapshot =
  gs_provider :: string
  gs_in_flight :: u32
  gs_max_in_flight :: u32
  gs_queued :: u32
  gs_queued_interactive :: u32
  gs_queued_background :: u32
  gs_max_queued :: u32

definition gate_snapshot_of :: "provider_gate \<Rightarrow> gate_snapshot" where
  "gate_snapshot_of pg =
     (let g = pg_state pg in
      \<lparr>gs_provider = pg_name pg, gs_in_flight = in_flight g, gs_max_in_flight = max_in_flight pg,
       gs_queued = queued g, gs_queued_interactive = word_of_nat (length (interactive g)),
       gs_queued_background = word_of_nat (length (background g)), gs_max_queued = max_queued pg\<rparr>)"

subsection \<open>The machine\<close>

text \<open>
  A waiter's channel: its receiver waits, was dropped, has a guard in it, or has given its guard to
  a permit.
\<close>

datatype channel = Awaiting | Abandoned | Handed | Received

text \<open>
  \<open>permits\<close> counts the permits that requests hold, \<open>dropping\<close> the guards whose \<open>drop\<close> has not
  reached the lock yet, and \<open>transit\<close> lists the waiters that a release has popped and whose \<open>send\<close>
  is still to come.
\<close>

record gate_world =
  gate :: provider_gate
  channels :: "channel list"
  permits :: nat
  dropping :: nat
  transit :: "nat list"

definition gate_start :: "provider_gate \<Rightarrow> gate_world" where
  "gate_start pg = \<lparr>gate = pg, channels = [], permits = 0, dropping = 0, transit = []\<rparr>"

text \<open>\<open>acquire\<close> up to the point where it waits: a permit, a channel to wait at, or the refusal.\<close>

definition acquire :: "priority \<Rightarrow> gate_world \<Rightarrow> (queue_full + nat option) \<times> gate_world" where
  "acquire prio w =
     (case try_acquire_or_enqueue prio (length (channels w)) (gate w) of
        (Inl full, pg) \<Rightarrow> (Inl full, w\<lparr>gate := pg\<rparr>)
      | (Inr None, pg) \<Rightarrow> (Inr None, w\<lparr>gate := pg, permits := permits w + 1\<rparr>)
      | (Inr (Some rx), pg) \<Rightarrow> (Inr (Some rx), w\<lparr>gate := pg, channels := channels w @ [Awaiting]\<rparr>))"

text \<open>The waiting future is polled and finds its guard.\<close>

definition wake :: "nat \<Rightarrow> gate_world \<Rightarrow> gate_world option" where
  "wake rx w =
     (if rx < length (channels w) \<and> channels w ! rx = Handed
      then Some (w\<lparr>channels := (channels w)[rx := Received], permits := permits w + 1\<rparr>) else None)"

text \<open>The waiting future is dropped: a guard in its channel is dropped with it.\<close>

definition leave :: "nat \<Rightarrow> gate_world \<Rightarrow> gate_world option" where
  "leave rx w =
     (if rx < length (channels w) then
        (case channels w ! rx of
           Awaiting \<Rightarrow> Some (w\<lparr>channels := (channels w)[rx := Abandoned]\<rparr>)
         | Handed \<Rightarrow> Some (w\<lparr>channels := (channels w)[rx := Abandoned], dropping := dropping w + 1\<rparr>)
         | _ \<Rightarrow> None)
      else None)"

definition drop_permit :: "gate_world \<Rightarrow> gate_world option" where
  "drop_permit w =
     (if permits w = 0 then None
      else Some (w\<lparr>permits := permits w - 1, dropping := dropping w + 1\<rparr>))"

definition release_locked :: "gate_world \<Rightarrow> gate_world option" where
  "release_locked w =
     (if dropping w = 0 then None
      else Some (case pop_next (gate w) of
          (None, pg) \<Rightarrow> w\<lparr>gate := pg, dropping := dropping w - 1\<rparr>
        | (Some tx, pg) \<Rightarrow> w\<lparr>gate := pg, dropping := dropping w - 1, transit := transit w @ [tx]\<rparr>))"

definition send :: "nat \<Rightarrow> gate_world \<Rightarrow> gate_world option" where
  "send tx w =
     (if tx \<in> set (transit w) then
        (if channels w ! tx = Awaiting
         then Some (w\<lparr>channels := (channels w)[tx := Handed], transit := remove1 tx (transit w)\<rparr>)
         else Some (w\<lparr>dropping := dropping w + 1, transit := remove1 tx (transit w)\<rparr>))
      else None)"

datatype gate_event = Arrives priority | Wakes nat | Leaves nat | Finishes | Releases | Sends nat

primrec gate_step :: "gate_event \<Rightarrow> gate_world \<Rightarrow> gate_world option" where
  "gate_step (Arrives prio) w = Some (snd (acquire prio w))"
| "gate_step (Wakes rx) w = wake rx w"
| "gate_step (Leaves rx) w = leave rx w"
| "gate_step Finishes w = drop_permit w"
| "gate_step Releases w = release_locked w"
| "gate_step (Sends tx) w = send tx w"

text \<open>
  The whole of \<open>release\<close>, run by one thread: the locked part, then \<open>send\<close>, and again when the guard
  comes back.
\<close>

function release :: "gate_world \<Rightarrow> gate_world" where
  "release w =
     (case pop_next (gate w) of
        (None, pg) \<Rightarrow> w\<lparr>gate := pg\<rparr>
      | (Some tx, pg) \<Rightarrow>
          if channels w ! tx = Awaiting
          then w\<lparr>gate := pg, channels := (channels w)[tx := Handed]\<rparr>
          else release (w\<lparr>gate := pg\<rparr>))"
  by pat_completeness auto
termination
  by (relation "measure (\<lambda>w. queue_len (pg_state (gate w)))")
    (auto simp: pop_next_def queue_len_def Let_def split: list.splits)

declare release.simps [simp del]

subsection \<open>What is always so\<close>

definition owners :: "gate_world \<Rightarrow> nat" where
  "owners w = permits w + count_list (channels w) Handed + length (transit w) + dropping w"

definition waiting :: "gate_world \<Rightarrow> nat list" where
  "waiting w = interactive (pg_state (gate w)) @ background (pg_state (gate w)) @ transit w"

text \<open>Every slot in flight has exactly one owner, and there are no more than the configuration allows.\<close>

definition slots_ok :: "gate_world \<Rightarrow> bool" where
  "slots_ok w \<longleftrightarrow> unat (in_flight (pg_state (gate w))) = owners w
     \<and> in_flight (pg_state (gate w)) \<le> max_in_flight (gate w)"

text \<open>Nobody waits while a slot is free, and the queues are as short as the configuration says.\<close>

definition queues_ok :: "gate_world \<Rightarrow> bool" where
  "queues_ok w \<longleftrightarrow>
     (queue_len (pg_state (gate w)) \<noteq> 0 \<longrightarrow> in_flight (pg_state (gate w)) = max_in_flight (gate w))
     \<and> queue_len (pg_state (gate w)) \<le> unat (max_queued (gate w))
     \<and> queued_total (gate w) = queued (pg_state (gate w))"

text \<open>
  The queues hold channels that wait or were abandoned, each once, and every channel that waits: no
  waiter is lost.
\<close>

definition waiters_ok :: "gate_world \<Rightarrow> bool" where
  "waiters_ok w \<longleftrightarrow> distinct (waiting w)
     \<and> (\<forall>i \<in> set (waiting w). i < length (channels w) \<and> channels w ! i \<in> {Awaiting, Abandoned})
     \<and> (\<forall>i < length (channels w). channels w ! i = Awaiting \<longrightarrow> i \<in> set (waiting w))"

definition gate_ok :: "gate_world \<Rightarrow> bool" where
  "gate_ok w \<longleftrightarrow> slots_ok w \<and> queues_ok w \<and> waiters_ok w"

lemma count_list_update:
  "i < length xs \<Longrightarrow>
     count_list (xs[i := y]) x + (if xs ! i = x then 1 else 0) = count_list xs x + (if y = x then 1 else 0)"
proof (induction xs arbitrary: i)
  case (Cons a xs)
  show ?case
  proof (cases i)
    case (Suc j)
    then show ?thesis using Cons.IH [of j] Cons.prems 
      by (cases "y = x"; cases "xs ! j = x") auto
  qed auto
qed simp

lemma queued_exact: "queue_len g \<le> unat (m :: u32) \<Longrightarrow> unat (queued g) = queue_len g"
  using unat_u32 [of m]
  by (simp add: queued_def unsigned_of_nat take_bit_nat_eq_self)

lemma gate_ok_start: "gate_ok (gate_start (new_gate n m q))"
  by (simp add: gate_ok_def slots_ok_def queues_ok_def waiters_ok_def owners_def waiting_def
    gate_start_def new_gate_def queue_len_def queued_def)

subsection \<open>Every step keeps it\<close>

lemma acquire_slots: "gate_ok w \<Longrightarrow> slots_ok (snd (acquire prio w))"
  using unat_succ_below [of "in_flight (pg_state (gate w))" "max_in_flight (gate w)"]
  by (auto simp: gate_ok_def slots_ok_def owners_def acquire_def try_acquire_or_enqueue_def Let_def
    split: priority.splits)

lemma acquire_queues: "gate_ok w \<Longrightarrow> queues_ok (snd (acquire prio w))"
  using queued_exact [of "pg_state (gate w)" "max_queued (gate w)"]
    word_le_nat_alt [of "max_queued (gate w)" "queued (pg_state (gate w))"]
  by (auto simp: gate_ok_def slots_ok_def queues_ok_def acquire_def try_acquire_or_enqueue_def Let_def
    queue_len_def queued_def not_le not_less split: priority.splits)

lemma acquire_waiters: "gate_ok w \<Longrightarrow> waiters_ok (snd (acquire prio w))"
  by (auto simp: gate_ok_def waiters_ok_def waiting_def acquire_def try_acquire_or_enqueue_def Let_def
    nth_append less_Suc_eq split: priority.splits)

lemma acquire_ok: "gate_ok w \<Longrightarrow> gate_ok (snd (acquire prio w))"
  using acquire_slots acquire_queues acquire_waiters by (simp add: gate_ok_def)

lemma wake_ok: "wake rx w = Some w' \<Longrightarrow> gate_ok w \<Longrightarrow> gate_ok w'"
  using count_list_update [of rx "channels w" Received Handed]
  by (auto simp: gate_ok_def slots_ok_def owners_def queues_ok_def waiters_ok_def waiting_def wake_def
    nth_list_update split: if_splits)

lemma leave_ok: "leave rx w = Some w' \<Longrightarrow> gate_ok w \<Longrightarrow> gate_ok w'"
  using count_list_update [of rx "channels w" Abandoned Handed]
  by (auto simp: gate_ok_def slots_ok_def owners_def queues_ok_def waiters_ok_def waiting_def leave_def
    nth_list_update split: if_splits channel.splits)

lemma drop_permit_ok: "drop_permit w = Some w' \<Longrightarrow> gate_ok w \<Longrightarrow> gate_ok w'"
  by (auto simp: gate_ok_def slots_ok_def owners_def queues_ok_def waiters_ok_def waiting_def drop_permit_def
    split: if_splits)

lemma send_slots: "send tx w = Some w' \<Longrightarrow> gate_ok w \<Longrightarrow> slots_ok w'"
  using count_list_update [of tx "channels w" Handed Handed] length_pos_if_in_set [of tx "transit w"]
  by (auto simp: gate_ok_def slots_ok_def owners_def waiters_ok_def waiting_def send_def
    length_remove1 split: if_splits)

lemma send_queues: "send tx w = Some w' \<Longrightarrow> gate_ok w \<Longrightarrow> queues_ok w'"
  by (auto simp: gate_ok_def queues_ok_def send_def split: if_splits)

lemma send_waiters:
  assumes "send tx w = Some w'" and "gate_ok w"
  shows "waiters_ok w'"
proof -
  from assms have d: "distinct (waiting w)"
    and in_w: "\<forall>i \<in> set (waiting w). i < length (channels w) \<and> channels w ! i \<in> {Awaiting, Abandoned}"
    and await: "\<forall>i < length (channels w). channels w ! i = Awaiting \<longrightarrow> i \<in> set (waiting w)"
    and tx: "tx \<in> set (transit w)"
    by (simp_all add: gate_ok_def waiters_ok_def send_def split: if_splits)
  from assms(1) have g: "gate w' = gate w" "transit w' = remove1 tx (transit w)"
    and c: "channels w' = (if channels w ! tx = Awaiting then (channels w)[tx := Handed] else channels w)"
    by (auto simp: send_def split: if_splits)
  from d have rest: "set (waiting w') = set (waiting w) - {tx}"
    using tx by (auto simp: waiting_def g)
  have "distinct (waiting w')" using d by (auto simp: waiting_def g)
  moreover have "i < length (channels w') \<and> channels w' ! i \<in> {Awaiting, Abandoned}" if "i \<in> set (waiting w')" for i
    using in_w that by (auto simp: rest c nth_list_update)
  moreover have "i \<in> set (waiting w')" if "i < length (channels w')" "channels w' ! i = Awaiting" for i
    using await that by (cases "i = tx") (auto simp: rest c split: if_splits)
  ultimately show ?thesis by (simp add: waiters_ok_def)
qed

lemma send_ok: "send tx w = Some w' \<Longrightarrow> gate_ok w \<Longrightarrow> gate_ok w'"
  using send_slots send_queues send_waiters by (simp add: gate_ok_def)

text \<open>The three ends of the locked part of a release.\<close>

lemma pop_next_cases:
  obtains (interactive) tx rest where "interactive (pg_state pg) = tx # rest"
      "pop_next pg = (Some tx, pg\<lparr>pg_state := pg_state pg\<lparr>interactive := rest\<rparr>,
         queued_total := queued (pg_state pg\<lparr>interactive := rest\<rparr>)\<rparr>)"
    | (background) tx rest where "interactive (pg_state pg) = []" "background (pg_state pg) = tx # rest"
      "pop_next pg = (Some tx, pg\<lparr>pg_state := pg_state pg\<lparr>background := rest\<rparr>,
         queued_total := queued (pg_state pg\<lparr>background := rest\<rparr>)\<rparr>)"
    | (none) "interactive (pg_state pg) = []" "background (pg_state pg) = []"
      "pop_next pg = (None, pg\<lparr>pg_state := pg_state pg
         \<lparr>in_flight := (if in_flight (pg_state pg) = 0 then 0 else in_flight (pg_state pg) - 1)\<rparr>,
         queued_total := 0\<rparr>)"
  by (cases "interactive (pg_state pg)"; cases "background (pg_state pg)")
    (auto simp: pop_next_def Let_def)

lemma unat_pred: "(a :: u32) \<noteq> 0 \<Longrightarrow> unat (a - 1) = unat a - 1 \<and> a - 1 \<le> a"
  by (simp add: unat_sub word_le_nat_alt unat_gt_0 Suc_leI)

lemma release_ok:
  assumes "release_locked w = Some w'" and "gate_ok w"
  shows "gate_ok w'"
proof (cases rule: pop_next_cases [of "gate w"])
  case none
  with assms show ?thesis using unat_pred [of "in_flight (pg_state (gate w))"]
    by (auto simp: gate_ok_def slots_ok_def owners_def queues_ok_def waiters_ok_def waiting_def queue_len_def
      queued_def release_locked_def split: if_splits)
qed (use assms in \<open>auto simp: gate_ok_def slots_ok_def owners_def queues_ok_def waiters_ok_def
  waiting_def queue_len_def release_locked_def split: if_splits\<close>)

lemma gate_step_ok: "gate_step e w = Some w' \<Longrightarrow> gate_ok w \<Longrightarrow> gate_ok w'"
  by (cases e) (auto intro: acquire_ok wake_ok leave_ok drop_permit_ok release_ok send_ok)

interpretation gate_machine: invariant_machine gate_step gate_ok
  by unfold_locales (rule gate_step_ok)

definition runs_to :: "provider_gate \<Rightarrow> gate_event list \<Rightarrow> gate_world \<Rightarrow> bool" where
  "runs_to pg es w \<longleftrightarrow> run_events gate_step es (gate_start pg) = Some w"

lemma reached_ok: "runs_to (new_gate n m q) es w \<Longrightarrow> gate_ok w"
  using gate_ok_start gate_machine.ok_run by (auto simp: runs_to_def)

subsection \<open>A release, run through\<close>

text \<open>The waiters that still wait, in the order in which they are served.\<close>

definition live :: "gate_world \<Rightarrow> nat list" where
  "live w = filter (\<lambda>i. channels w ! i = Awaiting)
     (interactive (pg_state (gate w)) @ background (pg_state (gate w)))"

text \<open>
  Run by one thread, \<open>release\<close> is a run of small steps: the locked part and the \<open>send\<close> to each waiter
  it pops, until one of them lives or the queues are empty.
\<close>

lemma release_is_a_run:
  assumes "gate_ok (w\<lparr>dropping := Suc (dropping w)\<rparr>)"
  shows "\<exists>es. set es \<subseteq> {Releases} \<union> range Sends
    \<and> run_events gate_step es (w\<lparr>dropping := Suc (dropping w)\<rparr>) = Some (release w)"
  using assms
proof (induction w rule: release.induct)
  case (1 w)
  let ?w = "w\<lparr>dropping := Suc (dropping w)\<rparr>"
  obtain who pg where pop: "pop_next (gate w) = (who, pg)" by (cases "pop_next (gate w)")
  show ?case
  proof (cases who)
    case None
    then have "gate_step Releases ?w = Some (release w)"
      using pop by (subst release.simps) (simp add: release_locked_def)
    then show ?thesis by (intro exI [of _ "[Releases]"]) simp
  next
    case (Some tx)
    let ?t = "w\<lparr>gate := pg, transit := transit w @ [tx]\<rparr>"
    have rel: "gate_step Releases ?w = Some ?t" using pop Some by (simp add: release_locked_def)
    then have ok: "gate_ok ?t" using 1(2) by (rule gate_step_ok)
    then have fresh: "tx \<notin> set (transit w)" by (auto simp: gate_ok_def waiters_ok_def waiting_def)
    show ?thesis
    proof (cases "channels w ! tx = Awaiting")
      case True
      then have "release w = w\<lparr>gate := pg, channels := (channels w)[tx := Handed]\<rparr>"
        using pop Some by (subst release.simps) simp
      then have "gate_step (Sends tx) ?t = Some (release w)"
        using True fresh by (simp add: send_def remove1_append)
      with rel show ?thesis by (intro exI [of _ "[Releases, Sends tx]"]) auto
    next
      case False
      let ?v = "w\<lparr>gate := pg\<rparr>"
      have send: "gate_step (Sends tx) ?t = Some (?v\<lparr>dropping := Suc (dropping ?v)\<rparr>)"
        using False fresh by (simp add: send_def remove1_append)
      then have "gate_ok (?v\<lparr>dropping := Suc (dropping ?v)\<rparr>)" using ok by (rule gate_step_ok)
      then obtain es where es: "set es \<subseteq> {Releases} \<union> range Sends"
          "run_events gate_step es (?v\<lparr>dropping := Suc (dropping ?v)\<rparr>) = Some (release ?v)"
        using 1(1) [OF pop [symmetric] Some False] by auto
      moreover have "release w = release ?v" using pop Some False by (subst release.simps) simp
      ultimately show ?thesis using rel send
        by (intro exI [of _ "Releases # Sends tx # es"]) auto
    qed
  qed
qed

text \<open>What it does: the first waiter in order gets the slot, or the slot is free again.\<close>

lemma release_frees:
  assumes "live w = []"
  shows "release w = w\<lparr>gate := gate w
    \<lparr>pg_state := \<lparr>in_flight = (if in_flight (pg_state (gate w)) = 0 then 0 else in_flight (pg_state (gate w)) - 1),
       interactive = [], background = []\<rparr>, queued_total := 0\<rparr>\<rparr>"
  using assms
proof (induction w rule: release.induct)
  case (1 w)
  show ?case
  proof (cases rule: pop_next_cases [of "gate w"])
    case (interactive tx rest)
    with 1(2) 1(1) [OF interactive(2) [symmetric] refl] show ?thesis
      by (subst release.simps) (auto simp: live_def split: if_splits)
  next
    case (background tx rest)
    with 1(2) 1(1) [OF background(3) [symmetric] refl] show ?thesis
      by (subst release.simps) (auto simp: live_def split: if_splits)
  qed (subst release.simps, simp)
qed

lemma filter_update:
  "i \<notin> set xs \<Longrightarrow> filter (\<lambda>j. P (cs[i := c] ! j)) xs = filter (\<lambda>j. P (cs ! j)) xs"
  by (intro filter_cong refl) (metis nth_list_update_neq)

lemma release_serves:
  assumes "live w = i # is" and "distinct (live w)"
  shows "channels (release w) = (channels w)[i := Handed] \<and> live (release w) = is
    \<and> in_flight (pg_state (gate (release w))) = in_flight (pg_state (gate w))"
  using assms
proof (induction w rule: release.induct)
  case (1 w)
  show ?case
  proof (cases rule: pop_next_cases [of "gate w"])
    case (interactive tx rest)
    with 1(2,3) 1(1) [OF interactive(2) [symmetric] refl] show ?thesis
      by (subst (1 2 3) release.simps) (auto simp: live_def filter_update [where P = "\<lambda>c. c = Awaiting"] split: if_splits)
  next
    case (background tx rest)
    with 1(2,3) 1(1) [OF background(3) [symmetric] refl] show ?thesis
      by (subst (1 2 3) release.simps) (auto simp: live_def filter_update [where P = "\<lambda>c. c = Awaiting"] split: if_splits)
  next
    case none
    with 1(2) show ?thesis by (simp add: live_def)
  qed
qed

text \<open>The configuration of a gate never changes.\<close>

definition configured :: "u32 \<Rightarrow> u32 \<Rightarrow> gate_world \<Rightarrow> bool" where
  "configured m q w \<longleftrightarrow> max_in_flight (gate w) = m \<and> max_queued (gate w) = q"

lemma gate_step_configured: "gate_step e w = Some w' \<Longrightarrow> configured m q w \<Longrightarrow> configured m q w'"
proof (cases e)
  case Releases
  assume "gate_step e w = Some w'" and "configured m q w"
  with Releases show ?thesis
    by (cases rule: pop_next_cases [of "gate w"]) (auto simp: configured_def release_locked_def split: if_splits)
qed (auto simp: configured_def acquire_def try_acquire_or_enqueue_def wake_def leave_def drop_permit_def send_def Let_def
  split: if_splits channel.splits priority.splits)

interpretation gate_configuration: invariant_machine gate_step "configured m q" for m q
  by unfold_locales (rule gate_step_configured)

lemma reached_configured: "runs_to (new_gate n m q) es w \<Longrightarrow> configured m q w"
  using gate_configuration.ok_run [of es "gate_start (new_gate n m q)" w m q]
  by (simp add: runs_to_def configured_def gate_start_def new_gate_def)

lemma gate_facts:
  assumes "runs_to (new_gate n m q) es w"
  shows "unat (in_flight (pg_state (gate w))) = owners w" and "owners w \<le> unat m"
    and "queue_len (pg_state (gate w)) \<le> unat q"
    and "queue_len (pg_state (gate w)) \<noteq> 0 \<Longrightarrow> owners w = unat m"
    and "i < length (channels w) \<Longrightarrow> channels w ! i = Awaiting \<Longrightarrow> i \<in> set (waiting w)"
  using reached_ok [OF assms] reached_configured [OF assms]
  by (auto simp: gate_ok_def slots_ok_def queues_ok_def waiters_ok_def configured_def word_le_nat_alt)

text \<open>A release from within a state that is well formed, by the waiters that live.\<close>

lemma live_distinct: "gate_ok (w\<lparr>dropping := k\<rparr>) \<Longrightarrow> distinct (live w)"
  by (auto simp: gate_ok_def waiters_ok_def waiting_def live_def)

end
