(* ===== verification/Gateway_Waiting.thy ===== *)
theory Gateway_Waiting
  imports Gateway_Admission
begin

section \<open>How long a request waits for the local engine\<close>

text \<open>
  Progress in the gate of \<open>apps/gateway/src/concurrency/mod.rs\<close>: each slot that comes free brings every
  waiter nearer, an interactive one whatever arrives, a background one as long as nothing interactive
  does; and the limiter that puts requests before the gate.
\<close>

text \<open>The number of waiters before a given one.\<close>

definition place :: "nat \<Rightarrow> nat list \<Rightarrow> nat" where
  "place i xs = length (takeWhile (\<lambda>j. j \<noteq> i) xs)"

lemma place_simps [simp]:
  "place i [] = 0"
  "place i (j # xs) = (if j = i then 0 else Suc (place i xs))"
  by (simp_all add: place_def)

lemma place_append: "i \<in> set xs \<Longrightarrow> place i (xs @ ys) = place i xs"
  by (induction xs) auto

lemma place_less: "i \<in> set xs \<Longrightarrow> place i xs < length xs"
  by (induction xs) auto

text \<open>What a step may do to the queues.\<close>

lemma gate_step_queues:
  assumes "gate_step e w = Some w'"
  shows "length (channels w) \<le> length (channels w')
    \<and> (case e of
         Releases \<Rightarrow> interactive (pg_state (gate w')) = tl (interactive (pg_state (gate w)))
           \<and> background (pg_state (gate w')) =
               (if interactive (pg_state (gate w)) = [] then tl (background (pg_state (gate w)))
                else background (pg_state (gate w)))
       | Arrives prio \<Rightarrow> (\<exists>xs ys. interactive (pg_state (gate w')) = interactive (pg_state (gate w)) @ xs
           \<and> background (pg_state (gate w')) = background (pg_state (gate w)) @ ys
           \<and> set (xs @ ys) \<subseteq> {length (channels w)} \<and> (prio = Background \<longrightarrow> xs = []))
       | _ \<Rightarrow> pg_state (gate w') = pg_state (gate w))"
proof (cases e)
  case (Arrives prio)
  with assms show ?thesis
    by (auto simp: acquire_def try_acquire_or_enqueue_def Let_def split: priority.splits)
next
  case Releases
  with assms show ?thesis
    by (cases rule: pop_next_cases [of "gate w"]) (auto simp: release_locked_def split: if_splits)
qed (use assms in \<open>auto simp: wake_def leave_def drop_permit_def send_def split: if_splits channel.splits\<close>)

definition waits_interactive :: "nat \<Rightarrow> gate_world \<Rightarrow> bool" where
  "waits_interactive i w \<longleftrightarrow> gate_ok w \<and> i < length (channels w) \<and> i \<notin> set (background (pg_state (gate w)))"

definition waits_background :: "nat \<Rightarrow> gate_world \<Rightarrow> bool" where
  "waits_background i w \<longleftrightarrow> gate_ok w \<and> i < length (channels w) \<and> i \<notin> set (interactive (pg_state (gate w)))"

lemma gate_ok_distinct:
  "gate_ok w \<Longrightarrow> distinct (interactive (pg_state (gate w))) \<and> distinct (background (pg_state (gate w)))"
  by (simp add: gate_ok_def waiters_ok_def waiting_def)

lemma in_set_tlD: "x \<in> set (tl xs) \<Longrightarrow> x \<in> set xs"
  by (cases xs) auto

interpretation interactive_waiter:
  progress_machine gate_step "waits_interactive i" "\<lambda>_. True" "\<lambda>e. e = Releases"
    "\<lambda>w. i \<notin> set (interactive (pg_state (gate w)))" "\<lambda>w. place i (interactive (pg_state (gate w)))"
  for i
proof
  fix e w w' assume step: "gate_step e w = Some w'" and ok: "waits_interactive i w"
  note q = gate_step_queues [OF step]
  have ok': "gate_ok w'" using gate_step_ok [OF step] ok by (simp add: waits_interactive_def)
  have d: "distinct (interactive (pg_state (gate w)))"
    using ok gate_ok_distinct by (simp add: waits_interactive_def)
  show "waits_interactive i w'"
    using q ok ok' by (auto simp: waits_interactive_def split: gate_event.splits if_splits dest: in_set_tlD)
  show "i \<notin> set (interactive (pg_state (gate w')))" if "i \<notin> set (interactive (pg_state (gate w)))"
    using q ok that by (auto simp: waits_interactive_def split: gate_event.splits dest: in_set_tlD)
  show "i \<notin> set (interactive (pg_state (gate w')))
      \<or> place i (interactive (pg_state (gate w'))) + (if e = Releases then 1 else 0)
        \<le> place i (interactive (pg_state (gate w)))"
    if "\<not> i \<notin> set (interactive (pg_state (gate w)))"
  proof (cases e)
    case Releases
    then show ?thesis using q that d by (cases "interactive (pg_state (gate w))") auto
  qed (use q that in \<open>auto simp: place_append\<close>)
qed

interpretation background_waiter:
  progress_machine gate_step "waits_background i" "\<lambda>e. e \<noteq> Arrives Interactive" "\<lambda>e. e = Releases"
    "\<lambda>w. i \<notin> set (background (pg_state (gate w)))"
    "\<lambda>w. length (interactive (pg_state (gate w))) + place i (background (pg_state (gate w)))"
  for i
proof
  fix e w w' assume step: "gate_step e w = Some w'" and ok: "waits_background i w"
  note q = gate_step_queues [OF step]
  have ok': "gate_ok w'" using gate_step_ok [OF step] ok by (simp add: waits_background_def)
  have d: "distinct (background (pg_state (gate w)))"
    using ok gate_ok_distinct by (simp add: waits_background_def)
  show "waits_background i w'"
    using q ok ok' by (auto simp: waits_background_def split: gate_event.splits if_splits dest: in_set_tlD)
  assume allowed: "e \<noteq> Arrives Interactive"
  show "i \<notin> set (background (pg_state (gate w')))" if "i \<notin> set (background (pg_state (gate w)))"
    using q ok that
    by (auto simp: waits_background_def split: gate_event.splits if_splits dest: in_set_tlD)
  show "i \<notin> set (background (pg_state (gate w')))
      \<or> length (interactive (pg_state (gate w'))) + place i (background (pg_state (gate w')))
          + (if e = Releases then 1 else 0)
        \<le> length (interactive (pg_state (gate w))) + place i (background (pg_state (gate w)))"
    if "\<not> i \<notin> set (background (pg_state (gate w)))"
  proof (cases e)
    case Releases
    then show ?thesis using q that d
      by (cases "interactive (pg_state (gate w))"; cases "background (pg_state (gate w))") auto
  next
    case (Arrives prio)
    then have "prio = Background" using allowed by (cases prio) auto
    with Arrives q that show ?thesis by (auto simp: place_append)
  qed (use q that in \<open>auto simp: place_append\<close>)
qed

text \<open>
  A channel that has left the queues is not waiting any more, or its guard is on its way.
\<close>

lemma left_queues:
  assumes "gate_ok w" and "i < length (channels w)" and "i \<notin> set (interactive (pg_state (gate w)))"
    and "i \<notin> set (background (pg_state (gate w)))"
  shows "i \<in> set (transit w) \<or> channels w ! i \<noteq> Awaiting"
  using assms by (auto simp: gate_ok_def waiters_ok_def waiting_def)

lemma interactive_reached:
  assumes "run_events gate_step es w = Some w'" and "gate_ok w"
    and "i \<in> set (interactive (pg_state (gate w)))"
    and "place i (interactive (pg_state (gate w))) < length (filter (\<lambda>e. e = Releases) es)"
  shows "i \<in> set (transit w') \<or> channels w' ! i \<noteq> Awaiting"
proof -
  have ok: "waits_interactive i w" using assms(2,3)
    by (auto simp: waits_interactive_def gate_ok_def waiters_ok_def waiting_def)
  have "i \<notin> set (interactive (pg_state (gate w')))"
    using interactive_waiter.goal_reached [OF assms(1) ok _ assms(4)] by simp
  with interactive_waiter.ok_run [OF assms(1) ok] show ?thesis
    by (auto simp: waits_interactive_def dest: left_queues)
qed

lemma background_reached:
  assumes "run_events gate_step es w = Some w'" and "gate_ok w"
    and "i \<in> set (background (pg_state (gate w)))" and "Arrives Interactive \<notin> set es"
    and "length (interactive (pg_state (gate w))) + place i (background (pg_state (gate w)))
      < length (filter (\<lambda>e. e = Releases) es)"
  shows "i \<in> set (transit w') \<or> channels w' ! i \<noteq> Awaiting"
proof -
  have ok: "waits_background i w" using assms(2,3)
    by (auto simp: waits_background_def gate_ok_def waiters_ok_def waiting_def)
  have "i \<notin> set (background (pg_state (gate w')))"
    using background_waiter.goal_reached [OF assms(1) ok _ assms(5)] assms(4) by auto
  with background_waiter.ok_run [OF assms(1) ok] show ?thesis
    by (auto simp: waits_background_def dest: left_queues)
qed

text \<open>While somebody waits there is an owner whose end will release a slot: the gate cannot stall.\<close>

lemma waiting_is_owed:
  assumes "gate_ok w" and "max_in_flight (gate w) \<noteq> 0" and "i < length (channels w)"
    and "channels w ! i = Awaiting"
  shows "0 < owners w"
proof (cases "i \<in> set (transit w)")
  case True
  then show ?thesis using length_pos_if_in_set [OF True] by (simp add: owners_def)
next
  case False
  with assms have "queue_len (pg_state (gate w)) \<noteq> 0"
    by (auto simp: gate_ok_def waiters_ok_def waiting_def queue_len_def)
  with assms(1,2) have "unat (in_flight (pg_state (gate w))) \<noteq> 0"
    by (simp add: gate_ok_def queues_ok_def unat_eq_zero)
  with assms(1) show ?thesis by (simp add: gate_ok_def slots_ok_def)
qed

subsection \<open>Cancelled requests\<close>

text \<open>
  A waiter whose request was cancelled keeps its place in the queue until a release pops it: a queue of
  such waiters refuses a request although nobody waits.
\<close>

definition crowd_events :: "gate_event list" where
  "crowd_events = [Arrives Interactive, Arrives Interactive, Leaves 0]"

lemma crowd_refuses:
  "map_option (\<lambda>w. (live w, fst (acquire Interactive w)))
     (run_events gate_step crowd_events (gate_start (new_gate ''local'' 1 1)))
   = Some ([], Inl \<lparr>qf_provider = ''local'', qf_queued = 1\<rparr>)"
  by code_simp

subsection \<open>The limiter\<close>

record concurrency_config =
  cc_enabled :: bool
  cc_local_max_in_flight :: u32
  cc_local_max_queued :: u32

text \<open>The gates by provider; the order in which the concurrent map lists them is not specified.\<close>

record limiter =
  lim_config :: concurrency_config
  gates :: "(string \<times> gate_world) list"

definition new_limiter :: "concurrency_config \<Rightarrow> limiter" where
  "new_limiter cfg = \<lparr>lim_config = cfg, gates = []\<rparr>"

definition local_provider :: string where
  "local_provider = ''local''"

definition gate_for :: "string \<Rightarrow> limiter \<Rightarrow> gate_world option \<times> limiter" where
  "gate_for provider l =
     (let cfg = lim_config l in
      if \<not> cc_enabled cfg \<or> provider \<noteq> local_provider \<or> cc_local_max_in_flight cfg = 0 then (None, l)
      else
        (case bt_get (gates l) provider of
           Some w \<Rightarrow> (Some w, l)
         | None \<Rightarrow>
             (let w = gate_start (new_gate provider (cc_local_max_in_flight cfg) (cc_local_max_queued cfg))
              in (Some w, l\<lparr>gates := bt_insert provider w (gates l)\<rparr>))))"

datatype admission = Ungated | Admitted | Waits nat | Full queue_full

definition limiter_acquire :: "string \<Rightarrow> priority \<Rightarrow> limiter \<Rightarrow> admission \<times> limiter" where
  "limiter_acquire provider prio l =
     (case gate_for provider l of
        (None, l') \<Rightarrow> (Ungated, l')
      | (Some w, l') \<Rightarrow>
          (case acquire prio w of
             (answer, w') \<Rightarrow>
               (case answer of Inl full \<Rightarrow> Full full | Inr None \<Rightarrow> Admitted | Inr (Some rx) \<Rightarrow> Waits rx,
                l'\<lparr>gates := bt_insert provider w' (gates l')\<rparr>)))"

definition snapshots :: "limiter \<Rightarrow> gate_snapshot list" where
  "snapshots l = map (\<lambda>(_, w). gate_snapshot_of (gate w)) (gates l)"

text \<open>Requests to other providers are never held up, and never change a gate.\<close>

lemma remote_ungated: "provider \<noteq> local_provider \<Longrightarrow> limiter_acquire provider prio l = (Ungated, l)"
  by (simp add: limiter_acquire_def gate_for_def Let_def)

text \<open>The limiter's gates stay within their configuration.\<close>

definition limiter_ok :: "limiter \<Rightarrow> bool" where
  "limiter_ok l \<longleftrightarrow> bt_wf (gates l) \<and> (\<forall>provider w. bt_get (gates l) provider = Some w \<longrightarrow> gate_ok w)"

lemma limiter_ok_new: "limiter_ok (new_limiter cfg)"
  by (simp add: limiter_ok_def new_limiter_def bt_wf_def bt_keys_def bt_get_def)

lemma limiter_acquire_ok:
  assumes "limiter_acquire provider prio l = (a, l')" and "limiter_ok l"
  shows "limiter_ok l'"
proof (cases "fst (gate_for provider l)")
  case None
  with assms show ?thesis
    by (auto simp: limiter_acquire_def gate_for_def Let_def split: prod.splits option.splits if_splits)
next
  case (Some w)
  then have w: "gate_ok w" and wf: "bt_wf (gates (snd (gate_for provider l)))"
    and gates: "bt_get (gates (snd (gate_for provider l))) q = Some v \<Longrightarrow> gate_ok v" for q v
    using assms(2)
    by (auto simp: limiter_ok_def gate_for_def Let_def gate_ok_start bt_wf_insert bt_get_insert
      split: option.splits if_splits)
  from Some assms(1) have "l' = snd (gate_for provider l)
      \<lparr>gates := bt_insert provider (snd (acquire prio w)) (gates (snd (gate_for provider l)))\<rparr>"
    by (auto simp: limiter_acquire_def split: prod.splits)
  with w wf gates acquire_ok [OF w] show ?thesis
    by (auto simp: limiter_ok_def bt_wf_insert bt_get_insert split: if_splits)
qed

end
