(* ===== verification/Gateway_Policy.thy ===== *)
theory Gateway_Policy
  imports Gateway_Machine
begin

section \<open>The policy of a tenant and the providers it applies to\<close>

text \<open>
  \<open>apps/gateway/src/policy/mod.rs\<close>, \<open>apps/gateway/src/error.rs\<close>, the provider registry of
  \<open>apps/gateway/src/providers/mod.rs\<close> and the two checks of
  \<open>apps/gateway/src/pipeline/inference_governance.rs\<close>.  The firewall overlays of a policy are not
  read here and are left out.
\<close>

subsection \<open>Errors of the pipeline\<close>

datatype alert_tier = Silent | Warn | Fanout | Email

fun alert_rank :: "alert_tier \<Rightarrow> nat" where
  "alert_rank Silent = 0"
| "alert_rank Warn = 1"
| "alert_rank Fanout = 2"
| "alert_rank Email = 3"

lemma alert_rank_inj: "alert_rank a = alert_rank b \<longleftrightarrow> a = b"
  by (cases a; cases b) auto

text \<open>The derived order: as the variants are declared.\<close>

instantiation alert_tier :: linorder
begin

definition less_eq_alert_tier :: "alert_tier \<Rightarrow> alert_tier \<Rightarrow> bool" where
  "less_eq_alert_tier a b \<longleftrightarrow> alert_rank a \<le> alert_rank b"

definition less_alert_tier :: "alert_tier \<Rightarrow> alert_tier \<Rightarrow> bool" where
  "less_alert_tier a b \<longleftrightarrow> alert_rank a < alert_rank b"

instance
  by standard (auto simp: less_eq_alert_tier_def less_alert_tier_def alert_rank_inj)

end

record policy_alert =
  pa_source :: string
  pa_enforcement :: string
  pa_alert_tier :: alert_tier
  pa_scope :: string
  pa_subject_key :: string
  pa_used :: u64
  pa_limit :: u64
  pa_dedupe_key :: string
  pa_org_id :: string

datatype gateway_error =
    UnauthorizedKey string
  | RateLimited
  | FirewallBlocked string "policy_alert option"
  | PolicyViolation string
  | NoProvider string
  | ProviderError string
  | ProviderPaymentRequired string string
  | ProviderRateLimited string "u64 option" "u64 option"
  | CircuitOpen string
  | Overloaded string
  | BudgetExceeded "policy_alert option"
  | InsufficientCredits
  | AccountingUnavailable
  | AllProvidersUnavailable string
  | GatewayBadRequest string
  | InternalError string

subsection \<open>Policy\<close>

record effective_policy =
  ep_available :: bool
  ep_locked_guardrails :: "string list"
  ep_approved_models :: "string list"
  ep_allowed_regions :: "string list"

definition default_effective_policy :: effective_policy where
  "default_effective_policy = \<lparr>ep_available = True, ep_locked_guardrails = [], ep_approved_models = [],
     ep_allowed_regions = []\<rparr>"

definition allows_model :: "effective_policy \<Rightarrow> string \<Rightarrow> bool" where
  "allows_model p model \<longleftrightarrow>
     ep_available p \<and> (ep_approved_models p = [] \<or> model \<in> set (ep_approved_models p))"

definition regions_match :: "string \<Rightarrow> string \<Rightarrow> bool" where
  "regions_match allowed_region candidate_region =
     (let allowed = to_ascii_lowercase (trim allowed_region);
          candidate = to_ascii_lowercase (trim candidate_region) in
      allowed = candidate
      \<or> starts_with (allowed @ ''-'') candidate
      \<or> (allowed = ''eu'' \<and> (starts_with ''europe-'' candidate \<or> starts_with ''eu-'' candidate
            \<or> starts_with ''eu_'' candidate))
      \<or> (allowed = ''us'' \<and> (starts_with ''us-'' candidate \<or> starts_with ''us_'' candidate))
      \<or> (allowed = ''asia'' \<and> (starts_with ''asia-'' candidate \<or> starts_with ''asia_'' candidate)))"

definition allows_region :: "effective_policy \<Rightarrow> string option \<Rightarrow> bool" where
  "allows_region p region \<longleftrightarrow>
     ep_available p
     \<and> (ep_allowed_regions p = []
        \<or> (case region of None \<Rightarrow> False
           | Some candidate \<Rightarrow> (\<exists>allowed \<in> set (ep_allowed_regions p). regions_match allowed candidate)))"

definition requires_firewall :: "effective_policy \<Rightarrow> bool" where
  "requires_firewall p \<longleftrightarrow> ep_locked_guardrails p \<noteq> []"

subsection \<open>The provider registry\<close>

text \<open>
  A provider is what it does (the parameter type \<open>'p\<close>) and the name it reports; registered under an
  explicit id, it is wrapped so that it reports that id.
\<close>

record 'p provider =
  pv_name :: string
  pv_impl :: 'p

record 'p provider_registry =
  pr_providers :: "(string \<times> 'p provider) list"
  pr_order :: "string list"
  pr_regions :: "(string \<times> string) list"

definition insert_provider :: "string \<Rightarrow> 'p provider \<Rightarrow> 'p provider_registry \<Rightarrow> 'p provider_registry" where
  "insert_provider i p r =
     r\<lparr>pr_order := (if bt_get (pr_providers r) i = None then pr_order r @ [i] else pr_order r),
       pr_providers := bt_insert i p (pr_providers r)\<rparr>"

definition register_provider :: "'p provider \<Rightarrow> 'p provider_registry \<Rightarrow> 'p provider_registry" where
  "register_provider p r = insert_provider (pv_name p) p r"

definition register_as :: "string \<Rightarrow> 'p provider \<Rightarrow> 'p provider_registry \<Rightarrow> 'p provider_registry" where
  "register_as i p r = insert_provider i (p\<lparr>pv_name := i\<rparr>) r"

definition get_provider :: "'p provider_registry \<Rightarrow> string \<Rightarrow> 'p provider option" where
  "get_provider r i = bt_get (pr_providers r) i"

definition available_providers :: "'p provider_registry \<Rightarrow> string list" where
  "available_providers r = pr_order r"

definition region_for :: "'p provider_registry \<Rightarrow> string \<Rightarrow> string option" where
  "region_for r i =
     (case bt_get (pr_regions r) i of
        Some region \<Rightarrow> Some region
      | None \<Rightarrow>
          if i \<in> {''openai'', ''anthropic'', ''openrouter'', ''modal'', ''genai'', ''replicate'', ''fal'',
                  ''cloudflare'', ''openai-credits''} then Some ''global''
          else if i \<in> {''local'', ''classify'', ''core''} then Some ''local''
          else None)"

text \<open>
  Every provider reports the id it is registered under: metrics, admission and circuits, which go by
  the name, are those of the id that the chain holds.
\<close>

definition names_are_ids :: "'p provider_registry \<Rightarrow> bool" where
  "names_are_ids r \<longleftrightarrow> bt_wf (pr_providers r) \<and> (\<forall>i p. get_provider r i = Some p \<longrightarrow> pv_name p = i)
     \<and> distinct (pr_order r) \<and> (\<forall>i. i \<in> set (pr_order r) \<longleftrightarrow> get_provider r i \<noteq> None)"

definition empty_registry :: "(string \<times> string) list \<Rightarrow> 'p provider_registry" where
  "empty_registry regions = \<lparr>pr_providers = [], pr_order = [], pr_regions = regions\<rparr>"

lemma names_empty: "names_are_ids (empty_registry regions)"
  by (simp add: names_are_ids_def empty_registry_def get_provider_def bt_get_def bt_wf_def bt_keys_def)

lemma names_insert: "names_are_ids r \<Longrightarrow> pv_name p = i \<Longrightarrow> names_are_ids (insert_provider i p r)"
  by (auto simp: names_are_ids_def insert_provider_def get_provider_def bt_wf_insert bt_get_insert
    split: if_splits)

lemma names_register: "names_are_ids r \<Longrightarrow> names_are_ids (register_provider p r)"
  by (simp add: register_provider_def names_insert)

lemma names_register_as: "names_are_ids r \<Longrightarrow> names_are_ids (register_as i p r)"
  by (simp add: register_as_def names_insert)

subsection \<open>The checks\<close>

definition authorize_model :: "bool \<Rightarrow> effective_policy \<Rightarrow> string \<Rightarrow> gateway_error + unit" where
  "authorize_model is_master_key policy model =
     (if \<not> is_master_key \<and> \<not> allows_model policy model
      then Inl (PolicyViolation (''Model '' @ CHR 0x27 # model @ CHR 0x27 #
        '' is not approved by control-plane policy''))
      else Inr ())"

definition authorize_provider_region ::
  "bool \<Rightarrow> effective_policy \<Rightarrow> 'p provider_registry \<Rightarrow> string \<Rightarrow> gateway_error + unit" where
  "authorize_provider_region is_master_key policy r provider =
     (if is_master_key then Inr ()
      else if \<not> allows_region policy (region_for r provider)
      then Inl (PolicyViolation (''Provider '' @ CHR 0x27 # provider @ CHR 0x27 #
        '' is not authorized for the control-plane region policy''))
      else Inr ())"

text \<open>
  The policy of a tenant fails closed: nothing is allowed while it is unavailable, and under a region
  restriction a provider without a verified region is denied.
\<close>

lemma unavailable_denies:
  "\<not> ep_available policy \<Longrightarrow> authorize_provider_region False policy r p \<noteq> Inr ()
    \<and> authorize_model False policy model \<noteq> Inr ()"
  by (simp add: authorize_provider_region_def authorize_model_def allows_region_def allows_model_def)

lemma unknown_region_denied:
  "ep_allowed_regions policy \<noteq> [] \<Longrightarrow> region_for r p = None \<Longrightarrow> authorize_provider_region False policy r p \<noteq> Inr ()"
  by (simp add: authorize_provider_region_def allows_region_def)

lemma region_authorized_iff:
  "authorize_provider_region master policy r p = Inr () \<longleftrightarrow>
     master \<or> (ep_available policy \<and> (ep_allowed_regions policy = []
       \<or> (\<exists>region allowed. region_for r p = Some region \<and> allowed \<in> set (ep_allowed_regions policy)
           \<and> regions_match allowed region)))"
  by (auto simp: authorize_provider_region_def allows_region_def split: option.splits)

end
