(* ===== verification/Gateway_Circuit.thy ===== *)
theory Gateway_Circuit
  imports Gateway_Machine
begin

section \<open>Circuit breakers\<close>

text \<open>
  \<open>apps/gateway/src/circuit_breaker/mod.rs\<close>: one circuit per provider id, in the concurrent map
  \<open>states\<close>; the registry of backends; and the contract that the pipeline relies on.  Instants are
  nanoseconds on the monotonic clock, so \<open>elapsed\<close> never goes below zero; every operation takes the
  time of its call.
\<close>

type_synonym instant = nat

record circuit_breaker_config =
  cb_enabled :: bool
  failure_threshold :: u32
  reset_timeout_secs :: u64

datatype circuit_state = Closed u32 | Open instant | HalfOpen bool

type_synonym circuits = "(string \<times> circuit_state) list"

definition reset_timeout :: "circuit_breaker_config \<Rightarrow> nat" where
  "reset_timeout cfg = unat (reset_timeout_secs cfg) * 1000000000"

text \<open>\<open>entry(provider).or_insert(Closed { consecutive_failures: 0 })\<close>\<close>

definition circuit_of :: "circuits \<Rightarrow> string \<Rightarrow> circuit_state" where
  "circuit_of cs provider = (case bt_get cs provider of Some c \<Rightarrow> c | None \<Rightarrow> Closed 0)"

fun admit :: "circuit_breaker_config \<Rightarrow> instant \<Rightarrow> circuit_state \<Rightarrow> bool \<times> circuit_state" where
  "admit cfg now (Closed n) = (False, Closed n)"
| "admit cfg now (HalfOpen True) = (True, HalfOpen True)"
| "admit cfg now (HalfOpen False) = (False, HalfOpen True)"
| "admit cfg now (Open t) =
     (if reset_timeout cfg \<le> now - t then (False, HalfOpen True) else (True, Open t))"

definition is_open :: "circuit_breaker_config \<Rightarrow> instant \<Rightarrow> string \<Rightarrow> circuits \<Rightarrow> bool \<times> circuits" where
  "is_open cfg now provider cs =
     (if \<not> cb_enabled cfg then (False, cs)
      else
        (case admit cfg now (circuit_of cs provider) of
           (refused, c) \<Rightarrow> (refused, bt_insert provider c cs)))"

definition record_success :: "circuit_breaker_config \<Rightarrow> string \<Rightarrow> circuits \<Rightarrow> circuits" where
  "record_success cfg provider cs =
     (if \<not> cb_enabled cfg then cs else bt_insert provider (Closed 0) cs)"

fun fail :: "circuit_breaker_config \<Rightarrow> instant \<Rightarrow> circuit_state \<Rightarrow> circuit_state" where
  "fail cfg now (Closed n) =
     (if failure_threshold cfg \<le> n + 1 then Open now else Closed (n + 1))"
| "fail cfg now (HalfOpen b) = Open now"
| "fail cfg now (Open t) = Open t"

definition record_failure :: "circuit_breaker_config \<Rightarrow> instant \<Rightarrow> string \<Rightarrow> circuits \<Rightarrow> circuits" where
  "record_failure cfg now provider cs =
     (if \<not> cb_enabled cfg then cs
      else bt_insert provider (fail cfg now (circuit_of cs provider)) cs)"

record provider_health =
  ph_circuit :: string
  ph_consecutive_failures :: u32
  ph_open_for_secs :: "u64 option"

fun health :: "instant \<Rightarrow> circuit_state \<Rightarrow> provider_health" where
  "health now (Closed n) = \<lparr>ph_circuit = ''closed'', ph_consecutive_failures = n, ph_open_for_secs = None\<rparr>"
| "health now (Open t) = \<lparr>ph_circuit = ''open'', ph_consecutive_failures = 0,
     ph_open_for_secs = Some (word_of_nat ((now - t) div 1000000000))\<rparr>"
| "health now (HalfOpen b) =
     \<lparr>ph_circuit = ''half_open'', ph_consecutive_failures = 0, ph_open_for_secs = None\<rparr>"

definition health_snapshot :: "instant \<Rightarrow> circuits \<Rightarrow> (string \<times> provider_health) list" where
  "health_snapshot now cs = map (\<lambda>(provider, c). (provider, health now c)) cs"

subsection \<open>One circuit\<close>

lemma circuit_of_insert [simp]:
  "bt_wf cs \<Longrightarrow> circuit_of (bt_insert p c cs) q = (if q = p then c else circuit_of cs q)"
  by (simp add: circuit_of_def bt_get_insert)

text \<open>The counter of a closed circuit is below the threshold: it never overflows.\<close>

definition counted :: "circuit_breaker_config \<Rightarrow> circuit_state \<Rightarrow> bool" where
  "counted cfg c \<longleftrightarrow> (\<forall>n. c = Closed n \<longrightarrow> n = 0 \<or> n < failure_threshold cfg)"

definition circuits_ok :: "circuit_breaker_config \<Rightarrow> circuits \<Rightarrow> bool" where
  "circuits_ok cfg cs \<longleftrightarrow> bt_wf cs \<and> (\<forall>p. counted cfg (circuit_of cs p))"

lemma counted_admit: "counted cfg c \<Longrightarrow> counted cfg (snd (admit cfg now c))"
  by (cases "(cfg, now, c)" rule: admit.cases) (auto simp: counted_def)

lemma counted_fail: "counted cfg (fail cfg now c)"
  by (cases c) (auto simp: counted_def not_le)

lemma counted_closed: "counted cfg (Closed 0)"
  by (simp add: counted_def)

datatype circuit_event = Asks instant string | Succeeds string | Fails instant string

primrec circuit_step :: "circuit_breaker_config \<Rightarrow> circuit_event \<Rightarrow> circuits \<Rightarrow> circuits option" where
  "circuit_step cfg (Asks now p) cs = Some (snd (is_open cfg now p cs))"
| "circuit_step cfg (Succeeds p) cs = Some (record_success cfg p cs)"
| "circuit_step cfg (Fails now p) cs = Some (record_failure cfg now p cs)"

lemma circuit_step_ok: "circuit_step cfg e cs = Some cs' \<Longrightarrow> circuits_ok cfg cs \<Longrightarrow> circuits_ok cfg cs'"
  by (cases e)
    (auto simp: circuits_ok_def is_open_def record_success_def record_failure_def bt_wf_insert counted_fail
      counted_closed split: prod.splits if_splits, metis counted_admit snd_conv)

interpretation circuit_machine: invariant_machine "circuit_step cfg" "circuits_ok cfg" for cfg
  by unfold_locales (rule circuit_step_ok)

lemma circuits_ok_empty: "circuits_ok cfg []"
  by (simp add: circuits_ok_def bt_wf_def bt_keys_def circuit_of_def bt_get_def counted_closed)

text \<open>
  Failures in a row: below the threshold they are counted, the one that reaches it opens the circuit
  at its own time, and the later ones change nothing.
\<close>

lemma fold_fail_open: "fold (fail cfg) ts (Open t) = Open t"
  by (induction ts) auto

lemma fold_fail_closed:
  assumes "n < unat (failure_threshold cfg)" and "n = unat m"
  shows "fold (fail cfg) ts (Closed m) =
    (if n + length ts < unat (failure_threshold cfg) then Closed (m + word_of_nat (length ts))
     else Open (ts ! (unat (failure_threshold cfg) - n - 1)))"
  using assms
proof (induction ts arbitrary: n m)
  case (Cons t ts)
  then have step: "unat (m + 1) = n + 1" using unat_succ_below [of m "failure_threshold cfg"]
    by (simp add: word_less_nat_alt)
  show ?case
  proof (cases "n + 1 < unat (failure_threshold cfg)")
    case True
    with step have "fail cfg t (Closed m) = Closed (m + 1)" by (simp add: word_le_nat_alt)
    moreover have "unat (failure_threshold cfg) - Suc n = Suc (unat (failure_threshold cfg) - Suc (Suc n))"
      using True by simp
    ultimately show ?thesis using Cons.IH [OF True step [symmetric]] True
      by (simp add: add.assoc add.left_commute)
  next
    case False
    with step have "fail cfg t (Closed m) = Open t" by (simp add: word_le_nat_alt)
    moreover have "unat (failure_threshold cfg) - n - 1 = 0" using False Cons.prems by simp
    ultimately show ?thesis using False by (simp add: fold_fail_open)
  qed
qed simp

text \<open>The answers of an open circuit to a series of requests, none of which reports back.\<close>

fun answers :: "circuit_breaker_config \<Rightarrow> instant list \<Rightarrow> circuit_state \<Rightarrow> bool list" where
  "answers cfg [] c = []"
| "answers cfg (now # nows) c = (case admit cfg now c of (refused, c') \<Rightarrow> refused # answers cfg nows c')"

lemma answers_probing: "answers cfg nows (HalfOpen True) = map (\<lambda>_. True) nows"
  by (induction nows) auto

text \<open>Only the first one after the timeout is let through.\<close>

lemma answers_open:
  "answers cfg nows (Open t) =
     (let early = takeWhile (\<lambda>now. now - t < reset_timeout cfg) nows in
      map (\<lambda>_. True) early
      @ (if length early < length nows
         then False # map (\<lambda>_. True) (drop (Suc (length early)) nows) else []))"
  by (induction nows) (auto simp: Let_def answers_probing)

text \<open>The same for the map of circuits: one report, or one request, after the other.\<close>

definition fail_all :: "circuit_breaker_config \<Rightarrow> string \<Rightarrow> instant list \<Rightarrow> circuits \<Rightarrow> circuits" where
  "fail_all cfg p ts cs = fold (\<lambda>now. record_failure cfg now p) ts cs"

lemma fail_all_circuit:
  "cb_enabled cfg \<Longrightarrow> bt_wf cs \<Longrightarrow> circuit_of (fail_all cfg p ts cs) p = fold (fail cfg) ts (circuit_of cs p)"
  unfolding fail_all_def
  by (induction ts arbitrary: cs) (simp_all add: record_failure_def bt_wf_insert)

lemma fail_all_closed:
  assumes "cb_enabled cfg" and "failure_threshold cfg \<noteq> 0" and "bt_wf cs" and "circuit_of cs p = Closed 0"
  shows "circuit_of (fail_all cfg p ts cs) p =
    (if length ts < unat (failure_threshold cfg) then Closed (word_of_nat (length ts))
     else Open (ts ! (unat (failure_threshold cfg) - 1)))"
  using fold_fail_closed [of 0 cfg 0 ts] assms
  by (simp add: fail_all_circuit unat_gt_0)

fun ask_all :: "circuit_breaker_config \<Rightarrow> string \<Rightarrow> instant list \<Rightarrow> circuits \<Rightarrow> bool list" where
  "ask_all cfg p [] cs = []"
| "ask_all cfg p (now # nows) cs = (case is_open cfg now p cs of (refused, cs') \<Rightarrow> refused # ask_all cfg p nows cs')"

lemma ask_all_answers:
  "cb_enabled cfg \<Longrightarrow> bt_wf cs \<Longrightarrow> ask_all cfg p nows cs = answers cfg nows (circuit_of cs p)"
  by (induction nows arbitrary: cs) (auto simp: is_open_def bt_wf_insert split: prod.splits)

subsection \<open>The contract of a backend\<close>

text \<open>
  The trait \<open>CircuitBreakerBackend\<close> as a record of its operations on a state, and the built-in one.
\<close>

record 's breaker_ops =
  ask :: "instant \<Rightarrow> string \<Rightarrow> 's \<Rightarrow> bool \<times> 's"
  note_success :: "string \<Rightarrow> 's \<Rightarrow> 's"
  note_failure :: "instant \<Rightarrow> string \<Rightarrow> 's \<Rightarrow> 's"
  health_of :: "instant \<Rightarrow> 's \<Rightarrow> (string \<times> provider_health) list"

definition builtin :: "circuit_breaker_config \<Rightarrow> circuits breaker_ops" where
  "builtin cfg = \<lparr>ask = is_open cfg, note_success = record_success cfg, note_failure = record_failure cfg,
     health_of = health_snapshot\<rparr>"

text \<open>
  What the pipeline relies on: the operations touch the circuit of their own provider only, and keep
  the backend's invariant; a provider whose probe is out is refused, and asking changes nothing.
\<close>

locale breaker =
  fixes ops :: "'s breaker_ops"
    and good :: "'s \<Rightarrow> bool"
    and circuit :: "'s \<Rightarrow> string \<Rightarrow> 'c"
    and shut :: "'c \<Rightarrow> bool"
  assumes good_ask: "good s \<Longrightarrow> good (snd (ask ops now p s))"
    and good_success: "good s \<Longrightarrow> good (note_success ops p s)"
    and good_failure: "good s \<Longrightarrow> good (note_failure ops now p s)"
    and ask_other: "good s \<Longrightarrow> q \<noteq> p \<Longrightarrow> circuit (snd (ask ops now p s)) q = circuit s q"
    and success_other: "good s \<Longrightarrow> q \<noteq> p \<Longrightarrow> circuit (note_success ops p s) q = circuit s q"
    and failure_other: "good s \<Longrightarrow> q \<noteq> p \<Longrightarrow> circuit (note_failure ops now p s) q = circuit s q"
    and shut_refuses: "good s \<Longrightarrow> shut (circuit s p) \<Longrightarrow> fst (ask ops now p s)"
    and shut_stays: "good s \<Longrightarrow> shut (circuit s p) \<Longrightarrow> circuit (snd (ask ops now p s)) p = circuit s p"

text \<open>A circuit that admits nobody any more: its probe is out.\<close>

definition probing :: "circuit_state \<Rightarrow> bool" where
  "probing c \<longleftrightarrow> c = HalfOpen True"

interpretation builtin_breaker: breaker "builtin cfg" "circuits_ok cfg" circuit_of "\<lambda>c. cb_enabled cfg \<and> probing c"
  for cfg
proof
  fix s now p assume ok: "circuits_ok cfg s"
  show "circuits_ok cfg (snd (ask (builtin cfg) now p s))"
    using circuit_step_ok [of cfg "Asks now p" s] ok by (simp add: builtin_def)
  show "circuits_ok cfg (note_success (builtin cfg) p s)"
    using circuit_step_ok [of cfg "Succeeds p" s] ok by (simp add: builtin_def)
  show "circuits_ok cfg (note_failure (builtin cfg) now p s)"
    using circuit_step_ok [of cfg "Fails now p" s] ok by (simp add: builtin_def)
qed (auto simp: builtin_def circuits_ok_def is_open_def record_success_def record_failure_def probing_def
  split: prod.splits)

subsection \<open>The registry of backends\<close>

text \<open>
  A shared backend is known by its handle.  The verbs of the registry go to the backend \<open>reg_active\<close>.
\<close>

record breaker_registry =
  reg_backends :: "(string \<times> nat) list"
  reg_order :: "string list"
  reg_active_id :: string
  reg_active :: nat

definition builtin_id :: string where
  "builtin_id = ''builtin''"

definition register_backend :: "string \<Rightarrow> nat \<Rightarrow> breaker_registry \<Rightarrow> breaker_registry" where
  "register_backend i backend r =
     (let order = (if bt_get (reg_backends r) i = None then reg_order r @ [i] else reg_order r);
          is_active = (i = reg_active_id r) in
      r\<lparr>reg_backends := bt_insert i backend (reg_backends r), reg_order := order,
        reg_active := (if is_active then backend else reg_active r)\<rparr>)"

definition new_breaker_registry :: "nat \<Rightarrow> breaker_registry" where
  "new_breaker_registry backend =
     register_backend builtin_id backend
       \<lparr>reg_backends = [], reg_order = [], reg_active_id = builtin_id, reg_active = backend\<rparr>"

definition set_active :: "string \<Rightarrow> breaker_registry \<Rightarrow> bool \<times> breaker_registry" where
  "set_active i r =
     (case bt_get (reg_backends r) i of
        Some backend \<Rightarrow> (True, r\<lparr>reg_active := backend, reg_active_id := i\<rparr>)
      | None \<Rightarrow> (False, r))"

definition available :: "breaker_registry \<Rightarrow> string list" where
  "available r = reg_order r"

text \<open>
  The active handle is the one registered under the active id, and the ids are listed once each.
\<close>

definition registry_coherent :: "breaker_registry \<Rightarrow> bool" where
  "registry_coherent r \<longleftrightarrow> bt_wf (reg_backends r) \<and> distinct (available r)
     \<and> (\<forall>i. i \<in> set (available r) \<longleftrightarrow> bt_get (reg_backends r) i \<noteq> None)
     \<and> bt_get (reg_backends r) (reg_active_id r) = Some (reg_active r)"

lemma coherent_new: "registry_coherent (new_breaker_registry backend)"
  by (auto simp: registry_coherent_def new_breaker_registry_def register_backend_def available_def Let_def
    bt_get_def bt_wf_def bt_keys_def split: if_splits)

lemma coherent_register: "registry_coherent r \<Longrightarrow> registry_coherent (register_backend i backend r)"
  by (auto simp: registry_coherent_def register_backend_def available_def Let_def bt_get_insert bt_wf_insert
    split: if_splits)

lemma coherent_set_active: "registry_coherent r \<Longrightarrow> registry_coherent (snd (set_active i r))"
  by (auto simp: registry_coherent_def set_active_def available_def split: option.splits)

end
