(* ===== verification/Gateway_Failover.thy ===== *)
theory Gateway_Failover
  imports Gateway_Policy Gateway_Circuit
begin

section \<open>Dispatch over the fallback chain\<close>

text \<open>
  The loop over the providers of a chain in \<open>apps/gateway/src/pipeline/mod.rs\<close>: \<open>run\<close> for a buffered
  answer, \<open>run_stream\<close> for a streamed one.  An attempt checks the region, asks the circuit, resolves
  the provider, waits for admission unless the unified tool loop runs, calls the provider and reports
  the outcome to the circuit.

  What the environment does at the attempt at one place of the chain is an \<open>attempt\<close>: the readings
  of the clock, the refusal by the admission gate if it refuses, what the other requests do to the
  shared circuits while this one waits, and how the call of the provider (with its tool loop) ends.
  Metrics, logs, the request body and the settlement of an answer are left out.
\<close>

subsection \<open>Which completion path\<close>

datatype tool_loop_kind = Unified | Composio | Plain

record tool_context =
  tc_raw_tools :: bool
  tc_tools_header_present :: bool
  tc_tool_search_requested :: bool

definition tool_signal_active :: "tool_context \<Rightarrow> bool \<Rightarrow> bool" where
  "tool_signal_active ctx tools_enabled \<longleftrightarrow>
     (if \<not> tools_enabled then False else tc_tools_header_present ctx \<or> tc_tool_search_requested ctx)"

definition select_tool_loop :: "tool_context \<Rightarrow> bool \<Rightarrow> bool \<Rightarrow> bool \<Rightarrow> tool_loop_kind" where
  "select_tool_loop ctx has_catalog has_composio tools_enabled =
     (if tc_raw_tools ctx then Plain
      else if has_catalog \<and> tool_signal_active ctx tools_enabled then Unified
      else if has_composio then Composio
      else Plain)"

definition tools_active :: "tool_context \<Rightarrow> bool \<Rightarrow> bool \<Rightarrow> bool" where
  "tools_active ctx has_catalog tools_enabled \<longleftrightarrow>
     \<not> tc_raw_tools ctx \<and> has_catalog \<and> tool_signal_active ctx tools_enabled"

lemma tools_active_iff:
  "tools_active ctx has_catalog enabled \<longleftrightarrow> select_tool_loop ctx has_catalog has_composio enabled = Unified"
  by (simp add: tools_active_def select_tool_loop_def)

subsection \<open>Errors along the chain\<close>

fun penalizes_provider_circuit :: "gateway_error \<Rightarrow> bool" where
  "penalizes_provider_circuit (ProviderRateLimited _ _ _) = False"
| "penalizes_provider_circuit (ProviderPaymentRequired _ _) = False"
| "penalizes_provider_circuit _ = True"

fun is_payment :: "gateway_error \<Rightarrow> bool" where
  "is_payment (ProviderPaymentRequired _ _) = True"
| "is_payment _ = False"

definition remember_preferred_provider_error ::
  "gateway_error option \<Rightarrow> gateway_error \<Rightarrow> gateway_error option" where
  "remember_preferred_provider_error slot e =
     (let existing_is_payment = (case slot of Some x \<Rightarrow> is_payment x | None \<Rightarrow> False)
      in if is_payment e \<or> \<not> existing_is_payment then Some e else slot)"

definition all_unavailable :: "string \<Rightarrow> string" where
  "all_unavailable model = ''All providers unavailable for model '' @ CHR 0x27 # model @ [CHR 0x27]"

definition exhausted :: "string \<Rightarrow> gateway_error option \<Rightarrow> gateway_error" where
  "exhausted model slot =
     (case slot of
        None \<Rightarrow> AllProvidersUnavailable (all_unavailable model)
      | Some (CircuitOpen p) \<Rightarrow>
          AllProvidersUnavailable (all_unavailable model @ '': Circuit open for provider: '' @ p)
      | Some (ProviderError m) \<Rightarrow> AllProvidersUnavailable (all_unavailable model @ '': Provider error: '' @ m)
      | Some other \<Rightarrow> other)"

definition engine_busy :: "u32 \<Rightarrow> gateway_error" where
  "engine_busy waiting = Overloaded (''Local engine busy: '' @ show_nat (unat waiting) @
     '' requests already queued. Retry shortly.'')"

subsection \<open>The buffered loop\<close>

record ('r, 's) attempt =
  at_check :: instant
  at_admission :: "u32 option"
  at_meanwhile :: "'s \<Rightarrow> 's"
  at_result :: "gateway_error + 'r"
  at_record :: instant

record 'r answer =
  an_provider :: string
  an_response :: 'r
  an_degraded :: "string option"

record 's chain_state =
  ch_circuits :: 's
  ch_last :: "gateway_error option"
  ch_skipped :: bool

text \<open>What a request brings: its credentials, its policy, the registry and the breaker of the node.\<close>

record ('p, 's) dispatch_env =
  de_master :: bool
  de_policy :: effective_policy
  de_registry :: "'p provider_registry"
  de_breaker :: "'s breaker_ops"
  de_kind :: tool_loop_kind

definition attempt_provider ::
  "('p, 's) dispatch_env \<Rightarrow> string option \<Rightarrow> ('r, 's) attempt \<Rightarrow> string \<Rightarrow> 's chain_state
   \<Rightarrow> (gateway_error + 'r answer) option \<times> 's chain_state" where
  "attempt_provider env primary a p st =
     (let skipped = (if Some p = primary then True else ch_skipped st) in
      case authorize_provider_region (de_master env) (de_policy env) (de_registry env) p of
        Inl e \<Rightarrow> (None, st\<lparr>ch_last := Some e, ch_skipped := skipped\<rparr>)
      | Inr _ \<Rightarrow>
          (case ask (de_breaker env) (at_check a) p (ch_circuits st) of
             (True, b) \<Rightarrow>
               (None, st\<lparr>ch_circuits := b,
                         ch_last := remember_preferred_provider_error (ch_last st) (CircuitOpen p),
                         ch_skipped := skipped\<rparr>)
           | (False, b) \<Rightarrow>
               (case get_provider (de_registry env) p of
                  None \<Rightarrow> (None, st\<lparr>ch_circuits := b, ch_skipped := skipped\<rparr>)
                | Some provider \<Rightarrow>
                    (let refused = (if de_kind env = Unified then None else at_admission a);
                         b' = at_meanwhile a b in
                     case refused of
                       Some waiting \<Rightarrow> (Some (Inl (engine_busy waiting)), st\<lparr>ch_circuits := b'\<rparr>)
                     | None \<Rightarrow>
                         (case at_result a of
                            Inr response \<Rightarrow>
                              (Some (Inr \<lparr>an_provider = pv_name provider, an_response = response,
                                 an_degraded = (if ch_skipped st then Some (pv_name provider) else None)\<rparr>),
                               st\<lparr>ch_circuits := note_success (de_breaker env) (pv_name provider) b'\<rparr>)
                          | Inl e \<Rightarrow>
                              (None,
                               st\<lparr>ch_circuits :=
                                    (if penalizes_provider_circuit e
                                     then note_failure (de_breaker env) (at_record a) (pv_name provider) b'
                                     else b'),
                                  ch_last := remember_preferred_provider_error (ch_last st) e,
                                  ch_skipped := skipped\<rparr>))))))"

text \<open>The attempts of a request by their place in the chain.\<close>

fun run_chain ::
  "('p, 's) dispatch_env \<Rightarrow> string option \<Rightarrow> (nat \<Rightarrow> ('r, 's) attempt) \<Rightarrow> nat \<Rightarrow> string list \<Rightarrow> 's chain_state
   \<Rightarrow> (gateway_error + 'r answer) option \<times> 's chain_state" where
  "run_chain env primary attempts n [] st = (None, st)"
| "run_chain env primary attempts n (p # ps) st =
     (case attempt_provider env primary (attempts n) p st of
        (Some out, st') \<Rightarrow> (Some out, st')
      | (None, st') \<Rightarrow> run_chain env primary attempts (Suc n) ps st')"

definition dispatch ::
  "('p, 's) dispatch_env \<Rightarrow> string \<Rightarrow> (nat \<Rightarrow> ('r, 's) attempt) \<Rightarrow> string list \<Rightarrow> 's
   \<Rightarrow> (gateway_error + 'r answer) \<times> 's" where
  "dispatch env model attempts chain b =
     (let primary = (case chain of [] \<Rightarrow> None | p # _ \<Rightarrow> Some p) in
      case run_chain env primary attempts 0 chain \<lparr>ch_circuits = b, ch_last = None, ch_skipped = False\<rparr> of
        (Some out, st) \<Rightarrow> (out, ch_circuits st)
      | (None, st) \<Rightarrow> (Inl (exhausted model (ch_last st)), ch_circuits st))"

subsection \<open>What an attempt does\<close>

text \<open>The ways an attempt can end.\<close>

definition may_call :: "('p, 's) dispatch_env \<Rightarrow> string \<Rightarrow> bool" where
  "may_call env p \<longleftrightarrow> authorize_provider_region (de_master env) (de_policy env) (de_registry env) p = Inr ()"

definition admits :: "('p, 's) dispatch_env \<Rightarrow> ('r, 's) attempt \<Rightarrow> bool" where
  "admits env a \<longleftrightarrow> de_kind env = Unified \<or> at_admission a = None"

lemma attempt_served:
  assumes "attempt_provider env primary a p st = (Some (Inr ans), st')"
  shows "\<exists>provider. may_call env p \<and> \<not> fst (ask (de_breaker env) (at_check a) p (ch_circuits st))
    \<and> get_provider (de_registry env) p = Some provider \<and> admits env a
    \<and> at_result a = Inr (an_response ans) \<and> an_provider ans = pv_name provider
    \<and> an_degraded ans = (if ch_skipped st then Some (pv_name provider) else None)"
  using assms
  by (auto simp: attempt_provider_def may_call_def admits_def Let_def
    split: sum.splits prod.splits bool.splits option.splits if_splits)

lemma attempt_refused:
  assumes "attempt_provider env primary a p st = (Some (Inl e), st')"
  shows "\<exists>waiting. at_admission a = Some waiting \<and> de_kind env \<noteq> Unified \<and> e = engine_busy waiting"
  using assms
  by (auto simp: attempt_provider_def Let_def
    split: sum.splits prod.splits bool.splits option.splits if_splits)

lemma attempt_passes:
  assumes "attempt_provider env primary a p st = (None, st')"
  shows "ch_skipped st' = (Some p = primary \<or> ch_skipped st)"
  using assms
  by (auto simp: attempt_provider_def Let_def
    split: sum.splits prod.splits bool.splits option.splits if_splits)

text \<open>The error that a failed attempt leaves: a payment that is due is overwritten by a denied region only.\<close>

lemma attempt_last:
  assumes "attempt_provider env primary a p st = (None, st')"
  shows "ch_last st' = ch_last st
    \<or> (\<not> may_call env p \<and> (\<exists>text. ch_last st' = Some (PolicyViolation text)))
    \<or> (may_call env p \<and> (\<exists>e. ch_last st' = remember_preferred_provider_error (ch_last st) e
         \<and> (e = CircuitOpen p \<or> at_result a = Inl e)))"
  using assms
  by (auto simp: attempt_provider_def may_call_def authorize_provider_region_def Let_def
    split: sum.splits prod.splits bool.splits option.splits if_splits)

lemma remember_payment:
  "slot = Some x \<Longrightarrow> is_payment x \<Longrightarrow> \<exists>y. remember_preferred_provider_error slot e = Some y \<and> is_payment y"
  by (auto simp: remember_preferred_provider_error_def Let_def)

lemma payment_kept:
  assumes "attempt_provider env primary a p st = (None, st')" and "may_call env p"
    and "ch_last st = Some x" and "is_payment x"
  shows "\<exists>y. ch_last st' = Some y \<and> is_payment y"
  using attempt_last [OF assms(1)] assms(2-4) remember_payment by fastforce

subsection \<open>The chain\<close>

lemma run_chain_cases:
  assumes "run_chain env primary attempts n chain st = (out, st')"
  obtains (ended) k stk x where "k < length chain" "out = Some x"
      "run_chain env primary attempts n (take k chain) st = (None, stk)"
      "attempt_provider env primary (attempts (n + k)) (chain ! k) stk = (Some x, st')"
    | (exhausted) "out = None"
  using assms
proof (induction chain arbitrary: n st thesis)
  case (Cons p ps)
  obtain here st1 where first: "attempt_provider env primary (attempts n) p st = (here, st1)"
    by (cases "attempt_provider env primary (attempts n) p st")
  show ?case
  proof (cases here)
    case (Some x)
    with first Cons.prems(3) show ?thesis by (intro Cons.prems(1) [of 0 x st]) auto
  next
    case None
    with first Cons.prems(3) have rest: "run_chain env primary attempts (Suc n) ps st1 = (out, st')" by simp
    show ?thesis
    proof (rule Cons.IH [OF _ _ rest])
      fix k stk x
      assume "k < length ps" "out = Some x" "run_chain env primary attempts (Suc n) (take k ps) st1 = (None, stk)"
        "attempt_provider env primary (attempts (Suc n + k)) (ps ! k) stk = (Some x, st')"
      with first None show thesis by (intro Cons.prems(1) [of "Suc k" x stk]) auto
    qed (rule Cons.prems(2))
  qed
qed simp

lemma run_chain_skipped:
  "run_chain env primary attempts n ps st = (None, st')
   \<Longrightarrow> ch_skipped st' = (ch_skipped st \<or> (\<exists>p \<in> set ps. Some p = primary))"
  by (induction ps arbitrary: n st) (auto split: prod.splits option.splits dest!: attempt_passes)

lemma run_chain_append:
  "run_chain env primary attempts n (ps @ qs) st =
     (case run_chain env primary attempts n ps st of
        (Some x, st') \<Rightarrow> (Some x, st')
      | (None, st') \<Rightarrow> run_chain env primary attempts (n + length ps) qs st')"
  by (induction ps arbitrary: n st) (auto split: prod.splits option.splits)

lemma run_chain_payment:
  assumes "run_chain env primary attempts n ps st = (None, st')" and "\<forall>p \<in> set ps. may_call env p"
    and "ch_last st = Some x" and "is_payment x"
  shows "\<exists>y. ch_last st' = Some y \<and> is_payment y"
  using assms
proof (induction ps arbitrary: n st x)
  case (Cons p ps)
  then obtain st1 where first: "attempt_provider env primary (attempts n) p st = (None, st1)"
    and rest: "run_chain env primary attempts (Suc n) ps st1 = (None, st')"
    by (auto split: prod.splits option.splits)
  from payment_kept [OF first] Cons.prems obtain y where "ch_last st1 = Some y" "is_payment y" by auto
  with Cons.IH [OF rest] Cons.prems show ?case by auto
qed simp

text \<open>The state in which the attempt at a place of the chain starts, when it is reached.\<close>

definition fresh_chain :: "'s \<Rightarrow> 's chain_state" where
  "fresh_chain b = \<lparr>ch_circuits = b, ch_last = None, ch_skipped = False\<rparr>"

definition reaches ::
  "('p, 's) dispatch_env \<Rightarrow> (nat \<Rightarrow> ('r, 's) attempt) \<Rightarrow> string list \<Rightarrow> 's \<Rightarrow> nat \<Rightarrow> 's chain_state \<Rightarrow> bool" where
  "reaches env attempts chain b k st \<longleftrightarrow> k < length chain
     \<and> run_chain env (Some (hd chain)) attempts 0 (take k chain) (fresh_chain b) = (None, st)"

text \<open>The provider at that place is called: nothing holds the attempt up before the call.\<close>

definition calls :: "('p, 's) dispatch_env \<Rightarrow> ('r, 's) attempt \<Rightarrow> string \<Rightarrow> 's chain_state \<Rightarrow> bool" where
  "calls env a p st \<longleftrightarrow> may_call env p \<and> \<not> fst (ask (de_breaker env) (at_check a) p (ch_circuits st))
     \<and> get_provider (de_registry env) p \<noteq> None \<and> admits env a"

lemma dispatch_unfold:
  "chain \<noteq> [] \<Longrightarrow> dispatch env model attempts chain b =
     (case run_chain env (Some (hd chain)) attempts 0 chain (fresh_chain b) of
        (Some out, st) \<Rightarrow> (out, ch_circuits st)
      | (None, st) \<Rightarrow> (Inl (exhausted model (ch_last st)), ch_circuits st))"
  by (cases chain) (simp_all add: dispatch_def fresh_chain_def Let_def)

text \<open>
  The answer is that of the first place whose provider is called and answers; it counts as degraded
  exactly when it is not the first of the chain.
\<close>

lemma dispatch_served:
  assumes "dispatch env model attempts chain b = (Inr ans, b')"
  shows "\<exists>k st provider. reaches env attempts chain b k st \<and> calls env (attempts k) (chain ! k) st
    \<and> get_provider (de_registry env) (chain ! k) = Some provider
    \<and> at_result (attempts k) = Inr (an_response ans) \<and> an_provider ans = pv_name provider
    \<and> an_degraded ans = (if k = 0 then None else Some (pv_name provider))"
proof -
  have ne: "chain \<noteq> []" using assms by (cases chain) (auto simp: dispatch_def)
  with assms obtain st' where
    run: "run_chain env (Some (hd chain)) attempts 0 chain (fresh_chain b) = (Some (Inr ans), st')"
    by (auto simp: dispatch_unfold split: prod.splits option.splits)
  show ?thesis
  proof (cases rule: run_chain_cases [OF run])
    case (1 k st x)
    have skipped: "ch_skipped st = (k \<noteq> 0)"
      using run_chain_skipped [OF 1(3)] 1(1) ne
      by (cases k; cases chain) (auto simp: fresh_chain_def)
    show ?thesis
      using attempt_served [of env "Some (hd chain)" "attempts k" "chain ! k" st ans st'] 1 skipped
      by (auto simp: reaches_def calls_def)
  qed simp
qed

text \<open>A request that ends without an answer, and no payment error is lost on the way.\<close>

lemma exhausted_payment: "is_payment x \<Longrightarrow> exhausted model (Some x) = x"
  by (cases x) (auto simp: exhausted_def)

lemma attempt_payment:
  assumes "calls env a p st" and "at_result a = Inl x" and "is_payment x"
    and "attempt_provider env primary a p st = (out, st')"
  shows "out = None \<and> ch_last st' = Some x"
  using assms
  by (auto simp: attempt_provider_def calls_def may_call_def admits_def Let_def
    remember_preferred_provider_error_def split: sum.splits prod.splits bool.splits option.splits if_splits)

lemma dispatch_payment:
  assumes "dispatch env model attempts chain b = (Inl e, b')" and "reaches env attempts chain b k st"
    and "calls env (attempts k) (chain ! k) st" and "at_result (attempts k) = Inl x" and "is_payment x"
    and "\<forall>p \<in> set (drop (Suc k) chain). may_call env p"
    and "de_kind env = Unified \<or> (\<forall>n. at_admission (attempts n) = None)"
  shows "is_payment e"
proof -
  let ?run = "run_chain env (Some (hd chain)) attempts"
  have k: "k < length chain" and before: "?run 0 (take k chain) (fresh_chain b) = (None, st)"
    using assms(2) by (simp_all add: reaches_def)
  obtain out st1 where here: "attempt_provider env (Some (hd chain)) (attempts k) (chain ! k) st = (out, st1)"
    by (cases "attempt_provider env (Some (hd chain)) (attempts k) (chain ! k) st")
  from attempt_payment [OF assms(3-5) here] have st1: "out = None" "ch_last st1 = Some x" by auto
  obtain out2 st2 where rest: "?run (Suc k) (drop (Suc k) chain) st1 = (out2, st2)"
    by (cases "?run (Suc k) (drop (Suc k) chain) st1")
  have "chain = take k chain @ chain ! k # drop (Suc k) chain" using k by (rule id_take_nth_drop)
  then have "?run 0 chain (fresh_chain b) = ?run 0 (take k chain @ chain ! k # drop (Suc k) chain) (fresh_chain b)"
    by simp
  also have "\<dots> = (out2, st2)" using before here st1 rest k
    by (simp only: run_chain_append) (simp add: min_def)
  finally have run: "?run 0 chain (fresh_chain b) = (out2, st2)" .
  have ne: "chain \<noteq> []" using k by auto
  show ?thesis
  proof (cases out2)
    case None
    with run_chain_payment [of env "Some (hd chain)" attempts "Suc k" "drop (Suc k) chain" st1 st2 x] rest assms(5,6) st1
    obtain y where "ch_last st2 = Some y" "is_payment y" by auto
    with assms(1) run None ne show ?thesis by (simp add: dispatch_unfold exhausted_payment)
  next
    case (Some x2)
    with assms(1) run ne have "x2 = Inl e" by (simp add: dispatch_unfold)
    with run_chain_cases [OF rest] Some assms(7) attempt_refused show ?thesis
      by (metis option.distinct(1) option.inject)
  qed
qed

end
