(* ===== verification/Gateway_Probe.thy ===== *)
theory Gateway_Probe
  imports Gateway_Failover
begin

section \<open>Streaming, and the probe of an open circuit\<close>

text \<open>
  The loop of \<open>run_stream\<close>, which is written out a second time in the source, against that of \<open>run\<close>;
  and what becomes of a circuit whose probe request ends without a report.
\<close>

subsection \<open>The streaming loop\<close>

text \<open>The permit of an admitted stream lives on in the body; here it makes no difference.\<close>

definition attempt_stream ::
  "('p, 's) dispatch_env \<Rightarrow> bool \<Rightarrow> string option \<Rightarrow> ('r, 's) attempt \<Rightarrow> string \<Rightarrow> 's chain_state
   \<Rightarrow> (gateway_error + 'r answer) option \<times> 's chain_state" where
  "attempt_stream env active primary_stream a p st =
     (let skip = (\<lambda>s. if Some p = primary_stream then s\<lparr>ch_skipped := True\<rparr> else s) in
      case authorize_provider_region (de_master env) (de_policy env) (de_registry env) p of
        Inl e \<Rightarrow> (None, skip (st\<lparr>ch_last := Some e\<rparr>))
      | Inr _ \<Rightarrow>
          (let (open_now, b) = ask (de_breaker env) (at_check a) p (ch_circuits st);
               st1 = st\<lparr>ch_circuits := b\<rparr> in
           if open_now
           then (None, skip (st1\<lparr>ch_last := remember_preferred_provider_error (ch_last st1) (CircuitOpen p)\<rparr>))
           else
             (case get_provider (de_registry env) p of
                None \<Rightarrow> (None, skip st1)
              | Some provider \<Rightarrow>
                  (let st2 = st1\<lparr>ch_circuits := at_meanwhile a (ch_circuits st1)\<rparr> in
                   case (if active then None else at_admission a) of
                     Some waiting \<Rightarrow> (Some (Inl (engine_busy waiting)), st2)
                   | None \<Rightarrow>
                       (case at_result a of
                          Inr body \<Rightarrow>
                            (let st3 = st2\<lparr>ch_circuits :=
                                   note_success (de_breaker env) (pv_name provider) (ch_circuits st2)\<rparr>
                             in (Some (Inr \<lparr>an_provider = pv_name provider, an_response = body,
                                   an_degraded = (if ch_skipped st3 then Some (pv_name provider) else None)\<rparr>), st3))
                        | Inl e \<Rightarrow>
                            (let st3 = (if \<not> penalizes_provider_circuit e then st2
                                 else st2\<lparr>ch_circuits := note_failure (de_breaker env) (at_record a)
                                       (pv_name provider) (ch_circuits st2)\<rparr>);
                                 st4 = skip st3
                             in (None, st4\<lparr>ch_last := remember_preferred_provider_error (ch_last st4) e\<rparr>)))))))"

fun stream_chain ::
  "('p, 's) dispatch_env \<Rightarrow> bool \<Rightarrow> string option \<Rightarrow> (nat \<Rightarrow> ('r, 's) attempt) \<Rightarrow> nat \<Rightarrow> string list
   \<Rightarrow> 's chain_state \<Rightarrow> (gateway_error + 'r answer) option \<times> 's chain_state" where
  "stream_chain env active primary attempts n [] st = (None, st)"
| "stream_chain env active primary attempts n (p # ps) st =
     (case attempt_stream env active primary (attempts n) p st of
        (Some out, st') \<Rightarrow> (Some out, st')
      | (None, st') \<Rightarrow> stream_chain env active primary attempts (Suc n) ps st')"

definition dispatch_stream ::
  "('p, 's) dispatch_env \<Rightarrow> bool \<Rightarrow> string \<Rightarrow> (nat \<Rightarrow> ('r, 's) attempt) \<Rightarrow> string list \<Rightarrow> 's
   \<Rightarrow> (gateway_error + 'r answer) \<times> 's" where
  "dispatch_stream env active model attempts chain b =
     (let primary = (case chain of [] \<Rightarrow> None | p # _ \<Rightarrow> Some p) in
      case stream_chain env active primary attempts 0 chain
          \<lparr>ch_circuits = b, ch_last = None, ch_skipped = False\<rparr> of
        (Some out, st) \<Rightarrow> (out, ch_circuits st)
      | (None, st) \<Rightarrow> (Inl (exhausted model (ch_last st)), ch_circuits st))"

lemma attempt_stream_same:
  "attempt_stream env (de_kind env = Unified) primary a p st = attempt_provider env primary a p st"
  by (cases st) (auto simp: attempt_stream_def attempt_provider_def Let_def
    split: sum.splits prod.splits bool.splits option.splits)

lemma stream_chain_same:
  "stream_chain env (de_kind env = Unified) primary attempts n ps st = run_chain env primary attempts n ps st"
  by (induction ps arbitrary: n st) (auto simp: attempt_stream_same split: prod.splits option.splits)

lemma dispatch_stream_same:
  "dispatch_stream env (de_kind env = Unified) model attempts chain b = dispatch env model attempts chain b"
  by (simp add: dispatch_stream_def dispatch_def stream_chain_same)

subsection \<open>A circuit that is shut stays shut\<close>

text \<open>What the other requests do must not report on the provider either.\<close>

definition spares ::
  "('s \<Rightarrow> bool) \<Rightarrow> ('s \<Rightarrow> string \<Rightarrow> 'c) \<Rightarrow> string \<Rightarrow> ('s \<Rightarrow> 's) \<Rightarrow> bool" where
  "spares good circuit p f \<longleftrightarrow> (\<forall>s. good s \<longrightarrow> good (f s) \<and> circuit (f s) p = circuit s p)"

type_synonym ('p, 'r, 's) dispatch_job =
  "('p, 's) dispatch_env \<times> string \<times> (nat \<Rightarrow> ('r, 's) attempt) \<times> string list"

text \<open>One request after the other on the circuits of a node.\<close>

fun dispatch_all ::
  "('p, 'r, 's) dispatch_job list \<Rightarrow> 's \<Rightarrow> (gateway_error + 'r answer) list \<times> 's" where
  "dispatch_all [] b = ([], b)"
| "dispatch_all ((env, model, attempts, chain) # jobs) b =
     (case dispatch env model attempts chain b of
        (out, b1) \<Rightarrow> (case dispatch_all jobs b1 of (outs, b2) \<Rightarrow> (out # outs, b2)))"

lemma attempt_circuits:
  assumes "attempt_provider env primary a q st = (out, st')"
    and "ask (de_breaker env) (at_check a) q (ch_circuits st) = (refused, b)"
  shows "(out = None \<and> ch_circuits st' \<in> {ch_circuits st, b})
    \<or> ((\<forall>ans. out \<noteq> Some (Inr ans)) \<and> ch_circuits st' = at_meanwhile a b)
    \<or> (\<exists>x. \<not> refused \<and> get_provider (de_registry env) q = Some x
        \<and> ch_circuits st' \<in> {note_success (de_breaker env) (pv_name x) (at_meanwhile a b),
             note_failure (de_breaker env) (at_record a) (pv_name x) (at_meanwhile a b)}
        \<and> (\<forall>ans. out = Some (Inr ans) \<longrightarrow> an_provider ans = pv_name x))"
  using assms
  by (auto simp: attempt_provider_def Let_def split: sum.splits bool.splits option.splits if_splits)

context breaker
begin

lemma attempt_shut:
  assumes "attempt_provider env primary a q st = (out, st')" and "de_breaker env = ops"
    and "names_are_ids (de_registry env)" and "good (ch_circuits st)" and "shut (circuit (ch_circuits st) p)"
    and "spares good circuit p (at_meanwhile a)"
  shows "good (ch_circuits st') \<and> circuit (ch_circuits st') p = circuit (ch_circuits st) p
    \<and> (\<forall>ans. out = Some (Inr ans) \<longrightarrow> an_provider ans \<noteq> p)"
proof -
  have name: "pv_name x = q" if "get_provider (de_registry env) q = Some x" for x
    using assms(3) that by (auto simp: names_are_ids_def)
  have ask: "fst (ask ops now q s)" "circuit (snd (ask ops now q s)) p = circuit s p"
    if "good s" "shut (circuit s p)" "q = p" for s now
    using that shut_refuses shut_stays by auto
  obtain refused b where b: "ask ops (at_check a) q (ch_circuits st) = (refused, b)"
    by (cases "ask ops (at_check a) q (ch_circuits st)")
  have "good b" using good_ask [OF assms(4), of "at_check a" q] b by simp
  moreover have "circuit b p = circuit (ch_circuits st) p"
  proof (cases "q = p")
    case True
    with ask(2) [OF assms(4,5) True, of "at_check a"] b show ?thesis by simp
  next
    case False
    with ask_other [OF assms(4), of p q "at_check a"] b show ?thesis by simp
  qed
  ultimately have keep: "good b" "circuit b p = circuit (ch_circuits st) p" by auto
  have other: "q \<noteq> p" if "\<not> refused" using ask(1) [OF assms(4,5), of "at_check a"] that b by auto
  have mid: "good (at_meanwhile a b)" "circuit (at_meanwhile a b) p = circuit (ch_circuits st) p"
    using assms(6) keep by (auto simp: spares_def)
  have b': "ask (de_breaker env) (at_check a) q (ch_circuits st) = (refused, b)" using b assms(2) by simp
  from attempt_circuits [OF assms(1) b'] consider
      (idle) "out = None" "ch_circuits st' \<in> {ch_circuits st, b}"
    | (gone) "\<forall>ans. out \<noteq> Some (Inr ans)" "ch_circuits st' = at_meanwhile a b"
    | (told) x where "\<not> refused" "get_provider (de_registry env) q = Some x"
        "ch_circuits st' \<in> {note_success ops (pv_name x) (at_meanwhile a b),
           note_failure ops (at_record a) (pv_name x) (at_meanwhile a b)}"
        "\<forall>ans. out = Some (Inr ans) \<longrightarrow> an_provider ans = pv_name x"
    using assms(2) by blast
  then show ?thesis
  proof cases
    case idle
    with assms(4) keep show ?thesis by auto
  next
    case gone
    with mid show ?thesis by auto
  next
    case told
    from told(1) other have "p \<noteq> q" by auto
    with told name [OF told(2)] mid good_success [OF mid(1)] good_failure [OF mid(1)]
      success_other [OF mid(1)] failure_other [OF mid(1)] show ?thesis by auto
  qed
qed

lemma run_chain_shut:
  assumes "run_chain env primary attempts n chain st = (out, st')" and "de_breaker env = ops"
    and "names_are_ids (de_registry env)" and "good (ch_circuits st)" and "shut (circuit (ch_circuits st) p)"
    and "\<forall>k. spares good circuit p (at_meanwhile (attempts k))"
  shows "good (ch_circuits st') \<and> circuit (ch_circuits st') p = circuit (ch_circuits st) p
    \<and> (\<forall>ans. out = Some (Inr ans) \<longrightarrow> an_provider ans \<noteq> p)"
  using assms
proof (induction chain arbitrary: n st)
  case (Cons q qs)
  obtain here st1 where first: "attempt_provider env primary (attempts n) q st = (here, st1)"
    by (cases "attempt_provider env primary (attempts n) q st")
  note shut1 = attempt_shut [OF first Cons.prems(2-5) Cons.prems(6) [rule_format]]
  show ?case
  proof (cases here)
    case None
    with first Cons.prems(1) have "run_chain env primary attempts (Suc n) qs st1 = (out, st')" by simp
    from Cons.IH [OF this Cons.prems(2,3) _ _ Cons.prems(6)] shut1 Cons.prems(5) show ?thesis by simp
  qed (use first Cons.prems(1) shut1 in auto)
qed simp

lemma dispatch_shut:
  assumes "dispatch env model attempts chain b = (out, b')" and "de_breaker env = ops"
    and "names_are_ids (de_registry env)" and "good b" and "shut (circuit b p)"
    and "\<forall>k. spares good circuit p (at_meanwhile (attempts k))"
  shows "good b' \<and> circuit b' p = circuit b p \<and> (\<forall>ans. out = Inr ans \<longrightarrow> an_provider ans \<noteq> p)"
proof -
  let ?primary = "case chain of [] \<Rightarrow> None | x # _ \<Rightarrow> Some x"
  obtain o1 st where run: "run_chain env ?primary attempts 0 chain (fresh_chain b) = (o1, st)"
    by (cases "run_chain env ?primary attempts 0 chain (fresh_chain b)")
  from run_chain_shut [OF run assms(2,3) _ _ assms(6)] assms(1,4,5) run show ?thesis
    by (auto simp: dispatch_def fresh_chain_def Let_def split: option.splits)
qed

lemma dispatch_all_shut:
  assumes "dispatch_all jobs b = (outs, b')" and "good b" and "shut (circuit b p)"
    and "\<forall>(env, model, attempts, chain) \<in> set jobs. de_breaker env = ops \<and> names_are_ids (de_registry env)
      \<and> (\<forall>k. spares good circuit p (at_meanwhile (attempts k)))"
  shows "circuit b' p = circuit b p \<and> (\<forall>ans. Inr ans \<in> set outs \<longrightarrow> an_provider ans \<noteq> p)"
  using assms
proof (induction jobs arbitrary: b outs)
  case (Cons job jobs)
  obtain env model attempts chain where job: "job = (env, model, attempts, chain)" by (cases job)
  obtain out b1 where first: "dispatch env model attempts chain b = (out, b1)"
    by (cases "dispatch env model attempts chain b")
  obtain outs2 b2 where rest: "dispatch_all jobs b1 = (outs2, b2)" by (cases "dispatch_all jobs b1")
  from Cons.prems(1) job first rest have eq: "outs = out # outs2" "b' = b2" by auto
  have now: "good b1 \<and> circuit b1 p = circuit b p \<and> (\<forall>ans. out = Inr ans \<longrightarrow> an_provider ans \<noteq> p)"
    using Cons.prems(4) job by (intro dispatch_shut [OF first _ _ Cons.prems(2,3)]) auto
  with Cons.IH [of b1 outs2] rest Cons.prems(3,4) eq show ?case by auto
qed simp

end

subsection \<open>The lost probe\<close>

text \<open>
  An attempt that is the probe of its provider and ends in one of the ways that report nothing: the
  provider is not registered, the admission queue is full, or the provider answered that it is busy or
  that a payment is due.
\<close>

definition unreported :: "('p, 's) dispatch_env \<Rightarrow> ('r, 's) attempt \<Rightarrow> string \<Rightarrow> bool" where
  "unreported env a p \<longleftrightarrow> get_provider (de_registry env) p = None \<or> \<not> admits env a
     \<or> (case at_result a of Inl e \<Rightarrow> \<not> penalizes_provider_circuit e | Inr _ \<Rightarrow> False)"

lemma probe_lost:
  assumes "attempt_provider env primary a p st = (out, st')" and "de_breaker env = builtin cfg"
    and "cb_enabled cfg" and "circuits_ok cfg (ch_circuits st)" and "may_call env p"
    and "circuit_of (ch_circuits st) p = Open t" and "reset_timeout cfg \<le> at_check a - t"
    and "spares (circuits_ok cfg) circuit_of p (at_meanwhile a)" and "unreported env a p"
  shows "circuits_ok cfg (ch_circuits st') \<and> circuit_of (ch_circuits st') p = HalfOpen True"
proof -
  let ?b = "bt_insert p (HalfOpen True) (ch_circuits st)"
  have ask: "ask (de_breaker env) (at_check a) p (ch_circuits st) = (False, ?b)"
    using assms(2,3,6,7) by (simp add: builtin_def is_open_def)
  then have ok: "circuits_ok cfg ?b"
    using builtin_breaker.good_ask [OF assms(4), of "at_check a" p] assms(2) by simp
  then have half: "circuit_of ?b p = HalfOpen True" using assms(4) by (simp add: circuits_ok_def)
  have mid: "circuits_ok cfg (at_meanwhile a ?b)" "circuit_of (at_meanwhile a ?b) p = HalfOpen True"
    using assms(8) ok half by (auto simp: spares_def)
  show ?thesis
    using assms(1,5,9) ask ok half mid
    by (auto simp: attempt_provider_def may_call_def unreported_def admits_def Let_def
      split: sum.splits prod.splits bool.splits option.splits if_splits)
qed

end
