(* ===== verification/Gateway_Router.thy ===== *)
theory Gateway_Router
  imports Gateway_Machine
begin

section \<open>Routing a model to a provider\<close>

text \<open>
  \<open>crates/gateway/router/src/lib.rs\<close>: the tables, the order in which they are consulted, the fallback
  chain, and how the reply of the classifier is read.  The model map and the tiers are hash maps: a
  list here, in the order in which the map is iterated.  Scores and weights are floating-point numbers;
  the routes that use them are not modelled.
\<close>

type_synonym mapping = "string \<times> string option"

record routing_tables =
  rt_model_map :: "(string \<times> mapping) list"
  rt_builtin_prefixes :: "(string \<times> string) list"
  rt_default_provider :: string
  rt_modality_map :: "(string \<times> mapping) list"
  rt_fallback_chain :: "string list"
  rt_provider_tiers :: "(string \<times> byte) list"

definition builtin_prefixes :: "(string \<times> string) list" where
  "builtin_prefixes =
     [(''zeroclaw'', ''core''), (''openclaw'', ''core''), (''claude-'', ''anthropic''), (''gpt-'', ''openai''),
      (''o1'', ''openai''), (''o3'', ''openai''), (''o4'', ''openai''), (''text-davinci'', ''openai''),
      (''openrouter/'', ''openrouter''), (''modal/'', ''modal''), (''gemini-'', ''genai''),
      (''@cf/'', ''cloudflare''), (''anthropic.'', ''bedrock''), (''amazon.'', ''bedrock''),
      (''meta.'', ''bedrock''), (''mistral.'', ''bedrock''), (''/'', ''local''), (''llama'', ''local''),
      (''mistral'', ''local''), (''mixtral'', ''local''), (''gemma-3-270m'', ''classify''), (''gemma'', ''local''),
      (''phi'', ''local''), (''qwen'', ''local''), (''deepseek'', ''local''), (''apple-foundationmodel'', ''local'')]"

text \<open>
  \<open>str::to_lowercase\<close> as far as an ASCII prefix can tell: of the characters outside ASCII only the
  Kelvin sign and the dotted capital I have a lower case that starts with an ASCII letter; the lower case
  of any other starts outside ASCII, as the character does.
\<close>

function lowercase_view :: "string \<Rightarrow> string" where
  "lowercase_view [] = []"
| "lowercase_view (c # cs) =
     (if c = CHR 0xE2 \<and> take 2 cs = [CHR 0x84, CHR 0xAA] then CHR ''k'' # lowercase_view (drop 2 cs)
      else if c = CHR 0xC4 \<and> take 1 cs = [CHR 0xB0]
      then CHR ''i'' # CHR 0xCC # CHR 0x87 # lowercase_view (drop 1 cs)
      else ascii_lower c # lowercase_view cs)"
  by pat_completeness auto
termination
  by (relation "measure length") auto

subsection \<open>The order of the tables\<close>

definition mapped :: "string \<Rightarrow> mapping \<Rightarrow> string \<times> string" where
  "mapped requested m = (fst m, case snd m of Some model \<Rightarrow> model | None \<Rightarrow> requested)"

text \<open>The scan of \<open>prefix_match_user_map\<close>: a longer key replaces the best one so far.\<close>

fun longest_prefix :: "string \<Rightarrow> (string \<times> mapping) list \<Rightarrow> (string \<times> mapping) option \<Rightarrow> (string \<times> mapping) option"
where
  "longest_prefix requested [] best = best"
| "longest_prefix requested ((key, m) # rest) best =
     longest_prefix requested rest
       (if starts_with key requested
          \<and> (case best of None \<Rightarrow> True | Some (prev, _) \<Rightarrow> length prev < length key)
        then Some (key, m) else best)"

definition prefix_match_user_map :: "routing_tables \<Rightarrow> string \<Rightarrow> (string \<times> string) option" where
  "prefix_match_user_map t requested =
     map_option (\<lambda>(_, m). mapped requested m) (longest_prefix requested (rt_model_map t) None)"

definition route :: "routing_tables \<Rightarrow> string \<Rightarrow> string \<times> string" where
  "route t requested =
     (let lower = lowercase_view requested in
      case map_of (rt_model_map t) requested of
        Some m \<Rightarrow> mapped requested m
      | None \<Rightarrow>
          (case prefix_match_user_map t requested of
             Some decision \<Rightarrow> decision
           | None \<Rightarrow>
               (case List.find (\<lambda>(prefix, _). starts_with prefix lower) (rt_builtin_prefixes t) of
                  Some (_, provider) \<Rightarrow> (provider, requested)
                | None \<Rightarrow> (rt_default_provider t, requested))))"

definition route_modality ::
  "routing_tables \<Rightarrow> string \<Rightarrow> string \<Rightarrow> string option \<Rightarrow> string option \<Rightarrow> string \<times> string" where
  "route_modality t modality requested slot_provider slot_model =
     (case slot_provider of
        Some provider \<Rightarrow> (provider, case slot_model of Some m \<Rightarrow> m | None \<Rightarrow> requested)
      | None \<Rightarrow>
          (case map_of (rt_modality_map t) modality of
             Some m \<Rightarrow> mapped requested m
           | None \<Rightarrow> route t requested))"

definition tier_of :: "routing_tables \<Rightarrow> string \<Rightarrow> byte" where
  "tier_of t p = (case map_of (rt_provider_tiers t) p of Some tier \<Rightarrow> tier | None \<Rightarrow> 0)"

text \<open>\<open>sort_by_key\<close> is stable, and so is \<open>sort_key\<close>.\<close>

definition fallback_chain :: "routing_tables \<Rightarrow> string \<Rightarrow> string list" where
  "fallback_chain t primary =
     (let chain = primary # filter (\<lambda>p. p \<noteq> primary) (rt_fallback_chain t) in
      if rt_provider_tiers t \<noteq> [] \<and> 2 < length chain
      then hd chain # sort_key (tier_of t) (tl chain)
      else chain)"

subsection \<open>The reply of the classifier\<close>

definition parse_choice :: "string \<Rightarrow> nat \<Rightarrow> nat option" where
  "parse_choice reply num_rules =
     (let digits = takeWhile is_ascii_digit (dropWhile (\<lambda>c. \<not> is_ascii_digit c) reply) in
      case parse_usize digits of
        None \<Rightarrow> None
      | Some n \<Rightarrow> if n \<le> num_rules then Some n else None)"

lemma parse_choice_bound: "parse_choice reply n = Some k \<Longrightarrow> k \<le> n"
  by (auto simp: parse_choice_def Let_def split: option.splits if_splits)

subsection \<open>What the order amounts to\<close>

lemma starts_with_prefix: "starts_with p s \<longleftrightarrow> prefix p s"
  by (auto simp: starts_with_def prefix_def) (metis append_take_drop_id)

text \<open>The scan returns the longest key that is a prefix, whatever the order of the map.\<close>

definition best_key :: "string \<Rightarrow> (string \<times> mapping) set \<Rightarrow> (string \<times> mapping) option \<Rightarrow> bool" where
  "best_key requested S best \<longleftrightarrow>
     (case best of
        None \<Rightarrow> \<forall>(k, m) \<in> S. \<not> prefix k requested
      | Some (key, m) \<Rightarrow> (key, m) \<in> S \<and> prefix key requested
          \<and> (\<forall>(k, m') \<in> S. prefix k requested \<longrightarrow> length k \<le> length key))"

lemma best_key_insert:
  assumes "best_key requested S best"
  shows "best_key requested (insert (key, m) S)
    (if starts_with key requested \<and> (case best of None \<Rightarrow> True | Some (prev, _) \<Rightarrow> length prev < length key)
     then Some (key, m) else best)"
  using assms by (fastforce simp: best_key_def starts_with_prefix split: option.splits)

lemma longest_prefix_best:
  "best_key requested S best \<Longrightarrow> best_key requested (S \<union> set xs) (longest_prefix requested xs best)"
proof (induction xs arbitrary: S best)
  case (Cons x xs)
  obtain key m where x: "x = (key, m)" by (cases x)
  have "S \<union> set (x # xs) = insert (key, m) S \<union> set xs" using x by auto
  then show ?case using Cons.IH [OF best_key_insert [OF Cons.prems, of key m]] x by simp
qed simp

lemma user_prefix_best: "best_key requested (set (rt_model_map t)) (longest_prefix requested (rt_model_map t) None)"
  using longest_prefix_best [of requested "{}" None "rt_model_map t"] by (simp add: best_key_def)

text \<open>Prefixes of one string that are equally long are equal, so the map decides alone.\<close>

lemma best_key_unique:
  assumes "best_key requested S a" and "best_key requested S b"
    and "\<And>k m m'. (k, m) \<in> S \<Longrightarrow> (k, m') \<in> S \<Longrightarrow> m = m'"
  shows "a = b"
proof (cases a)
  case None
  with assms(1,2) show ?thesis by (auto simp: best_key_def split: option.splits)
next
  case (Some x)
  obtain k m where x: "x = (k, m)" by (cases x)
  with Some assms(1) have km: "(k, m) \<in> S" "prefix k requested"
      "\<And>k' m'. (k', m') \<in> S \<Longrightarrow> prefix k' requested \<Longrightarrow> length k' \<le> length k"
    by (auto simp: best_key_def)
  with assms(2) obtain k2 m2 where b: "b = Some (k2, m2)" "(k2, m2) \<in> S" "prefix k2 requested"
      "length k \<le> length k2"
    by (fastforce simp: best_key_def split: option.splits)
  with km have "length k2 = length k" by (simp add: le_antisym)
  with km(2) b(3) have "k2 = k" by (metis prefix_length_prefix prefix_order.antisym order_refl)
  with km(1) b assms(3) Some x show ?thesis by auto
qed

lemma route_ignores_order:
  assumes "set (rt_model_map s) = set (rt_model_map t)" and "distinct (map fst (rt_model_map s))"
    and "distinct (map fst (rt_model_map t))" and "rt_builtin_prefixes s = rt_builtin_prefixes t"
    and "rt_default_provider s = rt_default_provider t"
  shows "route s = route t"
proof
  fix requested
  have "map_of (rt_model_map s) = map_of (rt_model_map t)"
    using assms(1-3) by (intro map_of_inject_set [THEN iffD2])
  moreover have "prefix_match_user_map s requested = prefix_match_user_map t requested"
  proof -
    have "longest_prefix requested (rt_model_map s) None = longest_prefix requested (rt_model_map t) None"
      using user_prefix_best [of requested s] user_prefix_best [of requested t] assms(1,3)
      by (intro best_key_unique [of requested "set (rt_model_map t)"])
        (auto dest: eq_key_imp_eq_value)
    then show ?thesis by (simp add: prefix_match_user_map_def)
  qed
  ultimately show "route s requested = route t requested"
    by (simp add: route_def assms(4,5) cong: option.case_cong)
qed

text \<open>No row of the built-in table is shadowed by an earlier one: each prefix routes to its own provider.\<close>

lemma builtin_rows_reachable:
  "list_all (\<lambda>(prefix, provider).
     route \<lparr>rt_model_map = [], rt_builtin_prefixes = builtin_prefixes, rt_default_provider = ''none'',
       rt_modality_map = [], rt_fallback_chain = [], rt_provider_tiers = []\<rparr> prefix = (provider, prefix))
   builtin_prefixes"
  by code_simp

text \<open>The chain: the primary, then the others by tier, in the operator's order within a tier.\<close>

lemma sort_key_short: "length xs \<le> 1 \<Longrightarrow> sort_key f xs = xs"
  by (cases xs) auto

lemma sort_key_const: "sort_key (\<lambda>_. c) xs = xs"
  by (induction xs) (auto simp: insort_is_Cons)

lemma fallback_chain_eq:
  "fallback_chain t primary = primary # sort_key (tier_of t) (filter (\<lambda>p. p \<noteq> primary) (rt_fallback_chain t))"
proof (cases "rt_provider_tiers t = []")
  case True
  then have "tier_of t = (\<lambda>_. 0)" by (simp add: tier_of_def fun_eq_iff)
  with True show ?thesis by (simp add: fallback_chain_def sort_key_const Let_def)
qed (auto simp: fallback_chain_def Let_def sort_key_short)

lemma fallback_chain_tiers: "sorted (map (tier_of t) (tl (fallback_chain t primary)))"
  by (simp add: fallback_chain_eq)

lemma fallback_chain_stable:
  "filter (\<lambda>p. tier_of t p = k) (tl (fallback_chain t primary))
   = filter (\<lambda>p. tier_of t p = k \<and> p \<noteq> primary) (rt_fallback_chain t)"
  by (simp add: fallback_chain_eq sort_key_stable conj_commute)

lemma fallback_chain_set: "set (fallback_chain t primary) = insert primary (set (rt_fallback_chain t))"
  by (auto simp: fallback_chain_eq)

lemma fallback_chain_distinct: "distinct (rt_fallback_chain t) \<Longrightarrow> distinct (fallback_chain t primary)"
  by (simp add: fallback_chain_eq)

end
