(* ===== verification/Gateway_Firewall.thy ===== *)
theory Gateway_Firewall
  imports Gateway_Policy
begin

section \<open>The cascade of firewall policies\<close>

text \<open>
  \<open>apps/gateway/src/firewall/resolve.rs\<close>: the policy of a request is resolved from the node's
  configuration, the overlay of its organisation, the overlay of its agent and the overlay the request
  itself brings; a field locked by a broader scope can only be tightened by a narrower one.  The
  offline part of an evaluator binding is the parameter type \<open>'o\<close>.  The locks of the shared state
  are taken not to be poisoned.
\<close>

subsection \<open>Configuration\<close>

datatype firewall_policy = Block | WarnAndContinue | Sanitize

datatype inspector_mode = InspectInjection | InspectDlp | InspectBoth

record inspector_config =
  ic_enabled :: bool
  ic_model :: string
  ic_mode :: inspector_mode
  ic_min_chars :: nat
  ic_timeout_ms :: u64
  ic_action :: firewall_policy

datatype custom_pattern_kind =
  PiiPattern | SecretPattern | PromptInjectionPattern | CodeInjectionPattern | ToxicityPattern | BiasPattern

record custom_pattern =
  cp_name :: string
  cp_regex :: string
  cp_kind :: custom_pattern_kind

record 'o evaluator_binding =
  eb_id :: string
  eb_enabled :: bool
  eb_inline_action :: "firewall_policy option"
  eb_offline :: "'o option"
  eb_locked :: bool

record 'o firewall_config =
  fc_enabled :: bool
  fc_scan_inbound :: bool
  fc_scan_outbound :: bool
  fc_policy :: firewall_policy
  fc_log_detections :: bool
  fc_redact_pii :: bool
  fc_redact_secrets :: bool
  fc_wrap_untrusted_tool_results :: bool
  fc_custom_patterns :: "custom_pattern list"
  fc_alert :: alert_tier
  fc_inspector :: inspector_config
  fc_locked_fields :: "string list"
  fc_evaluators :: "'o evaluator_binding list"

record 'o firewall_overlay =
  fo_enabled :: "bool option"
  fo_scan_inbound :: "bool option"
  fo_scan_outbound :: "bool option"
  fo_policy :: "firewall_policy option"
  fo_log_detections :: "bool option"
  fo_redact_pii :: "bool option"
  fo_redact_secrets :: "bool option"
  fo_wrap_untrusted_tool_results :: "bool option"
  fo_alert :: "alert_tier option"
  fo_inspector :: "inspector_config option"
  fo_custom_patterns :: "custom_pattern list"
  fo_locked_fields :: "string list"
  fo_evaluators :: "'o evaluator_binding list option"

definition default_firewall_locked_fields :: "string list" where
  "default_firewall_locked_fields =
     [''enabled'', ''policy'', ''redact_pii'', ''redact_secrets'', ''scan_inbound'', ''scan_outbound'']"

definition node_only_wrap_field :: string where
  "node_only_wrap_field = ''wrap_untrusted_tool_results''"

definition all_lockable_fields :: "string list" where
  "all_lockable_fields =
     [''enabled'', ''scan_inbound'', ''scan_outbound'', ''log_detections'', ''redact_pii'', ''redact_secrets'',
      ''wrap_untrusted_tool_results'', ''policy'', ''alert'', ''inspector'']"

subsection \<open>Stricter values\<close>

fun policy_severity :: "firewall_policy \<Rightarrow> nat" where
  "policy_severity Block = 2"
| "policy_severity Sanitize = 1"
| "policy_severity WarnAndContinue = 0"

definition louder_alert :: "alert_tier \<Rightarrow> alert_tier \<Rightarrow> alert_tier" where
  "louder_alert current incoming = max current incoming"

definition stricter_policy :: "firewall_policy \<Rightarrow> firewall_policy \<Rightarrow> firewall_policy" where
  "stricter_policy current incoming =
     (if policy_severity current < policy_severity incoming then incoming else current)"

definition stricter_inspector :: "inspector_config \<Rightarrow> inspector_config \<Rightarrow> inspector_config" where
  "stricter_inspector current incoming =
     \<lparr>ic_enabled = ic_enabled current \<or> ic_enabled incoming,
      ic_model = ic_model incoming,
      ic_mode = (if ic_mode current = InspectBoth \<or> ic_mode incoming = InspectBoth then InspectBoth
                 else ic_mode current),
      ic_min_chars = min (ic_min_chars current) (ic_min_chars incoming),
      ic_timeout_ms = max (ic_timeout_ms current) (ic_timeout_ms incoming),
      ic_action = stricter_policy (ic_action current) (ic_action incoming)\<rparr>"

definition stricter_optional_policy ::
  "firewall_policy option \<Rightarrow> firewall_policy option \<Rightarrow> firewall_policy option" where
  "stricter_optional_policy current incoming =
     (case (current, incoming) of
        (Some a, Some b) \<Rightarrow> Some (stricter_policy a b)
      | (Some a, None) \<Rightarrow> Some a
      | (None, Some b) \<Rightarrow> Some b
      | (None, None) \<Rightarrow> None)"

definition merge_one_binding ::
  "'o evaluator_binding \<Rightarrow> 'o evaluator_binding \<Rightarrow> 'o evaluator_binding" where
  "merge_one_binding base overlay =
     (if eb_locked base
      then \<lparr>eb_id = eb_id base, eb_enabled = eb_enabled base \<or> eb_enabled overlay,
            eb_inline_action = stricter_optional_policy (eb_inline_action base) (eb_inline_action overlay),
            eb_offline = eb_offline base, eb_locked = True\<rparr>
      else \<lparr>eb_id = eb_id overlay, eb_enabled = eb_enabled overlay,
            eb_inline_action = eb_inline_action overlay, eb_offline = eb_offline overlay,
            eb_locked = eb_locked overlay\<rparr>)"

definition merge_evaluator_bindings ::
  "'o evaluator_binding list \<Rightarrow> 'o evaluator_binding list \<Rightarrow> 'o evaluator_binding list" where
  "merge_evaluator_bindings base overlay =
     map (\<lambda>b. case List.find (\<lambda>o'. eb_id o' = eb_id b) overlay of
                Some o' \<Rightarrow> merge_one_binding b o' | None \<Rightarrow> b) base
     @ filter (\<lambda>o'. \<not> list_ex (\<lambda>b. eb_id b = eb_id o') base) overlay"

subsection \<open>Applying an overlay\<close>

definition apply_bool :: "bool \<Rightarrow> bool option \<Rightarrow> string \<Rightarrow> string list \<Rightarrow> bool" where
  "apply_bool target incoming field locked =
     (case incoming of
        None \<Rightarrow> target
      | Some v \<Rightarrow> if field \<in> set locked then target \<or> v else v)"

definition apply_overlay ::
  "'o firewall_config \<Rightarrow> 'o firewall_overlay \<Rightarrow> string list \<Rightarrow> 'o firewall_config" where
  "apply_overlay cfg ov locked =
     cfg\<lparr>fc_enabled := apply_bool (fc_enabled cfg) (fo_enabled ov) ''enabled'' locked,
         fc_scan_inbound := apply_bool (fc_scan_inbound cfg) (fo_scan_inbound ov) ''scan_inbound'' locked,
         fc_scan_outbound := apply_bool (fc_scan_outbound cfg) (fo_scan_outbound ov) ''scan_outbound'' locked,
         fc_log_detections := apply_bool (fc_log_detections cfg) (fo_log_detections ov) ''log_detections'' locked,
         fc_redact_pii := apply_bool (fc_redact_pii cfg) (fo_redact_pii ov) ''redact_pii'' locked,
         fc_redact_secrets := apply_bool (fc_redact_secrets cfg) (fo_redact_secrets ov) ''redact_secrets'' locked,
         fc_wrap_untrusted_tool_results :=
           apply_bool (fc_wrap_untrusted_tool_results cfg) (fo_wrap_untrusted_tool_results ov)
             ''wrap_untrusted_tool_results'' locked,
         fc_policy := (case fo_policy ov of None \<Rightarrow> fc_policy cfg
           | Some p \<Rightarrow> if ''policy'' \<in> set locked then stricter_policy (fc_policy cfg) p else p),
         fc_alert := (case fo_alert ov of None \<Rightarrow> fc_alert cfg
           | Some tier \<Rightarrow> if ''alert'' \<in> set locked then louder_alert (fc_alert cfg) tier else tier),
         fc_inspector := (case fo_inspector ov of None \<Rightarrow> fc_inspector cfg
           | Some ins \<Rightarrow> if ''inspector'' \<in> set locked then stricter_inspector (fc_inspector cfg) ins else ins),
         fc_custom_patterns := fc_custom_patterns cfg @ fo_custom_patterns ov,
         fc_evaluators := (case fo_evaluators ov of None \<Rightarrow> fc_evaluators cfg
           | Some ev \<Rightarrow> merge_evaluator_bindings (fc_evaluators cfg) ev)\<rparr>"

definition normalize_overlay :: "'o firewall_overlay \<Rightarrow> 'o firewall_overlay" where
  "normalize_overlay ov =
     ov\<lparr>fo_wrap_untrusted_tool_results := None,
        fo_locked_fields := filter (\<lambda>f. f \<noteq> node_only_wrap_field) (fo_locked_fields ov)\<rparr>"

subsection \<open>The resolver\<close>

record 'o policy_bundle =
  bu_firewall :: "'o firewall_overlay option"
  bu_agent_overlays :: "(string \<times> 'o firewall_overlay) list"

definition bundle_is_empty :: "'o policy_bundle \<Rightarrow> bool" where
  "bundle_is_empty b \<longleftrightarrow> bu_firewall b = None \<and> bu_agent_overlays b = []"

text \<open>The bundle of a request (\<open>state.rs\<close>): that of its policy, or none when it is empty.\<close>

definition request_bundle :: "'o policy_bundle \<Rightarrow> 'o policy_bundle option" where
  "request_bundle b = (if bundle_is_empty b then None else Some b)"

record ('o, 'sc) resolver =
  re_node_base :: "'o firewall_config"
  re_org_overlays :: "(string \<times> 'o firewall_overlay) list"
  re_agent_overlays :: "(string \<times> 'o firewall_overlay) list"
  re_cache :: "(u64 \<times> ('o firewall_config \<times> 'sc)) list"

definition new_resolver :: "'o firewall_config \<Rightarrow> ('o, 'sc) resolver" where
  "new_resolver base = \<lparr>re_node_base = base, re_org_overlays = [], re_agent_overlays = [], re_cache = []\<rparr>"

definition seed_overlays ::
  "(string \<times> 'o firewall_overlay) list \<Rightarrow> (string \<times> 'o firewall_overlay) list
   \<Rightarrow> ('o, 'sc) resolver \<Rightarrow> ('o, 'sc) resolver" where
  "seed_overlays org agent r =
     r\<lparr>re_org_overlays := map (\<lambda>(k, v). (k, normalize_overlay v)) org,
       re_agent_overlays := map (\<lambda>(k, v). (k, normalize_overlay v)) agent\<rparr>"

definition invalidate_cache :: "('o, 'sc) resolver \<Rightarrow> ('o, 'sc) resolver" where
  "invalidate_cache r = r\<lparr>re_cache := []\<rparr>"

definition set_node_base :: "'o firewall_config \<Rightarrow> ('o, 'sc) resolver \<Rightarrow> ('o, 'sc) resolver" where
  "set_node_base cfg r = invalidate_cache (r\<lparr>re_node_base := cfg\<rparr>)"

definition set_org_overlay :: "string \<Rightarrow> 'o firewall_overlay \<Rightarrow> ('o, 'sc) resolver \<Rightarrow> ('o, 'sc) resolver" where
  "set_org_overlay i ov r = invalidate_cache (r\<lparr>re_org_overlays := bt_insert i ov (re_org_overlays r)\<rparr>)"

definition set_agent_overlay :: "string \<Rightarrow> 'o firewall_overlay \<Rightarrow> ('o, 'sc) resolver \<Rightarrow> ('o, 'sc) resolver" where
  "set_agent_overlay i ov r = invalidate_cache (r\<lparr>re_agent_overlays := bt_insert i ov (re_agent_overlays r)\<rparr>)"

definition remove_org_overlay :: "string \<Rightarrow> ('o, 'sc) resolver \<Rightarrow> ('o, 'sc) resolver" where
  "remove_org_overlay i r =
     invalidate_cache (r\<lparr>re_org_overlays := filter (\<lambda>(k, _). k \<noteq> i) (re_org_overlays r)\<rparr>)"

definition remove_agent_overlay :: "string \<Rightarrow> ('o, 'sc) resolver \<Rightarrow> ('o, 'sc) resolver" where
  "remove_agent_overlay i r =
     invalidate_cache (r\<lparr>re_agent_overlays := filter (\<lambda>(k, _). k \<noteq> i) (re_agent_overlays r)\<rparr>)"

text \<open>One scope: the overlay is applied under the locks so far, then its own locks are added.\<close>

definition apply_scope ::
  "'o firewall_overlay option \<Rightarrow> 'o firewall_config \<times> string list \<Rightarrow> 'o firewall_config \<times> string list" where
  "apply_scope overlay acc =
     (case overlay of
        None \<Rightarrow> acc
      | Some ov \<Rightarrow> (apply_overlay (fst acc) ov (snd acc), fold insort_insert (fo_locked_fields ov) (snd acc)))"

definition org_overlay ::
  "('o, 'sc) resolver \<Rightarrow> string option \<Rightarrow> 'o policy_bundle option \<Rightarrow> 'o firewall_overlay option" where
  "org_overlay r org_id bundle =
     map_option normalize_overlay
       (case Option.bind bundle bu_firewall of
          Some ov \<Rightarrow> Some ov
        | None \<Rightarrow> Option.bind org_id (bt_get (re_org_overlays r)))"

definition agent_overlay ::
  "('o, 'sc) resolver \<Rightarrow> string option \<Rightarrow> 'o policy_bundle option \<Rightarrow> 'o firewall_overlay option" where
  "agent_overlay r agent_id bundle =
     map_option normalize_overlay
       (case Option.bind bundle (\<lambda>b. Option.bind agent_id (bt_get (bu_agent_overlays b))) of
          Some ov \<Rightarrow> Some ov
        | None \<Rightarrow> Option.bind agent_id (bt_get (re_agent_overlays r)))"

text \<open>The node, the organisation and the agent, each with the locks set so far.\<close>

definition node_scope :: "('o, 'sc) resolver \<Rightarrow> 'o firewall_config \<times> string list" where
  "node_scope r = (re_node_base r, fold insort_insert (fc_locked_fields (re_node_base r)) [])"

definition org_scope ::
  "('o, 'sc) resolver \<Rightarrow> string option \<Rightarrow> 'o policy_bundle option \<Rightarrow> 'o firewall_config \<times> string list" where
  "org_scope r org_id bundle = apply_scope (org_overlay r org_id bundle) (node_scope r)"

definition agent_scope ::
  "('o, 'sc) resolver \<Rightarrow> string option \<Rightarrow> string option \<Rightarrow> 'o policy_bundle option
   \<Rightarrow> 'o firewall_config \<times> string list" where
  "agent_scope r org_id agent_id bundle =
     apply_scope (agent_overlay r agent_id bundle) (org_scope r org_id bundle)"

definition resolve_with_request ::
  "('o, 'sc) resolver \<Rightarrow> string option \<Rightarrow> string option \<Rightarrow> 'o policy_bundle option
   \<Rightarrow> 'o firewall_overlay option \<Rightarrow> 'o firewall_config" where
  "resolve_with_request r org_id agent_id bundle request_overlay =
     (case agent_scope r org_id agent_id bundle of
        (resolved, locked) \<Rightarrow>
          (case request_overlay of
             None \<Rightarrow> resolved
           | Some ov \<Rightarrow> apply_overlay resolved (normalize_overlay ov) all_lockable_fields)
          \<lparr>fc_locked_fields := locked\<rparr>)"

definition resolve_policy ::
  "('o, 'sc) resolver \<Rightarrow> string option \<Rightarrow> string option \<Rightarrow> 'o policy_bundle option \<Rightarrow> 'o firewall_config" where
  "resolve_policy r org_id agent_id bundle = resolve_with_request r org_id agent_id bundle None"

subsection \<open>The cache of scanners\<close>

text \<open>
  The scanner compiled from a configuration is \<open>build\<close>, its key \<open>hash\<close>.  The lookup and the insertion
  are separate: each takes the lock of its own.
\<close>

definition cached ::
  "('o firewall_config \<Rightarrow> u64) \<Rightarrow> 'o firewall_config \<Rightarrow> ('o, 'sc) resolver \<Rightarrow> 'sc option" where
  "cached hash cfg r =
     (case bt_get (re_cache r) (hash cfg) of
        Some (stored, scanner) \<Rightarrow> if stored = cfg then Some scanner else None
      | None \<Rightarrow> None)"

definition cache_insert ::
  "('o firewall_config \<Rightarrow> 'sc) \<Rightarrow> ('o firewall_config \<Rightarrow> u64) \<Rightarrow> 'o firewall_config \<Rightarrow> ('o, 'sc) resolver
   \<Rightarrow> 'sc \<times> ('o, 'sc) resolver" where
  "cache_insert build hash cfg r =
     (case bt_get (re_cache r) (hash cfg) of
        Some (stored, scanner) \<Rightarrow>
          if stored = cfg then (scanner, r)
          else (build cfg, r\<lparr>re_cache := bt_insert (hash cfg) (cfg, build cfg) (re_cache r)\<rparr>)
      | None \<Rightarrow> (build cfg, r\<lparr>re_cache := bt_insert (hash cfg) (cfg, build cfg) (re_cache r)\<rparr>))"

definition scanner_for_request ::
  "('o firewall_config \<Rightarrow> 'sc) \<Rightarrow> ('o firewall_config \<Rightarrow> u64) \<Rightarrow> (('o, 'sc) resolver \<Rightarrow> ('o, 'sc) resolver)
   \<Rightarrow> string option \<Rightarrow> string option \<Rightarrow> 'o policy_bundle option \<Rightarrow> 'o firewall_overlay option
   \<Rightarrow> ('o, 'sc) resolver \<Rightarrow> 'sc \<times> ('o, 'sc) resolver" where
  "scanner_for_request build hash others org_id agent_id bundle request_overlay r =
     (case request_overlay of
        Some _ \<Rightarrow> (build (resolve_with_request r org_id agent_id bundle request_overlay), r)
      | None \<Rightarrow>
          (let cfg = resolve_policy r org_id agent_id bundle in
           case cached hash cfg r of
             Some scanner \<Rightarrow> (scanner, r)
           | None \<Rightarrow> cache_insert build hash cfg (others r)))"

end
