(* ===== verification/Gateway_Cascade.thy ===== *)
theory Gateway_Cascade
  imports Gateway_Firewall
begin

section \<open>What the cascade of firewall policies guarantees\<close>

text \<open>
  A lock of a broader scope holds against every narrower one, and a request can only tighten, both but
  for the model of the inspector; and the scanner that a request gets is the one compiled from its own policy
  (\<open>apps/gateway/src/firewall/resolve.rs\<close>).
\<close>

subsection \<open>Held fields\<close>

definition inspector_kept :: "inspector_config \<Rightarrow> inspector_config \<Rightarrow> bool" where
  "inspector_kept c c' \<longleftrightarrow> (ic_enabled c \<longrightarrow> ic_enabled c')
     \<and> (ic_mode c' = InspectBoth \<or> ic_mode c' = ic_mode c)
     \<and> ic_min_chars c' \<le> ic_min_chars c \<and> ic_timeout_ms c \<le> ic_timeout_ms c'
     \<and> policy_severity (ic_action c) \<le> policy_severity (ic_action c')"

text \<open>The fields that can be locked, with the names the code locks them by.\<close>

datatype lockable = LEnabled | LScanInbound | LScanOutbound | LLogDetections | LRedactPii | LRedactSecrets
  | LWrap | LPolicy | LAlert | LInspector

primrec field_name :: "lockable \<Rightarrow> string" where
  "field_name LEnabled = ''enabled''"
| "field_name LScanInbound = ''scan_inbound''"
| "field_name LScanOutbound = ''scan_outbound''"
| "field_name LLogDetections = ''log_detections''"
| "field_name LRedactPii = ''redact_pii''"
| "field_name LRedactSecrets = ''redact_secrets''"
| "field_name LWrap = ''wrap_untrusted_tool_results''"
| "field_name LPolicy = ''policy''"
| "field_name LAlert = ''alert''"
| "field_name LInspector = ''inspector''"

text \<open>The list that the request scope is applied under leaves no field out.\<close>

lemma all_lockable: "field_name f \<in> set all_lockable_fields"
  by (cases f) (simp_all add: all_lockable_fields_def)

text \<open>
  \<open>c'\<close> protects no less than \<open>c\<close> as far as the field goes.  For the inspector this is its switch, mode,
  limits and action; its model is treated below (\<open>inspector_model_resolved\<close>), for no lock holds it.
\<close>

primrec field_kept :: "lockable \<Rightarrow> 'o firewall_config \<Rightarrow> 'o firewall_config \<Rightarrow> bool" where
  "field_kept LEnabled c c' = (fc_enabled c \<le> fc_enabled c')"
| "field_kept LScanInbound c c' = (fc_scan_inbound c \<le> fc_scan_inbound c')"
| "field_kept LScanOutbound c c' = (fc_scan_outbound c \<le> fc_scan_outbound c')"
| "field_kept LLogDetections c c' = (fc_log_detections c \<le> fc_log_detections c')"
| "field_kept LRedactPii c c' = (fc_redact_pii c \<le> fc_redact_pii c')"
| "field_kept LRedactSecrets c c' = (fc_redact_secrets c \<le> fc_redact_secrets c')"
| "field_kept LWrap c c' = (fc_wrap_untrusted_tool_results c \<le> fc_wrap_untrusted_tool_results c')"
| "field_kept LPolicy c c' = (policy_severity (fc_policy c) \<le> policy_severity (fc_policy c'))"
| "field_kept LAlert c c' = (fc_alert c \<le> fc_alert c')"
| "field_kept LInspector c c' = inspector_kept (fc_inspector c) (fc_inspector c')"

lemma severity_stricter:
  "policy_severity (stricter_policy a b) = max (policy_severity a) (policy_severity b)"
  by (auto simp: stricter_policy_def)

lemma inspector_kept_refl: "inspector_kept c c"
  by (simp add: inspector_kept_def)

lemma inspector_kept_stricter: "inspector_kept c (stricter_inspector c i)"
  by (simp add: inspector_kept_def stricter_inspector_def severity_stricter)

lemma inspector_kept_trans: "inspector_kept a b \<Longrightarrow> inspector_kept b c \<Longrightarrow> inspector_kept a c"
  by (auto simp: inspector_kept_def)

lemma field_kept_refl: "field_kept f c c"
  by (cases f) (simp_all add: inspector_kept_refl)

lemma field_kept_trans: "field_kept f a b \<Longrightarrow> field_kept f b c \<Longrightarrow> field_kept f a c"
  by (cases f) (auto intro: inspector_kept_trans)

text \<open>What an overlay makes of each kind of field under a lock.\<close>

lemma held_values:
  assumes "f \<in> set locked"
  shows "apply_bool True v f locked"
    and "policy_severity p \<le> policy_severity
      (case x of None \<Rightarrow> p | Some q \<Rightarrow> if f \<in> set locked then stricter_policy p q else q)"
    and "a \<le> (case y of None \<Rightarrow> a | Some tier \<Rightarrow> if f \<in> set locked then louder_alert a tier else tier)"
    and "inspector_kept i
      (case z of None \<Rightarrow> i | Some ins \<Rightarrow> if f \<in> set locked then stricter_inspector i ins else ins)"
  using assms
  by (simp_all add: apply_bool_def severity_stricter louder_alert_def inspector_kept_refl
    inspector_kept_stricter split: option.splits)

lemma apply_overlay_kept:
  assumes "field_name f \<in> set locked"
  shows "field_kept f c (apply_overlay c ov locked)"
  using assms by (cases f) (simp_all add: apply_overlay_def held_values)

lemma apply_scope_kept: "field_name f \<in> set (snd acc) \<Longrightarrow> field_kept f (fst acc) (fst (apply_scope ov acc))"
  by (auto simp: apply_scope_def apply_overlay_kept field_kept_refl split: option.splits)

lemma set_fold_insert: "set (fold insort_insert xs acc) = set xs \<union> set acc"
  by (induction xs arbitrary: acc) (auto simp: set_insort_insert)

lemma apply_scope_locks: "set (snd acc) \<subseteq> set (snd (apply_scope ov acc))"
  by (auto simp: apply_scope_def set_fold_insert split: option.splits)

lemma field_kept_locks:
  "field_kept f c (c'\<lparr>fc_locked_fields := l\<rparr>) = field_kept f c c'"
  "field_kept f (c\<lparr>fc_locked_fields := l\<rparr>) c' = field_kept f c c'"
  by (cases f; simp)+

lemma kept_from_agent_scope:
  "field_kept f (fst (agent_scope r org agent bundle)) (resolve_with_request r org agent bundle req)"
  by (auto simp: resolve_with_request_def field_kept_locks field_kept_refl
    intro!: apply_overlay_kept all_lockable split: prod.splits option.splits)

text \<open>A lock of the node or of the organisation holds in the end.\<close>

lemma org_locks_hold:
  assumes "field_name f \<in> set (snd (org_scope r org bundle))"
  shows "field_kept f (fst (org_scope r org bundle)) (resolve_with_request r org agent bundle req)"
  using apply_scope_kept [OF assms, of "agent_overlay r agent bundle"] kept_from_agent_scope field_kept_trans
  unfolding agent_scope_def by blast

lemma node_locks_hold:
  assumes "field_name f \<in> set (fc_locked_fields (re_node_base r))"
  shows "field_kept f (re_node_base r) (resolve_with_request r org agent bundle req)"
proof -
  have lock: "field_name f \<in> set (snd (node_scope r))" using assms by (simp add: node_scope_def set_fold_insert)
  then have "field_name f \<in> set (snd (org_scope r org bundle))"
    using apply_scope_locks [of "node_scope r"] unfolding org_scope_def by blast
  moreover have "field_kept f (re_node_base r) (fst (org_scope r org bundle))"
    using apply_scope_kept [OF lock] by (simp add: org_scope_def node_scope_def)
  ultimately show ?thesis using org_locks_hold field_kept_trans by blast
qed

text \<open>Patterns are only added, and the process-wide flag is that of the node.\<close>

lemma apply_scope_patterns:
  "\<exists>ps. fc_custom_patterns (fst (apply_scope ov acc)) = fc_custom_patterns (fst acc) @ ps"
  by (auto simp: apply_scope_def apply_overlay_def split: option.splits)

lemma patterns_only_added:
  "\<exists>ps. fc_custom_patterns (resolve_with_request r org agent bundle req)
     = fc_custom_patterns (re_node_base r) @ ps"
proof -
  obtain ps qs where "fc_custom_patterns (fst (org_scope r org bundle)) = fc_custom_patterns (re_node_base r) @ ps"
    and "fc_custom_patterns (fst (agent_scope r org agent bundle)) =
      fc_custom_patterns (fst (org_scope r org bundle)) @ qs"
    using apply_scope_patterns unfolding agent_scope_def org_scope_def node_scope_def by (metis fst_conv)
  then show ?thesis
    by (auto simp: resolve_with_request_def apply_overlay_def split: prod.splits option.splits)
qed

lemma apply_normalized_wrap:
  "fc_wrap_untrusted_tool_results (apply_overlay c (normalize_overlay ov) locked)
   = fc_wrap_untrusted_tool_results c"
  by (simp add: apply_overlay_def normalize_overlay_def apply_bool_def)

lemma wrap_is_the_nodes:
  "fc_wrap_untrusted_tool_results (resolve_with_request r org agent bundle req)
   = fc_wrap_untrusted_tool_results (re_node_base r)"
  by (auto simp: resolve_with_request_def agent_scope_def org_scope_def node_scope_def apply_scope_def
    org_overlay_def agent_overlay_def apply_normalized_wrap split: prod.splits option.splits)

subsection \<open>Evaluator bindings\<close>

text \<open>A locked binding stays, stays on and locked, and keeps at least its action and its offline part.\<close>

definition binding_kept :: "'o evaluator_binding \<Rightarrow> 'o evaluator_binding \<Rightarrow> bool" where
  "binding_kept b b' \<longleftrightarrow> eb_id b' = eb_id b \<and> eb_locked b' \<and> (eb_enabled b \<longrightarrow> eb_enabled b')
     \<and> eb_offline b' = eb_offline b
     \<and> (\<forall>p. eb_inline_action b = Some p \<longrightarrow>
          (\<exists>p'. eb_inline_action b' = Some p' \<and> policy_severity p \<le> policy_severity p'))"

lemma merge_one_kept: "eb_locked b \<Longrightarrow> binding_kept b (merge_one_binding b o')"
  by (auto simp: binding_kept_def merge_one_binding_def stricter_optional_policy_def severity_stricter
    split: option.splits)

lemma binding_kept_refl: "eb_locked b \<Longrightarrow> binding_kept b b"
  by (simp add: binding_kept_def)

lemma binding_kept_trans: "binding_kept a b \<Longrightarrow> binding_kept b c \<Longrightarrow> binding_kept a c"
  unfolding binding_kept_def by (metis le_trans)

lemma merge_keeps_locked:
  assumes "b \<in> set base" and "eb_locked b"
  shows "\<exists>b' \<in> set (merge_evaluator_bindings base overlay). binding_kept b b'"
proof -
  let ?b = "case List.find (\<lambda>o'. eb_id o' = eb_id b) overlay of Some o' \<Rightarrow> merge_one_binding b o' | None \<Rightarrow> b"
  have "?b \<in> set (merge_evaluator_bindings base overlay)"
    using assms(1) by (auto simp: merge_evaluator_bindings_def)
  moreover have "binding_kept b ?b"
    using assms(2) by (auto simp: merge_one_kept binding_kept_refl split: option.splits)
  ultimately show ?thesis by blast
qed

lemma apply_scope_keeps_locked:
  assumes "b \<in> set (fc_evaluators (fst acc))" and "eb_locked b"
  shows "\<exists>b' \<in> set (fc_evaluators (fst (apply_scope ov acc))). binding_kept b b'"
  using assms merge_keeps_locked [OF assms] binding_kept_refl
  by (auto simp: apply_scope_def apply_overlay_def split: option.splits)

lemma locked_bindings_hold:
  assumes "b \<in> set (fc_evaluators (re_node_base r))" and "eb_locked b"
  shows "\<exists>b' \<in> set (fc_evaluators (resolve_with_request r org agent bundle req)). binding_kept b b'"
proof -
  obtain b1 where 1: "b1 \<in> set (fc_evaluators (fst (org_scope r org bundle)))" "binding_kept b b1"
    using apply_scope_keeps_locked [of b "node_scope r"] assms by (auto simp: org_scope_def node_scope_def)
  then have "eb_locked b1" by (simp add: binding_kept_def)
  with 1 obtain b2 where 2: "b2 \<in> set (fc_evaluators (fst (agent_scope r org agent bundle)))" "binding_kept b1 b2"
    using apply_scope_keeps_locked [of b1 "org_scope r org bundle"] by (auto simp: agent_scope_def)
  then have "eb_locked b2" by (simp add: binding_kept_def)
  with 2 have "\<exists>b3 \<in> set (fc_evaluators (resolve_with_request r org agent bundle req)). binding_kept b2 b3"
    using merge_keeps_locked [of b2] binding_kept_refl [of b2]
    by (auto 4 4 simp: resolve_with_request_def apply_overlay_def split: prod.splits option.splits)
  with 1 2 show ?thesis using binding_kept_trans by blast
qed

subsection \<open>The request\<close>

text \<open>
  What the overlay of the request can change: every field is held at what the broader scopes say, locked
  or not, and nothing else but the locks is as before.
\<close>

lemma request_only_tightens:
  "field_kept f (resolve_policy r org agent bundle) (resolve_with_request r org agent bundle req)"
proof -
  have "resolve_policy r org agent bundle =
      (fst (agent_scope r org agent bundle))\<lparr>fc_locked_fields := snd (agent_scope r org agent bundle)\<rparr>"
    by (simp add: resolve_policy_def resolve_with_request_def split: prod.splits)
  with kept_from_agent_scope show ?thesis by (simp add: field_kept_locks)
qed

lemma request_keeps_rest:
  assumes "fo_evaluators ov = None"
  shows "fc_evaluators (resolve_with_request r org agent bundle (Some ov)) =
      fc_evaluators (resolve_policy r org agent bundle)
    \<and> fc_custom_patterns (resolve_with_request r org agent bundle (Some ov)) =
      fc_custom_patterns (resolve_policy r org agent bundle) @ fo_custom_patterns ov
    \<and> fc_locked_fields (resolve_with_request r org agent bundle (Some ov)) =
      fc_locked_fields (resolve_policy r org agent bundle)"
  using assms
  by (simp add: resolve_policy_def resolve_with_request_def apply_overlay_def normalize_overlay_def
    split: prod.splits)

text \<open>
  The model of the inspector is no protection dial to the code: a request replaces it, under every lock.
\<close>

lemma request_swaps_inspector_model:
  assumes "fo_inspector ov = Some i"
  shows "ic_model (fc_inspector (resolve_with_request r org agent bundle (Some ov))) = ic_model i"
  using assms
  by (simp add: resolve_with_request_def apply_overlay_def normalize_overlay_def all_lockable_fields_def
    stricter_inspector_def split: prod.splits)

text \<open>
  So the inspector's model is no field that a lock holds: whatever is locked, it is that of the narrowest
  overlay that states an inspector at all.
\<close>

definition model_after :: "'o firewall_overlay option \<Rightarrow> string \<Rightarrow> string" where
  "model_after ov model = (case Option.bind ov fo_inspector of None \<Rightarrow> model | Some i \<Rightarrow> ic_model i)"

lemma apply_overlay_model:
  "ic_model (fc_inspector (apply_overlay c ov locked)) = model_after (Some ov) (ic_model (fc_inspector c))"
  by (simp add: apply_overlay_def model_after_def stricter_inspector_def split: option.split)

lemma apply_scope_model:
  "ic_model (fc_inspector (fst (apply_scope ov acc))) = model_after ov (ic_model (fc_inspector (fst acc)))"
  by (simp add: apply_scope_def apply_overlay_model split: option.split) (simp add: model_after_def)

lemma request_model:
  "ic_model (fc_inspector (resolve_with_request r org agent bundle req))
   = model_after req (ic_model (fc_inspector (fst (agent_scope r org agent bundle))))"
  by (simp add: resolve_with_request_def apply_overlay_model split: prod.split option.split)
    (simp add: model_after_def normalize_overlay_def)

lemma inspector_model_resolved:
  "ic_model (fc_inspector (resolve_with_request r org agent bundle req))
   = model_after req (model_after (agent_overlay r agent bundle) (model_after (org_overlay r org bundle)
       (ic_model (fc_inspector (re_node_base r)))))"
  by (simp add: request_model agent_scope_def org_scope_def node_scope_def apply_scope_model)

text \<open>
  A bundle that has overlays for agents but none for the organisation leaves the overlay of the
  organisation to the local store.
\<close>

lemma local_org_under_bundle:
  "bu_firewall b = None \<Longrightarrow>
     org_overlay r (Some i) (Some b) = map_option normalize_overlay (bt_get (re_org_overlays r) i)"
  by (simp add: org_overlay_def)

subsection \<open>The cache holds what would be built\<close>

datatype ('o, 'sc) cache_event =
    Looks "'o firewall_config"
  | Builds "'o firewall_config"
  | Rewrites "('o, 'sc) resolver"

text \<open>A write replaces the configuration or an overlay and empties the cache.\<close>

primrec cache_step ::
  "('o firewall_config \<Rightarrow> 'sc) \<Rightarrow> ('o firewall_config \<Rightarrow> u64) \<Rightarrow> ('o, 'sc) cache_event
   \<Rightarrow> ('o, 'sc) resolver \<Rightarrow> ('o, 'sc) resolver option" where
  "cache_step build hash (Looks cfg) r = Some r"
| "cache_step build hash (Builds cfg) r = Some (snd (cache_insert build hash cfg r))"
| "cache_step build hash (Rewrites r') r = Some (invalidate_cache r')"

definition cache_ok :: "('o firewall_config \<Rightarrow> 'sc) \<Rightarrow> ('o, 'sc) resolver \<Rightarrow> bool" where
  "cache_ok build r \<longleftrightarrow> bt_wf (re_cache r)
     \<and> (\<forall>k cfg scanner. bt_get (re_cache r) k = Some (cfg, scanner) \<longrightarrow> scanner = build cfg)"

lemma cache_ok_insert: "cache_ok build r \<Longrightarrow> cache_ok build (snd (cache_insert build hash cfg r))"
  by (auto simp: cache_ok_def cache_insert_def bt_wf_insert bt_get_insert split: option.splits if_splits)

lemma cache_ok_empty: "re_cache r = [] \<Longrightarrow> cache_ok build r"
  by (simp add: cache_ok_def bt_wf_def bt_keys_def bt_get_def)

lemma cache_step_ok: "cache_step build hash e r = Some r' \<Longrightarrow> cache_ok build r \<Longrightarrow> cache_ok build r'"
  by (cases e) (auto simp: cache_ok_insert invalidate_cache_def intro: cache_ok_empty)

interpretation scanner_cache: invariant_machine "cache_step build hash" "cache_ok build" for build hash
  by unfold_locales (rule cache_step_ok)

lemma cached_built: "cache_ok build r \<Longrightarrow> cached hash cfg r = Some scanner \<Longrightarrow> scanner = build cfg"
  by (auto simp: cache_ok_def cached_def split: option.splits if_splits)

lemma inserted_built: "cache_ok build r \<Longrightarrow> fst (cache_insert build hash cfg r) = build cfg"
  by (auto simp: cache_ok_def cache_insert_def split: option.splits)

text \<open>Whatever the other requests do to the cache in between.\<close>

definition others_run ::
  "('o firewall_config \<Rightarrow> 'sc) \<Rightarrow> ('o firewall_config \<Rightarrow> u64) \<Rightarrow> ('o, 'sc) cache_event list
   \<Rightarrow> ('o, 'sc) resolver \<Rightarrow> ('o, 'sc) resolver" where
  "others_run build hash es r = (case run_events (cache_step build hash) es r of None \<Rightarrow> r | Some r' \<Rightarrow> r')"

lemma others_keep_cache: "cache_ok build r \<Longrightarrow> cache_ok build (others_run build hash es r)"
  using scanner_cache.ok_run [of build hash es r] by (auto simp: others_run_def split: option.splits)

lemma scanner_is_built:
  assumes "cache_ok build r"
  shows "fst (scanner_for_request build hash (others_run build hash es) org agent bundle req r)
      = build (resolve_with_request r org agent bundle req)
    \<and> cache_ok build (snd (scanner_for_request build hash (others_run build hash es) org agent bundle req r))"
proof -
  have "cache_ok build (others_run build hash es r)" using assms by (rule others_keep_cache)
  with assms show ?thesis
    using cached_built [OF assms] inserted_built cache_ok_insert
    by (auto simp: scanner_for_request_def Let_def resolve_policy_def split: option.splits)
qed

end
