(* ===== verification/Gateway_NodeRouting.thy ===== *)
theory Gateway_NodeRouting
  imports Gateway_Router Gateway_Cascade
begin

section \<open>Routing preferences of a node\<close>

text \<open>
  \<open>apps/gateway/src/pipeline/node_routing.rs\<close> and the credit pools of
  \<open>apps/gateway/src/credit_pools.rs\<close>: a node may reorder the fallback chain of the fleet and add
  firewall rules of its own; it can widen nothing.  The decoding of the header (base64, JSON) and the
  credit gate are parameters.
\<close>

record 'o node_routing_prefs =
  np_fallback :: "string list"
  np_firewall :: "'o firewall_overlay option"

record node_routing_config =
  nc_allow_request_override :: bool
  nc_max_header_bytes :: nat
  nc_max_doc_bytes :: nat
  nc_max_fallback :: nat
  nc_max_patterns :: nat
  nc_max_pattern_bytes :: nat

definition default_node_routing :: node_routing_config where
  "default_node_routing =
     \<lparr>nc_allow_request_override = True, nc_max_header_bytes = 4096, nc_max_doc_bytes = 3072,
      nc_max_fallback = 16, nc_max_patterns = 16, nc_max_pattern_bytes = 1024\<rparr>"

datatype drop_reason =
    NodeLocked
  | NotInFleetChain string
  | PrimaryIsPinned string
  | PoolUnfunded string
  | TooManyFallbacks
  | OverlayTooLarge

definition prefs_empty :: "'o node_routing_prefs \<Rightarrow> bool" where
  "prefs_empty p \<longleftrightarrow> np_fallback p = [] \<and> np_firewall p = None"

definition parse_prefs ::
  "(string \<Rightarrow> string option) \<Rightarrow> (string \<Rightarrow> 'o node_routing_prefs option) \<Rightarrow> node_routing_config \<Rightarrow> string
   \<Rightarrow> 'o node_routing_prefs option" where
  "parse_prefs base64 json cfg header =
     (if \<not> nc_allow_request_override cfg then None
      else
        (let raw = trim header in
         if raw = [] \<or> nc_max_header_bytes cfg < length raw then None
         else
           (case strip_prefix ''v1.'' raw of
              None \<Rightarrow> None
            | Some encoded \<Rightarrow>
                (case base64 encoded of
                   None \<Rightarrow> None
                 | Some decoded \<Rightarrow>
                     if nc_max_doc_bytes cfg < length decoded then None
                     else
                       (case json decoded of
                          None \<Rightarrow> None
                        | Some prefs \<Rightarrow> if prefs_empty prefs then None else Some prefs)))))"

subsection \<open>Credit pools\<close>

definition pool_by_gateway_provider :: "(string \<times> string) list" where
  "pool_by_gateway_provider =
     [(''cloudflare'', ''cloudflare''), (''bedrock'', ''bedrock''), (''openrouter'', ''openrouter''),
      (''vertex'', ''vertex''), (''openai-credits'', ''openai-credits'')]"

definition pool_for_gateway_provider :: "string \<Rightarrow> string option" where
  "pool_for_gateway_provider name =
     map_option snd (List.find (\<lambda>(provider, _). provider = name) pool_by_gateway_provider)"

lemma pools_not_shared:
  "pool_for_gateway_provider p = Some pool \<Longrightarrow> pool_for_gateway_provider q = Some pool \<Longrightarrow> p = q"
  by (auto simp: pool_for_gateway_provider_def pool_by_gateway_provider_def split: if_splits)

subsection \<open>The fallback chain\<close>

text \<open>One round of the loop: the preferred providers so far, and the reasons for the rest.\<close>

definition prefer_one ::
  "(string option \<Rightarrow> bool) \<Rightarrow> string \<Rightarrow> string list \<Rightarrow> string \<Rightarrow> string list \<times> drop_reason list
   \<Rightarrow> string list \<times> drop_reason list" where
  "prefer_one pool_gate primary tail requested acc =
     (let i = trim requested; preferred = fst acc; dropped = snd acc in
      if i = [] then acc
      else if i \<notin> set tail
      then (preferred, dropped @ [if primary = i then PrimaryIsPinned i else NotInFleetChain i])
      else if i \<in> set preferred then acc
      else if \<not> pool_gate (pool_for_gateway_provider i) then (preferred, dropped @ [PoolUnfunded i])
      else (preferred @ [i], dropped))"

definition clamp_fallback ::
  "'o node_routing_prefs option \<Rightarrow> node_routing_config \<Rightarrow> (string option \<Rightarrow> bool) \<Rightarrow> string list
   \<Rightarrow> string list \<times> drop_reason list" where
  "clamp_fallback prefs cfg pool_gate fleet_chain =
     (if \<not> nc_allow_request_override cfg
      then (fleet_chain, if prefs \<noteq> None then [NodeLocked] else [])
      else
        (case prefs of
           None \<Rightarrow> (fleet_chain, [])
         | Some p \<Rightarrow>
             if np_fallback p = [] then (fleet_chain, [])
             else
               (case fleet_chain of
                  [] \<Rightarrow> (fleet_chain, [])
                | primary # tail \<Rightarrow>
                    (let too_many = nc_max_fallback cfg < length (np_fallback p);
                         dropped = (if too_many then [TooManyFallbacks] else []);
                         requested = (if too_many then take (nc_max_fallback cfg) (np_fallback p)
                                      else np_fallback p);
                         (preferred, dropped') = fold (prefer_one pool_gate primary tail) requested ([], dropped)
                     in (primary # preferred @ filter (\<lambda>p. p \<notin> set preferred) tail, dropped')))))"

text \<open>The chain of a request (\<open>pipeline/mod.rs\<close>): that of the routed provider, clamped.\<close>

definition clamped_fallback_chain ::
  "routing_tables \<Rightarrow> 'o node_routing_prefs option \<Rightarrow> node_routing_config \<Rightarrow> (string option \<Rightarrow> bool) \<Rightarrow> string
   \<Rightarrow> string list" where
  "clamped_fallback_chain t prefs cfg pool_gate primary =
     fst (clamp_fallback prefs cfg pool_gate (fallback_chain t primary))"

definition preferred_ok :: "(string option \<Rightarrow> bool) \<Rightarrow> string list \<Rightarrow> string list \<Rightarrow> bool" where
  "preferred_ok pool_gate tail preferred \<longleftrightarrow> set preferred \<subseteq> set tail \<and> distinct preferred
     \<and> (\<forall>p \<in> set preferred. pool_gate (pool_for_gateway_provider p))"

lemma prefer_one_ok:
  "preferred_ok pool_gate tail (fst acc) \<Longrightarrow>
     preferred_ok pool_gate tail (fst (prefer_one pool_gate primary tail requested acc))"
  by (simp add: prefer_one_def preferred_ok_def Let_def)

lemma prefer_all_ok:
  "preferred_ok pool_gate tail (fst acc) \<Longrightarrow>
     preferred_ok pool_gate tail (fst (fold (prefer_one pool_gate primary tail) requested acc))"
  by (induction requested arbitrary: acc) (simp_all add: prefer_one_ok)

text \<open>The shape of a clamped chain.\<close>

lemma clamp_cases:
  obtains (same) "fst (clamp_fallback prefs cfg pool_gate chain) = chain"
    | (reordered) primary tail preferred where "chain = primary # tail"
        "fst (clamp_fallback prefs cfg pool_gate chain)
           = primary # preferred @ filter (\<lambda>p. p \<notin> set preferred) tail"
        "preferred_ok pool_gate tail preferred"
proof (cases "nc_allow_request_override cfg \<and> prefs \<noteq> None \<and> np_fallback (the prefs) \<noteq> [] \<and> chain \<noteq> []")
  case False
  then show ?thesis
    by (intro same) (auto simp: clamp_fallback_def split: option.splits list.splits)
next
  case True
  then obtain p primary tail where p: "prefs = Some p" "np_fallback p \<noteq> []" and chain: "chain = primary # tail"
    by (cases prefs; cases chain) auto
  let ?many = "nc_max_fallback cfg < length (np_fallback p)"
  let ?fold = "fold (prefer_one pool_gate primary tail)
      (if ?many then take (nc_max_fallback cfg) (np_fallback p) else np_fallback p)
      ([], if ?many then [TooManyFallbacks] else [])"
  show ?thesis
  proof (rule reordered [OF chain])
    show "fst (clamp_fallback prefs cfg pool_gate chain)
        = primary # fst ?fold @ filter (\<lambda>p. p \<notin> set (fst ?fold)) tail"
      using True p chain by (simp add: clamp_fallback_def Let_def split: prod.split)
  qed (rule prefer_all_ok, simp add: preferred_ok_def)
qed

text \<open>Nothing is added and nothing is lost, and the primary stays first.\<close>

lemma clamp_set: "set (fst (clamp_fallback prefs cfg pool_gate chain)) = set chain"
  by (cases rule: clamp_cases [of prefs cfg pool_gate chain]) (auto simp: preferred_ok_def)

lemma clamp_hd: "chain \<noteq> [] \<Longrightarrow> hd (fst (clamp_fallback prefs cfg pool_gate chain)) = hd chain"
  by (cases rule: clamp_cases [of prefs cfg pool_gate chain]) auto

lemma clamp_permutes:
  assumes "distinct chain"
  shows "mset (fst (clamp_fallback prefs cfg pool_gate chain)) = mset chain"
proof (cases rule: clamp_cases [of prefs cfg pool_gate chain])
  case (reordered primary tail preferred)
  then have "distinct (fst (clamp_fallback prefs cfg pool_gate chain))"
    using assms by (auto simp: preferred_ok_def)
  then show ?thesis using assms clamp_set [of prefs cfg pool_gate chain]
    by (simp only: set_eq_iff_mset_eq_distinct)
qed simp

text \<open>
  Whatever the chain lists, and how often, no provider is tried more often than it is listed; a provider
  that is listed twice and preferred is tried once.
\<close>

lemma clamp_subset: "mset (fst (clamp_fallback prefs cfg pool_gate chain)) \<subseteq># mset chain"
proof (cases rule: clamp_cases [of prefs cfg pool_gate chain])
  case (reordered primary tail preferred)
  have "mset preferred \<subseteq># mset (filter (\<lambda>p. p \<in> set preferred) tail)"
  proof (rule mset_subset_eqI)
    fix p
    show "count (mset preferred) p \<le> count (mset (filter (\<lambda>p. p \<in> set preferred) tail)) p"
      using reordered(3) by (auto simp: preferred_ok_def distinct_count_atmost_1 Suc_le_eq)
  qed
  then have "mset preferred + mset (filter (\<lambda>p. p \<notin> set preferred) tail)
      \<subseteq># mset (filter (\<lambda>p. p \<in> set preferred) tail) + mset (filter (\<lambda>p. p \<notin> set preferred) tail)"
    by (rule subset_mset.add_right_mono)
  also have "\<dots> = mset tail"
    using multiset_partition [of "mset tail" "\<lambda>p. p \<in> set preferred"] by simp
  finally show ?thesis using reordered(1,2) by simp
qed simp

text \<open>
  A provider whose pool cannot be paid for is never moved forward: everything that came before it in the
  chain of the fleet still does.
\<close>

lemma clamp_unfunded_behind:
  assumes "chain = xs @ p # ys" and "xs \<noteq> []" and "\<not> pool_gate (pool_for_gateway_provider p)"
  shows "\<exists>us vs. fst (clamp_fallback prefs cfg pool_gate chain) = us @ p # vs \<and> set xs \<subseteq> set us"
proof (cases rule: clamp_cases [of prefs cfg pool_gate chain])
  case same
  with assms(1) show ?thesis by auto
next
  case (reordered primary tail preferred)
  obtain zs where xs: "xs = primary # zs" using assms(1,2) reordered(1) by (cases xs) auto
  then have tail: "tail = zs @ p # ys" using assms(1) reordered(1) by simp
  have "p \<notin> set preferred" using assms(3) reordered(3) by (auto simp: preferred_ok_def)
  then have "fst (clamp_fallback prefs cfg pool_gate chain)
      = (primary # preferred @ filter (\<lambda>q. q \<notin> set preferred) zs) @ p # filter (\<lambda>q. q \<notin> set preferred) ys"
    using reordered(2) tail by simp
  moreover have "set xs \<subseteq> set (primary # preferred @ filter (\<lambda>q. q \<notin> set preferred) zs)" using xs by auto
  ultimately show ?thesis by blast
qed

subsection \<open>The firewall overlay\<close>

definition clamp_firewall ::
  "'o node_routing_prefs option \<Rightarrow> node_routing_config \<Rightarrow> 'o firewall_overlay option \<times> drop_reason list" where
  "clamp_firewall prefs cfg =
     (if \<not> nc_allow_request_override cfg then (None, if prefs \<noteq> None then [NodeLocked] else [])
      else
        (case Option.bind prefs np_firewall of
           None \<Rightarrow> (None, [])
         | Some raw \<Rightarrow>
             (let ov = (normalize_overlay raw)\<lparr>fo_locked_fields := [], fo_evaluators := None\<rparr> in
              if nc_max_patterns cfg < length (fo_custom_patterns ov) then (None, [OverlayTooLarge])
              else if nc_max_pattern_bytes cfg < sum_list (map (\<lambda>p. length (cp_regex p)) (fo_custom_patterns ov))
              then (None, [OverlayTooLarge])
              else (Some ov, []))))"

definition slot_model_allowed :: "string option \<Rightarrow> effective_policy \<Rightarrow> bool" where
  "slot_model_allowed slot_model policy \<longleftrightarrow>
     (case slot_model of Some m \<Rightarrow> allows_model policy m | None \<Rightarrow> True)"

lemma clamped_overlay:
  assumes "clamp_firewall prefs cfg = (Some ov, d)"
  shows "fo_evaluators ov = None \<and> fo_locked_fields ov = [] \<and> length (fo_custom_patterns ov) \<le> nc_max_patterns cfg"
  using assms by (auto simp: clamp_firewall_def Let_def split: if_splits option.splits)

text \<open>The policy of a request (\<open>state.rs\<close>): the cascade under the clamped overlay of the node.\<close>

definition resolved_policy ::
  "('o, 'sc) resolver \<Rightarrow> node_routing_config \<Rightarrow> string option \<Rightarrow> string option \<Rightarrow> 'o policy_bundle
   \<Rightarrow> 'o node_routing_prefs option \<Rightarrow> 'o firewall_config" where
  "resolved_policy r cfg org_id agent_id bundle prefs =
     resolve_with_request r org_id agent_id (request_bundle bundle) (fst (clamp_firewall prefs cfg))"

text \<open>
  What a node may do to the policy of its requests: tighten fields, append a bounded number of patterns,
  and name another model for the inspector.
\<close>

lemma prefs_only_tighten:
  "field_kept f (resolved_policy r cfg org agent b None) (resolved_policy r cfg org agent b prefs)
   \<and> fc_evaluators (resolved_policy r cfg org agent b prefs) = fc_evaluators (resolved_policy r cfg org agent b None)
   \<and> fc_locked_fields (resolved_policy r cfg org agent b prefs) =
       fc_locked_fields (resolved_policy r cfg org agent b None)
   \<and> (\<exists>ps. fc_custom_patterns (resolved_policy r cfg org agent b prefs) =
         fc_custom_patterns (resolved_policy r cfg org agent b None) @ ps \<and> length ps \<le> nc_max_patterns cfg)"
proof -
  have none: "resolved_policy r cfg org agent b None = resolve_policy r org agent (request_bundle b)"
    by (simp add: resolved_policy_def clamp_firewall_def resolve_policy_def)
  show ?thesis
  proof (cases "fst (clamp_firewall prefs cfg)")
    case None
    then have "resolved_policy r cfg org agent b prefs = resolve_policy r org agent (request_bundle b)"
      by (simp add: resolved_policy_def resolve_policy_def)
    then show ?thesis by (simp only: none) (simp add: field_kept_refl)
  next
    case (Some ov)
    then obtain d where "clamp_firewall prefs cfg = (Some ov, d)" by (metis prod.collapse)
    from clamped_overlay [OF this] have ov: "fo_evaluators ov = None" "length (fo_custom_patterns ov) \<le> nc_max_patterns cfg"
      by auto
    show ?thesis
      using request_only_tightens [of f r org agent "request_bundle b" "Some ov"]
        request_keeps_rest [OF ov(1), of r org agent "request_bundle b"] ov(2) Some
      by (simp only: none) (simp add: resolved_policy_def)
  qed
qed

lemma clamp_no_prefs: "clamp_firewall None cfg = (None, [])"
  by (simp add: clamp_firewall_def)

lemma prefs_model:
  "ic_model (fc_inspector (resolved_policy r cfg org agent b prefs))
   = model_after (fst (clamp_firewall prefs cfg)) (ic_model (fc_inspector (resolved_policy r cfg org agent b None)))"
  by (simp add: resolved_policy_def request_model clamp_no_prefs) (simp add: model_after_def)

text \<open>The inspector of an overlay that is not dropped reaches the policy as it was sent.\<close>

lemma clamped_inspector:
  "clamp_firewall prefs cfg = (Some ov, d) \<Longrightarrow>
     \<exists>p raw. prefs = Some p \<and> np_firewall p = Some raw \<and> fo_inspector ov = fo_inspector raw"
  by (auto simp: clamp_firewall_def Let_def normalize_overlay_def bind_eq_Some_conv split: if_splits option.splits)

end
