(* ===== verification/Gateway_Trial.thy ===== *)
theory Gateway_Trial
  imports Gateway_Waiting Gateway_Probe Gateway_NodeRouting "HOL-Library.Code_Target_Nat"
begin

section \<open>A gateway with two providers\<close>

text \<open>
  The concrete inputs that the witnesses evaluate: a gate with one slot, a breaker that opens at the
  second failure, a registry with two providers, and the policy of an organisation that locks blocking.
\<close>

subsection \<open>The gate\<close>

text \<open>A request holds the slot; one background and two interactive requests wait, the first of which leaves.\<close>

definition trial_arrivals :: "gate_event list" where
  "trial_arrivals = [Arrives Interactive, Arrives Background, Arrives Interactive, Arrives Interactive, Leaves 1]"

definition trial_world :: gate_world where
  "trial_world =
     \<lparr>gate = \<lparr>pg_name = ''local'', max_in_flight = 1, max_queued = 3,
        pg_state = \<lparr>in_flight = 1, interactive = [1, 2], background = [0]\<rparr>, queued_total = 3\<rparr>,
      channels = [Awaiting, Abandoned, Awaiting], permits = 1, dropping = 0, transit = []\<rparr>"

lemma trial_runs: "runs_to (new_gate ''local'' 1 3) trial_arrivals trial_world"
  by code_simp

text \<open>The slot comes free: the abandoned waiter is passed over and the second interactive one is handed the slot.\<close>

definition trial_handover :: "gate_event list" where
  "trial_handover = [Finishes, Releases, Sends 1, Releases, Sends 2, Wakes 2, Finishes, Releases]"

definition trial_served :: gate_world where
  "trial_served =
     \<lparr>gate = \<lparr>pg_name = ''local'', max_in_flight = 1, max_queued = 3,
        pg_state = \<lparr>in_flight = 1, interactive = [], background = []\<rparr>, queued_total = 0\<rparr>,
      channels = [Awaiting, Abandoned, Received], permits = 0, dropping = 0, transit = [0]\<rparr>"

lemma trial_handed: "run_events gate_step trial_handover trial_world = Some trial_served"
  by code_simp

subsection \<open>Circuits and the chain\<close>

definition trial_breaker :: circuit_breaker_config where
  "trial_breaker = \<lparr>cb_enabled = True, failure_threshold = 2, reset_timeout_secs = 30\<rparr>"

definition trial_registry :: "unit provider_registry" where
  "trial_registry =
     register_as ''cloudflare'' \<lparr>pv_name = ''openai'', pv_impl = ()\<rparr>
       (register_provider \<lparr>pv_name = ''openai'', pv_impl = ()\<rparr> (empty_registry []))"

lemma trial_names: "names_are_ids trial_registry"
  by (simp add: trial_registry_def names_register_as names_register names_empty)

definition trial_dispatch :: "(unit, circuits) dispatch_env" where
  "trial_dispatch =
     \<lparr>de_master = False, de_policy = default_effective_policy, de_registry = trial_registry,
      de_breaker = builtin trial_breaker, de_kind = Plain\<rparr>"

text \<open>An attempt at a time, with its outcome, while nothing else happens.\<close>

definition trial_attempt :: "instant \<Rightarrow> gateway_error + string \<Rightarrow> (string, circuits) attempt" where
  "trial_attempt now result =
     \<lparr>at_check = now, at_admission = None, at_meanwhile = (\<lambda>s. s), at_result = result, at_record = now\<rparr>"

definition trial_failover :: "nat \<Rightarrow> (string, circuits) attempt" where
  "trial_failover n =
     (if n = 0 then trial_attempt 0 (Inl (ProviderError ''boom'')) else trial_attempt 1 (Inr ''hello''))"

definition trial_unpaid :: "nat \<Rightarrow> (string, circuits) attempt" where
  "trial_unpaid n =
     (if n = 0 then trial_attempt 0 (Inl (ProviderPaymentRequired ''openai'' ''top up''))
      else trial_attempt 1 (Inl (ProviderError ''boom'')))"

definition trial_failover_answer :: "string answer" where
  "trial_failover_answer =
     \<lparr>an_provider = ''cloudflare'', an_response = ''hello'', an_degraded = Some ''cloudflare''\<rparr>"

lemma trial_failover_run:
  "dispatch trial_dispatch ''gpt-4o'' trial_failover [''openai'', ''cloudflare''] []
   = (Inr trial_failover_answer, [(''cloudflare'', Closed 0), (''openai'', Closed 1)])"
  by code_simp

lemma trial_unpaid_run:
  "dispatch trial_dispatch ''gpt-4o'' trial_unpaid [''openai'', ''cloudflare''] []
   = (Inl (ProviderPaymentRequired ''openai'' ''top up''), [(''cloudflare'', Closed 1), (''openai'', Closed 0)])"
  by code_simp

text \<open>
  A provider whose region the policy forbids, after one that wants to be paid: the answer is that of the
  policy, not the payment that the caller could make.
\<close>

definition trial_eu_dispatch :: "(unit, circuits) dispatch_env" where
  "trial_eu_dispatch = trial_dispatch
     \<lparr>de_policy := default_effective_policy\<lparr>ep_allowed_regions := [''eu'']\<rparr>,
      de_registry := trial_registry\<lparr>pr_regions := [(''openai'', ''eu-west-1'')]\<rparr>\<rparr>"

lemma region_hides_payment:
  "\<exists>text. fst (dispatch trial_eu_dispatch ''gpt-4o'' trial_unpaid [''openai'', ''cloudflare''] [])
     = Inl (PolicyViolation text)"
proof -
  have "(case fst (dispatch trial_eu_dispatch ''gpt-4o'' trial_unpaid [''openai'', ''cloudflare''] []) of
      Inl (PolicyViolation _) \<Rightarrow> True | _ \<Rightarrow> False)"
    by code_simp
  then show ?thesis by (auto split: sum.splits gateway_error.splits)
qed

text \<open>The probe of an open circuit is told that the provider is busy.\<close>

definition trial_open :: circuits where
  "trial_open = [(''openai'', Open 0)]"

definition trial_busy :: "(string, circuits) attempt" where
  "trial_busy = trial_attempt 30000000000 (Inl (ProviderRateLimited ''openai'' None None))"

definition trial_half_open :: "circuits chain_state" where
  "trial_half_open =
     \<lparr>ch_circuits = [(''openai'', HalfOpen True)],
      ch_last = Some (ProviderRateLimited ''openai'' None None), ch_skipped = True\<rparr>"

lemma trial_probe:
  "attempt_provider trial_dispatch (Some ''openai'') trial_busy ''openai'' (fresh_chain trial_open)
   = (None, trial_half_open)"
  by code_simp

lemma trial_open_ok: "circuits_ok trial_breaker trial_open"
  by (auto simp: circuits_ok_def trial_open_def bt_wf_def bt_keys_def circuit_of_def bt_get_def counted_def
    split: option.splits if_splits)

text \<open>An hour later the provider would answer.\<close>

definition trial_later :: "(unit, string, circuits) dispatch_job" where
  "trial_later = (trial_dispatch, ''gpt-4o'', \<lambda>_. trial_attempt 3600000000000 (Inr ''hello''), [''openai''])"

subsection \<open>Policies and routes\<close>

definition trial_inspector :: inspector_config where
  "trial_inspector =
     \<lparr>ic_enabled = True, ic_model = ''guard'', ic_mode = InspectBoth, ic_min_chars = 8, ic_timeout_ms = 1000,
      ic_action = Block\<rparr>"

definition trial_base :: "unit firewall_config" where
  "trial_base =
     \<lparr>fc_enabled = True, fc_scan_inbound = True, fc_scan_outbound = True, fc_policy = Sanitize,
      fc_log_detections = True, fc_redact_pii = True, fc_redact_secrets = True,
      fc_wrap_untrusted_tool_results = True, fc_custom_patterns = [], fc_alert = Silent,
      fc_inspector = trial_inspector, fc_locked_fields = [''inspector'', ''policy''], fc_evaluators = []\<rparr>"

definition empty_overlay :: "unit firewall_overlay" where
  "empty_overlay =
     \<lparr>fo_enabled = None, fo_scan_inbound = None, fo_scan_outbound = None, fo_policy = None,
      fo_log_detections = None, fo_redact_pii = None, fo_redact_secrets = None,
      fo_wrap_untrusted_tool_results = None, fo_alert = None, fo_inspector = None, fo_custom_patterns = [],
      fo_locked_fields = [], fo_evaluators = None\<rparr>"

text \<open>The organisation asks for warnings and locks alerts; its agent wants them silent.\<close>

definition trial_resolver :: "(unit, unit) resolver" where
  "trial_resolver =
     set_agent_overlay ''agent'' (empty_overlay\<lparr>fo_alert := Some Silent\<rparr>)
       (set_org_overlay ''org''
         (empty_overlay\<lparr>fo_policy := Some WarnAndContinue, fo_alert := Some Fanout, fo_locked_fields := [''alert'']\<rparr>)
         (new_resolver trial_base))"

lemma trial_resolved:
  "(let c = resolve_policy trial_resolver (Some ''org'') (Some ''agent'') None
    in (fc_policy c, fc_alert c, fc_locked_fields c)) = (Sanitize, Fanout, [''alert'', ''inspector'', ''policy''])"
  by code_simp

text \<open>A request names a model of its own for the locked inspector.\<close>

lemma trial_swapped:
  "ic_model (fc_inspector (resolve_with_request trial_resolver (Some ''org'') (Some ''agent'') None
     (Some (empty_overlay\<lparr>fo_inspector := Some (trial_inspector\<lparr>ic_model := ''no-such-model''\<rparr>)\<rparr>))))
   = ''no-such-model''"
  by code_simp

definition trial_tables :: routing_tables where
  "trial_tables =
     \<lparr>rt_model_map = [(''gpt-'', (''openai'', None)), (''gpt-4o-mini'', (''cloudflare'', Some ''@cf/mini''))],
      rt_builtin_prefixes = builtin_prefixes, rt_default_provider = ''openrouter'', rt_modality_map = [],
      rt_fallback_chain = [''local'', ''vertex'', ''cloudflare''],
      rt_provider_tiers = [(''local'', 2), (''cloudflare'', 1)]\<rparr>"

text \<open>
  A chain that lists a provider twice: nothing checks for that, and the dispatch tries it twice; a
  preference for it removes the second try.
\<close>

lemma repeated_provider:
  "clamped_fallback_chain (trial_tables\<lparr>rt_fallback_chain := [''local'', ''vertex'', ''local'']\<rparr>)
     (None :: unit node_routing_prefs option) default_node_routing (\<lambda>_. True) ''openai''
   = [''openai'', ''vertex'', ''local'', ''local'']
   \<and> clamped_fallback_chain (trial_tables\<lparr>rt_fallback_chain := [''local'', ''vertex'', ''local'']\<rparr>)
     (Some \<lparr>np_fallback = [''local''], np_firewall = None :: unit firewall_overlay option\<rparr>)
     default_node_routing (\<lambda>_. True) ''openai''
   = [''openai'', ''local'', ''vertex'']"
  by (intro conjI; code_simp)


lemma trial_routes:
  "route trial_tables ''gpt-4o-mini-2024'' = (''cloudflare'', ''@cf/mini'')
   \<and> route trial_tables ''Gemma-3-270M-it'' = (''classify'', ''Gemma-3-270M-it'')
   \<and> route trial_tables ''mistral.large'' = (''bedrock'', ''mistral.large'')
   \<and> fallback_chain trial_tables ''openai'' = [''openai'', ''vertex'', ''cloudflare'', ''local'']"
  by code_simp

end
