(* ===== verification/Gateway_Wallet.thy ===== *)
theory Gateway_Wallet
  imports Gateway_Machine
begin

section \<open>Wallets and reservations\<close>

text \<open>
  \<open>WalletState\<close> and \<open>CreditReservation\<close> of \<open>crates/gateway/budget/src/lib.rs\<close>.  Calls are paid for after
  they are served, so a request first reserves what it may cost; the reservation is a permit that
  gives the amount back when it is dropped.  An \<open>i64\<close> is an integer, with the saturation of its
  arithmetic written out.
\<close>

subsection \<open>The state\<close>

type_synonym i64 = int

definition max_i64 :: int where
  "max_i64 = 9223372036854775807"

definition sat_i64 :: "int \<Rightarrow> i64" where
  "sat_i64 n = max (- max_i64 - 1) (min max_i64 n)"

definition is_i64 :: "int \<Rightarrow> bool" where
  "is_i64 n \<longleftrightarrow> - max_i64 - 1 \<le> n \<and> n \<le> max_i64"

lemma sat_i64_id: "is_i64 n \<Longrightarrow> sat_i64 n = n"
  by (simp add: sat_i64_def is_i64_def)

record wallet_state =
  ws_unavailable :: "(string \<times> bool) list"
  ws_empty :: "(string \<times> bool) list"
  ws_balance :: "(string \<times> i64) list"
  ws_in_flight :: "(string \<times> i64) list"

definition new_wallet :: wallet_state where
  "new_wallet = \<lparr>ws_unavailable = [], ws_empty = [], ws_balance = [], ws_in_flight = []\<rparr>"

definition without :: "string \<Rightarrow> (string \<times> 'v) list \<Rightarrow> (string \<times> 'v) list" where
  "without org m = filter (\<lambda>(k, _). k \<noteq> org) m"

lemma bt_get_without: "bt_get (without org m) k = (if k = org then None else bt_get m k)"
  by (induction m) (auto simp: without_def bt_get_def)

lemma bt_wf_without: "bt_wf m \<Longrightarrow> bt_wf (without org m)"
  by (simp add: without_def bt_wf_def bt_keys_def sorted_wrt_map sorted_wrt_filter)

definition set_org_accounting_unavailable :: "string \<Rightarrow> bool \<Rightarrow> wallet_state \<Rightarrow> wallet_state" where
  "set_org_accounting_unavailable org unavailable w =
     w\<lparr>ws_unavailable := (if unavailable then bt_insert org True (ws_unavailable w) else without org (ws_unavailable w))\<rparr>"

definition is_org_accounting_unavailable :: "string \<Rightarrow> wallet_state \<Rightarrow> bool" where
  "is_org_accounting_unavailable org w = (case bt_get (ws_unavailable w) org of Some b \<Rightarrow> b | None \<Rightarrow> False)"

definition set_org_empty :: "string \<Rightarrow> bool \<Rightarrow> wallet_state \<Rightarrow> wallet_state" where
  "set_org_empty org e w =
     w\<lparr>ws_empty := (if e then bt_insert org True (ws_empty w) else without org (ws_empty w))\<rparr>"

definition is_org_empty :: "string \<Rightarrow> wallet_state \<Rightarrow> bool" where
  "is_org_empty org w = (case bt_get (ws_empty w) org of Some b \<Rightarrow> b | None \<Rightarrow> False)"

definition set_org_balance :: "string \<Rightarrow> i64 \<Rightarrow> wallet_state \<Rightarrow> wallet_state" where
  "set_org_balance org balance w =
     set_org_empty org (balance \<le> 0)
       (set_org_accounting_unavailable org False (w\<lparr>ws_balance := bt_insert org balance (ws_balance w)\<rparr>))"

definition org_balance :: "string \<Rightarrow> wallet_state \<Rightarrow> i64 option" where
  "org_balance org w = bt_get (ws_balance w) org"

definition sole_balance :: "wallet_state \<Rightarrow> i64 option" where
  "sole_balance w = (case ws_balance w of [(_, b)] \<Rightarrow> Some b | _ \<Rightarrow> None)"

text \<open>The balance an organization reported last decides whether it is empty, and accounting works again.\<close>

lemma balance_settles:
  "org_balance org (set_org_balance org b w) = Some b"
  "is_org_empty org (set_org_balance org b w) \<longleftrightarrow> b \<le> 0"
  "\<not> is_org_accounting_unavailable org (set_org_balance org b w)"
  by (simp_all add: org_balance_def is_org_empty_def is_org_accounting_unavailable_def set_org_balance_def
    set_org_empty_def set_org_accounting_unavailable_def bt_get_insert bt_get_without)

lemma balance_is_per_org:
  assumes "other \<noteq> org"
  shows "org_balance other (set_org_balance org b w) = org_balance other w"
    and "is_org_empty other (set_org_balance org b w) = is_org_empty other w"
    and "is_org_accounting_unavailable other (set_org_balance org b w) = is_org_accounting_unavailable other w"
  using assms
  by (simp_all add: org_balance_def is_org_empty_def is_org_accounting_unavailable_def set_org_balance_def
    set_org_empty_def set_org_accounting_unavailable_def bt_get_insert bt_get_without)

subsection \<open>Reservations\<close>

record credit_reservation =
  cr_org :: string
  cr_amount :: i64

definition in_flight_of :: "string \<Rightarrow> wallet_state \<Rightarrow> i64" where
  "in_flight_of org w = (case bt_get (ws_in_flight w) org of Some n \<Rightarrow> n | None \<Rightarrow> 0)"

definition try_reserve ::
  "string \<Rightarrow> i64 \<Rightarrow> i64 \<Rightarrow> wallet_state \<Rightarrow> credit_reservation option \<times> wallet_state" where
  "try_reserve org amount_micro_usd available w =
     (let amount = max amount_micro_usd 0; entry = in_flight_of org w in
      if 0 < amount \<and> available < sat_i64 (entry + amount)
      then (None, w\<lparr>ws_in_flight := bt_insert org entry (ws_in_flight w)\<rparr>)
      else (Some \<lparr>cr_org = org, cr_amount = amount\<rparr>,
            w\<lparr>ws_in_flight := bt_insert org (sat_i64 (entry + amount)) (ws_in_flight w)\<rparr>))"

text \<open>
  \<open>release_in_flight\<close> has two critical sections: it subtracts, and then it removes an entry that is
  zero, unless another request came in between.
\<close>

definition give_back :: "string \<Rightarrow> i64 \<Rightarrow> wallet_state \<Rightarrow> bool \<times> wallet_state" where
  "give_back org amount w =
     (case bt_get (ws_in_flight w) org of
        None \<Rightarrow> (False, w)
      | Some entry \<Rightarrow>
          (let rest = sat_i64 (entry - amount)
           in (rest = 0, w\<lparr>ws_in_flight := bt_insert org rest (ws_in_flight w)\<rparr>)))"

definition remove_if_zero :: "string \<Rightarrow> wallet_state \<Rightarrow> wallet_state" where
  "remove_if_zero org w =
     (if bt_get (ws_in_flight w) org = Some 0 then w\<lparr>ws_in_flight := without org (ws_in_flight w)\<rparr> else w)"

definition release_in_flight :: "(wallet_state \<Rightarrow> wallet_state) \<Rightarrow> string \<Rightarrow> i64 \<Rightarrow> wallet_state \<Rightarrow> wallet_state" where
  "release_in_flight others org amount w =
     (if amount \<le> 0 then w
      else
        (case give_back org amount w of
           (False, w') \<Rightarrow> w'
         | (True, w') \<Rightarrow> remove_if_zero org (others w')))"

definition drop_reservation :: "(wallet_state \<Rightarrow> wallet_state) \<Rightarrow> credit_reservation \<Rightarrow> wallet_state \<Rightarrow> wallet_state" where
  "drop_reservation others r w = release_in_flight others (cr_org r) (cr_amount r) w"

lemma in_flight_remove [simp]: "in_flight_of o' (remove_if_zero org w) = in_flight_of o' w"
  by (simp add: remove_if_zero_def in_flight_of_def bt_get_without)

lemma in_flight_give_back:
  "in_flight_of o' (snd (give_back org amount w)) =
     (if o' = org \<and> bt_get (ws_in_flight w) org \<noteq> None then sat_i64 (in_flight_of org w - amount)
      else in_flight_of o' w)"
  by (auto simp: give_back_def in_flight_of_def bt_get_insert Let_def split: option.splits)

lemma in_flight_try_reserve:
  "in_flight_of o' (snd (try_reserve org amount available w)) =
     (if o' = org \<and> fst (try_reserve org amount available w) \<noteq> None then sat_i64 (in_flight_of org w + max amount 0)
      else in_flight_of o' w)"
  by (auto simp: try_reserve_def in_flight_of_def bt_get_insert Let_def split: option.splits)

text \<open>The floor that the comment of \<open>release_in_flight\<close> speaks of is not there: the entry can go below zero.\<close>

lemma release_below_zero:
  "in_flight_of ''org'' (release_in_flight id ''org'' 2 (snd (try_reserve ''org'' 1 10 new_wallet))) = - 1"
  by code_simp

subsection \<open>Requests that reserve and give back\<close>

text \<open>The wallet with the permits that are held.\<close>

record credit_world =
  cw_wallet :: wallet_state
  cw_held :: "credit_reservation list"

datatype credit_event =
    Reserves string i64 i64
  | Drops credit_reservation
  | Sweeps string
  | Settles string i64
  | Marks string bool

primrec credit_step :: "credit_event \<Rightarrow> credit_world \<Rightarrow> credit_world option" where
  "credit_step (Reserves org amount available) c =
     (case try_reserve org amount available (cw_wallet c) of
        (None, w) \<Rightarrow> Some (c\<lparr>cw_wallet := w\<rparr>)
      | (Some r, w) \<Rightarrow> Some (c\<lparr>cw_wallet := w, cw_held := r # cw_held c\<rparr>))"
| "credit_step (Drops r) c =
     (if r \<in> set (cw_held c)
      then Some (c\<lparr>cw_wallet := (if cr_amount r \<le> 0 then cw_wallet c
            else snd (give_back (cr_org r) (cr_amount r) (cw_wallet c))),
          cw_held := remove1 r (cw_held c)\<rparr>)
      else None)"
| "credit_step (Sweeps org) c = Some (c\<lparr>cw_wallet := remove_if_zero org (cw_wallet c)\<rparr>)"
| "credit_step (Settles org balance) c = Some (c\<lparr>cw_wallet := set_org_balance org balance (cw_wallet c)\<rparr>)"
| "credit_step (Marks org unavailable) c =
     Some (c\<lparr>cw_wallet := set_org_accounting_unavailable org unavailable (cw_wallet c)\<rparr>)"

definition held_by :: "string \<Rightarrow> credit_world \<Rightarrow> int" where
  "held_by org c = (\<Sum>r \<leftarrow> filter (\<lambda>r. cr_org r = org) (cw_held c). cr_amount r)"

text \<open>What is in flight is what is held, and within the headroom \<open>h\<close> of each organization.\<close>

definition credit_ok :: "(string \<Rightarrow> int) \<Rightarrow> credit_world \<Rightarrow> bool" where
  "credit_ok h c \<longleftrightarrow> (\<forall>org. in_flight_of org (cw_wallet c) = held_by org c \<and> held_by org c \<le> h org)
     \<and> (\<forall>r \<in> set (cw_held c). 0 \<le> cr_amount r) \<and> (\<forall>org. 0 \<le> h org \<and> h org < max_i64)"

definition within_headroom :: "(string \<Rightarrow> int) \<Rightarrow> credit_event \<Rightarrow> bool" where
  "within_headroom h e \<longleftrightarrow> (case e of Reserves org amount available \<Rightarrow> available \<le> h org | _ \<Rightarrow> True)"

lemma held_by_remove:
  assumes "r \<in> set rs"
  shows "(\<Sum>x \<leftarrow> filter (\<lambda>x. cr_org x = org) (remove1 r rs). cr_amount x)
    = (\<Sum>x \<leftarrow> filter (\<lambda>x. cr_org x = org) rs. cr_amount x) - (if cr_org r = org then cr_amount r else 0)"
  using assms by (induction rs) auto

lemma held_by_nonneg: "\<forall>r \<in> set (cw_held c). 0 \<le> cr_amount r \<Longrightarrow> 0 \<le> held_by org c"
  unfolding held_by_def by (intro sum_list_nonneg) auto

lemma held_positive_entry:
  assumes "credit_ok h c" and "r \<in> set (cw_held c)" and "0 < cr_amount r"
  shows "bt_get (ws_in_flight (cw_wallet c)) (cr_org r) \<noteq> None"
    and "cr_amount r \<le> in_flight_of (cr_org r) (cw_wallet c)"
proof -
  let ?rest = "c\<lparr>cw_held := remove1 r (cw_held c)\<rparr>"
  have "\<forall>x \<in> set (remove1 r (cw_held c)). 0 \<le> cr_amount x"
    using assms(1) set_remove1_subset [of r "cw_held c"] by (auto simp: credit_ok_def)
  then have "0 \<le> held_by (cr_org r) ?rest" using held_by_nonneg [of ?rest] by simp
  then have le: "cr_amount r \<le> held_by (cr_org r) c" using held_by_remove [OF assms(2), of "cr_org r"] by (simp add: held_by_def)
  then show "cr_amount r \<le> in_flight_of (cr_org r) (cw_wallet c)" using assms(1) by (simp add: credit_ok_def)
  with assms(3) show "bt_get (ws_in_flight (cw_wallet c)) (cr_org r) \<noteq> None"
    by (auto simp: in_flight_of_def split: option.splits)
qed

lemma in_flight_flags [simp]:
  "in_flight_of org (set_org_accounting_unavailable o1 b w) = in_flight_of org w"
  "in_flight_of org (set_org_balance o1 n w) = in_flight_of org w"
  by (simp_all add: in_flight_of_def set_org_balance_def set_org_empty_def set_org_accounting_unavailable_def)

text \<open>A request is admitted within its headroom, and then what it may cost is added to what is in flight.\<close>

lemma reserved_within:
  assumes "credit_ok h c" and "available \<le> h org"
    and "try_reserve org amount available (cw_wallet c) = (Some r, w)"
  shows "r = \<lparr>cr_org = org, cr_amount = max amount 0\<rparr>"
    and "in_flight_of o' w = in_flight_of o' (cw_wallet c) + (if o' = org then max amount 0 else 0)"
    and "in_flight_of org (cw_wallet c) + max amount 0 \<le> h org"
proof -
  let ?entry = "in_flight_of org (cw_wallet c)"
  have ok: "0 \<le> ?entry" "?entry \<le> h org" "h org < max_i64"
    using assms(1) held_by_nonneg [of c] by (auto simp: credit_ok_def)
  show "r = \<lparr>cr_org = org, cr_amount = max amount 0\<rparr>"
    using assms(3) by (auto simp: try_reserve_def Let_def split: if_splits)
  have admitted: "max amount 0 = 0 \<or> sat_i64 (?entry + max amount 0) \<le> available"
    using assms(3) by (auto simp: try_reserve_def Let_def split: if_splits)
  then show fits: "?entry + max amount 0 \<le> h org"
    using ok assms(2) by (auto simp: sat_i64_def min_def max_def split: if_splits)
  then have "sat_i64 (?entry + max amount 0) = ?entry + max amount 0"
    using ok by (intro sat_i64_id) (auto simp: is_i64_def max_i64_def)
  then show "in_flight_of o' w = in_flight_of o' (cw_wallet c) + (if o' = org then max amount 0 else 0)"
    using in_flight_try_reserve [of o' org amount available "cw_wallet c"] assms(3) by auto
qed

lemma credit_ok_step:
  assumes step: "credit_step e c = Some c'" and ok: "credit_ok h c" and "within_headroom h e"
  shows "credit_ok h c'"
proof (cases e)
  case (Reserves org amount available)
  then have room: "available \<le> h org" using assms(3) by (simp add: within_headroom_def)
  obtain permit w where t: "try_reserve org amount available (cw_wallet c) = (permit, w)" by fastforce
  show ?thesis
  proof (cases permit)
    case None
    with t in_flight_try_reserve [of _ org amount available "cw_wallet c"]
    have "in_flight_of o' w = in_flight_of o' (cw_wallet c)" for o' by auto
    with step ok t None Reserves show ?thesis by (auto simp: credit_ok_def held_by_def)
  next
    case (Some r)
    note reserved = reserved_within [OF ok room t [unfolded Some]]
    have "c' = c\<lparr>cw_wallet := w, cw_held := r # cw_held c\<rparr>" using step t Some Reserves by simp
    with ok reserved show ?thesis by (auto simp: credit_ok_def held_by_def)
  qed
next
  case (Drops r)
  then have held: "r \<in> set (cw_held c)" using step by (auto split: if_splits)
  have rest: "held_by org c' = held_by org c - (if cr_org r = org then cr_amount r else 0)" for org
    using step Drops held by (auto simp: held_by_def held_by_remove)
  have nonneg: "0 \<le> cr_amount r" using ok held by (auto simp: credit_ok_def)
  have "in_flight_of org (cw_wallet c') = in_flight_of org (cw_wallet c) - (if cr_org r = org then cr_amount r else 0)"
    for org
  proof (cases "cr_amount r = 0")
    case False
    then have pos: "0 < cr_amount r" using nonneg by simp
    note entry = held_positive_entry [OF ok held pos]
    have "in_flight_of (cr_org r) (cw_wallet c) \<le> h (cr_org r)" "h (cr_org r) < max_i64"
      using ok by (auto simp: credit_ok_def)
    then have "is_i64 (in_flight_of (cr_org r) (cw_wallet c) - cr_amount r)"
      using entry(2) pos by (auto simp: is_i64_def max_i64_def)
    then show ?thesis using step Drops held pos entry(1) by (auto simp: in_flight_give_back sat_i64_id)
  qed (use step Drops held in auto)
  then have "in_flight_of org (cw_wallet c') = held_by org c'" for org
    using ok rest by (auto simp: credit_ok_def)
  moreover have "held_by org c' \<le> h org" for org
    using ok rest [of org] nonneg by (auto simp: credit_ok_def intro: order_trans [rotated])
  moreover have "set (cw_held c') \<subseteq> set (cw_held c)"
    using step Drops held set_remove1_subset [of r "cw_held c"] by auto
  then have "\<forall>x \<in> set (cw_held c'). 0 \<le> cr_amount x" using ok by (auto simp: credit_ok_def)
  moreover have "\<forall>org. 0 \<le> h org \<and> h org < max_i64" using ok by (simp add: credit_ok_def)
  ultimately show ?thesis unfolding credit_ok_def by blast
qed (use step ok in \<open>auto simp: credit_ok_def held_by_def\<close>)

definition bounded_step :: "(string \<Rightarrow> int) \<Rightarrow> credit_event \<Rightarrow> credit_world \<Rightarrow> credit_world option" where
  "bounded_step h e c = (if within_headroom h e then credit_step e c else None)"

interpretation credit_machine: invariant_machine "bounded_step h" "credit_ok h" for h
  by unfold_locales (auto simp: bounded_step_def intro: credit_ok_step split: if_splits)

lemma bounded_run:
  "\<forall>e \<in> set es. within_headroom h e \<Longrightarrow> run_events (bounded_step h) es c = run_events credit_step es c"
  by (induction es arbitrary: c) (auto simp: bounded_step_def split: option.splits)

definition no_credit :: credit_world where
  "no_credit = \<lparr>cw_wallet = new_wallet, cw_held = []\<rparr>"

lemma credit_reached:
  assumes "run_events credit_step es no_credit = Some c" and "\<forall>e \<in> set es. within_headroom h e"
    and "\<forall>org. 0 \<le> h org \<and> h org < max_i64"
  shows "credit_ok h c"
proof (rule credit_machine.ok_run)
  show "run_events (bounded_step h) es no_credit = Some c" using assms(1,2) by (simp add: bounded_run)
  show "credit_ok h no_credit"
    using assms(3) by (simp add: credit_ok_def no_credit_def new_wallet_def in_flight_of_def held_by_def bt_get_def)
qed

end
