(* ===== verification/Gateway_Budget.thy ===== *)
theory Gateway_Budget
  imports Gateway_Circuit Gateway_Policy
begin

section \<open>Spend budgets\<close>

text \<open>
  The budget enforcer of \<open>crates/gateway/budget/src/lib.rs\<close>: caps in micro-USD per user, per agent and
  per session, the counters of what was charged, the registry of enforcers, the budget of sandbox
  executions, and the cached verdict of the shared budget.  A counter is a \<open>u64\<close> that is added to with
  \<open>+=\<close>, which wraps in a release build.
\<close>

subsection \<open>Rules\<close>

datatype budget_action = BudgetNotify | BudgetDowngrade | BudgetRestrict | BudgetStop

datatype charge_kind = ChargeModel | ChargeMedia | ChargeTools

record charge_inclusion =
  bi_model :: bool
  bi_media :: bool
  bi_tools :: bool

fun rule_includes :: "charge_inclusion \<Rightarrow> charge_kind \<Rightarrow> bool" where
  "rule_includes i ChargeModel = bi_model i"
| "rule_includes i ChargeMedia = bi_media i"
| "rule_includes i ChargeTools = bi_tools i"

record budget_rule =
  br_limit :: u64
  br_action :: budget_action
  br_downgrade_to :: "string option"
  br_restrict_max_tokens :: u64
  br_alert :: alert_tier
  br_include :: charge_inclusion

record session_budget =
  sb_limit :: u64
  sb_action :: budget_action
  sb_downgrade_to :: "string option"
  sb_restrict_max_tokens :: u64
  sb_alert :: alert_tier
  sb_include :: charge_inclusion

definition default_session_budget :: session_budget where
  "default_session_budget =
     \<lparr>sb_limit = 0, sb_action = BudgetStop, sb_downgrade_to = None, sb_restrict_max_tokens = 256,
      sb_alert = Silent, sb_include = \<lparr>bi_model = True, bi_media = True, bi_tools = True\<rparr>\<rparr>"

record budget_config =
  bc_users :: "(string \<times> budget_rule) list"
  bc_agents :: "(string \<times> budget_rule) list"
  bc_session :: session_budget

datatype budget_scope = UserScope | AgentScope | SessionScope

record budget_decision =
  bd_scope :: budget_scope
  bd_key :: string
  bd_action :: budget_action
  bd_used :: u64
  bd_limit :: u64
  bd_downgrade_to :: "string option"
  bd_restrict_max_tokens :: u64
  bd_alert :: alert_tier

subsection \<open>The enforcer\<close>

type_synonym usage = "(string \<times> u64) list"

record budget_enforcer =
  be_config :: budget_config
  be_user_usage :: usage
  be_agent_usage :: usage
  be_session_usage :: usage
  be_enabled :: bool

definition new_enforcer :: "budget_config \<Rightarrow> budget_enforcer" where
  "new_enforcer cfg =
     \<lparr>be_config = cfg, be_user_usage = [], be_agent_usage = [], be_session_usage = [],
      be_enabled = (bc_users cfg \<noteq> [] \<or> bc_agents cfg \<noteq> [] \<or> 0 < sb_limit (bc_session cfg))\<rparr>"

text \<open>\<open>usage.get(id).map(|v| *v).unwrap_or(0)\<close> and \<open>*usage.entry(id).or_insert(0) += cost\<close>.\<close>

definition used_of :: "usage \<Rightarrow> string \<Rightarrow> u64" where
  "used_of u i = (case bt_get u i of Some n \<Rightarrow> n | None \<Rightarrow> 0)"

definition charge :: "string \<Rightarrow> u64 \<Rightarrow> usage \<Rightarrow> usage" where
  "charge i cost u = bt_insert i (used_of u i + cost) u"

text \<open>\<open>id.filter(|s| !s.is_empty())\<close>\<close>

definition present :: "string option \<Rightarrow> string option" where
  "present i = (case i of Some s \<Rightarrow> if s = [] then None else Some s | None \<Rightarrow> None)"

fun budget_severity :: "budget_action \<Rightarrow> byte" where
  "budget_severity BudgetNotify = 0"
| "budget_severity BudgetRestrict = 1"
| "budget_severity BudgetDowngrade = 1"
| "budget_severity BudgetStop = 2"

definition budget_decide :: "budget_scope \<Rightarrow> string \<Rightarrow> budget_rule \<Rightarrow> u64 \<Rightarrow> budget_decision option" where
  "budget_decide scope key rule used =
     (if br_limit rule = 0 \<or> used < br_limit rule then None
      else
        (let action = (if br_action rule = BudgetDowngrade \<and> br_downgrade_to rule = None then BudgetRestrict
                       else br_action rule) in
         Some \<lparr>bd_scope = scope, bd_key = key, bd_action = action, bd_used = used, bd_limit = br_limit rule,
           bd_downgrade_to = br_downgrade_to rule, bd_restrict_max_tokens = br_restrict_max_tokens rule,
           bd_alert = br_alert rule\<rparr>))"

text \<open>What one scope of a request says: the identity, its rule, the counter, the decision.\<close>

definition scope_decision ::
  "budget_scope \<Rightarrow> (string \<times> budget_rule) list \<Rightarrow> usage \<Rightarrow> charge_kind \<Rightarrow> string option \<Rightarrow> budget_decision option"
where
  "scope_decision scope rules u kind i =
     (case present i of
        None \<Rightarrow> None
      | Some s \<Rightarrow>
          (case bt_get rules s of
             None \<Rightarrow> None
           | Some rule \<Rightarrow>
               if rule_includes (br_include rule) kind then budget_decide scope s rule (used_of u s) else None))"

definition evaluate_charge ::
  "budget_enforcer \<Rightarrow> string option \<Rightarrow> string option \<Rightarrow> charge_kind \<Rightarrow> budget_decision option" where
  "evaluate_charge b user agent kind =
     (if \<not> be_enabled b then None
      else
        (let best = scope_decision UserScope (bc_users (be_config b)) (be_user_usage b) kind user in
         case scope_decision AgentScope (bc_agents (be_config b)) (be_agent_usage b) kind agent of
           None \<Rightarrow> best
         | Some d \<Rightarrow>
             (case best of
                Some prev \<Rightarrow>
                  if budget_severity (bd_action d) \<le> budget_severity (bd_action prev) then Some prev else Some d
              | None \<Rightarrow> Some d)))"

definition evaluate :: "budget_enforcer \<Rightarrow> string option \<Rightarrow> string option \<Rightarrow> budget_decision option" where
  "evaluate b user agent = evaluate_charge b user agent ChargeModel"

definition session_rule :: "session_budget \<Rightarrow> budget_rule" where
  "session_rule s =
     \<lparr>br_limit = sb_limit s, br_action = sb_action s, br_downgrade_to = sb_downgrade_to s,
      br_restrict_max_tokens = sb_restrict_max_tokens s, br_alert = sb_alert s, br_include = sb_include s\<rparr>"

definition evaluate_session_charge ::
  "budget_enforcer \<Rightarrow> string option \<Rightarrow> charge_kind \<Rightarrow> budget_decision option" where
  "evaluate_session_charge b session kind =
     (let cfg = bc_session (be_config b) in
      if \<not> be_enabled b \<or> sb_limit cfg = 0 then None
      else if \<not> rule_includes (sb_include cfg) kind then None
      else
        (case present session of
           None \<Rightarrow> None
         | Some s \<Rightarrow> budget_decide SessionScope s (session_rule cfg) (used_of (be_session_usage b) s)))"

definition charge_scope ::
  "(string \<times> budget_rule) list \<Rightarrow> charge_kind \<Rightarrow> u64 \<Rightarrow> string option \<Rightarrow> usage \<Rightarrow> usage" where
  "charge_scope rules kind cost i u =
     (case present i of
        None \<Rightarrow> u
      | Some s \<Rightarrow>
          (case bt_get rules s of
             None \<Rightarrow> u
           | Some rule \<Rightarrow> if rule_includes (br_include rule) kind then charge s cost u else u))"

definition record_charge ::
  "string option \<Rightarrow> string option \<Rightarrow> charge_kind \<Rightarrow> u64 \<Rightarrow> budget_enforcer \<Rightarrow> budget_enforcer" where
  "record_charge user agent kind cost b =
     (if \<not> be_enabled b \<or> cost = 0 then b
      else b\<lparr>be_user_usage := charge_scope (bc_users (be_config b)) kind cost user (be_user_usage b),
             be_agent_usage := charge_scope (bc_agents (be_config b)) kind cost agent (be_agent_usage b)\<rparr>)"

definition max_session_entries :: nat where
  "max_session_entries = 50000"

definition record_session_charge :: "string option \<Rightarrow> charge_kind \<Rightarrow> u64 \<Rightarrow> budget_enforcer \<Rightarrow> budget_enforcer"
where
  "record_session_charge session kind cost b =
     (let cfg = bc_session (be_config b); u = be_session_usage b in
      if \<not> be_enabled b \<or> cost = 0 \<or> sb_limit cfg = 0 then b
      else if \<not> rule_includes (sb_include cfg) kind then b
      else
        (case present session of
           None \<Rightarrow> b
         | Some s \<Rightarrow>
             (let kept = (if max_session_entries \<le> length u \<and> bt_get u s = None then [] else u)
              in b\<lparr>be_session_usage := charge s cost kept\<rparr>)))"

text \<open>What the pipeline does when a call was charged (\<open>record_charged_budget_for_ids\<close>).\<close>

definition record_charged ::
  "string option \<Rightarrow> string option \<Rightarrow> string option \<Rightarrow> charge_kind \<Rightarrow> u64 \<Rightarrow> budget_enforcer \<Rightarrow> budget_enforcer"
where
  "record_charged user agent session kind cost b =
     record_session_charge session kind cost (record_charge user agent kind cost b)"

record spend_snapshot =
  ss_users :: usage
  ss_agents :: usage
  ss_sessions :: usage

definition spend_snapshot_of :: "budget_enforcer \<Rightarrow> spend_snapshot" where
  "spend_snapshot_of b =
     \<lparr>ss_users = be_user_usage b, ss_agents = be_agent_usage b, ss_sessions = be_session_usage b\<rparr>"

subsection \<open>The registry of enforcers\<close>

text \<open>As for the breakers, a shared enforcer is known by its handle.\<close>

record budget_registry =
  bg_backends :: "(string \<times> nat) list"
  bg_order :: "string list"
  bg_active_id :: string
  bg_active :: nat

definition new_budget_registry :: "nat \<Rightarrow> budget_registry" where
  "new_budget_registry backend =
     \<lparr>bg_backends = [(builtin_id, backend)], bg_order = [builtin_id], bg_active_id = builtin_id, bg_active = backend\<rparr>"

definition update_budget_config :: "nat \<Rightarrow> budget_registry \<Rightarrow> budget_registry" where
  "update_budget_config backend r =
     r\<lparr>bg_backends := bt_insert builtin_id backend (bg_backends r),
       bg_active := (if bg_active_id r = builtin_id then backend else bg_active r)\<rparr>"

definition register_budget :: "string \<Rightarrow> nat \<Rightarrow> budget_registry \<Rightarrow> budget_registry" where
  "register_budget i backend r =
     (let is_active = (i = bg_active_id r) in
      r\<lparr>bg_order := (if bt_get (bg_backends r) i = None then bg_order r @ [i] else bg_order r),
        bg_backends := bt_insert i backend (bg_backends r),
        bg_active := (if is_active then backend else bg_active r)\<rparr>)"

definition activate_budget :: "string \<Rightarrow> budget_registry \<Rightarrow> bool \<times> budget_registry" where
  "activate_budget i r =
     (case bt_get (bg_backends r) i of
        Some backend \<Rightarrow> (True, r\<lparr>bg_active := backend, bg_active_id := i\<rparr>)
      | None \<Rightarrow> (False, r))"

definition budgets_coherent :: "budget_registry \<Rightarrow> bool" where
  "budgets_coherent r \<longleftrightarrow> bt_wf (bg_backends r) \<and> bt_get (bg_backends r) builtin_id \<noteq> None
     \<and> bt_get (bg_backends r) (bg_active_id r) = Some (bg_active r)"

lemma coherent_new_budget: "budgets_coherent (new_budget_registry backend)"
  by (simp add: budgets_coherent_def new_budget_registry_def bt_get_def bt_wf_def bt_keys_def)

lemma coherent_update_budget: "budgets_coherent r \<Longrightarrow> budgets_coherent (update_budget_config backend r)"
  by (auto simp: budgets_coherent_def update_budget_config_def bt_get_insert bt_wf_insert)

lemma coherent_register_budget: "budgets_coherent r \<Longrightarrow> budgets_coherent (register_budget i backend r)"
  by (auto simp: budgets_coherent_def register_budget_def Let_def bt_get_insert bt_wf_insert)

lemma coherent_activate_budget: "budgets_coherent r \<Longrightarrow> budgets_coherent (snd (activate_budget i r))"
  by (auto simp: budgets_coherent_def activate_budget_def split: option.splits)

end
