(* ===== verification/Gateway_Spending.thy ===== *)
theory Gateway_Spending
  imports Gateway_Budget
begin

section \<open>What budgets say of what was charged\<close>

text \<open>
  The counters of an enforcer against the list of the charges it was told of, and the budget of
  sandbox executions.
\<close>

subsection \<open>The counters are the sums of the charges\<close>

record charge_event =
  ce_user :: "string option"
  ce_agent :: "string option"
  ce_session :: "string option"
  ce_kind :: charge_kind
  ce_cost :: u64

definition charge_step :: "charge_event \<Rightarrow> budget_enforcer \<Rightarrow> budget_enforcer" where
  "charge_step e = record_charged (ce_user e) (ce_agent e) (ce_session e) (ce_kind e) (ce_cost e)"

definition charged :: "budget_config \<Rightarrow> charge_event list \<Rightarrow> budget_enforcer" where
  "charged cfg es = fold charge_step es (new_enforcer cfg)"

text \<open>Whether a charge is one that the rule of \<open>i\<close> counts, and the sum of those.\<close>

definition falls_on ::
  "(string \<times> budget_rule) list \<Rightarrow> (charge_event \<Rightarrow> string option) \<Rightarrow> string \<Rightarrow> charge_event \<Rightarrow> bool" where
  "falls_on rules who i e \<longleftrightarrow> present (who e) = Some i
     \<and> (case bt_get rules i of None \<Rightarrow> False | Some rule \<Rightarrow> rule_includes (br_include rule) (ce_kind e))"

definition spent :: "(charge_event \<Rightarrow> bool) \<Rightarrow> charge_event list \<Rightarrow> nat" where
  "spent counts es = (\<Sum>e \<leftarrow> filter counts es. unat (ce_cost e))"

lemma spent_snoc: "spent counts (es @ [e]) = spent counts es + (if counts e then unat (ce_cost e) else 0)"
  by (simp add: spent_def)

lemma spent_le: "spent counts es \<le> spent (\<lambda>_. True) es"
  by (induction es) (auto simp: spent_def)

lemma charged_snoc: "charged cfg (es @ [e]) = charge_step e (charged cfg es)"
  by (simp add: charged_def)

lemma used_of_charge: "used_of (charge i cost u) j = used_of u j + (if j = i then cost else 0)"
  by (simp add: charge_def used_of_def bt_get_insert)

lemma used_of_charge_scope:
  "used_of (charge_scope rules (ce_kind e) (ce_cost e) (who e) u) i
   = used_of u i + (if falls_on rules who i e then ce_cost e else 0)"
  by (auto simp: charge_scope_def falls_on_def used_of_charge split: option.splits)

lemma charge_step_frame:
  "be_config (charge_step e b) = be_config b" "be_enabled (charge_step e b) = be_enabled b"
  by (auto simp: charge_step_def record_charged_def record_session_charge_def record_charge_def Let_def
    split: option.splits)

lemma charged_config: "be_config (charged cfg es) = cfg"
  by (induction es rule: rev_induct) (simp_all add: charged_snoc charge_step_frame charged_def new_enforcer_def)

lemma charged_enabled:
  "be_enabled (charged cfg es) \<longleftrightarrow> bc_users cfg \<noteq> [] \<or> bc_agents cfg \<noteq> [] \<or> 0 < sb_limit (bc_session cfg)"
  by (induction es rule: rev_induct) (simp_all add: charged_snoc charge_step_frame charged_def new_enforcer_def)

lemma charge_step_users:
  "be_user_usage (charge_step e b) =
     (if be_enabled b \<and> ce_cost e \<noteq> 0
      then charge_scope (bc_users (be_config b)) (ce_kind e) (ce_cost e) (ce_user e) (be_user_usage b)
      else be_user_usage b)"
  "be_agent_usage (charge_step e b) =
     (if be_enabled b \<and> ce_cost e \<noteq> 0
      then charge_scope (bc_agents (be_config b)) (ce_kind e) (ce_cost e) (ce_agent e) (be_agent_usage b)
      else be_agent_usage b)"
  by (auto simp: charge_step_def record_charged_def record_session_charge_def record_charge_def Let_def
    split: option.splits)

lemma falls_on_nonempty: "falls_on rules who i e \<Longrightarrow> rules \<noteq> []"
  by (auto simp: falls_on_def bt_get_def split: option.splits)

lemma users_counted: "used_of (be_user_usage (charged cfg es)) i = word_of_nat (spent (falls_on (bc_users cfg) ce_user i) es)"
proof (induction es rule: rev_induct)
  case Nil
  show ?case by (simp add: charged_def new_enforcer_def used_of_def bt_get_def spent_def)
next
  case (snoc e es)
  show ?case
    using snoc falls_on_nonempty [of "bc_users cfg" ce_user i e]
    by (auto simp: charged_snoc charge_step_users charged_config charged_enabled used_of_charge_scope spent_snoc)
qed

lemma agents_counted: "used_of (be_agent_usage (charged cfg es)) i = word_of_nat (spent (falls_on (bc_agents cfg) ce_agent i) es)"
proof (induction es rule: rev_induct)
  case Nil
  show ?case by (simp add: charged_def new_enforcer_def used_of_def bt_get_def spent_def)
next
  case (snoc e es)
  show ?case
    using snoc falls_on_nonempty [of "bc_agents cfg" ce_agent i e]
    by (auto simp: charged_snoc charge_step_users charged_config charged_enabled used_of_charge_scope spent_snoc)
qed

subsection \<open>A request is judged by what was charged\<close>

text \<open>The rule that the charges of \<open>who\<close> have used up for a request of the kind.\<close>

definition used_up ::
  "(string \<times> budget_rule) list \<Rightarrow> (charge_event \<Rightarrow> string option) \<Rightarrow> charge_event list \<Rightarrow> charge_kind \<Rightarrow> string option
   \<Rightarrow> budget_rule option" where
  "used_up rules who es kind i =
     (case present i of
        None \<Rightarrow> None
      | Some s \<Rightarrow>
          (case bt_get rules s of
             None \<Rightarrow> None
           | Some rule \<Rightarrow>
               if rule_includes (br_include rule) kind \<and> br_limit rule \<noteq> 0
                  \<and> unat (br_limit rule) \<le> spent (falls_on rules who s) es
               then Some rule else None))"

definition rule_action :: "budget_rule \<Rightarrow> budget_action" where
  "rule_action rule =
     (if br_action rule = BudgetDowngrade \<and> br_downgrade_to rule = None then BudgetRestrict else br_action rule)"

lemma present_Some: "present i = Some s \<longleftrightarrow> i = Some s \<and> s \<noteq> []"
  by (auto simp: present_def split: option.splits if_splits)

lemma scope_decision_used_up:
  assumes "\<And>s. used_of u s = word_of_nat (spent (falls_on rules who s) es)"
    and "spent (\<lambda>_. True) es < 2 ^ 64"
  shows "map_option bd_action (scope_decision scope rules u kind i)
    = map_option rule_action (used_up rules who es kind i)"
proof -
  have "unat (used_of u s) = spent (falls_on rules who s) es" for s
    using assms spent_le [of "falls_on rules who s" es]
    by (simp add: assms(1) unsigned_of_nat take_bit_nat_eq_self)
  then have decided: "map_option bd_action (budget_decide scope s rule (used_of u s))
      = (if br_limit rule \<noteq> 0 \<and> unat (br_limit rule) \<le> spent (falls_on rules who s) es
         then Some (rule_action rule) else None)" for s rule
    by (auto simp: budget_decide_def rule_action_def Let_def word_less_nat_alt)
  then show ?thesis
    by (simp add: scope_decision_def used_up_def del: option.map_disc_iff map_option_is_None split: option.splits)
qed

text \<open>The action of the verdict: the more severe of the two scopes, the user's on a tie.\<close>

definition harsher :: "budget_action option \<Rightarrow> budget_action option \<Rightarrow> budget_action option" where
  "harsher a b =
     (case (a, b) of
        (Some x, Some y) \<Rightarrow> Some (if budget_severity y \<le> budget_severity x then x else y)
      | (None, _) \<Rightarrow> b
      | (_, None) \<Rightarrow> a)"

lemma evaluate_charge_action:
  "map_option bd_action (evaluate_charge b user agent kind) =
     (if be_enabled b then
        harsher (map_option bd_action (scope_decision UserScope (bc_users (be_config b)) (be_user_usage b) kind user))
          (map_option bd_action (scope_decision AgentScope (bc_agents (be_config b)) (be_agent_usage b) kind agent))
      else None)"
  by (auto simp: evaluate_charge_def harsher_def Let_def split: option.splits)

lemma evaluated_by_charges:
  assumes "spent (\<lambda>_. True) es < 2 ^ 64"
  shows "map_option bd_action (evaluate_charge (charged cfg es) user agent kind)
    = harsher (map_option rule_action (used_up (bc_users cfg) ce_user es kind user))
        (map_option rule_action (used_up (bc_agents cfg) ce_agent es kind agent))"
proof -
  have "map_option bd_action (scope_decision UserScope (bc_users cfg) (be_user_usage (charged cfg es)) kind user)
      = map_option rule_action (used_up (bc_users cfg) ce_user es kind user)"
    by (rule scope_decision_used_up [OF users_counted assms])
  moreover have
    "map_option bd_action (scope_decision AgentScope (bc_agents cfg) (be_agent_usage (charged cfg es)) kind agent)
      = map_option rule_action (used_up (bc_agents cfg) ce_agent es kind agent)"
    by (rule scope_decision_used_up [OF agents_counted assms])
  moreover have "used_up [] who es kind i = None" for who i
    by (simp add: used_up_def bt_get_def split: option.splits)
  moreover have "\<not> be_enabled (charged cfg es) \<Longrightarrow> bc_users cfg = [] \<and> bc_agents cfg = []"
    by (simp add: charged_enabled)
  ultimately show ?thesis by (cases "be_enabled (charged cfg es)")
    (simp_all add: evaluate_charge_action charged_config harsher_def)
qed

lemma severity_order:
  "budget_severity a \<le> budget_severity b \<longleftrightarrow>
     a = BudgetNotify \<or> b = BudgetStop \<or> (a \<noteq> BudgetStop \<and> b \<noteq> BudgetNotify)"
  by (cases a; cases b) (simp_all add: word_le_nat_alt)

lemma harsher_stops: "a = Some BudgetStop \<or> b = Some BudgetStop \<Longrightarrow> harsher a b = Some BudgetStop"
  by (auto simp: harsher_def severity_order split: option.splits)

lemma harsher_None: "harsher a b = None \<longleftrightarrow> a = None \<and> b = None"
  by (auto simp: harsher_def split: option.splits)

subsection \<open>Sessions\<close>

text \<open>
  The map of the sessions is emptied when it is full, so a session may be charged less than it spent,
  never more; with no more sessions than the map holds, it is charged exactly.
\<close>

definition falls_on_session :: "session_budget \<Rightarrow> string \<Rightarrow> charge_event \<Rightarrow> bool" where
  "falls_on_session cfg s e \<longleftrightarrow>
     present (ce_session e) = Some s \<and> sb_limit cfg \<noteq> 0 \<and> rule_includes (sb_include cfg) (ce_kind e)"

definition sessions_of :: "charge_event list \<Rightarrow> string set" where
  "sessions_of es = {s. \<exists>e \<in> set es. present (ce_session e) = Some s}"

lemma charge_step_session:
  "be_session_usage (charge_step e b) =
     (case present (ce_session e) of
        None \<Rightarrow> be_session_usage b
      | Some s \<Rightarrow>
          if be_enabled b \<and> ce_cost e \<noteq> 0 \<and> falls_on_session (bc_session (be_config b)) s e
          then charge s (ce_cost e)
            (if max_session_entries \<le> length (be_session_usage b) \<and> bt_get (be_session_usage b) s = None then []
             else be_session_usage b)
          else be_session_usage b)"
  by (auto simp: charge_step_def record_charged_def record_session_charge_def record_charge_def Let_def
    falls_on_session_def split: option.splits)

lemma used_of_empty [simp]: "used_of [] i = 0"
  by (simp add: used_of_def bt_get_def)

lemma bt_small [simp]: "bt_keys [] = []" "bt_wf ([] :: usage)" "bt_wf [(i :: string, n :: u64)]"
  by (simp_all add: bt_wf_def bt_keys_def)

lemma falls_on_one: "falls_on_session cfg t e \<Longrightarrow> falls_on_session cfg s e \<longleftrightarrow> s = t"
  by (auto simp: falls_on_session_def)

lemma unat_add_le: "unat ((x :: u64) + c) \<le> unat x + unat c"
  by (simp add: unat_word_ariths)

lemma session_step_used:
  "unat (used_of (be_session_usage (charge_step e b)) s)
     \<le> unat (used_of (be_session_usage b) s)
       + (if falls_on_session (bc_session (be_config b)) s e then unat (ce_cost e) else 0)"
  by (auto simp: charge_step_session used_of_charge unat_add_le falls_on_one split: option.splits)

lemma sessions_not_overcharged:
  assumes "spent (\<lambda>_. True) es < 2 ^ 64"
  shows "unat (used_of (be_session_usage (charged cfg es)) s) \<le> spent (falls_on_session (bc_session cfg) s) es"
  using assms
proof (induction es rule: rev_induct)
  case Nil
  show ?case by (simp add: charged_def new_enforcer_def)
next
  case (snoc e es)
  let ?used = "\<lambda>es. used_of (be_session_usage (charged cfg es)) s"
  have IH: "unat (?used es) \<le> spent (falls_on_session (bc_session cfg) s) es"
    using snoc by (simp add: spent_snoc)
  with session_step_used [of e "charged cfg es" s] show ?case
    by (auto simp: charged_snoc spent_snoc charged_config split: if_splits)
qed

lemma session_map_small:
  "bt_wf (be_session_usage (charged cfg es)) \<and> set (bt_keys (be_session_usage (charged cfg es))) \<subseteq> sessions_of es"
proof (induction es rule: rev_induct)
  case Nil
  show ?case by (simp add: charged_def new_enforcer_def bt_wf_def bt_keys_def)
next
  case (snoc e es)
  have "sessions_of es \<subseteq> sessions_of (es @ [e])" by (auto simp: sessions_of_def)
  moreover have "present (ce_session e) = Some s \<Longrightarrow> s \<in> sessions_of (es @ [e])" for s
    by (auto simp: sessions_of_def)
  ultimately show ?case using snoc
    by (auto simp: charged_snoc charge_step_session charge_def bt_insert_keys intro!: bt_wf_insert split: option.splits)
qed

lemma sessions_finite: "finite (sessions_of es)"
proof -
  have "sessions_of es \<subseteq> (\<lambda>e. the (present (ce_session e))) ` set es" by (force simp: sessions_of_def)
  then show ?thesis by (rule finite_subset) simp
qed

lemma sessions_charged:
  assumes "card (sessions_of es) \<le> max_session_entries"
  shows "used_of (be_session_usage (charged cfg es)) s = word_of_nat (spent (falls_on_session (bc_session cfg) s) es)"
  using assms
proof (induction es rule: rev_induct)
  case Nil
  show ?case by (simp add: charged_def new_enforcer_def spent_def)
next
  case (snoc e es)
  let ?b = "charged cfg es"
  have grows: "sessions_of es \<subseteq> sessions_of (es @ [e])" by (auto simp: sessions_of_def)
  then have "card (sessions_of es) \<le> card (sessions_of (es @ [e]))" by (intro card_mono sessions_finite)
  with snoc have IH: "used_of (be_session_usage ?b) s = word_of_nat (spent (falls_on_session (bc_session cfg) s) es)"
    by simp
  have room: "length (be_session_usage ?b) < max_session_entries"
    if new: "present (ce_session e) = Some t" "bt_get (be_session_usage ?b) t = None" for t
  proof -
    have keys: "insert t (set (bt_keys (be_session_usage ?b))) \<subseteq> sessions_of (es @ [e])"
      using new(1) session_map_small [of cfg es] grows by (auto simp: sessions_of_def)
    have "length (be_session_usage ?b) = card (set (bt_keys (be_session_usage ?b)))"
      using session_map_small [of cfg es] distinct_card [OF bt_wf_distinct, of "be_session_usage ?b"]
      by (simp add: bt_keys_def)
    then have "Suc (length (be_session_usage ?b)) = card (insert t (set (bt_keys (be_session_usage ?b))))"
      using new(2) by (simp add: bt_get_None)
    also have "\<dots> \<le> card (sessions_of (es @ [e]))" using keys by (intro card_mono sessions_finite)
    finally show ?thesis using snoc.prems by simp
  qed
  have "be_session_usage (charge_step e ?b) = be_session_usage ?b \<and> (\<not> falls_on_session (bc_session cfg) s e \<or> ce_cost e = 0)
     \<or> (\<exists>t. be_session_usage (charge_step e ?b) = charge t (ce_cost e) (be_session_usage ?b)
          \<and> present (ce_session e) = Some t \<and> falls_on_session (bc_session cfg) t e)"
    using room
    by (auto simp: charge_step_session charged_config charged_enabled falls_on_session_def word_gt_0
      split: option.splits)
  with IH show ?case
    by (auto simp: charged_snoc spent_snoc used_of_charge falls_on_one)
qed

subsection \<open>Sandbox executions\<close>

datatype exec_action = ExecNotify | ExecStop

record exec_config =
  ec_max_count :: u64
  ec_max_wall_clock_secs :: u64
  ec_window_secs :: u64
  ec_action :: exec_action

datatype exec_result = ExecAllow | ExecDeny u64 u64 u64 u64

record exec_window =
  ew_start :: instant
  ew_count :: u64
  ew_ms :: u64

definition new_exec_window :: "instant \<Rightarrow> exec_window" where
  "new_exec_window now = \<lparr>ew_start = now, ew_count = 0, ew_ms = 0\<rparr>"

definition maybe_reset_window :: "exec_config \<Rightarrow> instant \<Rightarrow> exec_window \<Rightarrow> exec_window" where
  "maybe_reset_window cfg now w =
     (if unat (ec_window_secs cfg) * 1000000000 \<le> now - ew_start w then new_exec_window now else w)"

definition exec_check :: "exec_config \<Rightarrow> instant \<Rightarrow> exec_window \<Rightarrow> exec_result \<times> exec_window" where
  "exec_check cfg now w =
     (let w = maybe_reset_window cfg now w;
          count_ok = (ec_max_count cfg = 0 \<or> ew_count w < ec_max_count cfg);
          wc_secs = ew_ms w div 1000;
          wc_ok = (ec_max_wall_clock_secs cfg = 0 \<or> wc_secs < ec_max_wall_clock_secs cfg) in
      if count_ok \<and> wc_ok then (ExecAllow, w)
      else
        (case ec_action cfg of
           ExecNotify \<Rightarrow> (ExecAllow, w)
         | ExecStop \<Rightarrow> (ExecDeny (ew_count w) wc_secs (ec_max_count cfg) (ec_max_wall_clock_secs cfg), w)))"

definition exec_record :: "exec_config \<Rightarrow> instant \<Rightarrow> u64 \<Rightarrow> exec_window \<Rightarrow> exec_window" where
  "exec_record cfg now duration_ms w =
     (let w = maybe_reset_window cfg now w in w\<lparr>ew_count := ew_count w + 1, ew_ms := ew_ms w + duration_ms\<rparr>)"

definition current_count :: "exec_window \<Rightarrow> u64" where
  "current_count w = ew_count w"

text \<open>Executions one at a time: each is checked, runs for a while and is recorded; a check alone may also come.\<close>

datatype exec_event = Executes instant instant u64 | Checks instant

fun execution_step :: "exec_config \<Rightarrow> exec_event \<Rightarrow> exec_window \<Rightarrow> exec_window option" where
  "execution_step cfg (Executes asked ended duration_ms) w =
     (case exec_check cfg asked w of
        (ExecAllow, w') \<Rightarrow> Some (exec_record cfg ended duration_ms w')
      | _ \<Rightarrow> None)"
| "execution_step cfg (Checks now) w = Some (snd (exec_check cfg now w))"

definition within_count :: "exec_config \<Rightarrow> exec_window \<Rightarrow> bool" where
  "within_count cfg w \<longleftrightarrow> ec_action cfg = ExecStop \<and> ec_max_count cfg \<noteq> 0 \<longrightarrow> ew_count w \<le> ec_max_count cfg"

lemma u64_succ_below: "(a :: u64) < b \<Longrightarrow> a + 1 \<le> b"
  by (rule inc_le)

lemma u64_positive: "(m :: u64) \<noteq> 0 \<Longrightarrow> 1 \<le> m"
  using u64_succ_below [of 0 m] by (simp add: word_gt_0)

interpretation exec_machine: invariant_machine "execution_step cfg" "within_count cfg" for cfg
proof
  fix e w w' assume "execution_step cfg e w = Some w'" "within_count cfg w"
  then show "within_count cfg w'"
    by (cases e)
      (auto simp: within_count_def exec_check_def exec_record_def maybe_reset_window_def new_exec_window_def Let_def
        word_gt_0 intro: u64_succ_below u64_positive split: if_splits exec_action.splits)
qed

lemma executions_within_count:
  assumes "run_events (execution_step cfg) es (new_exec_window now) = Some w"
    and "ec_action cfg = ExecStop" and "ec_max_count cfg \<noteq> 0"
  shows "current_count w \<le> ec_max_count cfg"
  using exec_machine.ok_run [OF assms(1)] assms(2,3)
  by (simp add: within_count_def new_exec_window_def current_count_def)

end
