(* ===== verification/Gateway_Credit.thy ===== *)
theory Gateway_Credit
  imports Gateway_Wallet Gateway_Spending Gateway_NodeRouting Ryu_Json
begin

section \<open>Who may start a request\<close>

text \<open>
  What \<open>apps/gateway/src/pipeline/mod.rs\<close> does about money before it dispatches: the gate on the balance
  of the pool that the routed provider bills, the ceiling on the output that the balance can pay for,
  the reservation, the budgets, and the action that the most severe of them asks for.  The prices are
  those of \<open>CreditsConfig\<close> and \<open>ControlPlaneConfig\<close> in \<open>config.rs\<close>.  An amount in micro-USD that is a
  \<open>u64\<close> in the code is a natural number here, with the saturation of \<open>u64\<close> written out.
\<close>

subsection \<open>Prices\<close>

definition sat_mul :: "nat \<Rightarrow> nat \<Rightarrow> nat" where
  "sat_mul a b = min (a * b) usize_max"

datatype billing_mode = InheritGlobal | PassThrough

datatype wallet_empty_action = WalletStop | WalletDowngrade

text \<open>The prices of a sandbox, in nano-dollars for a second.\<close>

record sandbox_rates =
  sr_vcpu :: nat
  sr_mem_gib :: nat
  sr_storage_gib :: nat
  sr_gpu_h200 :: nat
  sr_gpu_h100 :: nat
  sr_gpu_rtx_pro_6000 :: nat
  sr_gpu_rtx_5090 :: nat
  sr_gpu_rtx_4090 :: nat
  sr_windows_vcpu :: nat
  sr_free_storage_gib :: nat
  sr_markup_bps :: nat

record credits_config =
  cx_enabled :: bool
  cx_base_url :: string
  cx_internal_secret :: "string option"
  cx_markup_bps :: nat
  cx_provider_billing :: "(string \<times> billing_mode) list"
  cx_cost_per_tool_call :: nat
  cx_cost_per_image :: nat
  cx_cost_per_video :: nat
  cx_cost_per_tts :: nat
  cx_cost_per_stt :: nat
  cx_wallet_empty_action :: wallet_empty_action
  cx_wallet_empty_downgrade_to :: "string option"
  cx_wallet_empty_alert :: alert_tier
  cx_reserve_enabled :: bool
  cx_min_reserve :: nat
  cx_fail_closed :: bool
  cx_sandbox :: sandbox_rates

definition is_pass_through_provider :: "credits_config \<Rightarrow> string \<Rightarrow> bool" where
  "is_pass_through_provider cfg name =
     (let provider = trim name in
      provider \<noteq> [] \<and> list_ex (\<lambda>(configured, mode). to_ascii_lowercase configured = to_ascii_lowercase provider
        \<and> mode = PassThrough) (cx_provider_billing cfg))"

definition bps_denom :: nat where
  "bps_denom = 10000"

definition debit_amount :: "credits_config \<Rightarrow> nat \<Rightarrow> nat" where
  "debit_amount cfg cost =
     sat_add (sat_mul cost (sat_add bps_denom (cx_markup_bps cfg))) (bps_denom div 2) div bps_denom"

definition debit_amount_for_provider :: "credits_config \<Rightarrow> string option \<Rightarrow> nat \<Rightarrow> nat" where
  "debit_amount_for_provider cfg provider cost =
     (if (case provider of Some name \<Rightarrow> is_pass_through_provider cfg name | None \<Rightarrow> False) then cost
      else debit_amount cfg cost)"

definition undo_debit_amount :: "credits_config \<Rightarrow> nat \<Rightarrow> nat" where
  "undo_debit_amount cfg debit =
     (let scale = sat_add bps_denom (cx_markup_bps cfg) in
      if scale = 0 then debit else sat_mul debit bps_denom div scale)"

definition undo_debit_amount_for_provider :: "credits_config \<Rightarrow> string option \<Rightarrow> nat \<Rightarrow> nat" where
  "undo_debit_amount_for_provider cfg provider debit =
     (if (case provider of Some name \<Rightarrow> is_pass_through_provider cfg name | None \<Rightarrow> False) then debit
      else undo_debit_amount cfg debit)"

definition credits_active :: "credits_config \<Rightarrow> bool" where
  "credits_active cfg \<longleftrightarrow> cx_enabled cfg
     \<and> (case cx_internal_secret cfg of Some secret \<Rightarrow> trim secret \<noteq> [] | None \<Rightarrow> False)
     \<and> trim (cx_base_url cfg) \<noteq> []"

record model_price =
  mp_input :: nat
  mp_output :: nat

record control_plane =
  cp_cost_per_1k :: nat
  cp_pricing :: "(string \<times> model_price) list"

fun longest_price ::
  "string \<Rightarrow> (string \<times> model_price) list \<Rightarrow> (string \<times> model_price) option \<Rightarrow> (string \<times> model_price) option" where
  "longest_price model [] best = best"
| "longest_price model ((k, v) # rest) best =
     longest_price model rest
       (if starts_with k model \<and> (case best of None \<Rightarrow> True | Some (bk, _) \<Rightarrow> length bk < length k)
        then Some (k, v) else best)"

definition price_for_model :: "control_plane \<Rightarrow> string \<Rightarrow> model_price option" where
  "price_for_model cp model =
     (case bt_get (cp_pricing cp) model of
        Some p \<Rightarrow> Some p
      | None \<Rightarrow> map_option snd (longest_price model (cp_pricing cp) None))"

definition cost_for :: "control_plane \<Rightarrow> string \<Rightarrow> nat \<Rightarrow> nat \<Rightarrow> nat" where
  "cost_for cp model inp out =
     (case price_for_model cp model of
        Some p \<Rightarrow> sat_add (sat_mul inp (mp_input p) div 1000) (sat_mul out (mp_output p) div 1000)
      | None \<Rightarrow> sat_mul (sat_add inp out) (cp_cost_per_1k cp) div 1000)"

definition output_price_per_1k :: "control_plane \<Rightarrow> string \<Rightarrow> nat" where
  "output_price_per_1k cp model =
     (case price_for_model cp model of
        Some p \<Rightarrow> if 0 < mp_output p then mp_output p else cp_cost_per_1k cp
      | None \<Rightarrow> cp_cost_per_1k cp)"

definition request_cost :: "control_plane \<Rightarrow> nat \<Rightarrow> nat \<Rightarrow> nat" where
  "request_cost cp inp out = sat_mul (sat_add inp out) (cp_cost_per_1k cp) div 1000"

subsection \<open>The balance of a request\<close>

record request_ctx =
  rq_master :: bool
  rq_org :: "string option"
  rq_user :: "string option"
  rq_agent :: "string option"
  rq_session :: "string option"
  rq_managed :: bool
  rq_remaining :: "i64 option"
  rq_unrestricted :: "i64 option"
  rq_pools :: "(string \<times> i64) list"

definition pooled_budget :: "request_ctx \<Rightarrow> string \<Rightarrow> i64" where
  "pooled_budget ctx pool = (case bt_get (rq_pools ctx) pool of Some n \<Rightarrow> n | None \<Rightarrow> 0)"

definition credit_headroom :: "request_ctx \<Rightarrow> string option \<Rightarrow> i64 option" where
  "credit_headroom ctx pool =
     (if \<not> rq_managed ctx then None
      else
        (case rq_remaining ctx of
           None \<Rightarrow> None
         | Some whole \<Rightarrow>
             (let unrestricted = (case rq_unrestricted ctx of Some n \<Rightarrow> n | None \<Rightarrow> whole) in
              case pool of
                None \<Rightarrow> Some unrestricted
              | Some p \<Rightarrow> Some (sat_i64 (unrestricted + pooled_budget ctx p)))))"

definition preflight_credit_gate :: "request_ctx \<Rightarrow> string option \<Rightarrow> gateway_error option" where
  "preflight_credit_gate ctx pool =
     (if \<not> rq_managed ctx then None
      else
        (case rq_remaining ctx of
           None \<Rightarrow> None
         | Some whole \<Rightarrow>
             (let unrestricted = (case rq_unrestricted ctx of Some n \<Rightarrow> n | None \<Rightarrow> whole) in
              case pool of
                None \<Rightarrow> if unrestricted \<le> 0 then Some InsufficientCredits else None
              | Some p \<Rightarrow>
                  if sat_i64 (unrestricted + pooled_budget ctx p) \<le> 0 then Some InsufficientCredits else None)))"

text \<open>The gate and the reservation judge by the same figure.\<close>

lemma gate_is_headroom:
  "preflight_credit_gate ctx pool = None \<longleftrightarrow> (case credit_headroom ctx pool of Some h \<Rightarrow> 0 < h | None \<Rightarrow> True)"
  by (auto simp: preflight_credit_gate_def credit_headroom_def Let_def not_le split: option.splits)

definition accounting_unavailable_gate ::
  "credits_config \<Rightarrow> request_ctx \<Rightarrow> wallet_state \<Rightarrow> gateway_error option" where
  "accounting_unavailable_gate cfg ctx w =
     (if \<not> (rq_managed ctx \<and> credits_active cfg) then None
      else
        (case present (rq_org ctx) of
           None \<Rightarrow> None
         | Some org \<Rightarrow> if is_org_accounting_unavailable org w then Some AccountingUnavailable else None))"

definition wallet_empty_decision :: "credits_config \<Rightarrow> request_ctx \<Rightarrow> wallet_state \<Rightarrow> budget_decision option" where
  "wallet_empty_decision cfg ctx w =
     (if \<not> credits_active cfg then None
      else
        (case present (rq_org ctx) of
           None \<Rightarrow> None
         | Some org \<Rightarrow>
             if \<not> is_org_empty org w then None
             else
               (let action = (case cx_wallet_empty_action cfg of
                    WalletDowngrade \<Rightarrow>
                      (if cx_wallet_empty_downgrade_to cfg \<noteq> None then BudgetDowngrade else BudgetRestrict)
                  | WalletStop \<Rightarrow> BudgetStop) in
                Some \<lparr>bd_scope = UserScope, bd_key = ''org:'' @ org, bd_action = action, bd_used = 0, bd_limit = 0,
                  bd_downgrade_to = cx_wallet_empty_downgrade_to cfg, bd_restrict_max_tokens = 256,
                  bd_alert = cx_wallet_empty_alert cfg\<rparr>)))"

subsection \<open>The ceiling and the reservation\<close>

text \<open>\<open>Value::as_u64\<close>, and \<open>Map::insert\<close> and \<open>Map::remove\<close> on the sorted map of \<open>serde_json\<close>.\<close>

definition as_u64 :: "json \<Rightarrow> nat option" where
  "as_u64 j = (case j of JNum (JInt n) \<Rightarrow> if 0 \<le> n \<and> n \<le> int usize_max then Some (nat n) else None | _ \<Rightarrow> None)"

definition json_nat :: "nat \<Rightarrow> json" where
  "json_nat n = JNum (JInt (int n))"

definition object_insert :: "string \<Rightarrow> json \<Rightarrow> json \<Rightarrow> json" where
  "object_insert k v j = (case j of JObject kvs \<Rightarrow> JObject (bt_insert k v kvs) | _ \<Rightarrow> j)"

definition object_remove :: "string \<Rightarrow> json \<Rightarrow> json" where
  "object_remove k j = (case j of JObject kvs \<Rightarrow> JObject (without k kvs) | _ \<Rightarrow> j)"

text \<open>\<open>value[key] = v\<close>: null becomes an object, anything else that is no object panics (\<open>None\<close>).\<close>

definition index_set :: "string \<Rightarrow> json \<Rightarrow> json \<Rightarrow> json option" where
  "index_set k v j =
     (case j of JObject kvs \<Rightarrow> Some (object_insert k v j) | JNull \<Rightarrow> Some (JObject [(k, v)]) | _ \<Rightarrow> None)"

datatype output_ceiling = Clamp | Untouched

definition affordable_output_tokens :: "credits_config \<Rightarrow> control_plane \<Rightarrow> i64 \<Rightarrow> string \<Rightarrow> nat" where
  "affordable_output_tokens cfg cp spendable model =
     (let per_1k = output_price_per_1k cp model in
      if per_1k = 0 then usize_max
      else sat_mul (undo_debit_amount cfg (nat (max spendable 0))) 1000 div per_1k)"

definition body_model :: "json \<Rightarrow> string" where
  "body_model body = (case Option.bind (jget body ''model'') as_str of Some m \<Rightarrow> m | None \<Rightarrow> [])"

definition ceiling_key :: "json \<Rightarrow> string" where
  "ceiling_key body = (if jget body ''max_completion_tokens'' \<noteq> None then ''max_completion_tokens'' else ''max_tokens'')"

definition stated_ceiling :: "json \<Rightarrow> nat" where
  "stated_ceiling body = (case Option.bind (jget body (ceiling_key body)) as_u64 of Some n \<Rightarrow> n | None \<Rightarrow> 0)"

definition clamp_output_ceiling ::
  "credits_config \<Rightarrow> control_plane \<Rightarrow> request_ctx \<Rightarrow> wallet_state \<Rightarrow> string option \<Rightarrow> output_ceiling \<Rightarrow> json
   \<Rightarrow> nat option \<times> json" where
  "clamp_output_ceiling cfg cp ctx w pool ceiling body =
     (if ceiling \<noteq> Clamp \<or> \<not> cx_reserve_enabled cfg then (None, body)
      else
        (case present (rq_org ctx) of
           None \<Rightarrow> (None, body)
         | Some org \<Rightarrow>
             (case credit_headroom ctx pool of
                None \<Rightarrow> (None, body)
              | Some headroom \<Rightarrow>
                  (let spendable = sat_i64 (headroom - in_flight_of org w);
                       affordable = affordable_output_tokens cfg cp spendable (body_model body);
                       requested = stated_ceiling body;
                       effective = (if requested = 0 then affordable else min requested affordable) in
                   if affordable = usize_max \<or> effective = requested then (None, body)
                   else (Some effective, object_insert (ceiling_key body) (json_nat effective) body)))))"

definition reservation_estimate :: "credits_config \<Rightarrow> control_plane \<Rightarrow> json \<Rightarrow> i64" where
  "reservation_estimate cfg cp body =
     (let stated = (case jget body ''max_tokens'' of Some v \<Rightarrow> Some v | None \<Rightarrow> jget body ''max_completion_tokens'');
          max_tokens = (case Option.bind stated as_u64 of Some n \<Rightarrow> n | None \<Rightarrow> 0);
          estimate = debit_amount cfg (request_cost cp 0 max_tokens)
      in min (int (max estimate (cx_min_reserve cfg))) max_i64)"

definition maybe_reserve_credit ::
  "credits_config \<Rightarrow> control_plane \<Rightarrow> request_ctx \<Rightarrow> json \<Rightarrow> string option \<Rightarrow> wallet_state
   \<Rightarrow> (gateway_error + credit_reservation option) \<times> wallet_state" where
  "maybe_reserve_credit cfg cp ctx body pool w =
     (if \<not> cx_reserve_enabled cfg then (Inr None, w)
      else
        (case present (rq_org ctx) of
           None \<Rightarrow> (Inr None, w)
         | Some org \<Rightarrow>
             (case credit_headroom ctx pool of
                None \<Rightarrow> (Inr None, w)
              | Some headroom \<Rightarrow>
                  (case try_reserve org (reservation_estimate cfg cp body) headroom w of
                     (Some r, w') \<Rightarrow> (Inr (Some r), w')
                   | (None, w') \<Rightarrow> (Inl InsufficientCredits, w')))))"

subsection \<open>What the ceiling is worth\<close>

lemma sat_mul_le: "sat_mul a b \<le> a * b" "sat_mul a b \<le> usize_max"
  by (simp_all add: sat_mul_def)

lemma sat_mul_mono: "a \<le> c \<Longrightarrow> sat_mul a b \<le> sat_mul c b"
  unfolding sat_mul_def by (intro min.mono mult_le_mono1) simp_all

lemma sat_add_mono: "a \<le> c \<Longrightarrow> sat_add a b \<le> sat_add c b"
  by (auto simp: sat_add_def)

lemma debit_amount_mono: "a \<le> b \<Longrightarrow> debit_amount cfg a \<le> debit_amount cfg b"
  unfolding debit_amount_def by (intro div_le_mono sat_add_mono sat_mul_mono)

text \<open>Without a markup both conversions do nothing, short of the largest amounts.\<close>

lemma debit_amount_at_cost: "cx_markup_bps cfg = 0 \<Longrightarrow> n * 10000 + 5000 \<le> usize_max \<Longrightarrow> debit_amount cfg n = n"
  by (simp add: debit_amount_def bps_denom_def sat_add_def sat_mul_def)

text \<open>\<open>undo_debit_amount\<close> rounds to the safe side: what it returns is charged at most what it was given.\<close>

lemma debit_undo: "debit_amount cfg (undo_debit_amount cfg d) \<le> d"
proof -
  let ?scale = "sat_add bps_denom (cx_markup_bps cfg)"
  let ?raw = "sat_mul d bps_denom div ?scale"
  have pos: "0 < ?scale" by (simp add: sat_add_def bps_denom_def)
  have below: "?raw * ?scale \<le> sat_mul d bps_denom" by simp
  then have "sat_mul ?raw ?scale \<le> d * bps_denom"
    using sat_mul_le(1) [of ?raw ?scale] sat_mul_le(1) [of d bps_denom] by linarith
  then have "sat_add (sat_mul ?raw ?scale) (bps_denom div 2) \<le> d * bps_denom + bps_denom div 2"
    by (simp add: sat_add_def)
  then have "debit_amount cfg ?raw \<le> (d * bps_denom + bps_denom div 2) div bps_denom"
    unfolding debit_amount_def by (rule div_le_mono)
  also have "\<dots> = d" by (simp add: bps_denom_def)
  finally show ?thesis using pos by (simp add: undo_debit_amount_def Let_def)
qed

lemma tokens_within:
  assumes "t \<le> affordable_output_tokens cfg cp n model" and "output_price_per_1k cp model \<noteq> 0"
    and "price \<le> output_price_per_1k cp model"
  shows "debit_amount cfg (sat_mul t price div 1000) \<le> nat (max n 0)"
proof -
  let ?raw = "undo_debit_amount cfg (nat (max n 0))" and ?p = "output_price_per_1k cp model"
  have "t * ?p \<le> sat_mul ?raw 1000 div ?p * ?p"
    using assms(1,2) by (intro mult_le_mono1) (simp add: affordable_output_tokens_def Let_def)
  also have "\<dots> \<le> sat_mul ?raw 1000" by simp
  also have "\<dots> \<le> ?raw * 1000" by (rule sat_mul_le)
  finally have "t * price \<le> ?raw * 1000" using mult_le_mono2 [OF assms(3), of t] by linarith
  then have "sat_mul t price \<le> ?raw * 1000" using sat_mul_le(1) [of t price] by linarith
  then have "sat_mul t price div 1000 \<le> ?raw" by linarith
  then have "debit_amount cfg (sat_mul t price div 1000) \<le> debit_amount cfg ?raw" by (rule debit_amount_mono)
  also have "\<dots> \<le> nat (max n 0)" by (rule debit_undo)
  finally show ?thesis .
qed

lemma affordable_fits: "affordable_output_tokens cfg cp n model \<le> usize_max"
  using sat_mul_le(2) [of "undo_debit_amount cfg (nat (max n 0))" 1000]
    div_le_dividend [of "sat_mul (undo_debit_amount cfg (nat (max n 0))) 1000" "output_price_per_1k cp model"]
  by (simp add: affordable_output_tokens_def Let_def del: div_le_dividend)

lemma as_u64_nat [simp]: "n \<le> usize_max \<Longrightarrow> as_u64 (json_nat n) = Some n"
  by (simp add: as_u64_def json_nat_def)

lemma jget_object_insert:
  "jget (object_insert k v (JObject kvs)) j = (if j = k then Some v else jget (JObject kvs) j)"
  using bt_get_insert [of k v kvs j] by (simp add: object_insert_def bt_get_def)

lemma stated_after_insert:
  "n \<le> usize_max \<Longrightarrow> stated_ceiling (object_insert (ceiling_key (JObject kvs)) (json_nat n) (JObject kvs)) = n"
  unfolding stated_ceiling_def by (simp add: jget_object_insert ceiling_key_def del: jget_JObject)

text \<open>The request that leaves the clamp states a ceiling, and it is one that the balance can pay for.\<close>

lemma clamped_ceiling:
  fixes cfg cp ctx w pool kvs
  defines "body' \<equiv> snd (clamp_output_ceiling cfg cp ctx w pool Clamp (JObject kvs))"
  assumes "cx_reserve_enabled cfg" and "present (rq_org ctx) = Some org"
    and "credit_headroom ctx pool = Some headroom"
    and "affordable = affordable_output_tokens cfg cp (sat_i64 (headroom - in_flight_of org w)) (body_model (JObject kvs))"
    and "affordable \<noteq> usize_max" and "0 < affordable"
  shows "0 < stated_ceiling body' \<and> stated_ceiling body' \<le> affordable"
proof -
  let ?requested = "stated_ceiling (JObject kvs)"
  define effective where "effective = (if ?requested = 0 then affordable else min ?requested affordable)"
  have fits: "effective \<le> usize_max" using affordable_fits assms(5) by (simp add: effective_def min.coboundedI2)
  have "body' = (if effective = ?requested then JObject kvs
      else object_insert (ceiling_key (JObject kvs)) (json_nat effective) (JObject kvs))"
    using assms(2-6) unfolding body'_def clamp_output_ceiling_def effective_def Let_def by auto
  then have "stated_ceiling body' = effective" using stated_after_insert [OF fits, of kvs] by simp
  then show ?thesis using assms(7) by (simp add: effective_def)
qed

text \<open>A body states its ceiling under one key, or not at all.\<close>

definition one_ceiling :: "json \<Rightarrow> bool" where
  "one_ceiling body \<longleftrightarrow> jget body ''max_tokens'' = None \<or> jget body ''max_completion_tokens'' = None"

lemma estimate_is_ceiling:
  "one_ceiling body \<Longrightarrow> reservation_estimate cfg cp body
     = min (int (max (debit_amount cfg (request_cost cp 0 (stated_ceiling body))) (cx_min_reserve cfg))) max_i64"
  unfolding reservation_estimate_def stated_ceiling_def ceiling_key_def one_ceiling_def Let_def
  by (cases "jget body ''max_tokens''"; cases "jget body ''max_completion_tokens''") simp_all

lemma one_ceiling_insert:
  "one_ceiling (JObject kvs) \<Longrightarrow> one_ceiling (object_insert (ceiling_key (JObject kvs)) v (JObject kvs))"
  unfolding one_ceiling_def jget_object_insert by (auto simp: ceiling_key_def)

lemma one_ceiling_clamped:
  "one_ceiling (JObject kvs) \<Longrightarrow> one_ceiling (snd (clamp_output_ceiling cfg cp ctx w pool c (JObject kvs)))"
  by (simp add: clamp_output_ceiling_def Let_def one_ceiling_insert split: option.splits)

text \<open>
  The request that the clamp sized is not turned away by the reservation, as long as the table does
  not price its model below the flat rate that the reservation uses.
\<close>

lemma clamped_reserves:
  fixes cfg cp ctx w pool kvs
  defines "body' \<equiv> snd (clamp_output_ceiling cfg cp ctx w pool Clamp (JObject kvs))"
  assumes "cx_reserve_enabled cfg" and "present (rq_org ctx) = Some org"
    and "credit_headroom ctx pool = Some headroom" and "is_i64 headroom" and "0 \<le> in_flight_of org w"
    and "one_ceiling (JObject kvs)"
    and "affordable_output_tokens cfg cp (sat_i64 (headroom - in_flight_of org w)) (body_model (JObject kvs))
      \<notin> {0, usize_max}"
    and "cp_cost_per_1k cp \<le> output_price_per_1k cp (body_model (JObject kvs))"
    and "0 < headroom - in_flight_of org w" and "int (cx_min_reserve cfg) \<le> headroom - in_flight_of org w"
  shows "\<exists>r w'. maybe_reserve_credit cfg cp ctx body' pool w = (Inr (Some r), w')"
proof -
  let ?model = "body_model (JObject kvs)" and ?entry = "in_flight_of org w"
  define spendable where "spendable = sat_i64 (headroom - ?entry)"
  have spendable: "spendable = headroom - ?entry"
    using assms(5,6,10) by (auto simp: spendable_def is_i64_def intro!: sat_i64_id)
  have ceiling: "stated_ceiling body' \<le> affordable_output_tokens cfg cp spendable ?model"
    using clamped_ceiling [OF assms(2-4) refl, where cp = cp and kvs = kvs and w = w] assms(8) by (simp add: body'_def spendable_def)
  then have "stated_ceiling body' \<le> usize_max" using affordable_fits [of cfg cp spendable ?model] by linarith
  then have "request_cost cp 0 (stated_ceiling body') = sat_mul (stated_ceiling body') (cp_cost_per_1k cp) div 1000"
    by (simp add: request_cost_def sat_add_def)
  moreover have "output_price_per_1k cp ?model \<noteq> 0" using assms(8) by (simp add: affordable_output_tokens_def Let_def split: if_splits)
  ultimately have "debit_amount cfg (request_cost cp 0 (stated_ceiling body')) \<le> nat (max spendable 0)"
    using tokens_within [OF ceiling _ assms(9)] by simp
  then have "int (max (debit_amount cfg (request_cost cp 0 (stated_ceiling body'))) (cx_min_reserve cfg)) \<le> spendable"
    using assms(10,11) spendable by simp
  then have estimate: "reservation_estimate cfg cp body' \<le> spendable"
    using estimate_is_ceiling [of body' cfg cp] one_ceiling_clamped [OF assms(7), of cfg cp ctx w pool Clamp]
    by (simp add: body'_def)
  then have "?entry + max (reservation_estimate cfg cp body') 0 \<le> headroom" using assms(10) spendable by simp
  moreover have "sat_i64 n \<le> n" if "0 \<le> n" for n using that by (simp add: sat_i64_def max_i64_def)
  ultimately have "sat_i64 (?entry + max (reservation_estimate cfg cp body') 0) \<le> headroom"
    using assms(6) by (meson add_nonneg_nonneg max.cobounded2 order_trans)
  then show ?thesis
    using assms(2-4) by (simp add: maybe_reserve_credit_def try_reserve_def Let_def)
qed

text \<open>What that ceiling costs at the price of the model.\<close>

lemma clamped_costs:
  fixes cfg cp ctx w pool kvs
  defines "body' \<equiv> snd (clamp_output_ceiling cfg cp ctx w pool Clamp (JObject kvs))"
  assumes "cx_reserve_enabled cfg" and "present (rq_org ctx) = Some org"
    and "credit_headroom ctx pool = Some headroom" and "is_i64 headroom" and "0 \<le> in_flight_of org w"
    and "affordable_output_tokens cfg cp (sat_i64 (headroom - in_flight_of org w)) (body_model (JObject kvs))
      \<notin> {0, usize_max}"
    and "0 < headroom - in_flight_of org w"
  shows "0 < stated_ceiling body' \<and> int (debit_amount cfg (sat_mul (stated_ceiling body')
    (output_price_per_1k cp (body_model (JObject kvs))) div 1000)) \<le> headroom - in_flight_of org w"
proof -
  have spendable: "sat_i64 (headroom - in_flight_of org w) = headroom - in_flight_of org w"
    using assms(5,6,8) by (auto simp: is_i64_def intro!: sat_i64_id)
  have ceiling: "0 < stated_ceiling body' \<and> stated_ceiling body'
      \<le> affordable_output_tokens cfg cp (sat_i64 (headroom - in_flight_of org w)) (body_model (JObject kvs))"
    using clamped_ceiling [OF assms(2-4) refl, where cp = cp and kvs = kvs and w = w] assms(7)
    by (simp add: body'_def)
  moreover have "output_price_per_1k cp (body_model (JObject kvs)) \<noteq> 0"
    using assms(7) by (simp add: affordable_output_tokens_def Let_def split: if_splits)
  ultimately have "debit_amount cfg (sat_mul (stated_ceiling body') (output_price_per_1k cp (body_model (JObject kvs))) div 1000)
      \<le> nat (max (sat_i64 (headroom - in_flight_of org w)) 0)"
    using tokens_within [OF _ _ order_refl] by blast
  then show ?thesis using ceiling assms(8) spendable by simp
qed

text \<open>
  Where the clamp says nothing: reservations are switched off, no organization is named, its balance has
  no bound, or the balance buys tokens without bound because output costs nothing.  Then the body stays as
  it is, and in all but the last of these cases nothing is reserved either.
\<close>

lemma clamp_spares:
  assumes "\<not> cx_reserve_enabled cfg \<or> present (rq_org ctx) = None \<or> credit_headroom ctx pool = None"
  shows "clamp_output_ceiling cfg cp ctx w pool ceiling body = (None, body)"
    and "maybe_reserve_credit cfg cp ctx body pool w = (Inr None, w)"
  using assms by (auto simp: clamp_output_ceiling_def maybe_reserve_credit_def split: option.splits)

lemma clamp_unmetered:
  assumes "present (rq_org ctx) = Some org" and "credit_headroom ctx pool = Some headroom"
    and "affordable_output_tokens cfg cp (sat_i64 (headroom - in_flight_of org w)) (body_model body) = usize_max"
  shows "clamp_output_ceiling cfg cp ctx w pool ceiling body = (None, body)"
  using assms by (simp add: clamp_output_ceiling_def Let_def)

lemma spendable_in_range:
  "is_i64 headroom \<Longrightarrow> 0 \<le> in_flight_of org w \<Longrightarrow> 0 < headroom - in_flight_of org w \<Longrightarrow>
     sat_i64 (headroom - in_flight_of org w) = headroom - in_flight_of org w"
  by (auto simp: is_i64_def intro!: sat_i64_id)

text \<open>A balance that buys no token leaves no ceiling above zero, and one of zero only where one was stated.\<close>

lemma clamp_nothing_affordable:
  assumes "cx_reserve_enabled cfg" and "present (rq_org ctx) = Some org"
    and "credit_headroom ctx pool = Some headroom"
    and "affordable_output_tokens cfg cp (sat_i64 (headroom - in_flight_of org w)) (body_model (JObject kvs)) = 0"
  shows "stated_ceiling (snd (clamp_output_ceiling cfg cp ctx w pool Clamp (JObject kvs))) = 0"
proof -
  have "stated_ceiling (object_insert (ceiling_key (JObject kvs)) (json_nat 0) (JObject kvs)) = 0"
    by (rule stated_after_insert) simp
  then show ?thesis
    using assms by (simp add: clamp_output_ceiling_def Let_def)
qed

end
