(* ===== verification/Gateway_Enforce.thy ===== *)
theory Gateway_Enforce
  imports Gateway_Credit
begin

section \<open>Budgets applied to a request\<close>

text \<open>
  \<open>enforce_budget\<close> of \<open>apps/gateway/src/pipeline/mod.rs\<close> with the alerts of \<open>policy_alert.rs\<close>: the gates
  on the balance, the reservation, the budgets, and what the most severe decision does to the request.
  A panic of the code (an index into a body that is no object) is \<open>None\<close>.
\<close>

subsection \<open>Alerts\<close>

fun enforcement_label :: "budget_action \<Rightarrow> string" where
  "enforcement_label BudgetNotify = ''notify''"
| "enforcement_label BudgetDowngrade = ''downgrade''"
| "enforcement_label BudgetRestrict = ''restrict''"
| "enforcement_label BudgetStop = ''stop''"

fun scope_label :: "budget_scope \<Rightarrow> string" where
  "scope_label UserScope = ''user''"
| "scope_label AgentScope = ''agent''"
| "scope_label SessionScope = ''session''"

definition to_le_bytes :: "u64 \<Rightarrow> string" where
  "to_le_bytes n = map (\<lambda>i. char_of (unat (drop_bit (8 * i) n) mod 256)) [0..<8]"

text \<open>\<open>digest\<close> is SHA-256, in hexadecimal.\<close>

definition dedupe_key :: "(string \<Rightarrow> string) \<Rightarrow> string \<Rightarrow> string \<Rightarrow> string \<Rightarrow> u64 \<Rightarrow> string" where
  "dedupe_key digest source scope subject limit =
     digest (source @ [CHR 0x00] @ scope @ [CHR 0x00] @ subject @ [CHR 0x00] @ to_le_bytes limit)"

definition new_alert ::
  "(string \<Rightarrow> string) \<Rightarrow> string \<Rightarrow> string \<Rightarrow> alert_tier \<Rightarrow> string \<Rightarrow> string \<Rightarrow> u64 \<Rightarrow> u64 \<Rightarrow> string \<Rightarrow> policy_alert" where
  "new_alert digest source enforcement tier scope subject used limit org =
     \<lparr>pa_source = source, pa_enforcement = enforcement, pa_alert_tier = tier, pa_scope = scope,
      pa_subject_key = subject, pa_used = used, pa_limit = limit,
      pa_dedupe_key = dedupe_key digest source scope subject limit, pa_org_id = org\<rparr>"

definition from_budget_decision ::
  "(string \<Rightarrow> string) \<Rightarrow> budget_decision \<Rightarrow> alert_tier \<Rightarrow> string \<Rightarrow> policy_alert" where
  "from_budget_decision digest d tier org =
     (let enforcement = enforcement_label (bd_action d) in
      if bd_limit d = 0 then new_alert digest ''wallet_empty'' enforcement tier ''user'' (bd_key d) 0 0 org
      else
        (case bd_scope d of
           SessionScope \<Rightarrow>
             new_alert digest ''session_budget'' enforcement tier ''session'' (bd_key d) (bd_used d) (bd_limit d) org
         | scope \<Rightarrow>
             new_alert digest ''budget'' enforcement tier (scope_label scope) (bd_key d) (bd_used d) (bd_limit d) org))"

definition merge_alert :: "policy_alert option \<Rightarrow> policy_alert option \<Rightarrow> policy_alert option" where
  "merge_alert a b =
     (case (a, b) of
        (Some x, Some y) \<Rightarrow> if pa_alert_tier x < pa_alert_tier y then Some y else Some x
      | (Some x, None) \<Rightarrow> Some x
      | (None, _) \<Rightarrow> b)"

text \<open>The local \<open>rank\<close> of \<open>most_severe\<close> is \<open>severity\<close> of the budget crate.\<close>

definition most_severe :: "budget_decision option \<Rightarrow> budget_decision option \<Rightarrow> budget_decision option" where
  "most_severe a b =
     (case (a, b) of
        (Some x, Some y) \<Rightarrow> if budget_severity (bd_action x) < budget_severity (bd_action y) then Some y else Some x
      | (Some x, None) \<Rightarrow> Some x
      | (None, _) \<Rightarrow> b)"

subsection \<open>The enforcement\<close>

record spend_env =
  se_credits :: credits_config
  se_control :: control_plane
  se_budgets :: budget_enforcer
  se_tables :: routing_tables
  se_digest :: "string \<Rightarrow> string"

record budget_outcome =
  bo_decision :: "budget_decision option"
  bo_alert :: "policy_alert option"
  bo_reservation :: "credit_reservation option"

text \<open>The three decisions of a request, in the order in which ties are resolved.\<close>

definition budget_decisions :: "spend_env \<Rightarrow> request_ctx \<Rightarrow> charge_kind \<Rightarrow> wallet_state \<Rightarrow> budget_decision option list" where
  "budget_decisions env ctx kind w =
     [evaluate_charge (se_budgets env) (rq_user ctx) (rq_agent ctx) kind,
      wallet_empty_decision (se_credits env) ctx w,
      evaluate_session_charge (se_budgets env) (rq_session ctx) kind]"

definition max_tier :: "budget_decision option list \<Rightarrow> alert_tier" where
  "max_tier ds = fold (\<lambda>d tier. case d of Some x \<Rightarrow> max tier (bd_alert x) | None \<Rightarrow> tier) ds Silent"

definition budget_alert :: "spend_env \<Rightarrow> request_ctx \<Rightarrow> budget_decision \<Rightarrow> alert_tier \<Rightarrow> policy_alert option" where
  "budget_alert env ctx d tier =
     (if Warn \<le> tier
      then Some (from_budget_decision (se_digest env) d tier (case rq_org ctx of Some org \<Rightarrow> org | None \<Rightarrow> []))
      else None)"

text \<open>
  What the decision does to the body and the route; a refused request gives its reservation back when
  the function returns.
\<close>

definition apply_decision ::
  "routing_tables \<Rightarrow> budget_decision \<Rightarrow> json \<Rightarrow> string \<times> string \<Rightarrow> (json \<times> (string \<times> string)) option" where
  "apply_decision tables d body decision =
     (case bd_action d of
        BudgetDowngrade \<Rightarrow>
          (case bd_downgrade_to d of
             Some model \<Rightarrow> map_option (\<lambda>b. (b, route tables model)) (index_set ''model'' (JString model) body)
           | None \<Rightarrow> Some (body, decision))
      | BudgetRestrict \<Rightarrow>
          map_option (\<lambda>b. (b, decision))
            (index_set ''max_tokens'' (json_nat (unat (bd_restrict_max_tokens d)))
              (object_remove ''tool_choice'' (object_remove ''tools'' body)))
      | _ \<Rightarrow> Some (body, decision))"

definition enforce_budget ::
  "spend_env \<Rightarrow> request_ctx \<Rightarrow> charge_kind \<Rightarrow> output_ceiling \<Rightarrow> (wallet_state \<Rightarrow> wallet_state) \<Rightarrow> json \<Rightarrow> string \<times> string
   \<Rightarrow> wallet_state \<Rightarrow> ((gateway_error + budget_outcome) \<times> json \<times> (string \<times> string) \<times> wallet_state) option" where
  "enforce_budget env ctx kind ceiling meanwhile body decision w =
     (if rq_master ctx then Some (Inr \<lparr>bo_decision = None, bo_alert = None, bo_reservation = None\<rparr>, body, decision, w)
      else
        (case accounting_unavailable_gate (se_credits env) ctx w of
           Some e \<Rightarrow> Some (Inl e, body, decision, w)
         | None \<Rightarrow>
             (let pool = pool_for_gateway_provider (fst decision) in
              case preflight_credit_gate ctx pool of
                Some e \<Rightarrow> Some (Inl e, body, decision, w)
              | None \<Rightarrow>
                  (let body1 = snd (clamp_output_ceiling (se_credits env) (se_control env) ctx w pool ceiling body) in
                   case maybe_reserve_credit (se_credits env) (se_control env) ctx body1 pool (meanwhile w) of
                     (Inl e, w2) \<Rightarrow> Some (Inl e, body1, decision, w2)
                   | (Inr reservation, w2) \<Rightarrow>
                       (let ds = budget_decisions env ctx kind w2 in
                        case most_severe (most_severe (ds ! 0) (ds ! 1)) (ds ! 2) of
                          None \<Rightarrow>
                            Some (Inr \<lparr>bo_decision = None, bo_alert = None, bo_reservation = reservation\<rparr>,
                              body1, decision, w2)
                        | Some d \<Rightarrow>
                            (let alert = budget_alert env ctx d (max_tier ds) in
                             if bd_action d = BudgetStop
                             then Some (Inl (BudgetExceeded alert), body1, decision,
                               (case reservation of Some r \<Rightarrow> drop_reservation id r w2 | None \<Rightarrow> w2))
                             else
                               (case apply_decision (se_tables env) d body1 decision of
                                  None \<Rightarrow> None
                                | Some (body2, decision2) \<Rightarrow>
                                    Some (Inr \<lparr>bo_decision = Some d, bo_alert = alert, bo_reservation = reservation\<rparr>,
                                      body2, decision2, w2))))))))"

subsection \<open>What a request that is let through has behind it\<close>

lemma most_severe_stops:
  "a = Some x \<and> bd_action x = BudgetStop \<or> b = Some x \<and> bd_action x = BudgetStop \<Longrightarrow>
     \<exists>d. most_severe a b = Some d \<and> bd_action d = BudgetStop"
  by (cases a; cases b) (auto simp: most_severe_def severity_order not_le [symmetric] split: if_splits)

lemma most_severe_None: "most_severe a b = None \<longleftrightarrow> a = None \<and> b = None"
  by (auto simp: most_severe_def split: option.splits)

lemma most_severe_from: "most_severe a b = Some d \<Longrightarrow> a = Some d \<or> b = Some d"
  by (auto simp: most_severe_def split: option.splits if_splits)

definition verdict :: "budget_decision option list \<Rightarrow> budget_decision option" where
  "verdict ds = most_severe (most_severe (ds ! 0) (ds ! 1)) (ds ! 2)"

lemma verdict_stops:
  assumes "Some x \<in> set (budget_decisions env ctx kind w)" and "bd_action x = BudgetStop"
  shows "\<exists>d. verdict (budget_decisions env ctx kind w) = Some d \<and> bd_action d = BudgetStop"
  using assms most_severe_stops unfolding verdict_def budget_decisions_def
  by (simp del: not_Some_eq) (metis most_severe_stops)

text \<open>The reservation of an organization that has a headroom is within it.\<close>

lemma reserved_fits:
  assumes "maybe_reserve_credit cfg cp ctx body pool w = (Inr reservation, w')"
    and "cx_reserve_enabled cfg" and "present (rq_org ctx) = Some org" and "credit_headroom ctx pool = Some h"
  shows "\<exists>r. reservation = Some r \<and> cr_org r = org \<and> cr_amount r = max (reservation_estimate cfg cp body) 0
    \<and> (0 < cr_amount r \<longrightarrow> in_flight_of org w' \<le> h)"
  using assms in_flight_try_reserve [of org org "reservation_estimate cfg cp body" h w]
  by (auto simp: maybe_reserve_credit_def try_reserve_def Let_def split: if_splits)

lemma nothing_reserved:
  assumes "maybe_reserve_credit cfg cp ctx body pool w = (Inr reservation, w')"
    and "\<not> cx_reserve_enabled cfg \<or> present (rq_org ctx) = None \<or> credit_headroom ctx pool = None"
  shows "reservation = None"
  using assms by (auto simp: maybe_reserve_credit_def split: option.splits if_splits prod.splits)

lemma admitted_is_funded:
  assumes "enforce_budget env ctx kind ceiling meanwhile body decision w = Some (Inr out, body', decision', w')"
    and "\<not> rq_master ctx"
  defines "pool \<equiv> pool_for_gateway_provider (fst decision)"
  shows "\<forall>d. Some d \<in> set (budget_decisions env ctx kind w') \<longrightarrow> bd_action d \<noteq> BudgetStop"
    and "accounting_unavailable_gate (se_credits env) ctx w = None"
    and "credit_headroom ctx pool = Some h \<Longrightarrow> 0 < h"
    and "cx_reserve_enabled (se_credits env) \<Longrightarrow> present (rq_org ctx) = Some org \<Longrightarrow> credit_headroom ctx pool = Some h \<Longrightarrow>
      \<exists>r. bo_reservation out = Some r \<and> cr_org r = org \<and> (0 < cr_amount r \<longrightarrow> in_flight_of org w' \<le> h)"
    and "\<not> cx_reserve_enabled (se_credits env) \<or> present (rq_org ctx) = None \<or> credit_headroom ctx pool = None \<Longrightarrow>
      bo_reservation out = None"
proof -
  let ?body = "snd (clamp_output_ceiling (se_credits env) (se_control env) ctx w pool ceiling body)"
  have gate: "preflight_credit_gate ctx pool = None"
    and open_accounts: "accounting_unavailable_gate (se_credits env) ctx w = None"
    using assms(1,2) unfolding pool_def by (auto simp: enforce_budget_def Let_def split: option.splits)
  obtain reservation where
    reserve: "maybe_reserve_credit (se_credits env) (se_control env) ctx ?body pool (meanwhile w) = (Inr reservation, w')"
    and out: "bo_reservation out = reservation"
    and no_stop: "\<forall>d. verdict (budget_decisions env ctx kind w') = Some d \<longrightarrow> bd_action d \<noteq> BudgetStop"
    using assms(1,2) gate open_accounts unfolding pool_def
    by (auto simp: enforce_budget_def verdict_def Let_def split: option.splits sum.splits prod.splits if_splits)
  show "\<forall>d. Some d \<in> set (budget_decisions env ctx kind w') \<longrightarrow> bd_action d \<noteq> BudgetStop"
    using verdict_stops no_stop by blast
  show "accounting_unavailable_gate (se_credits env) ctx w = None" by (rule open_accounts)
  show "0 < h" if "credit_headroom ctx pool = Some h" using gate that by (simp add: gate_is_headroom)
  show "\<exists>r. bo_reservation out = Some r \<and> cr_org r = org \<and> (0 < cr_amount r \<longrightarrow> in_flight_of org w' \<le> h)"
    if "cx_reserve_enabled (se_credits env)" "present (rq_org ctx) = Some org" "credit_headroom ctx pool = Some h"
    using reserved_fits [OF reserve that] out by blast
  show "bo_reservation out = None"
    if "\<not> cx_reserve_enabled (se_credits env) \<or> present (rq_org ctx) = None \<or> credit_headroom ctx pool = None"
    using nothing_reserved [OF reserve that] out by simp
qed

end
