(* ===== verification/Gateway_SpendTrial.thy ===== *)
theory Gateway_SpendTrial
  imports Gateway_Enforce "HOL-Library.Code_Target_Nat"
begin

section \<open>A tenant with a dollar\<close>

text \<open>
  The concrete inputs of the witnesses about money, and the requests that show where the checks of
  the pipeline do not fit together.
\<close>

subsection \<open>Charges\<close>

definition all_charges :: charge_inclusion where
  "all_charges = \<lparr>bi_model = True, bi_media = True, bi_tools = True\<rparr>"

definition spend_rule :: "u64 \<Rightarrow> budget_action \<Rightarrow> string option \<Rightarrow> budget_rule" where
  "spend_rule limit action downgrade =
     \<lparr>br_limit = limit, br_action = action, br_downgrade_to = downgrade, br_restrict_max_tokens = 256,
      br_alert = Warn, br_include = all_charges\<rparr>"

definition spend_budgets :: budget_config where
  "spend_budgets =
     \<lparr>bc_users = [(''ann'', spend_rule 100 BudgetRestrict None)], bc_agents = [(''coder'', spend_rule 250 BudgetStop None)],
      bc_session = default_session_budget\<rparr>"

definition spend_charge :: "u64 \<Rightarrow> charge_event" where
  "spend_charge cost =
     \<lparr>ce_user = Some ''ann'', ce_agent = Some ''coder'', ce_session = Some ''s1'', ce_kind = ChargeModel, ce_cost = cost\<rparr>"

definition spend_history :: "charge_event list" where
  "spend_history = [spend_charge 120, spend_charge 140]"

lemma spend_history_small: "spent (\<lambda>_. True) spend_history < 2 ^ 64"
  by (simp add: spent_def spend_history_def spend_charge_def)

lemma spend_used_up:
  "map_option rule_action (used_up (bc_users spend_budgets) ce_user spend_history ChargeModel (Some ''ann'')) = Some BudgetRestrict"
  "map_option rule_action (used_up (bc_agents spend_budgets) ce_agent spend_history ChargeModel (Some ''coder'')) = Some BudgetStop"
  by code_simp+

subsection \<open>Requests of the tenant\<close>

definition spend_rates :: sandbox_rates where
  "spend_rates =
     \<lparr>sr_vcpu = 14000, sr_mem_gib = 4500, sr_storage_gib = 30, sr_gpu_h200 = 1261000, sr_gpu_h100 = 1097000,
      sr_gpu_rtx_pro_6000 = 842000, sr_gpu_rtx_5090 = 358000, sr_gpu_rtx_4090 = 275000, sr_windows_vcpu = 23800,
      sr_free_storage_gib = 5, sr_markup_bps = 3000\<rparr>"

definition spend_credits :: credits_config where
  "spend_credits =
     \<lparr>cx_enabled = True, cx_base_url = ''http://control'', cx_internal_secret = Some ''secret'', cx_markup_bps = 500,
      cx_provider_billing = [], cx_cost_per_tool_call = 300, cx_cost_per_image = 1950, cx_cost_per_video = 58500,
      cx_cost_per_tts = 975, cx_cost_per_stt = 975, cx_wallet_empty_action = WalletStop,
      cx_wallet_empty_downgrade_to = None, cx_wallet_empty_alert = Silent, cx_reserve_enabled = True,
      cx_min_reserve = 10000, cx_fail_closed = True, cx_sandbox = spend_rates\<rparr>"

definition spend_prices :: control_plane where
  "spend_prices =
     \<lparr>cp_cost_per_1k = 2000,
      cp_pricing = [(''claude-'', \<lparr>mp_input = 3000, mp_output = 15000\<rparr>), (''small-'', \<lparr>mp_input = 10, mp_output = 40\<rparr>)]\<rparr>"

definition spend_ctx :: request_ctx where
  "spend_ctx =
     \<lparr>rq_master = False, rq_org = Some ''acme'', rq_user = Some ''ann'', rq_agent = None, rq_session = None,
      rq_managed = True, rq_remaining = Some 1000000, rq_unrestricted = None, rq_pools = []\<rparr>"

definition spend_tables :: routing_tables where
  "spend_tables =
     \<lparr>rt_model_map = [], rt_builtin_prefixes = builtin_prefixes, rt_default_provider = ''openrouter'',
      rt_modality_map = [], rt_fallback_chain = [], rt_provider_tiers = []\<rparr>"

definition spend_environment :: "budget_config \<Rightarrow> charge_event list \<Rightarrow> spend_env" where
  "spend_environment budgets es =
     \<lparr>se_credits = spend_credits, se_control = spend_prices, se_budgets = charged budgets es,
      se_tables = spend_tables, se_digest = id\<rparr>"

definition no_budgets :: budget_config where
  "no_budgets = \<lparr>bc_users = [], bc_agents = [], bc_session = default_session_budget\<rparr>"

definition ask_for :: "string \<Rightarrow> (string \<times> json) list \<Rightarrow> json" where
  "ask_for model limits = JObject (limits @ [(''model'', JString model)])"

text \<open>A request that states no ceiling gets one that the dollar pays for, markup included, and is let through.\<close>

definition spend_outcome :: "((gateway_error + budget_outcome) \<times> json \<times> (string \<times> string) \<times> wallet_state) option" where
  "spend_outcome = enforce_budget (spend_environment no_budgets []) spend_ctx ChargeModel Clamp id
     (ask_for ''claude-x'' []) (''anthropic'', ''claude-x'') new_wallet"

lemma spend_served:
  "spend_outcome = Some
     (Inr \<lparr>bo_decision = None, bo_alert = None, bo_reservation = Some \<lparr>cr_org = ''acme'', cr_amount = 133333\<rparr>\<rparr>,
      ask_for ''claude-x'' [(''max_tokens'', json_nat 63492)], (''anthropic'', ''claude-x''),
      \<lparr>ws_unavailable = [], ws_empty = [], ws_balance = [], ws_in_flight = [(''acme'', 133333)]\<rparr>)"
  by code_simp

text \<open>
  The ceiling comes from the price of the model, the reservation from the flat rate: for a model that the
  table prices below it, the ceiling that the clamp writes is one the reservation then refuses.
\<close>

lemma cheap_model_refused:
  "map_option fst (enforce_budget (spend_environment no_budgets []) spend_ctx ChargeModel Clamp id
     (ask_for ''small-x'' []) (''openrouter'', ''small-x'') new_wallet) = Some (Inl InsufficientCredits)"
  by code_simp

text \<open>With nothing affordable and no ceiling stated, none is written.\<close>

lemma nothing_affordable_unbounded:
  "clamp_output_ceiling spend_credits spend_prices (spend_ctx\<lparr>rq_remaining := Some 10\<rparr>) new_wallet None Clamp
     (ask_for ''claude-x'' []) = (None, ask_for ''claude-x'' [])"
  by code_simp

text \<open>
  A budget that restricts writes its cap as it is: a smaller ceiling is raised to it, and a ceiling
  under the other key stays beside it.
\<close>

definition spend_restricted :: spend_env where
  "spend_restricted = spend_environment spend_budgets [spend_charge 120]"

lemma restrict_raises:
  "map_option (\<lambda>(_, body, _). body) (enforce_budget spend_restricted spend_ctx ChargeModel Clamp id
     (ask_for ''claude-x'' [(''max_tokens'', json_nat 10)]) (''anthropic'', ''claude-x'') new_wallet)
   = Some (ask_for ''claude-x'' [(''max_tokens'', json_nat 256)])"
  by code_simp

lemma restrict_leaves_other_key:
  "map_option (\<lambda>(_, body, _). body) (enforce_budget spend_restricted spend_ctx ChargeModel Clamp id
     (JObject [(''max_completion_tokens'', json_nat 50000), (''model'', JString ''claude-x'')])
     (''anthropic'', ''claude-x'') new_wallet)
   = Some (JObject [(''max_completion_tokens'', json_nat 50000), (''max_tokens'', json_nat 256),
       (''model'', JString ''claude-x'')])"
  by code_simp

text \<open>
  A downgrade routes the request anew, after the gate: money that only pays for one pool admits it, and
  the provider it is dispatched to first bills another.
\<close>

definition pooled_ctx :: request_ctx where
  "pooled_ctx = spend_ctx\<lparr>rq_unrestricted := Some 0, rq_pools := [(''cloudflare'', 1000000)]\<rparr>"

definition spend_downgraded :: spend_env where
  "spend_downgraded = spend_environment
     (spend_budgets\<lparr>bc_users := [(''ann'', spend_rule 100 BudgetDowngrade (Some ''anthropic.haiku''))]\<rparr>) [spend_charge 120]"

lemma downgrade_skips_the_gate:
  "map_option (\<lambda>(r, _, route, _). (isl r, route)) (enforce_budget spend_downgraded pooled_ctx ChargeModel Clamp id
     (ask_for ''@cf/llama'' []) (''cloudflare'', ''@cf/llama'') new_wallet)
   = Some (False, (''bedrock'', ''anthropic.haiku''))
   \<and> preflight_credit_gate pooled_ctx (pool_for_gateway_provider ''bedrock'') = Some InsufficientCredits"
  by code_simp

subsection \<open>Reservations\<close>

definition spend_events :: "credit_event list" where
  "spend_events = [Reserves ''acme'' 600000 1000000, Reserves ''acme'' 600000 1000000, Reserves ''acme'' 400000 1000000,
     Drops \<lparr>cr_org = ''acme'', cr_amount = 600000\<rparr>, Settles ''acme'' 400000]"

definition spend_credit :: credit_world where
  "spend_credit =
     \<lparr>cw_wallet = \<lparr>ws_unavailable = [], ws_empty = [], ws_balance = [(''acme'', 400000)],
        ws_in_flight = [(''acme'', 400000)]\<rparr>,
      cw_held = [\<lparr>cr_org = ''acme'', cr_amount = 400000\<rparr>]\<rparr>"

lemma spend_reserved: "run_events credit_step spend_events no_credit = Some spend_credit"
  by code_simp

end
