(* ===== verification/Gateway_Debit.thy ===== *)
theory Gateway_Debit
  imports Gateway_Enforce
begin

section \<open>What was served is charged\<close>

text \<open>
  The second half of the money of the gateway: what a call that was answered, or a tool that was run,
  is charged to the budgets and to the wallet (\<open>settle_completion\<close> of
  \<open>pipeline/inference_governance.rs\<close>, the debit functions of \<open>pipeline/mod.rs\<close>, the rates of
  \<open>config.rs\<close>).  A debit is a request to the control plane: what is sent is a value, what comes back is
  an argument.  A cost that a provider reports is an argument in micro-dollars, the result of
  \<open>cost_usd_to_micro\<close> on a floating-point number.
\<close>

subsection \<open>Rates\<close>

datatype media_modality = MediaChat | MediaImage | MediaTts | MediaStt | MediaVideo

fun media_cost :: "credits_config \<Rightarrow> media_modality \<Rightarrow> nat" where
  "media_cost cfg MediaImage = cx_cost_per_image cfg"
| "media_cost cfg MediaVideo = cx_cost_per_video cfg"
| "media_cost cfg MediaTts = cx_cost_per_tts cfg"
| "media_cost cfg MediaStt = cx_cost_per_stt cfg"
| "media_cost cfg MediaChat = 0"

definition tool_call_cost :: "credits_config \<Rightarrow> nat \<Rightarrow> nat" where
  "tool_call_cost cfg n = sat_mul (cx_cost_per_tool_call cfg) n"

text \<open>The first rate that is zero, in the order of the checks; \<open>allow_free\<close> is the environment variable.\<close>

datatype metered_rate = ToolCallRate | TtsRate | SttRate | ImageRate | VideoRate

definition validate_metered_rates :: "string option \<Rightarrow> credits_config \<Rightarrow> metered_rate + unit" where
  "validate_metered_rates allow_free cfg =
     (if \<not> cx_enabled cfg then Inr ()
      else if (case allow_free of Some v \<Rightarrow> v = ''1'' \<or> to_ascii_lowercase v = ''true'' | None \<Rightarrow> False) then Inr ()
      else if cx_cost_per_tool_call cfg = 0 then Inl ToolCallRate
      else if cx_cost_per_tts cfg = 0 then Inl TtsRate
      else if cx_cost_per_stt cfg = 0 then Inl SttRate
      else if cx_cost_per_image cfg = 0 then Inl ImageRate
      else if cx_cost_per_video cfg = 0 then Inl VideoRate
      else Inr ())"

lemma metered_media_costs:
  assumes "validate_metered_rates allow_free cfg = Inr ()" and "cx_enabled cfg" and "allow_free = None"
    and "m \<noteq> MediaChat" and "0 < n" and "n \<le> usize_max"
  shows "0 < media_cost cfg m \<and> 0 < tool_call_cost cfg n"
  using assms by (cases m) (auto simp: validate_metered_rates_def tool_call_cost_def sat_mul_def split: if_splits)

definition response_cost :: "control_plane \<Rightarrow> nat option \<Rightarrow> nat \<Rightarrow> nat \<Rightarrow> string \<Rightarrow> nat" where
  "response_cost cp reported inp out model = (case reported of Some n \<Rightarrow> n | None \<Rightarrow> cost_for cp model inp out)"

definition charged_budget_cost ::
  "credits_config \<Rightarrow> control_plane \<Rightarrow> string option \<Rightarrow> nat option \<Rightarrow> nat \<Rightarrow> nat \<Rightarrow> string \<Rightarrow> nat" where
  "charged_budget_cost cfg cp provider reported inp out model =
     debit_amount_for_provider cfg provider (response_cost cp reported inp out model)"

subsection \<open>The request to the control plane\<close>

record debit_attribution =
  dg_duration_ms :: "nat option"
  dg_input_tokens :: "nat option"
  dg_model :: "string option"
  dg_output_tokens :: "nat option"
  dg_provider :: "string option"
  dg_task_label :: "string option"
  dg_estimated :: "bool option"
  dg_user_id :: "string option"

fun alert_tier_name :: "alert_tier \<Rightarrow> string" where
  "alert_tier_name Silent = ''silent''"
| "alert_tier_name Warn = ''warn''"
| "alert_tier_name Fanout = ''fanout''"
| "alert_tier_name Email = ''email''"

definition put_value :: "string \<Rightarrow> ('v \<Rightarrow> json) \<Rightarrow> 'v option \<Rightarrow> json \<Rightarrow> json" where
  "put_value key render v obj = (case v of Some x \<Rightarrow> object_insert key (render x) obj | None \<Rightarrow> obj)"

definition put_str :: "string \<Rightarrow> string option \<Rightarrow> json \<Rightarrow> json" where
  "put_str key v obj =
     (case v of Some s \<Rightarrow> if trim s \<noteq> [] then object_insert key (JString (trim s)) obj else obj | None \<Rightarrow> obj)"

definition debit_request_body ::
  "string \<Rightarrow> nat \<Rightarrow> string \<Rightarrow> string \<Rightarrow> alert_tier option \<Rightarrow> string option \<Rightarrow> debit_attribution \<Rightarrow> json" where
  "debit_request_body org amount reason ref_id tier pool a =
     (let body = JObject [(''amountMicroUsd'', json_nat amount), (''orgId'', JString org),
            (''reason'', JString reason), (''refId'', JString ref_id)];
          body = put_value ''alertTier'' (\<lambda>t. JString (alert_tier_name t)) tier body;
          body = put_value ''pool'' JString pool body;
          body = put_str ''provider'' (dg_provider a) body;
          body = put_str ''model'' (dg_model a) body;
          body = put_str ''userId'' (dg_user_id a) body;
          body = put_str ''taskLabel'' (dg_task_label a) body;
          body = put_value ''estimated'' JBool (dg_estimated a) body;
          body = put_value ''inputTokens'' json_nat (dg_input_tokens a) body;
          body = put_value ''outputTokens'' json_nat (dg_output_tokens a) body
      in put_value ''durationMs'' json_nat (dg_duration_ms a) body)"

text \<open>The arguments of \<open>debit_wallet_for_request\<close>, and the call it makes, if it makes one.\<close>

record pending_debit =
  pd_org :: string
  pd_ref_id :: string
  pd_reason :: string
  pd_cost :: nat
  pd_sticky :: bool
  pd_tier :: "alert_tier option"
  pd_pool :: "string option"
  pd_attribution :: debit_attribution

record debit_call =
  dl_url :: string
  dl_secret :: string
  dl_body :: json

definition debit_url :: "credits_config \<Rightarrow> string" where
  "debit_url cfg = rev (dropWhile (\<lambda>c. c = CHR ''/'') (rev (cx_base_url cfg))) @ ''/api/credits/debit''"

definition debit_call_for :: "credits_config \<Rightarrow> pending_debit \<Rightarrow> debit_call option" where
  "debit_call_for cfg d =
     (if \<not> credits_active cfg then None
      else
        (let amount = debit_amount_for_provider cfg (dg_provider (pd_attribution d)) (pd_cost d) in
         if amount = 0 then None
         else map_option
           (\<lambda>secret. \<lparr>dl_url = debit_url cfg, dl_secret = secret,
              dl_body = debit_request_body (pd_org d) amount (pd_reason d) (pd_ref_id d) (pd_tier d) (pd_pool d)
                (pd_attribution d)\<rparr>)
           (cx_internal_secret cfg)))"

subsection \<open>The answer\<close>

text \<open>No answer, or a status with a body, \<open>None\<close> where it is not JSON.\<close>

datatype http_reply = Unreachable | Answered nat "json option"

definition as_i64 :: "json \<Rightarrow> i64 option" where
  "as_i64 j = (case j of JNum (JInt n) \<Rightarrow> if is_i64 n then Some n else None | _ \<Rightarrow> None)"

definition confirmed_balance :: "http_reply \<Rightarrow> i64 option" where
  "confirmed_balance reply =
     (case reply of
        Answered status (Some v) \<Rightarrow>
          if 200 \<le> status \<and> status < 300 then Option.bind (jget v ''balanceMicroUsd'') as_i64 else None
      | _ \<Rightarrow> None)"

text \<open>An answer that confirms a balance, spelled out.\<close>

definition answers_balance :: "http_reply \<Rightarrow> i64 \<Rightarrow> bool" where
  "answers_balance reply n \<longleftrightarrow>
     (\<exists>status v j. reply = Answered status (Some v) \<and> 200 \<le> status \<and> status < 300
        \<and> jget v ''balanceMicroUsd'' = Some j \<and> as_i64 j = Some n)"

lemma confirmed_is_answered: "confirmed_balance reply = Some n \<longleftrightarrow> answers_balance reply n"
  by (auto simp: confirmed_balance_def answers_balance_def bind_eq_Some_conv split: http_reply.splits option.splits)

definition settle_debit :: "bool \<Rightarrow> string \<Rightarrow> http_reply \<Rightarrow> wallet_state \<Rightarrow> wallet_state" where
  "settle_debit sticky org reply w =
     (case confirmed_balance reply of
        Some balance \<Rightarrow> set_org_balance org balance w
      | None \<Rightarrow> if sticky then set_org_accounting_unavailable org True w else w)"

text \<open>What others do while the call is under way is \<open>meanwhile\<close>.\<close>

definition debit_wallet_for_request ::
  "credits_config \<Rightarrow> (debit_call \<Rightarrow> http_reply) \<Rightarrow> (wallet_state \<Rightarrow> wallet_state) \<Rightarrow> pending_debit \<Rightarrow> wallet_state \<Rightarrow> wallet_state"
where
  "debit_wallet_for_request cfg send meanwhile d w =
     (case debit_call_for cfg d of
        None \<Rightarrow> w
      | Some call \<Rightarrow> settle_debit (pd_sticky d) (pd_org d) (send call) (meanwhile w))"

subsection \<open>Tools\<close>

text \<open>\<open>opt.filter(|value| !value.trim().is_empty())\<close>\<close>

definition nonblank :: "string option \<Rightarrow> string option" where
  "nonblank v = (case v of Some s \<Rightarrow> if trim s = [] then None else Some s | None \<Rightarrow> None)"

definition spawn_external_tool_debit ::
  "credits_config \<Rightarrow> string option \<Rightarrow> string option \<Rightarrow> string option \<Rightarrow> string option \<Rightarrow> string \<Rightarrow> bool \<Rightarrow> string
   \<Rightarrow> string option \<Rightarrow> nat option \<Rightarrow> string option \<Rightarrow> bool \<Rightarrow> string option \<Rightarrow> nat \<Rightarrow> budget_enforcer
   \<Rightarrow> pending_debit option \<times> budget_enforcer" where
  "spawn_external_tool_debit cfg user agent session org request managed named tool raw transaction estimated label n b =
     (let provider = trim named in
      if n = 0 then (None, b)
      else if provider \<noteq> ''composio'' \<and> provider \<noteq> ''treg'' then (None, b)
      else
        (let raw_cost = (case raw of Some c \<Rightarrow> c | None \<Rightarrow> if provider = ''composio'' then tool_call_cost cfg n else 0) in
         if raw_cost = 0 then (None, b)
         else
           (let charged_cost = debit_amount_for_provider cfg (Some provider) raw_cost;
                b' = record_charged user agent session ChargeTools (word_of_nat charged_cost) b in
            case present org of
              None \<Rightarrow> (None, b')
            | Some o' \<Rightarrow>
                if \<not> credits_active cfg then (None, b')
                else (Some \<lparr>pd_org = o',
                    pd_ref_id = (case nonblank transaction of Some t \<Rightarrow> provider @ '':'' @ t | None \<Rightarrow> request @ '':'' @ provider),
                    pd_reason = provider, pd_cost = raw_cost, pd_sticky = (cx_fail_closed cfg \<and> managed),
                    pd_tier = None, pd_pool = None,
                    pd_attribution = \<lparr>dg_duration_ms = None, dg_input_tokens = None, dg_model = nonblank tool,
                      dg_output_tokens = None, dg_provider = Some provider,
                      dg_task_label = (case nonblank label of Some l \<Rightarrow> Some l
                        | None \<Rightarrow> Some (show_nat n @ '' '' @ provider @ '' tool '' @ (if n = 1 then ''call'' else ''calls''))),
                      dg_estimated = Some estimated, dg_user_id = user\<rparr>\<rparr>, b'))))"

definition spawn_tool_call_debit ::
  "credits_config \<Rightarrow> request_ctx \<Rightarrow> string \<Rightarrow> nat \<Rightarrow> budget_enforcer \<Rightarrow> pending_debit option \<times> budget_enforcer" where
  "spawn_tool_call_debit cfg ctx request n b =
     spawn_external_tool_debit cfg (rq_user ctx) (rq_agent ctx) (rq_session ctx) (rq_org ctx) request (rq_managed ctx)
       ''composio'' None None None False None n b"

subsection \<open>Completions\<close>

record completion_receipt =
  rc_provider :: string
  rc_model :: string
  rc_reason :: string
  rc_estimated_input :: nat
  rc_budget :: "budget_decision option"
  rc_zero_cost :: bool

definition usage_count :: "json \<Rightarrow> string \<Rightarrow> nat option" where
  "usage_count response key = Option.bind (Option.bind (jget response ''usage'') (\<lambda>u. jget u key)) as_u64"

fun first_some :: "'a option list \<Rightarrow> 'a \<Rightarrow> 'a" where
  "first_some [] d = d"
| "first_some (Some x # rest) d = x"
| "first_some (None # rest) d = first_some rest d"

definition usage_tokens :: "completion_receipt \<Rightarrow> json \<Rightarrow> nat \<times> nat" where
  "usage_tokens receipt response =
     (first_some [usage_count response ''prompt_tokens'', usage_count response ''input_tokens'',
        usage_count response ''total_tokens''] (rc_estimated_input receipt),
      first_some [usage_count response ''completion_tokens'', usage_count response ''output_tokens''] 0)"

text \<open>
  What \<open>settle_completion\<close> charges: the budgets at once, the wallet by a debit that is spawned; when
  there is no runtime to spawn it, the accounting of the organization is marked as unavailable.
\<close>

datatype settlement = Unbilled | Spawned pending_debit | NotSpawned string

definition settle_completion ::
  "credits_config \<Rightarrow> control_plane \<Rightarrow> request_ctx \<Rightarrow> string \<Rightarrow> completion_receipt \<Rightarrow> json \<Rightarrow> nat option \<Rightarrow> nat \<Rightarrow> bool
   \<Rightarrow> budget_enforcer \<Rightarrow> settlement \<times> budget_enforcer" where
  "settle_completion cfg cp ctx request receipt response vendor_reported latency runtime b =
     (let (inp, out) = usage_tokens receipt response;
          reported = (if rc_zero_cost receipt then Some 0 else vendor_reported);
          cost = response_cost cp reported inp out (rc_model receipt);
          charged = charged_budget_cost cfg cp (Some (rc_provider receipt)) reported inp out (rc_model receipt);
          b' = record_charged (rq_user ctx) (rq_agent ctx) (rq_session ctx) ChargeModel (word_of_nat charged) b in
      case present (rq_org ctx) of
        None \<Rightarrow> (Unbilled, b')
      | Some org \<Rightarrow>
          if \<not> credits_active cfg then (Unbilled, b')
          else if \<not> runtime then (NotSpawned org, b')
          else (Spawned \<lparr>pd_org = org, pd_ref_id = request, pd_reason = rc_reason receipt, pd_cost = cost,
                  pd_sticky = (cx_fail_closed cfg \<and> rq_managed ctx),
                  pd_tier = (case rc_budget receipt of
                      Some d \<Rightarrow> if 0 < bd_limit d \<and> Warn \<le> bd_alert d then Some (bd_alert d) else None
                    | None \<Rightarrow> None),
                  pd_pool = pool_for_gateway_provider (rc_provider receipt),
                  pd_attribution = \<lparr>dg_duration_ms = Some latency, dg_input_tokens = Some inp, dg_model = Some (rc_model receipt),
                    dg_output_tokens = Some out, dg_provider = Some (rc_provider receipt), dg_task_label = None,
                    dg_estimated = Some (reported = None), dg_user_id = rq_user ctx\<rparr>\<rparr>, b'))"

end
