(* ===== verification/Gateway_Outage.thy ===== *)
theory Gateway_Outage
  imports Gateway_Debit
begin

section \<open>An outage of the accounting\<close>

text \<open>
  Requests and their debits together: a request is let through or refused by \<open>enforce_budget\<close>, runs,
  and ends with a debit that the control plane answers or not, or without one.  The gates read what the
  answers leave in the wallet.  A debit that fails closes the gates of a managed organization, as it is
  meant to; since only an answer opens them again, and only a request that was let through asks for one,
  they stay closed for the requests.  What can open them is a debit that is not one of a request, that of
  a tool run by Core or of a sandbox, when it is answered with a positive balance.
\<close>

record running_request =
  rn_reservation :: "credit_reservation option"
  rn_org :: "string option"
  rn_managed :: bool

record account =
  ac_wallet :: wallet_state
  ac_running :: "running_request list"

text \<open>
  A request counts as running until the debits that were spawned for it (its completion, the tools it
  used) are answered and its reservation is given back: \<open>Answers\<close> is one of these debits with what came
  back, \<open>Ends\<close> the end.  \<open>Reports\<close> is a debit that is not one of a request: a tool run by Core, or a sandbox.
\<close>

datatype account_event =
    AsksFor spend_env request_ctx charge_kind output_ceiling json "string \<times> string"
  | Answers running_request pending_debit http_reply
  | Ends running_request
  | Reports string bool http_reply

definition gives_up :: "running_request \<Rightarrow> wallet_state \<Rightarrow> wallet_state" where
  "gives_up r w = (case rn_reservation r of Some permit \<Rightarrow> drop_reservation id permit w | None \<Rightarrow> w)"

definition owes :: "credits_config \<Rightarrow> running_request \<Rightarrow> pending_debit \<Rightarrow> bool" where
  "owes cfg r d \<longleftrightarrow> rn_org r = Some (pd_org d) \<and> pd_sticky d = (cx_fail_closed cfg \<and> rn_managed r)"

fun account_step :: "credits_config \<Rightarrow> account_event \<Rightarrow> account \<Rightarrow> account option" where
  "account_step cfg (AsksFor env ctx kind ceiling body routed) a =
     (if se_credits env \<noteq> cfg then None
      else
        (case enforce_budget env ctx kind ceiling id body routed (ac_wallet a) of
           None \<Rightarrow> None
         | Some (Inl _, _, _, w) \<Rightarrow> Some (a\<lparr>ac_wallet := w\<rparr>)
         | Some (Inr out, _, _, w) \<Rightarrow>
             Some (a\<lparr>ac_wallet := w,
               ac_running := \<lparr>rn_reservation = bo_reservation out, rn_org = present (rq_org ctx),
                 rn_managed = rq_managed ctx\<rparr> # ac_running a\<rparr>)))"
| "account_step cfg (Answers r d reply) a =
     (if r \<in> set (ac_running a) \<and> owes cfg r d
      then Some (a\<lparr>ac_wallet := debit_wallet_for_request cfg (\<lambda>_. reply) id d (ac_wallet a)\<rparr>) else None)"
| "account_step cfg (Ends r) a =
     (if r \<in> set (ac_running a)
      then Some (a\<lparr>ac_wallet := gives_up r (ac_wallet a), ac_running := remove1 r (ac_running a)\<rparr>) else None)"
| "account_step cfg (Reports org sticky reply) a = Some (a\<lparr>ac_wallet := settle_debit sticky org reply (ac_wallet a)\<rparr>)"

subsection \<open>What the gates read\<close>

definition blocked :: "credits_config \<Rightarrow> string \<Rightarrow> wallet_state \<Rightarrow> bool" where
  "blocked cfg org w \<longleftrightarrow> is_org_accounting_unavailable org w
     \<or> (cx_wallet_empty_action cfg = WalletStop \<and> is_org_empty org w)"

definition same_gates :: "wallet_state \<Rightarrow> wallet_state \<Rightarrow> bool" where
  "same_gates v w \<longleftrightarrow> ws_unavailable v = ws_unavailable w \<and> ws_empty v = ws_empty w"

lemma blocked_same: "same_gates v w \<Longrightarrow> blocked cfg org v = blocked cfg org w"
  by (simp add: same_gates_def blocked_def is_org_accounting_unavailable_def is_org_empty_def)

lemma same_gates_refl [simp]: "same_gates w w"
  by (simp add: same_gates_def)

lemma same_gates_give_back: "same_gates (snd (give_back org amount w)) w"
  by (auto simp: same_gates_def give_back_def Let_def split: option.splits)

lemma same_gates_drop [simp]: "same_gates (drop_reservation id r w) w"
  using same_gates_give_back [of "cr_org r" "cr_amount r" w]
  by (auto simp: drop_reservation_def release_in_flight_def remove_if_zero_def same_gates_def split: prod.splits bool.splits)

lemma same_gates_gives_up [simp]: "same_gates (gives_up r w) w"
  by (auto simp: gives_up_def split: option.splits)

lemma same_gates_reserve: "maybe_reserve_credit cfg cp ctx body pool w = (r, w') \<Longrightarrow> same_gates w' w"
  by (auto simp: maybe_reserve_credit_def try_reserve_def same_gates_def Let_def split: option.splits if_splits)

lemma same_gates_trans: "same_gates u v \<Longrightarrow> same_gates v w \<Longrightarrow> same_gates u w"
  by (simp add: same_gates_def)

lemma same_gates_enforce:
  assumes "enforce_budget env ctx kind ceiling id body routed w = Some (r, body', routed', w')"
  shows "same_gates w' w"
  using assms same_gates_reserve
  by (auto simp: enforce_budget_def Let_def split: option.splits sum.splits prod.splits if_splits
    dest: same_gates_reserve intro: same_gates_trans [OF same_gates_drop])

text \<open>
  What an answer does to the gate: a debit of a managed organization that fails closes it, so does a
  balance that is used up where that means stop, and a positive balance opens it.  An answer for another
  organization leaves it alone.
\<close>

lemma failed_debit_blocks: "confirmed_balance reply = None \<Longrightarrow> blocked cfg org (settle_debit True org reply w)"
  by (simp add: settle_debit_def blocked_def is_org_accounting_unavailable_def set_org_accounting_unavailable_def bt_get_insert)

lemma used_up_blocks:
  "confirmed_balance reply = Some n \<Longrightarrow> n \<le> 0 \<Longrightarrow> cx_wallet_empty_action cfg = WalletStop \<Longrightarrow>
     blocked cfg org (settle_debit sticky org reply w)"
  by (simp add: settle_debit_def blocked_def balance_settles)

lemma positive_opens:
  "confirmed_balance reply = Some n \<Longrightarrow> 0 < n \<Longrightarrow> \<not> blocked cfg org (settle_debit sticky org reply w)"
  by (simp add: settle_debit_def blocked_def balance_settles)

text \<open>An answer that does not open the gate.\<close>

definition no_relief :: "credits_config \<Rightarrow> http_reply \<Rightarrow> bool" where
  "no_relief cfg reply \<longleftrightarrow>
     (case confirmed_balance reply of
        None \<Rightarrow> True
      | Some n \<Rightarrow> n \<le> 0 \<and> cx_wallet_empty_action cfg = WalletStop)"

lemma no_relief_blocked:
  assumes "blocked cfg org w" and "no_relief cfg reply"
  shows "blocked cfg org (settle_debit sticky org reply w)"
proof (cases "confirmed_balance reply")
  case None
  then show ?thesis using assms(1) failed_debit_blocks [OF None, of cfg org w] by (cases sticky) (simp_all add: settle_debit_def)
next
  case (Some n)
  then show ?thesis using assms(2) used_up_blocks by (simp add: no_relief_def)
qed

text \<open>The same of the debit of a request, under the conditions that make it one.\<close>

lemma request_debit_blocks:
  assumes "owes cfg r d" and "rn_org r = Some org" and "debit_call_for cfg d \<noteq> None"
  shows "confirmed_balance reply = None \<Longrightarrow> rn_managed r \<Longrightarrow> cx_fail_closed cfg \<Longrightarrow>
      blocked cfg org (debit_wallet_for_request cfg (\<lambda>_. reply) meanwhile d w)"
    and "confirmed_balance reply = Some n \<Longrightarrow> n \<le> 0 \<Longrightarrow> cx_wallet_empty_action cfg = WalletStop \<Longrightarrow>
      blocked cfg org (debit_wallet_for_request cfg (\<lambda>_. reply) meanwhile d w)"
    and "confirmed_balance reply = Some n \<Longrightarrow> 0 < n \<Longrightarrow>
      \<not> blocked cfg org (debit_wallet_for_request cfg (\<lambda>_. reply) meanwhile d w)"
  using assms failed_debit_blocks [of reply cfg org] used_up_blocks [of reply n cfg org] positive_opens [of reply n cfg org]
  by (auto simp: debit_wallet_for_request_def owes_def)

lemma settle_other: "other \<noteq> org \<Longrightarrow> blocked cfg org (settle_debit sticky other reply w) = blocked cfg org w"
proof (cases "confirmed_balance reply")
  case None
  then show "other \<noteq> org \<Longrightarrow> ?thesis"
    by (simp add: settle_debit_def blocked_def is_org_accounting_unavailable_def is_org_empty_def
      set_org_accounting_unavailable_def bt_get_insert)
next
  case (Some balance)
  then show "other \<noteq> org \<Longrightarrow> ?thesis"
    using balance_is_per_org(2,3) [of org other balance w] by (auto simp: settle_debit_def blocked_def)
qed

lemma blocked_debit:
  "pd_org d \<noteq> org \<Longrightarrow> blocked cfg org (debit_wallet_for_request cfg' send id d w) = blocked cfg org w"
  by (auto simp: debit_wallet_for_request_def settle_other split: option.splits)

text \<open>Behind a closed gate a request is refused, whatever its balance is by now.\<close>

lemma empty_decision_stops:
  assumes "credits_active cfg" and "present (rq_org ctx) = Some org"
    and "cx_wallet_empty_action cfg = WalletStop" and "is_org_empty org w"
  shows "\<exists>d. wallet_empty_decision cfg ctx w = Some d \<and> bd_action d = BudgetStop"
  using assms by (simp add: wallet_empty_decision_def)

lemma blocked_refused:
  assumes "se_credits env = cfg" and "credits_active cfg" and "blocked cfg org w"
    and "\<not> rq_master ctx" and "rq_managed ctx" and "present (rq_org ctx) = Some org"
  shows "\<exists>e rest. enforce_budget env ctx kind ceiling id body routed w = Some (Inl e, rest)"
proof (cases "is_org_accounting_unavailable org w")
  case True
  with assms show ?thesis by (simp add: enforce_budget_def accounting_unavailable_gate_def)
next
  case False
  then have empty: "cx_wallet_empty_action cfg = WalletStop" "is_org_empty org w"
    using assms(3) by (auto simp: blocked_def)
  let ?pool = "pool_for_gateway_provider (fst routed)"
  let ?body = "snd (clamp_output_ceiling cfg (se_control env) ctx w ?pool ceiling body)"
  obtain r w2 where reserve: "maybe_reserve_credit cfg (se_control env) ctx ?body ?pool w = (r, w2)" by fastforce
  then have "is_org_empty org w2" using empty(2) same_gates_reserve [OF reserve]
    by (simp add: same_gates_def is_org_empty_def)
  then obtain d where "wallet_empty_decision cfg ctx w2 = Some d" "bd_action d = BudgetStop"
    using empty_decision_stops [OF assms(2,6) empty(1)] by blast
  then have "Some d \<in> set (budget_decisions env ctx kind w2)" by (simp add: budget_decisions_def assms(1))
  then obtain v where v: "verdict (budget_decisions env ctx kind w2) = Some v" "bd_action v = BudgetStop"
    using verdict_stops \<open>bd_action d = BudgetStop\<close> by blast
  have opened: "accounting_unavailable_gate cfg ctx w = None"
    using False assms(6) by (simp add: accounting_unavailable_gate_def)
  show ?thesis
    using assms(1,4) reserve opened v
    by (cases "preflight_credit_gate ctx ?pool"; cases r)
      (simp_all add: enforce_budget_def verdict_def Let_def)
qed

subsection \<open>It stays closed\<close>

text \<open>
  Requests of the organization are those of a managed tenant without the master key, and what is reported
  for it by a tool or a sandbox is not answered with a balance that opens the gate.
\<close>

definition tenant_event :: "credits_config \<Rightarrow> string \<Rightarrow> account_event \<Rightarrow> bool" where
  "tenant_event cfg org e \<longleftrightarrow>
     (case e of
        AsksFor env ctx kind ceiling body routed \<Rightarrow>
          present (rq_org ctx) = Some org \<longrightarrow> \<not> rq_master ctx \<and> rq_managed ctx
      | Reports other sticky reply \<Rightarrow> other = org \<longrightarrow> no_relief cfg reply
      | _ \<Rightarrow> True)"

definition stranded :: "credits_config \<Rightarrow> string \<Rightarrow> account \<Rightarrow> bool" where
  "stranded cfg org a \<longleftrightarrow> blocked cfg org (ac_wallet a) \<and> (\<forall>r \<in> set (ac_running a). rn_org r \<noteq> Some org)"

definition tenant_step :: "credits_config \<Rightarrow> string \<Rightarrow> account_event \<Rightarrow> account \<Rightarrow> account option" where
  "tenant_step cfg org e a = (if tenant_event cfg org e then account_step cfg e a else None)"

lemma stranded_step:
  assumes active: "credits_active cfg" and step: "account_step cfg e a = Some a'"
    and "tenant_event cfg org e" and "stranded cfg org a"
  shows "stranded cfg org a'"
proof (cases e)
  case (AsksFor env ctx kind ceiling body routed)
  then have env: "se_credits env = cfg" using step by (auto split: if_splits)
  obtain r body' routed' w where asked:
    "enforce_budget env ctx kind ceiling id body routed (ac_wallet a) = Some (r, body', routed', w)"
    using step AsksFor env by (auto split: option.splits)
  have still: "blocked cfg org w"
    using assms(4) blocked_same [OF same_gates_enforce [OF asked]] by (simp add: stranded_def)
  show ?thesis
  proof (cases r)
    case (Inl e)
    then show ?thesis using step AsksFor env asked still assms(4) by (auto simp: stranded_def)
  next
    case (Inr out)
    then have "present (rq_org ctx) \<noteq> Some org"
      using blocked_refused [OF env active, of org "ac_wallet a" ctx kind ceiling body routed] asked AsksFor assms(3,4)
      by (auto simp: stranded_def tenant_event_def)
    then show ?thesis using step AsksFor env asked still assms(4) Inr by (auto simp: stranded_def)
  qed
next
  case (Answers r d reply)
  then have "pd_org d \<noteq> org" using step assms(4) by (auto simp: stranded_def owes_def split: if_splits)
  then show ?thesis using step Answers assms(4) by (auto simp: stranded_def blocked_debit split: if_splits)
next
  case (Ends r)
  then show ?thesis
    using step assms(4) set_remove1_subset [of r "ac_running a"]
    by (auto simp: stranded_def blocked_same [OF same_gates_gives_up] split: if_splits)
next
  case (Reports other sticky reply)
  then have "blocked cfg org (settle_debit sticky other reply (ac_wallet a))"
    using assms(3,4) no_relief_blocked settle_other [of other org]
    by (cases "other = org") (simp_all add: stranded_def tenant_event_def)
  then show ?thesis using Reports step assms(4) by (auto simp: stranded_def)
qed

definition stays_stranded :: "credits_config \<Rightarrow> string \<Rightarrow> account \<Rightarrow> bool" where
  "stays_stranded cfg org a \<longleftrightarrow> credits_active cfg \<and> stranded cfg org a"

interpretation outage_machine: invariant_machine "tenant_step cfg org" "stays_stranded cfg org" for cfg org
  by unfold_locales (auto simp: tenant_step_def stays_stranded_def intro: stranded_step split: if_splits)

lemma tenant_run:
  "\<forall>e \<in> set es. tenant_event cfg org e \<Longrightarrow> run_events (tenant_step cfg org) es a = run_events (account_step cfg) es a"
  by (induction es arbitrary: a) (auto simp: tenant_step_def split: option.splits)

lemma stranded_forever:
  assumes "credits_active cfg" and "stranded cfg org a"
    and "run_events (account_step cfg) es a = Some a'" and "\<forall>e \<in> set es. tenant_event cfg org e"
  shows "stranded cfg org a'"
  using outage_machine.ok_run [of cfg org es a a'] assms by (simp add: tenant_run stays_stranded_def)

end
