(* ===== verification/Gateway_Sandbox.thy ===== *)
theory Gateway_Sandbox
  imports Gateway_Debit
begin

section \<open>Metering a sandbox\<close>

text \<open>
  The route that Core calls with every heartbeat of a sandbox (\<open>api/sandbox.rs\<close>, with the rates of
  \<open>config.rs\<close>): it prices the time since the last one, adds it to what the run has cost, debits the
  wallet and says whether the sandbox may go on.  The guard against a repeated heartbeat and the
  accrual are two critical sections; what others do between them is an argument.
\<close>

subsection \<open>The price of a heartbeat\<close>

datatype gpu_kind = GpuNone | H200 | H100 | RtxPro6000 | Rtx5090 | Rtx4090

datatype os_kind = Linux | Windows

record sandbox_spec =
  sx_vcpu :: u32
  sx_mem_gib :: u32
  sx_storage_gib :: u32
  sx_gpu :: gpu_kind
  sx_gpu_count :: u32
  sx_os :: os_kind

fun gpu_rate :: "sandbox_rates \<Rightarrow> gpu_kind \<Rightarrow> nat" where
  "gpu_rate r GpuNone = 0"
| "gpu_rate r H200 = sr_gpu_h200 r"
| "gpu_rate r H100 = sr_gpu_h100 r"
| "gpu_rate r RtxPro6000 = sr_gpu_rtx_pro_6000 r"
| "gpu_rate r Rtx5090 = sr_gpu_rtx_5090 r"
| "gpu_rate r Rtx4090 = sr_gpu_rtx_4090 r"

definition sandbox_tick_cost :: "sandbox_rates \<Rightarrow> sandbox_spec \<Rightarrow> nat \<Rightarrow> nat" where
  "sandbox_tick_cost r s seconds =
     (let vcpu = unat (sx_vcpu s);
          billable_storage = unat (sx_storage_gib s) - sr_free_storage_gib r;
          eff_gpu = (if sx_gpu s = GpuNone then 0 else max (unat (sx_gpu_count s)) 1);
          per_sec =
            sat_add (sat_add (sat_add (sat_add (sat_mul vcpu (sr_vcpu r))
                (sat_mul (unat (sx_mem_gib s)) (sr_mem_gib r)))
                (sat_mul billable_storage (sr_storage_gib r)))
                (sat_mul eff_gpu (gpu_rate r (sx_gpu s))))
              (case sx_os s of Windows \<Rightarrow> sat_mul vcpu (sr_windows_vcpu r) | Linux \<Rightarrow> 0)
      in sat_add (sat_mul per_sec seconds) 500 div 1000)"

definition sandbox_debit_amount :: "sandbox_rates \<Rightarrow> nat \<Rightarrow> nat" where
  "sandbox_debit_amount r cost =
     sat_add (sat_mul cost (sat_add bps_denom (sr_markup_bps r))) (bps_denom div 2) div bps_denom"

subsection \<open>The accrual of a run\<close>

record run_accrual =
  ra_accrued :: nat
  ra_last_tick :: nat

type_synonym accruals = "(string \<times> run_accrual) list"

definition replayed :: "string \<Rightarrow> nat \<Rightarrow> accruals \<Rightarrow> nat option" where
  "replayed run tick m =
     (case bt_get m run of
        Some a \<Rightarrow> if tick \<le> ra_last_tick a then Some (ra_accrued a) else None
      | None \<Rightarrow> None)"

definition accrued_of :: "string \<Rightarrow> accruals \<Rightarrow> nat" where
  "accrued_of run m = (case bt_get m run of Some a \<Rightarrow> ra_accrued a | None \<Rightarrow> 0)"

definition accrue :: "string \<Rightarrow> nat \<Rightarrow> nat \<Rightarrow> accruals \<Rightarrow> nat \<times> accruals" where
  "accrue run tick billed m =
     (let accrued = sat_add (accrued_of run m) billed
      in (accrued, bt_insert run \<lparr>ra_accrued = accrued, ra_last_tick = tick\<rparr> m))"

subsection \<open>The debit and the verdict\<close>

datatype sandbox_verdict = Continue | Caution | KillBudget | KillBalance | KillAccounting

definition compute_verdict :: "nat \<Rightarrow> nat \<Rightarrow> i64 option \<Rightarrow> nat \<Rightarrow> sandbox_verdict" where
  "compute_verdict accrued per_run_budget balance billed =
     (if (case balance of Some b \<Rightarrow> b \<le> 0 | None \<Rightarrow> False) then KillBalance
      else if 0 < per_run_budget \<and> per_run_budget \<le> accrued then KillBudget
      else
        (let budget_warn = (0 < per_run_budget \<and> sat_mul per_run_budget 80 \<le> sat_mul accrued 100);
             balance_warn = (case balance of Some b \<Rightarrow> 0 < b \<and> nat b < sat_mul billed 3 | None \<Rightarrow> False)
         in if budget_warn \<or> balance_warn then Caution else Continue))"

definition sandbox_debit_body :: "string \<Rightarrow> string \<Rightarrow> nat \<Rightarrow> nat \<Rightarrow> json" where
  "sandbox_debit_body org run tick billed =
     JObject [(''amountMicroUsd'', json_nat billed), (''orgId'', JString org), (''reason'', JString ''sandbox''),
       (''refId'', JString (run @ '':sandbox:'' @ show_nat tick))]"

text \<open>
  The result is the balance, \<open>None\<close> where nothing is owed, or an error; the wallet learns the balance, or
  that accounting is unavailable.
\<close>

definition debit_sandbox_sync ::
  "credits_config \<Rightarrow> (debit_call \<Rightarrow> http_reply) \<Rightarrow> (wallet_state \<Rightarrow> wallet_state) \<Rightarrow> string option \<Rightarrow> string \<Rightarrow> nat \<Rightarrow> nat
   \<Rightarrow> wallet_state \<Rightarrow> (unit + i64 option) \<times> wallet_state" where
  "debit_sandbox_sync cfg send meanwhile org_id run tick billed w =
     (case present org_id of
        None \<Rightarrow> (Inr None, w)
      | Some org \<Rightarrow>
          if \<not> cx_enabled cfg \<or> billed = 0 then (Inr None, w)
          else if \<not> credits_active cfg then (Inl (), set_org_accounting_unavailable org True w)
          else
            (case cx_internal_secret cfg of
               None \<Rightarrow> (Inl (), set_org_accounting_unavailable org True w)
             | Some secret \<Rightarrow>
                 (case confirmed_balance (send \<lparr>dl_url = debit_url cfg, dl_secret = secret,
                     dl_body = sandbox_debit_body org run tick billed\<rparr>) of
                    None \<Rightarrow> (Inl (), set_org_accounting_unavailable org True (meanwhile w))
                  | Some balance \<Rightarrow> (Inr (Some balance), set_org_balance org balance (meanwhile w)))))"

subsection \<open>The route\<close>

record sandbox_tick_body =
  st_run_id :: string
  st_org_id :: "string option"
  st_spec :: sandbox_spec
  st_elapsed_seconds :: nat
  st_tick_index :: nat
  st_per_run_budget :: nat

record sandbox_tick_response =
  sp_accrued :: nat
  sp_balance :: "i64 option"
  sp_verdict :: sandbox_verdict

definition is_kill :: "sandbox_verdict \<Rightarrow> bool" where
  "is_kill v \<longleftrightarrow> v = KillBudget \<or> v = KillBalance \<or> v = KillAccounting"

definition sandbox_billed :: "credits_config \<Rightarrow> sandbox_tick_body \<Rightarrow> nat" where
  "sandbox_billed cfg b =
     sandbox_debit_amount (cx_sandbox cfg) (sandbox_tick_cost (cx_sandbox cfg) (st_spec b) (st_elapsed_seconds b))"

text \<open>
  \<open>caller\<close> is the outcome of the authentication: an error, or whether the caller is a trusted forwarder or
  has the master key.  Others act on the accruals between the guard and the accrual (\<open>between\<close>) and, with
  the wallet, while the debit is under way (\<open>meanwhile\<close>).
\<close>

definition sandbox_tick ::
  "credits_config \<Rightarrow> gateway_error + bool \<Rightarrow> (debit_call \<Rightarrow> http_reply) \<Rightarrow> (accruals \<Rightarrow> accruals)
   \<Rightarrow> (accruals \<Rightarrow> accruals) \<times> (wallet_state \<Rightarrow> wallet_state) \<Rightarrow> sandbox_tick_body \<Rightarrow> accruals \<times> wallet_state
   \<Rightarrow> (gateway_error + sandbox_tick_response) \<times> accruals \<times> wallet_state" where
  "sandbox_tick cfg caller send between meanwhile b s =
     (case caller of
        Inl e \<Rightarrow> (Inl e, s)
      | Inr trusted \<Rightarrow>
          if \<not> trusted then (Inl (UnauthorizedKey ''Sandbox tick requires a trusted-forwarder or master key.''), s)
          else
            (case replayed (st_run_id b) (st_tick_index b) (fst s) of
               Some accrued \<Rightarrow> (Inr \<lparr>sp_accrued = accrued, sp_balance = None, sp_verdict = Continue\<rparr>, s)
             | None \<Rightarrow>
                 (let billed = sandbox_billed cfg b;
                      (accrued, m) = accrue (st_run_id b) (st_tick_index b) billed (between (fst s));
                      (paid, w) = debit_sandbox_sync cfg send (snd meanwhile) (st_org_id b) (st_run_id b)
                        (st_tick_index b) billed (snd s);
                      m = fst meanwhile m;
                      balance = (case paid of Inr n \<Rightarrow> n | Inl _ \<Rightarrow> None);
                      v = (case paid of Inl _ \<Rightarrow> KillAccounting
                        | Inr _ \<Rightarrow> compute_verdict accrued (st_per_run_budget b) balance billed)
                  in (Inr \<lparr>sp_accrued = accrued, sp_balance = balance, sp_verdict = v\<rparr>,
                      (if is_kill v then without (st_run_id b) m else m), w))))"

subsection \<open>What a heartbeat leaves behind\<close>

lemma sandbox_markup_is_no_discount:
  assumes "cost * (10000 + sr_markup_bps r) + 5000 \<le> usize_max"
  shows "cost \<le> sandbox_debit_amount r cost"
proof -
  have "cost * 10000 \<le> sat_mul cost (sat_add 10000 (sr_markup_bps r))"
  proof (cases "cost = 0")
    case False
    have "10000 + sr_markup_bps r \<le> cost * (10000 + sr_markup_bps r)" using False by simp
    then have "10000 + sr_markup_bps r \<le> usize_max" using assms by linarith
    then have "sat_add 10000 (sr_markup_bps r) = 10000 + sr_markup_bps r" unfolding sat_add_def by (rule min_absorb1)
    moreover have "cost * 10000 \<le> cost * (10000 + sr_markup_bps r)" by (rule mult_le_mono2) simp
    ultimately show ?thesis using assms by (simp add: sat_mul_def)
  qed simp
  moreover have "cost * 10000 \<le> cost * (10000 + sr_markup_bps r)" by (rule mult_le_mono2) simp
  then have "cost * 10000 \<le> usize_max" using assms by linarith
  ultimately have "cost * 10000 \<le> sat_add (sat_mul cost (sat_add 10000 (sr_markup_bps r))) 5000"
    unfolding sat_add_def [of "sat_mul cost (sat_add 10000 (sr_markup_bps r))"] by (simp only: min.bounded_iff trans_le_add1)
  then show ?thesis unfolding sandbox_debit_amount_def bps_denom_def by (simp add: less_eq_div_iff_mult_less_eq)
qed

lemma verdict_lives:
  "\<not> is_kill (compute_verdict accrued cap balance billed) \<longleftrightarrow>
     (\<forall>b. balance = Some b \<longrightarrow> 0 < b) \<and> (0 < cap \<longrightarrow> accrued < cap)"
  by (auto simp: compute_verdict_def is_kill_def Let_def split: option.splits)

lemma marked_unavailable: "is_org_accounting_unavailable org (set_org_accounting_unavailable org True w)"
  by (simp add: is_org_accounting_unavailable_def set_org_accounting_unavailable_def bt_get_insert)

text \<open>What comes back from the control plane for the debit of a heartbeat; nothing where no call is made.\<close>

definition tick_answer ::
  "credits_config \<Rightarrow> (debit_call \<Rightarrow> http_reply) \<Rightarrow> string \<Rightarrow> sandbox_tick_body \<Rightarrow> http_reply" where
  "tick_answer cfg send org b =
     (case (if credits_active cfg then cx_internal_secret cfg else None) of
        None \<Rightarrow> Unreachable
      | Some secret \<Rightarrow> send \<lparr>dl_url = debit_url cfg, dl_secret = secret,
          dl_body = sandbox_debit_body org (st_run_id b) (st_tick_index b) (sandbox_billed cfg b)\<rparr>)"

lemma sandbox_debit_by_answer:
  assumes "debit_sandbox_sync cfg send meanwhile (st_org_id b) (st_run_id b) (st_tick_index b) (sandbox_billed cfg b) w
      = (r, w')"
    and "present (st_org_id b) = Some org" and "cx_enabled cfg" and "0 < sandbox_billed cfg b"
  shows "case confirmed_balance (tick_answer cfg send org b) of
      None \<Rightarrow> r = Inl () \<and> is_org_accounting_unavailable org w'
    | Some n \<Rightarrow> r = Inr (Some n) \<and> org_balance org w' = Some n \<and> is_org_empty org w' = (n \<le> 0)
        \<and> \<not> is_org_accounting_unavailable org w'"
proof -
  have "confirmed_balance Unreachable = None" by (simp add: confirmed_balance_def)
  then show ?thesis
    using assms balance_settles [of org] marked_unavailable [of org]
    by (auto simp: debit_sandbox_sync_def tick_answer_def split: option.splits if_splits)
qed

text \<open>
  A heartbeat in full: one that is not new is answered without a charge; else the answer of the control
  plane decides.
\<close>

lemma repeated_heartbeat:
  assumes "sandbox_tick cfg caller send between meanwhile b s = (Inr resp, s')"
    and "replayed (st_run_id b) (st_tick_index b) (fst s) = Some accrued"
  shows "resp = \<lparr>sp_accrued = accrued, sp_balance = None, sp_verdict = Continue\<rparr> \<and> s' = s"
  using assms by (auto simp: sandbox_tick_def split: sum.splits if_splits)

lemma heartbeat_by_answer:
  assumes "sandbox_tick cfg caller send between meanwhile b s = (Inr resp, m', w')"
    and "replayed (st_run_id b) (st_tick_index b) (fst s) = None"
    and "present (st_org_id b) = Some org" and "cx_enabled cfg" and "0 < sandbox_billed cfg b"
  shows "sp_accrued resp = sat_add (accrued_of (st_run_id b) (between (fst s))) (sandbox_billed cfg b)
    \<and> (case confirmed_balance (tick_answer cfg send org b) of
         None \<Rightarrow> sp_verdict resp = KillAccounting \<and> sp_balance resp = None \<and> is_org_accounting_unavailable org w'
       | Some n \<Rightarrow> sp_balance resp = Some n \<and> org_balance org w' = Some n \<and> is_org_empty org w' = (n \<le> 0)
           \<and> \<not> is_org_accounting_unavailable org w'
           \<and> (is_kill (sp_verdict resp) \<longleftrightarrow>
                n \<le> 0 \<or> 0 < st_per_run_budget b \<and> st_per_run_budget b \<le> sp_accrued resp))
    \<and> (is_kill (sp_verdict resp) \<longrightarrow> bt_get m' (st_run_id b) = None)"
proof -
  let ?billed = "sandbox_billed cfg b"
  obtain accrued m where acc: "accrue (st_run_id b) (st_tick_index b) ?billed (between (fst s)) = (accrued, m)" by fastforce
  obtain paid w where paid: "debit_sandbox_sync cfg send (snd meanwhile) (st_org_id b) (st_run_id b)
      (st_tick_index b) ?billed (snd s) = (paid, w)" by fastforce
  have w: "w' = w" and resp: "sp_accrued resp = accrued"
      "sp_balance resp = (case paid of Inr n \<Rightarrow> n | Inl _ \<Rightarrow> None)"
      "sp_verdict resp = (case paid of Inl _ \<Rightarrow> KillAccounting
        | Inr _ \<Rightarrow> compute_verdict accrued (st_per_run_budget b) (sp_balance resp) ?billed)"
      and gone: "is_kill (sp_verdict resp) \<Longrightarrow> m' = without (st_run_id b) (fst meanwhile m)"
    using assms(1,2) acc paid by (auto simp: sandbox_tick_def Let_def split: sum.splits if_splits)
  have "accrued = sat_add (accrued_of (st_run_id b) (between (fst s))) ?billed"
    using acc by (simp add: accrue_def Let_def)
  moreover have "is_kill (sp_verdict resp) \<longrightarrow> bt_get m' (st_run_id b) = None"
    using gone by (simp add: bt_get_without)
  moreover have "case confirmed_balance (tick_answer cfg send org b) of
      None \<Rightarrow> sp_verdict resp = KillAccounting \<and> sp_balance resp = None \<and> is_org_accounting_unavailable org w'
    | Some n \<Rightarrow> sp_balance resp = Some n \<and> org_balance org w' = Some n \<and> is_org_empty org w' = (n \<le> 0)
        \<and> \<not> is_org_accounting_unavailable org w'
        \<and> (is_kill (sp_verdict resp) \<longleftrightarrow> n \<le> 0 \<or> 0 < st_per_run_budget b \<and> st_per_run_budget b \<le> sp_accrued resp)"
  proof (cases "confirmed_balance (tick_answer cfg send org b)")
    case None
    with sandbox_debit_by_answer [OF paid assms(3-5)] show ?thesis using resp w by simp
  next
    case (Some n)
    with sandbox_debit_by_answer [OF paid assms(3-5)]
    have n: "paid = Inr (Some n)" "org_balance org w = Some n" "is_org_empty org w = (n \<le> 0)"
      "\<not> is_org_accounting_unavailable org w" by simp_all
    have "is_kill (compute_verdict accrued (st_per_run_budget b) (Some n) ?billed) \<longleftrightarrow>
        n \<le> 0 \<or> 0 < st_per_run_budget b \<and> st_per_run_budget b \<le> accrued"
      using verdict_lives [of accrued "st_per_run_budget b" "Some n" ?billed] by auto
    then show ?thesis using Some n resp w by simp
  qed
  ultimately show ?thesis using resp(1) by simp
qed

text \<open>
  Heartbeats that come one after the other count once each: those that are not above the highest one
  so far are repetitions.
\<close>

fun meter :: "string \<Rightarrow> (nat \<times> nat) list \<Rightarrow> accruals \<Rightarrow> accruals" where
  "meter run [] m = m"
| "meter run ((tick, billed) # ts) m =
     meter run ts (case replayed run tick m of Some _ \<Rightarrow> m | None \<Rightarrow> snd (accrue run tick billed m))"

fun fresh_cost :: "nat option \<Rightarrow> (nat \<times> nat) list \<Rightarrow> nat" where
  "fresh_cost seen [] = 0"
| "fresh_cost seen ((tick, billed) # ts) =
     (if (case seen of Some k \<Rightarrow> tick \<le> k | None \<Rightarrow> False) then fresh_cost seen ts
      else billed + fresh_cost (Some tick) ts)"

lemma metered_once:
  assumes "accrued_of run m \<le> usize_max"
  shows "accrued_of run (meter run ts m) =
    min (accrued_of run m + fresh_cost (map_option ra_last_tick (bt_get m run)) ts) usize_max"
  using assms
proof (induction ts arbitrary: m)
  case (Cons t ts)
  obtain tick billed where t: "t = (tick, billed)" by fastforce
  show ?case
  proof (cases "replayed run tick m")
    case None
    then have "\<not> (case map_option ra_last_tick (bt_get m run) of Some k \<Rightarrow> tick \<le> k | None \<Rightarrow> False)"
      by (auto simp: replayed_def split: option.splits if_splits)
    then show ?thesis
      using Cons.IH [of "snd (accrue run tick billed m)"] None
      by (simp add: t accrue_def accrued_of_def Let_def bt_get_insert sat_add_def)
  next
    case (Some a)
    then show ?thesis
      using Cons by (auto simp: t replayed_def split: option.splits if_splits)
  qed
qed simp

text \<open>
  Two copies of a heartbeat at once both pass the guard.  And when the answer that kills a run is lost,
  the repeated heartbeat finds no accrual: the cost of the run starts again from nothing, and it goes on.
\<close>

lemma copies_count_twice:
  "replayed ''r'' 1 [] = None
   \<and> accrued_of ''r'' (snd (accrue ''r'' 1 5 (snd (accrue ''r'' 1 5 [])))) = 10"
  by (simp add: replayed_def accrued_of_def accrue_def Let_def bt_get_insert sat_add_def bt_get_def)

end
