(* ===== verification/Gateway_DebitTrial.thy ===== *)
theory Gateway_DebitTrial
  imports Gateway_SpendTrial Gateway_Outage Gateway_Sandbox
begin

section \<open>Debits of the tenant with a dollar\<close>

text \<open>
  The concrete inputs of the witnesses about debits: a completion that is charged, an outage of a
  single call to the control plane, and a sandbox.
\<close>

subsection \<open>A completion\<close>

definition trial_receipt :: completion_receipt where
  "trial_receipt =
     \<lparr>rc_provider = ''anthropic'', rc_model = ''claude-x'', rc_reason = ''gateway_usage'', rc_estimated_input = 100,
      rc_budget = None, rc_zero_cost = False\<rparr>"

definition trial_response :: json where
  "trial_response = JObject [(''usage'', JObject [(''completion_tokens'', json_nat 1000), (''prompt_tokens'', json_nat 2000)])]"

text \<open>Two thousand tokens in and a thousand out: 21000 micro-dollars, and five percent on top.\<close>

definition trial_debit :: pending_debit where
  "trial_debit =
     \<lparr>pd_org = ''acme'', pd_ref_id = ''q1'', pd_reason = ''gateway_usage'', pd_cost = 21000, pd_sticky = True,
      pd_tier = None, pd_pool = pool_for_gateway_provider ''anthropic'',
      pd_attribution = \<lparr>dg_duration_ms = Some 900, dg_input_tokens = Some 2000, dg_model = Some ''claude-x'',
        dg_output_tokens = Some 1000, dg_provider = Some ''anthropic'', dg_task_label = None,
        dg_estimated = Some True, dg_user_id = Some ''ann''\<rparr>\<rparr>"

lemma trial_settled:
  "fst (settle_completion spend_credits spend_prices spend_ctx ''q1'' trial_receipt trial_response None 900 True
     (new_enforcer no_budgets)) = Spawned trial_debit"
  by code_simp

lemma trial_debit_call:
  "map_option dl_body (debit_call_for spend_credits trial_debit) = Some (JObject
     [(''amountMicroUsd'', json_nat 22050), (''durationMs'', json_nat 900), (''estimated'', JBool True),
      (''inputTokens'', json_nat 2000), (''model'', JString ''claude-x''), (''orgId'', JString ''acme''),
      (''outputTokens'', json_nat 1000), (''provider'', JString ''anthropic''), (''reason'', JString ''gateway_usage''),
      (''refId'', JString ''q1''), (''userId'', JString ''ann'')])"
  by code_simp

subsection \<open>One call that fails\<close>

definition debit_env :: spend_env where
  "debit_env = spend_environment no_budgets []"

definition trial_running :: running_request where
  "trial_running =
     \<lparr>rn_reservation = Some \<lparr>cr_org = ''acme'', cr_amount = 133333\<rparr>, rn_org = Some ''acme'', rn_managed = True\<rparr>"

definition outage_events :: "account_event list" where
  "outage_events =
     [AsksFor debit_env spend_ctx ChargeModel Clamp (ask_for ''claude-x'' []) (''anthropic'', ''claude-x''),
      Answers trial_running trial_debit Unreachable, Ends trial_running]"

definition idle_account :: account where
  "idle_account = \<lparr>ac_wallet = new_wallet, ac_running = []\<rparr>"

definition outage_account :: account where
  "outage_account = \<lparr>ac_wallet = new_wallet\<lparr>ws_unavailable := [(''acme'', True)]\<rparr>, ac_running = []\<rparr>"

lemma outage_asked:
  "account_step spend_credits (AsksFor debit_env spend_ctx ChargeModel Clamp (ask_for ''claude-x'' [])
     (''anthropic'', ''claude-x'')) idle_account
   = Some \<lparr>ac_wallet = new_wallet\<lparr>ws_in_flight := [(''acme'', 133333)]\<rparr>, ac_running = [trial_running]\<rparr>"
proof -
  have "se_credits debit_env = spend_credits" by (simp add: debit_env_def spend_environment_def)
  moreover have "present (rq_org spend_ctx) = Some ''acme''" "rq_managed spend_ctx" by (simp_all add: spend_ctx_def present_def)
  ultimately show ?thesis
    using spend_served
    by (simp add: spend_outcome_def debit_env_def idle_account_def trial_running_def new_wallet_def)
qed

lemma outage_answered:
  "debit_wallet_for_request spend_credits (\<lambda>_. Unreachable) id trial_debit (new_wallet\<lparr>ws_in_flight := [(''acme'', 133333)]\<rparr>)
   = new_wallet\<lparr>ws_in_flight := [(''acme'', 133333)], ws_unavailable := [(''acme'', True)]\<rparr>"
  by code_simp

lemma outage_ended:
  "gives_up trial_running (new_wallet\<lparr>ws_in_flight := [(''acme'', 133333)], ws_unavailable := [(''acme'', True)]\<rparr>)
   = new_wallet\<lparr>ws_unavailable := [(''acme'', True)]\<rparr>"
  by code_simp

lemma outage_happens: "run_events (account_step spend_credits) outage_events idle_account = Some outage_account"
proof -
  have "owes spend_credits trial_running trial_debit"
    by (simp add: owes_def trial_running_def trial_debit_def spend_credits_def)
  then show ?thesis
    by (simp del: account_step.simps(1) add: outage_events_def outage_asked outage_answered outage_ended outage_account_def)
qed

lemma outage_blocks: "blocked spend_credits ''acme'' (ac_wallet outage_account)"
  by code_simp

lemma spend_credits_active: "credits_active spend_credits"
  by code_simp

subsection \<open>A sandbox\<close>

definition trial_spec :: sandbox_spec where
  "trial_spec =
     \<lparr>sx_vcpu = 2, sx_mem_gib = 4, sx_storage_gib = 10, sx_gpu = GpuNone, sx_gpu_count = 0, sx_os = Linux\<rparr>"

definition trial_tick :: "nat \<Rightarrow> nat \<Rightarrow> sandbox_tick_body" where
  "trial_tick i cap =
     \<lparr>st_run_id = ''r1'', st_org_id = Some ''acme'', st_spec = trial_spec, st_elapsed_seconds = 60, st_tick_index = i,
      st_per_run_budget = cap\<rparr>"

definition reports_balance :: "int \<Rightarrow> debit_call \<Rightarrow> http_reply" where
  "reports_balance n _ = Answered 200 (Some (JObject [(''balanceMicroUsd'', JNum (JInt n))]))"

definition trial_heartbeat :: "nat \<Rightarrow> accruals \<times> wallet_state
   \<Rightarrow> (gateway_error + sandbox_tick_response) \<times> accruals \<times> wallet_state" where
  "trial_heartbeat i = sandbox_tick spend_credits (Inr True) (reports_balance 500000) id (id, id) (trial_tick i 7000)"

lemma trial_heartbeat_first:
  "trial_heartbeat 0 ([], new_wallet) =
     (Inr \<lparr>sp_accrued = 3600, sp_balance = Some 500000, sp_verdict = Continue\<rparr>,
      [(''r1'', \<lparr>ra_accrued = 3600, ra_last_tick = 0\<rparr>)], new_wallet\<lparr>ws_balance := [(''acme'', 500000)]\<rparr>)"
  by code_simp

text \<open>
  The second heartbeat reaches the cap and kills the run.  Should its answer get lost, the same heartbeat
  sent again is taken for the first of a new run, and the sandbox goes on.
\<close>

lemma lost_kill_is_forgotten:
  "case trial_heartbeat 1 (snd (trial_heartbeat 0 ([], new_wallet))) of
     (killed, s) \<Rightarrow> killed = Inr \<lparr>sp_accrued = 7200, sp_balance = Some 500000, sp_verdict = KillBudget\<rparr>
       \<and> fst (trial_heartbeat 1 s) = Inr \<lparr>sp_accrued = 3600, sp_balance = Some 500000, sp_verdict = Continue\<rparr>"
  by code_simp

end
