(* ===== verification/Spec2Isabelle.thy ===== *)
theory Spec2Isabelle
  imports SafeActions_Trial SafeActions_Moment SafeActions_Review SafeActions_Operator Core_Acl Core_PluginTrial Gateway_Trial Gateway_DebitTrial
begin

text \<open>
  \<^bold>\<open>Ryu: a verification library for its decision-making code\<close>

  Ryu is an agent platform.  Three of its programs are modelled here, in the parts that decide something:

  \<^item> \<^bold>\<open>Safe Actions\<close> (\<open>crates/core/safe-actions\<close>, \<open>apps/core/src/safe_actions\<close>).  An agent submits a
    plan, a tree of tool calls.  The verifier checks it against the catalog of tools and the policy of
    the agent; a plan it cannot prove waits for a reviewer.  A certificate binds the verdict to what
    was checked, the store records submissions and executions, and the executor dispatches the calls
    one by one, checking before each that nothing changed.
  \<^item> \<^bold>\<open>Core\<close> (\<open>apps/core/src\<close>): who may access what (\<open>identity_verify\<close>, \<open>acl\<close>), and the plugin platform
    (\<open>plugins\<close>): what must be enabled before a plugin, which plugin provides a capability, and the
    operations that install, enable, disable, update and uninstall.
  \<^item> \<^bold>\<open>Gateway\<close> (\<open>apps/gateway/src\<close>, \<open>crates/gateway/router\<close>, \<open>crates/gateway/budget\<close>): every request to a
    model goes through it.
    The router picks a provider and its fallbacks, the node may ask for another order, the policy of
    the tenant forbids models and regions, the firewall policy is resolved from four scopes, the balance
    and the budgets decide whether the request may be paid for and how long its answer may be, and the
    dispatch loop tries the providers under the circuit breaker and the admission gate.

  The verifier, the certificates, the store and the executor form one chain: the executor calls the
  verifier again before it runs a plan and the certificate check before each step, and every change of
  the store is one of the store's operations.  The plugin lifecycle calls the graph, the bindings and
  the plugin store.  In the gateway, the chain that \<open>Gateway_NodeRouting\<close> clamps comes from
  \<open>Gateway_Router\<close> and is walked by \<open>Gateway_Failover\<close>, which asks \<open>Gateway_Policy\<close> and
  \<open>Gateway_Circuit\<close> and waits at the gate of \<open>Gateway_Admission\<close>.  Before that, \<open>Gateway_Enforce\<close> asks
  \<open>Gateway_Credit\<close> for the gates and the reservation and \<open>Gateway_Budget\<close> for the verdict, and may send
  the request to another model through \<open>Gateway_Router\<close>.

  \<^bold>\<open>How the model is written.\<close>  A Rust struct is a record and an enum a datatype, in the order and with
  the names of the source (prefixed where two would clash); \<open>u32\<close> and \<open>u64\<close> are words; a \<open>String\<close> is the
  list of its UTF-8 bytes; a \<open>Result\<close> is a sum with the error on the left.  A \<open>BTreeMap\<close> is a sorted
  association list; a \<open>HashMap\<close> or \<open>DashMap\<close> is one too where only lookups matter, and where the code
  iterates one the order is either proved irrelevant (\<open>routing_ignores_map_order\<close>) or left to the caller.  A method with
  \<open>&mut self\<close> or a lock takes its state and returns it.  Where the code waits, what others do meanwhile
  is an argument (a function on the shared state, or a step of a step relation), so the properties hold
  for every interleaving; the plugin operations are the exception, they run one at a time but for an
  enable that others overtake (\<open>enable_app_meanwhile\<close>).  All definitions that model code are executable; the witnesses evaluate them.

  \<^bold>\<open>Shared theories.\<close>
  \<open>Ryu_Prelude\<close>: machine integers, saturating arithmetic, the functions of \<open>str\<close>, sorted sets and maps,
  with the locale \<open>map_store\<close> for what the components use of a map.  \<open>Ryu_Json\<close>: JSON values, canonical
  form, the serializer as a parameter.  \<open>Ryu_Trim\<close>: \<open>str::trim\<close> on UTF-8.

  \<^bold>\<open>Safe Actions.\<close>
  \<open>SafeActions_Model\<close>: the types of \<open>model.rs\<close>.
  \<open>SafeActions_Text\<close>, \<open>_Schema\<close>, \<open>_Assign\<close>, \<open>_Check\<close>, \<open>_Values\<close>, \<open>_Verify\<close>: \<open>verifier.rs\<close>, from the
  string predicates and the JSON schemas to \<open>verify\<close>; each checker comes with the equation that says
  when it leaves no finding, and \<open>_Verdict\<close> puts these together into a declarative description of an
  acceptable plan (C1 to C7).
  \<open>_Certificate\<close>: \<open>certificate.rs\<close>; a certificate that was issued validates for exactly what it was
  issued for and until it expires (\<open>issued_certificates_validate\<close>).
  \<open>_Store\<close>, \<open>_PolicyStore\<close>: \<open>store.rs\<close>, one definition per transaction.  \<open>_Lifecycle\<close> has the abstract
  store, a step relation, its invariant, and the locale \<open>write_once\<close>, interpreted for submissions and for
  executions (C8, C9).
  \<open>_Materialize\<close>, \<open>_Exec\<close>, \<open>_Service\<close>, \<open>_Dispatch\<close>: \<open>safe_actions/mod.rs\<close>.  \<open>_Run\<close> describes the
  executor as elementary steps, \<open>_Moment\<close> says in which world and store each call was verified again
  before its tool was run, \<open>_Refine\<close> maps every request to steps of the store, and \<open>_Replay\<close> is about
  clients that ask again (C10 to C14).
  \<open>_Review\<close>, \<open>_Operator\<close>: what reviewers see and what operators may write.
  \<open>_Sample\<close>, \<open>_Trial\<close>: a concrete host for the witnesses.

  \<^bold>\<open>Core.\<close>
  \<open>Core_Identity\<close>: \<open>identity_verify/mod.rs\<close> (C15).  \<open>Core_Acl\<close>: \<open>acl/mod.rs\<close> (C16, C17).
  \<open>Core_PluginManifest\<close>: the manifest as the lifecycle reads it.  \<open>Core_PluginGraph\<close>, \<open>Core_PluginDisable\<close>:
  \<open>graph.rs\<close> (C18, C19, \<open>disable_order_is_topological\<close>).  \<open>Core_PluginBinding\<close>: \<open>binding.rs\<close>.  \<open>Core_PluginStore\<close>: the records of
  \<open>plugins/mod.rs\<close> and the tiers of \<open>builtins.rs\<close>.  \<open>Core_PluginLifecycle\<close>: \<open>lifecycle.rs\<close>.
  \<open>Core_PluginSound\<close>, \<open>Core_PluginGrants\<close> and \<open>Core_PluginReach\<close> prove what the lifecycle keeps of graph,
  bindings and store, in every state that the operations lead to one after the other; an enable may be
  overtaken, while it waits for the gateway, by what turns no plugin on or off (C20 to C23).
  \<open>Core_PluginTrial\<close>: samples, and what an enable does that a disable overtakes.

  \<^bold>\<open>Gateway.\<close>
  \<open>Gateway_Machine\<close>: runs of a machine over events; the locales \<open>invariant_machine\<close> and
  \<open>progress_machine\<close>, interpreted for the gate, its waiters, the circuits, the cache of scanners, the
  budget of executions, the reservations and the requests with their debits.
  \<open>Gateway_Admission\<close>, \<open>Gateway_Waiting\<close>: \<open>concurrency/mod.rs\<close>.  A gate is a record; a world around it
  adds the one-shot channels, the permits, the guards being dropped and the senders between the lock and
  \<open>send\<close>.  Each event is one critical section or one hand-over, so every interleaving of the code is a
  sequence of events (C24 to C26).
  \<open>Gateway_Circuit\<close>: \<open>circuit_breaker/mod.rs\<close>; the locale \<open>breaker\<close> is the contract of a backend that the
  dispatch relies on, interpreted for the built-in one (C27, and \<open>circuit_opens_at_threshold\<close>).
  \<open>Gateway_Policy\<close>: \<open>policy/mod.rs\<close>, \<open>error.rs\<close>, \<open>providers/mod.rs\<close>, \<open>pipeline/inference_governance.rs\<close>.
  \<open>Gateway_Failover\<close>, \<open>Gateway_Probe\<close>: the dispatch loops of \<open>run\<close> and \<open>run_stream\<close> in
  \<open>pipeline/mod.rs\<close> and, over many requests, what becomes of a probe (C28 to C30).
  \<open>Gateway_Firewall\<close>, \<open>Gateway_Cascade\<close>: \<open>firewall/resolve.rs\<close> (C31, C33).
  \<open>Gateway_Router\<close>: \<open>crates/gateway/router/src/lib.rs\<close>.  \<open>Gateway_NodeRouting\<close>:
  \<open>pipeline/node_routing.rs\<close> (C32, C34).  \<open>Gateway_Trial\<close>: samples.

  \<^bold>\<open>Gateway, money.\<close>
  \<open>Gateway_Budget\<close>: the budgets of \<open>crates/gateway/budget/src/lib.rs\<close>, with the registry of enforcers.
  \<open>Gateway_Spending\<close> gives them an abstract specification, the list of what was charged: a counter is the
  sum of the charges its rule counts, and the verdict follows from these sums (C35); it also has the
  budget of sandbox executions (\<open>executions_within_count\<close>).
  \<open>Gateway_Wallet\<close>: the balances of the same file and the reservations of running requests, as a machine
  in which the two critical sections of a release are separate events (C36).
  \<open>Gateway_Credit\<close>: prices, markup, the gates and the output ceiling of \<open>config.rs\<close> and
  \<open>pipeline/mod.rs\<close> (C37).  \<open>Gateway_Enforce\<close>: \<open>enforce_budget\<close> with the alert of \<open>policy_alert.rs\<close>
  (C38).  \<open>Gateway_SpendTrial\<close>: a tenant with a dollar, and what the code gets wrong for it.
  \<open>Gateway_Debit\<close>: what an answered call or a tool is charged, the debit that is sent for it and what its
  answer does to the wallet (\<open>settle_completion\<close> of \<open>pipeline/inference_governance.rs\<close>, the debit functions of
  \<open>pipeline/mod.rs\<close>).  \<open>Gateway_Outage\<close> puts requests and their debits together in one machine (C40).
  \<open>Gateway_Sandbox\<close>: the metering of sandboxes, \<open>api/sandbox.rs\<close> (C39).  \<open>Gateway_DebitTrial\<close>: samples.

  \<^bold>\<open>Loops and fuel.\<close>  The loops are structural recursions or come with a measure.  Two searches over the
  plugin graph recurse along edges that may form cycles and take fuel, with \<open>None\<close> for running out:
  \<open>resolve_enable_order\<close> starts with one more than the number of manifests and C19 proves that it always
  returns, since each level of the recursion marks a manifest that was not marked; the walk over the
  dependents starts with two more than that number (every manifest, the target, and the last step), and
  \<open>disable_order_is_topological\<close> states its result outright.  The executor recurses over the plan (C12 proves that it ends in a
  result or in an error of the host).  A release that meets cancelled waiters recurses on the length of the queues.

  \<^bold>\<open>Parameters.\<close>  Libraries, and the code that only does input and output, are arguments: the serializer
  and SHA-256 (\<open>canonicalizer\<close>), the serialized form of a certificate (\<open>certifier\<close>), the host with its
  tools, clocks and agents (\<open>host\<close>), JSON pointers at run time, the comparison of versions (\<open>semver\<close>), the HTTP answer of the
  gateway to a validation of grants, the failures of the database (\<open>faults\<close>), base64 and serde, the compiled scanner and the hash of
  its policy, the digest of an alert, the call of a provider, the answer of the
  control plane, and a cost in micro-dollars where the code converts one from a floating-point number.  The clamp of \<open>Gateway_NodeRouting\<close> holds
  for any gate on pools; the code passes \<open>preflight_credit_gate\<close> of \<open>Gateway_Credit\<close>.  Hypotheses about them say what their
  documentation promises, and each is met by a concrete instance in a witness.

  \<^bold>\<open>Known deviations of the code\<close>, each with its lemma: an operator can store a contract that no call can
  satisfy (\<open>bad_escape_unusable\<close>); an open object schema counts as assignable to one that constrains
  an undeclared property (\<open>assignable_open_object\<close>, the exception in C6); \<open>rekey\<close> reports the opposite of what it is
  documented to (\<open>rekey_reports_the_opposite\<close>); an enable whose read fails after its write is not rolled
  back (\<open>unread_enable_stays\<close>, the exception in C21); a disable that overtakes an enable leaves an enabled
  plugin without what it needs (\<open>overtaken_enable_breaks_needs\<close>, excluded in C20); a probe that ends in a rate limit leaves its circuit
  half open for good (C30); a region denial hides the payment error (\<open>region_hides_payment\<close>, the exception
  in C29); a request may swap the model of a locked inspector (\<open>request_swaps_inspector_model\<close>, the exception in
  C31 and C32); a provider that the operator lists twice is tried twice (\<open>repeated_provider\<close>, see C34); a hosted
  bundle does not always replace the local overlay of an organization (\<open>local_org_under_bundle\<close>);
  cancelled waiters fill the queue (\<open>crowd_refuses\<close>); a model that costs less than the flat rate is refused
  when no ceiling is stated (\<open>cheap_model_refused\<close>, excluded in the last case of C37); a request that can afford
  nothing and states no ceiling gets none (\<open>nothing_affordable_unbounded\<close>, the second case of C37); a restriction may raise the ceiling or leave it
  (\<open>restrict_raises\<close>, \<open>restrict_leaves_other_key\<close>); a downgrade is not gated again
  (\<open>downgrade_skips_the_gate\<close>, so C38 speaks of the pool of the route before it); a debit that fails once locks a
  funded organization out until a tool or a sandbox of it is debited (C40, also after a wallet ran empty and
  was topped up); a killed sandbox whose answer is
  lost goes on (\<open>lost_kill_is_forgotten\<close>), and two copies of a heartbeat at once count twice
  (\<open>copies_count_twice\<close>).

  \<^bold>\<open>Not modelled.\<close>
  In what is modelled: log lines, metrics and message texts that nothing reads; lists and reads of the
  user interface; poisoned locks; the JSON of the tool interface; the time limit of a tool call (a failure
  of the call); two readings of the clock within one operation are one; evidence is loaded as one
  snapshot.  Of the plugin platform: provenance, channels, time stamps, the process-wide binding
  configuration, \<open>describe_capabilities\<close> and \<open>plan_update_dep_closure\<close>.  Of the gateway: routes by
  floating-point scores, the patterns of the scanners, what a request passes before the dispatch
  (authentication, rate limit, cache), the audit of an answer, the prices of media that come
  from floating-point timings, the debits of streams, media and video jobs (they call the same
  \<open>debit_wallet_for_request\<close>), and the cached flag of the shared budget.
  Left out as a whole, being mostly input, output and calls to services: the HTTP servers, the adapters of
  tools, channels and providers, plugin catalogs and loading, workflows, spaces, memory and retrieval,
  configuration files, the desktop shell and the ghost services.
\<close>

section \<open>The verifier\<close>

text \<open>
  C1: \<open>verify\<close> accepts a plan (its decision is not \<open>Denied\<close>) exactly when the plan, the policy and
  the catalog are acceptable in the declarative sense: everything hashes, the limits hold, node ids
  are well formed and unique, the catalog describes every tool once with supported schemas, and the
  plan is well typed under it, with every call permitted.
\<close>

theorem verifier_accepts: "decision (verify s inp) \<noteq> Denied \<longleftrightarrow> acceptable s inp"
  by (rule verify_accepts)

text \<open>
  \<open>verify\<close> proves a plan exactly when it is acceptable and no call of it is subject to review.
\<close>

lemma verifier_proves: "decision (verify s inp) = Proved \<longleftrightarrow> acceptable s inp \<and> unreviewed s inp"
  by (rule verify_proves)

text \<open>
  C2: Every call of an accepted plan is to a tool of the catalog whose contract is attested, which
  no deny rule matches (whatever the allow rules say), which an allow rule does match, and whose
  effects the policy allows.
\<close>

theorem accepted_calls_permitted:
  assumes "decision (verify s inp) \<noteq> Denied"
    and "(i, tool, args) \<in> set (plan_calls (root (plan inp)))"
  shows "\<exists>d c. d \<in> set (catalog inp) \<and> td_name d = tool \<and> contract d = Some c \<and> attested c
    \<and> \<not> rule_matches (deny_tools (policy_of inp)) tool
    \<and> rule_matches (allow_tools (policy_of inp)) tool
    \<and> set (effects c) \<subseteq> set (allowed_effects (policy_of inp))"
proof -
  have "acceptable s inp" using assms(1) by (simp add: verify_accepts)
  from this assms(2) show ?thesis
    by (rule accepted_call) (auto simp: described_def contract_permitted_def)
qed

theorem accepted_calls_permitted_witness:
  "\<exists>d c. d \<in> set (catalog sample_input) \<and> td_name d = ''fs.list'' \<and> contract d = Some c \<and> attested c
    \<and> \<not> rule_matches (deny_tools (policy_of sample_input)) ''fs.list''
    \<and> rule_matches (allow_tools (policy_of sample_input)) ''fs.list''
    \<and> set (effects c) \<subseteq> set (allowed_effects (policy_of sample_input))"
  by (rule accepted_calls_permitted [OF sample_accepted, of "''list''" _ "PObject []"])
    (simp add: sample_input_def sample_plan_def sample_reads_def)

text \<open>
  C3: The resources of an accepted call are exactly those of its contract and those derived from its
  arguments, and each is inside a resource pattern of the policy: it is the pattern, or it lies below
  the directory the pattern names, and no segment below that directory is a dot segment, so the
  path cannot climb out of it.
\<close>

theorem accepted_resources_contained:
  assumes "decision (verify s inp) \<noteq> Denied"
    and "(i, tool, args) \<in> set (plan_calls (root (plan inp)))"
    and "described inp tool d" and "contract d = Some c"
    and "r \<in> set (call_resources args c)"
  shows "\<exists>p \<in> set (allowed_resources (policy_of inp)). p = r \<or>
    (\<exists>dir suf. p = dir @ ''/*'' \<and> dir \<noteq> [] \<and> r = dir @ ''/'' @ suf \<and> suf \<noteq> []
       \<and> (\<forall>seg \<in> set (split_on (CHR ''/'') suf). seg \<noteq> ''.'' \<and> seg \<noteq> ''..''))"
proof -
  have ok: "acceptable s inp" using assms(1) by (simp add: verify_accepts)
  from ok assms(2) obtain d' c' where d: "described inp tool d'" "contract d' = Some c'"
    and perm: "contract_permitted (policy_of inp) args c'" by (rule accepted_call)
  have "c' = c" using described_unique [OF ok assms(3) d(1)] d(2) assms(4) by simp
  with perm assms(5) have r: "valid_resource_identifier r"
    and "resource_granted (allowed_resources (policy_of inp)) r"
    by (auto simp: contract_permitted_def)
  then obtain p where p: "p \<in> set (allowed_resources (policy_of inp))"
      "valid_resource_pattern p" "resource_matches p r"
    by (auto simp: resource_granted_def list_ex_iff)
  from resource_match_contained [OF p(2) r p(3)] p(1) show ?thesis by (rule bexI)
qed

theorem accepted_resources_contained_witness:
  "\<exists>p \<in> set (allowed_resources (policy_of sample_input)). p = ''file:/docs/a.txt'' \<or>
    (\<exists>dir suf. p = dir @ ''/*'' \<and> dir \<noteq> [] \<and> ''file:/docs/a.txt'' = dir @ ''/'' @ suf \<and> suf \<noteq> []
       \<and> (\<forall>seg \<in> set (split_on (CHR ''/'') suf). seg \<noteq> ''.'' \<and> seg \<noteq> ''..''))"
proof (rule accepted_resources_contained [OF sample_accepted,
    of "''first''" "''fs.read''" "sample_arguments ''a.txt''" read_tool read_contract])
  show "(''first'', ''fs.read'', sample_arguments ''a.txt'')
      \<in> set (plan_calls (root (plan sample_input)))"
    by (simp add: sample_input_def sample_plan_def sample_reads_def)
  show "described sample_input ''fs.read'' read_tool"
    by (simp add: described_def sample_input_def read_tool_def)
  show "contract read_tool = Some read_contract" by (simp add: read_tool_def)
  have "call_resources (sample_arguments ''a.txt'') read_contract = [''file:/docs/a.txt'']"
    by code_simp
  then show "''file:/docs/a.txt'' \<in> set (call_resources (sample_arguments ''a.txt'') read_contract)"
    by simp
qed

text \<open>
  C4: The calls inside a parallel group of an accepted plan, at whatever depth, are reads and
  nothing else, and the policy allows parallel reads.
\<close>

theorem accepted_parallel_reads:
  assumes "decision (verify s inp) \<noteq> Denied"
    and "Parallel i nodes \<in> set (subnodes (root (plan inp)))"
    and "(j, tool, args) \<in> set (concat (map plan_calls nodes))"
  shows "allow_parallel_reads (policy_of inp)
    \<and> (\<exists>d c. d \<in> set (catalog inp) \<and> td_name d = tool \<and> contract d = Some c \<and> set (effects c) = {Read})"
proof -
  have ok: "acceptable s inp" using assms(1) by (simp add: verify_accepts)
  then obtain \<Gamma> where "node_typed (verify_env_of s inp) Map.empty (root (plan inp)) \<Gamma>"
    by (auto simp: acceptable_def)
  from typed_subnodes(1) [OF this assms(2)] obtain \<Gamma>1 \<Gamma>2
    where "node_typed (verify_env_of s inp) \<Gamma>1 (Parallel i nodes) \<Gamma>2" by blast
  then have "allow_parallel_reads (env_policy (verify_env_of s inp))"
    and reads: "\<forall>c \<in> set (concat (map collect_calls nodes)).
      call_read_only (env_catalog (verify_env_of s inp)) (snd c)"
    by (auto elim!: typed_parallelE)
  then have par: "allow_parallel_reads (policy_of inp)" by (simp add: verify_env_of_def)
  from assms(3) obtain n where n: "n \<in> set nodes" and "(j, tool, args) \<in> set (plan_calls n)" by auto
  then have "(j, tool) \<in> set (collect_calls n)" by (force simp: collect_calls_plan)
  with n reads have "call_read_only (env_catalog (verify_env_of s inp)) tool" by force
  then obtain d c where "bt_get (env_catalog (verify_env_of s inp)) tool = Some d"
    and c: "contract d = Some c" "effects c \<noteq> []" "list_all is_read_only (effects c)"
    by (auto simp: call_read_only_def contract_of_def bind_eq_Some_conv split: option.splits)
  then have d: "d \<in> set (catalog inp)" "td_name d = tool"
    using catalog_described [OF ok] by (simp_all add: described_def)
  have "e = Read" if "e \<in> set (effects c)" for e
    using bspec [OF c(3) [unfolded list_all_iff] that] by (cases e) (simp_all add: is_read_only_def)
  then have "set (effects c) = {Read}" using c(2) by (cases "effects c") auto
  with par d c(1) show ?thesis by blast
qed

theorem accepted_parallel_reads_witness:
  "allow_parallel_reads (policy_of sample_input)
    \<and> (\<exists>d c. d \<in> set (catalog sample_input) \<and> td_name d = ''fs.read'' \<and> contract d = Some c
      \<and> set (effects c) = {Read})"
  by (rule accepted_parallel_reads [OF sample_accepted, of "''reads''"
        "[Call ''first'' ''fs.read'' (sample_arguments ''a.txt''),
          Call ''second'' ''fs.read'' (sample_arguments ''b.txt'')]"
        "''first''" _ "sample_arguments ''a.txt''"])
    (simp_all add: sample_input_def sample_plan_def sample_reads_def)

text \<open>
  For every call of an accepted plan the report records the hash of exactly its arguments and
  the list of exactly its resources, under its id.
\<close>

lemma accepted_calls_recorded:
  assumes "decision (verify s inp) \<noteq> Denied"
    and "(i, tool, args) \<in> set (plan_calls (root (plan inp)))"
  shows "\<exists>d c rs. d \<in> set (catalog inp) \<and> td_name d = tool \<and> contract d = Some c
    \<and> bt_get (invocation_resources (verify s inp)) i = Some rs \<and> set rs = set (call_resources args c)
    \<and> bt_get (argument_hashes (verify s inp)) i = sha256_canonical (codec s) (ser_value s args)"
proof -
  have ok: "acceptable s inp" using assms(1) by (simp add: verify_accepts)
  from ok assms(2) obtain d c where d: "described inp tool d" "contract d = Some c"
    by (rule accepted_call)
  from accepted_resources [OF ok assms(2) d] accepted_hashes [OF ok assms(2)] d show ?thesis
    by (auto simp: described_def set_invocation_list)
qed

lemma accepted_calls_recorded_witness:
  "\<exists>d c rs. d \<in> set (catalog sample_input) \<and> td_name d = ''fs.list'' \<and> contract d = Some c
    \<and> bt_get (invocation_resources (verify sample_serializer sample_input)) ''list'' = Some rs
    \<and> set rs = set (call_resources (PObject []) c)
    \<and> bt_get (argument_hashes (verify sample_serializer sample_input)) ''list''
      = sha256_canonical (codec sample_serializer) (ser_value sample_serializer (PObject []))"
  by (rule accepted_calls_recorded [OF sample_accepted])
    (simp add: sample_input_def sample_plan_def sample_reads_def)

text \<open>
  The order in which the registry lists the tools has no influence: the whole report, its
  catalog hash included, is the same for any order of descriptors that differ in name or bytes.
\<close>

lemma verify_ignores_catalog_order:
  assumes "inj_on (descriptor_key s) (set (catalog inp))" and "mset tools = mset (catalog inp)"
  shows "verify s (inp\<lparr>catalog := tools\<rparr>) = verify s inp"
  using assms by (rule verify_catalog_order)

lemma verify_ignores_catalog_order_witness:
  "verify sample_serializer (sample_input\<lparr>catalog := [list_tool, read_tool]\<rparr>) =
     verify sample_serializer sample_input"
  by (rule verify_ignores_catalog_order)
    (simp_all add: sample_input_def inj_on_def descriptor_key_def list_tool_def read_tool_def)

section \<open>Schemas and pointers\<close>

text \<open>
  C5: On a schema of the supported subset, the static check of a literal argument finds no error
  exactly when the run-time validation accepts the value.
\<close>

theorem literal_check_is_runtime_check:
  assumes "validate_supported_schema schema path' = []"
  shows "no_errors (validate_literal v (Some schema) path node) \<longleftrightarrow>
    validate_runtime_value v schema = Inr ()"
  using no_errors_literal [of "Some schema" v path node] assms
  by (simp add: supported_findings accepts_conforms)

theorem literal_check_is_runtime_check_witness:
  "no_errors (validate_literal (JString ''x'') (Some string_schema) ''$'' None) \<longleftrightarrow>
     validate_runtime_value (JString ''x'') string_schema = Inr ()"
  by (rule literal_check_is_runtime_check [of _ "''$''"]) code_simp

text \<open>
  C6: A schema that \<open>schema_assignable\<close> takes for another one describes no more values than it,
  provided it declares every property the other constrains.
\<close>

theorem assignable_schemas_sound:
  assumes "schema_assignable source destination" and "declares_constrained source destination"
    and "validate_runtime_value v source = Inr ()"
  shows "validate_runtime_value v destination = Inr ()"
  using assignable_sound [OF assms(1,2)] assms(3) by (simp add: accepts_conforms)

theorem assignable_schemas_sound_witness:
  "validate_runtime_value (JObject [(''path'', JString ''x'')]) open_object_schema = Inr ()"
  by (rule assignable_schemas_sound [of path_schema]) code_simp+

text \<open>
  Without that proviso it does not: an open object schema is taken for one that constrains an
  optional property, which a value of the first violates.
\<close>

lemma assignable_open_object:
  "schema_assignable open_object_schema integer_a_schema
    \<and> validate_runtime_value string_a_value open_object_schema = Inr ()
    \<and> validate_runtime_value string_a_value integer_a_schema \<noteq> Inr ()"
  by code_simp

text \<open>
  C7: A pointer parses to a list of tokens exactly when it is their RFC 6901 form: parsing inverts
  writing, and it accepts nothing else.
\<close>

theorem pointer_round_trip: "parse_json_pointer p = Inr tokens \<longleftrightarrow> p = pointer_of tokens"
  by (rule parse_pointer_iff)

text \<open>
  The schema found at a pointer describes the value at that pointer in every value of the
  whole schema, where no schema on the way describes objects and arrays at once.
\<close>

lemma pointed_schema_sound:
  assumes "schema_at_pointer schema (pointer_of tokens) = Inr (Some pointed)" and "unambiguous schema"
    and "validate_runtime_value v schema = Inr ()" and "points_to v tokens w"
  shows "validate_runtime_value w pointed = Inr ()"
proof -
  have "schema_walk schema tokens = Inr (Some pointed)"
    using assms(1) parse_pointer_iff [of "pointer_of tokens" tokens] by (simp add: schema_at_pointer_def)
  from schema_walk_sound [OF this assms(2) _ assms(4)] assms(3) show ?thesis
    by (simp add: accepts_conforms)
qed

lemma pointed_schema_sound_witness: "validate_runtime_value (JString ''x'') string_schema = Inr ()"
proof (rule pointed_schema_sound [of path_schema "[''path'']" _ "JObject [(''path'', JString ''x'')]"])
  show "schema_at_pointer path_schema (pointer_of [''path'']) = Inr (Some string_schema)" by code_simp
  show "unambiguous path_schema" by code_simp
  show "validate_runtime_value (JObject [(''path'', JString ''x'')]) path_schema = Inr ()" by code_simp
  show "points_to (JObject [(''path'', JString ''x'')]) [''path''] (JString ''x'')"
    by (auto intro: points_to.intros)
qed

text \<open>
  The canonical form of a JSON value, over which every hash is taken, is a fixed point and does
  not depend on the order of the entries of an object.
\<close>

lemma canonical_form:
  assumes "json_wf (JObject kvs)" and "mset lvs = mset kvs"
  shows "normalize (JObject lvs) = normalize (JObject kvs)
    \<and> normalize (normalize (JObject kvs)) = normalize (JObject kvs)"
proof -
  have "distinct (map fst kvs)" using assms(1) by simp
  with normalize_perm [OF this, of lvs] assms(2) normalize_idem [OF assms(1)] show ?thesis by simp
qed

lemma canonical_form_witness:
  "normalize (JObject [(''b'', JNull), (''a'', JNull)]) = normalize (JObject [(''a'', JNull), (''b'', JNull)])
    \<and> normalize (normalize (JObject [(''a'', JNull), (''b'', JNull)])) =
      normalize (JObject [(''a'', JNull), (''b'', JNull)])"
  by (rule canonical_form) simp_all

section \<open>Certificates\<close>

text \<open>
  A certificate is issued for a proved report and a nonempty window only, and then it validates
  against the bindings of that report, for its agent revision, at every time of the window and at no
  other time.
\<close>

lemma issued_certificates_validate:
  assumes "issue_certificate k report issued expires = Inr cert"
  shows "decision report = Proved \<and> issued < expires
    \<and> (validate_certificate k cert (bindings_from (bindings report)) revision now = Inr ()
       \<longleftrightarrow> revision = vb_agent_revision (bindings report) \<and> issued \<le> now \<and> now < expires)"
  using issued_certificate(1,2) [OF assms] issue_validates [OF assms] by blast

lemma issued_certificates_validate_witness:
  "decision sample_report = Proved \<and> (10 :: u64) < 20
    \<and> (validate_certificate sample_certifier sample_certificate (bindings_from (bindings sample_report))
         ''rev'' 15 = Inr ()
       \<longleftrightarrow> ''rev'' = vb_agent_revision (bindings sample_report) \<and> (10 :: u64) \<le> 15 \<and> (15 :: u64) < 20)"
proof (rule issued_certificates_validate)
  have "decision sample_report = Proved" by (simp add: sample_report_def sample_proved)
  then show "issue_certificate sample_certifier sample_report 10 20 = Inr sample_certificate"
    by (simp add: issue_certificate_def data_hash_def sha256_canonical_def canonical_json_def
        sample_certifier_def sample_codec_def sample_certificate_def CERTIFICATE_SCHEMA_VERSION_def)
qed

text \<open>
  A certificate cannot be edited: where the hash does not collide on the data of two
  certificates, two that validate and have the same integrity hash are the same certificate.
\<close>

lemma certificates_tamper_evident:
  assumes "validate_certificate k cert expected revision now = Inr ()"
    and "validate_certificate k cert' expected' revision' now' = Inr ()"
    and "integrity_hash cert = integrity_hash cert'"
    and "hash_injective_at k (cert_data cert) (cert_data cert')"
  shows "cert = cert'"
  using assms by (rule validate_unique)

definition plain_certifier :: certifier where
  "plain_certifier =
     \<lparr>cert_codec = sample_codec,
      ser_data = (\<lambda>d. Some (JString (cb_plan_hash (cd_bindings d))))\<rparr>"

definition plain_certificate :: certificate where
  "plain_certificate =
     \<lparr>cert_data = \<lparr>cd_schema_version = 1,
        cd_bindings = \<lparr>cb_plan_hash = ''p'', cb_policy_hash = ''q'', cb_catalog_hash = ''c'',
          cb_agent_revision = ''rev'', cb_verifier_version = ''v''\<rparr>,
        issued_at = 10, expires_at = 20\<rparr>,
      integrity_hash = to_lower_hex [112]\<rparr>"

lemma certificates_tamper_evident_witness:
  "\<exists>cert. validate_certificate plain_certifier cert (cd_bindings (cert_data cert)) ''rev'' 12 = Inr ()
    \<and> plain_certificate = cert"
proof -
  have "validate_certificate plain_certifier plain_certificate (cd_bindings (cert_data plain_certificate))
      ''rev'' now = Inr ()" if "now \<in> {12, 13}" for now
    using that
    by (auto simp: validate_iff plain_certifier_def plain_certificate_def CERTIFICATE_SCHEMA_VERSION_def
        data_hash_def sha256_canonical_def canonical_json_def sample_codec_def in_window_def)
  from certificates_tamper_evident [OF this [of 13] this [of 12]] this [of 12] show ?thesis
    by (auto simp: hash_injective_at_def)
qed

section \<open>The store\<close>

text \<open>
  C8: In every state the store can reach, whatever the order of requests, stops and restarts, keys
  are unique and a submission is in the status that its receipt, if it has one, says.
\<close>

theorem store_invariant:
  assumes "store_step\<^sup>*\<^sup>* empty_store st"
  shows "keys_unique st \<and> status_linked st"
  using reachable_ok [OF assms] by (simp add: store_ok_def)

theorem store_invariant_witness: "keys_unique finished_store \<and> status_linked finished_store"
  by (rule store_invariant) (rule finished_reachable)

text \<open>
  C9: A submission is executed at most once: after an execution of it was started, no request
  starts another one, whatever happened in between.
\<close>

theorem executed_at_most_once:
  assumes "start_execution (er_submission q) from_statuses r q st = (Inr True, st1)"
    and "store_step\<^sup>*\<^sup>* st1 st2"
  shows "fst (start_execution (er_submission q) from_statuses' r' (q'\<lparr>er_submission := er_submission q\<rparr>) st2)
    \<noteq> Inr True"
proof -
  have "try_start (from_statuses, r, q) st = Some st1" using assms(1) by (simp add: try_start_def)
  from executions.claimed_once [OF this assms(2),
      of "(from_statuses', r', q'\<lparr>er_submission := er_submission q\<rparr>)"]
  show ?thesis by (auto simp: try_start_def start_key_def split: prod.splits sum.splits bool.splits)
qed

theorem executed_at_most_once_witness:
  "fst (start_execution (er_submission (sample_receipt ''running'')) [''certified'']
     (sample_submission ''executing'')
     ((sample_receipt ''running'')\<lparr>er_submission := er_submission (sample_receipt ''running'')\<rparr>)
     finished_store) \<noteq> Inr True"
proof (rule executed_at_most_once)
  show "start_execution (er_submission (sample_receipt ''running'')) [''certified'']
      (sample_submission ''executing'') (sample_receipt ''running'') accepted_store
    = (Inr True, started_store)"
    using started_result by (simp add: started_rows er_submission_sample)
  show "store_step\<^sup>*\<^sup>* started_store finished_store"
    by (rule r_into_rtranclp) (rule finished_step_sample)
qed

text \<open>
  The receipt of an execution that ended is never changed or removed.
\<close>

lemma finished_receipts_immutable:
  assumes "store_step\<^sup>*\<^sup>* st st'" and "row \<in> set (receipt_rows st)" and "rrow_status row \<noteq> ''running''"
  shows "row \<in> set (receipt_rows st')"
  using assms by (rule finished_forever)

lemma finished_receipts_immutable_witness:
  "sample_receipt_row ''succeeded'' \<in> set (receipt_rows (init_store ''t9'' finished_store))"
proof (rule finished_receipts_immutable)
  show "store_step\<^sup>*\<^sup>* finished_store (init_store ''t9'' finished_store)"
    by (rule r_into_rtranclp) (rule step_restart)
qed (simp_all add: finished_rows sample_receipt_row_def)

text \<open>
  A submission the verifier or a reviewer denied, or whose evidence changed, is never executed.
\<close>

lemma refused_never_executed:
  assumes "store_step\<^sup>*\<^sup>* empty_store st" and "store_step\<^sup>*\<^sup>* st st'"
    and "row \<in> set (submission_rows st)"
    and "srow_status row \<in> {''denied'', ''invalidated'', ''denied_by_reviewer''}"
  shows "srow_id row \<notin> set (map rrow_submission (receipt_rows st'))"
  using refused_never_started [OF reachable_ok [OF assms(1)] assms(2,3)] assms(4)
  by (simp add: refused_statuses_def started_def)

lemma refused_never_executed_witness:
  "srow_id (sample_row ''denied'') \<notin> set (map rrow_submission (receipt_rows (init_store ''t9'' refused_store)))"
proof (rule refused_never_executed)
  show "store_step\<^sup>*\<^sup>* empty_store refused_store"
    by (rule r_into_rtranclp) (rule refused_step_sample)
  show "store_step\<^sup>*\<^sup>* refused_store (init_store ''t9'' refused_store)"
    by (rule r_into_rtranclp) (rule step_restart)
qed (simp_all add: refused_rows sample_row_def)

text \<open>
  After the store was opened no receipt is running and no submission executing: what a stop
  interrupted is marked as unknown.
\<close>

lemma restart_leaves_nothing_running:
  "''running'' \<notin> set (map rrow_status (receipt_rows (init_store t st)))
    \<and> ''executing'' \<notin> set (map srow_status (submission_rows (init_store t st)))"
  using restart_quiescent [of t st] by auto

text \<open>
  A policy is written exactly when the version the caller expects is the stored one (no version
  for a new policy); a refused write changes nothing, and a write changes no other policy.
\<close>

lemma policy_compare_and_swap:
  assumes "policies_ok st"
  shows "(expected \<noteq> map_option pr_version (stored_policy st (pr_id r))
      \<and> isl (fst (put_policy t r expected st)) \<and> snd (put_policy t r expected st) = st)
    \<or> (expected = map_option pr_version (stored_policy st (pr_id r))
      \<and> \<not> isl (fst (put_policy t r expected st))
      \<and> stored_policy (snd (put_policy t r expected st)) (pr_id r)
          = Some (projr (fst (put_policy t r expected st)))
      \<and> policies_ok (snd (put_policy t r expected st)))"
proof (cases "put_policy t r expected st")
  case (Pair res st1)
  show ?thesis
  proof (cases res)
    case (Inl e)
    then show ?thesis
      using Pair put_policy_succeeds [OF assms, of t r expected] put_policy_result [OF assms, of t r expected]
      by (auto simp: policy_write_allowed_def Let_def split: if_splits)
  next
    case (Inr r1)
    with Pair have run: "put_policy t r expected st = (Inr r1, st1)" by simp
    from put_policy_read [OF assms run] put_policy_ok [OF assms, of t r expected]
      put_policy_succeeds [OF assms, of t r expected] run
    show ?thesis by (auto simp: policy_write_allowed_def)
  qed
qed

lemma policy_compare_and_swap_witness:
  "(None \<noteq> map_option pr_version (stored_policy empty_store (pr_id sample_policy_record))
      \<and> isl (fst (put_policy ''t0'' sample_policy_record None empty_store))
      \<and> snd (put_policy ''t0'' sample_policy_record None empty_store) = empty_store)
    \<or> (None = map_option pr_version (stored_policy empty_store (pr_id sample_policy_record))
      \<and> \<not> isl (fst (put_policy ''t0'' sample_policy_record None empty_store))
      \<and> stored_policy (snd (put_policy ''t0'' sample_policy_record None empty_store)) (pr_id sample_policy_record)
          = Some (projr (fst (put_policy ''t0'' sample_policy_record None empty_store)))
      \<and> policies_ok (snd (put_policy ''t0'' sample_policy_record None empty_store)))"
  by (rule policy_compare_and_swap) (rule policies_ok_empty)

text \<open>
  After a policy was written, it is the policy of every agent it names.
\<close>

lemma written_policy_governs_agents:
  assumes "policies_ok st" and "put_policy t r expected st = (Inr r1, st1)" and "agent \<in> set (pr_agents r)"
  shows "\<exists>p. policy_for_agent st1 agent = Some p \<and> pr_policy p = pr_policy r \<and> pr_id p = pr_id r"
  using assms by (rule put_policy_binds)

lemma written_policy_governs_agents_witness:
  "\<exists>p. policy_for_agent granted_store ''agent'' = Some p \<and> pr_policy p = pr_policy sample_policy_record
    \<and> pr_id p = pr_id sample_policy_record"
proof (rule written_policy_governs_agents [OF policies_ok_empty])
  have "\<not> isl (fst (put_policy ''t0'' sample_policy_record None empty_store))"
    by (simp add: put_policy_succeeds [OF policies_ok_empty] policy_write_allowed_def)
      (simp add: stored_policy_def empty_store_def)
  then show "put_policy ''t0'' sample_policy_record None empty_store =
      (Inr (projr (fst (put_policy ''t0'' sample_policy_record None empty_store))), granted_store)"
    by (simp add: granted_store_def)
qed (simp add: sample_policy_record_def)

section \<open>Running a plan\<close>

text \<open>
  C10: The arguments a checked call is given at run time conform to the input schema of its tool:
  for values of earlier steps of the types they were checked with, and references whose schemas
  declare what the input schema constrains (\<open>references_sound\<close>), the run-time validation of the
  materialized arguments succeeds.
\<close>

theorem materialized_arguments_conform:
  assumes "materialize pointer outs args = Inr v" and "value_fits \<Gamma> (Some schema) args"
    and "references_sound \<Gamma> (Some schema) args" and "supported schema"
    and "outs_typed \<Gamma> outs" and "pointer_selects pointer"
  shows "validate_runtime_value v schema = Inr ()"
  using materialize_conforms [OF assms(1-3) _ assms(5,6)] assms(4) by (simp add: accepts_conforms)

theorem materialized_arguments_conform_witness:
  "validate_runtime_value (JObject [(''path'', JString ''a.txt'')]) path_schema = Inr ()"
proof (rule materialized_arguments_conform [OF _ _ _ _ listed_typed sample_pointer_selects])
  show "materialize sample_pointer listed read_first = Inr (JObject [(''path'', JString ''a.txt'')])"
    by code_simp
  show "value_fits listed_types (Some path_schema) read_first"
    and "references_sound listed_types (Some path_schema) read_first"
    by (rule read_first_fits)+
  show "supported path_schema" by code_simp
qed

text \<open>
  Evaluating a checked condition fails only for a value a tool returned (a pointer that selects
  nothing, or an unexpected type), never because a step is missing or two values have no order.
\<close>

lemma checked_conditions_evaluate:
  assumes "predicate_fits \<Gamma> p" and "outs_cover \<Gamma> outs"
  shows "case evaluate_predicate pointer outs p of
      Inl e \<Rightarrow> (\<exists>step ptr. e = NoSuchPointer step ptr) \<or> (\<exists>step. e = UnexpectedRuntimeType step)
    | Inr b \<Rightarrow> True"
proof (cases "evaluate_predicate pointer outs p")
  case (Inl e)
  from evaluate_error(1) [OF this assms] have "data_error e" .
  then show ?thesis using Inl by (cases e) auto
qed simp

definition list_nonempty :: predicate where
  "list_nonempty = PAll [PExists (PStepOutput ''list'' ''/0'' TString),
     PCompare (PStepOutput ''list'' ''/0'' TString) LessThan (PLiteral (JString ''b''))]"

lemma checked_conditions_evaluate_witness:
  "case evaluate_predicate sample_pointer listed list_nonempty of
      Inl e \<Rightarrow> (\<exists>step ptr. e = NoSuchPointer step ptr) \<or> (\<exists>step. e = UnexpectedRuntimeType step)
    | Inr b \<Rightarrow> True"
proof (rule checked_conditions_evaluate)
  show "predicate_fits listed_types list_nonempty"
    by (simp add: list_nonempty_def reference_fits_def listed_types_def first_name_schema
        type_fits_def schema_type_accepts_def ordering_op_def ordered_types_def
        comparison_types_compatible_def)
  show "outs_cover listed_types listed" by (rule outs_typed_cover) (rule listed_typed)
qed

text \<open>
  C11: What an execution dispatches: calls of the plan, in the order of the plan, each on evidence of
  the very moment at which its tool is run.  The entry \<open>k\<close> of what was dispatched comes from a call that the walk over the
  plan comes to when the first \<open>k\<close> entries, and no more, are dispatched.  The call waits for its turn,
  which leaves a world \<open>w\<close> and a store \<open>st\<close>.  In these, not in those of the start or of an earlier call,
  the plan is verified again: the catalog and the policy are loaded from them, the verifier accepts
  with the bindings of the submission, the policy is that of the submission and the certificate is
  valid by the clock of \<open>w\<close>.  The tool is run in that same world \<open>w\<close>, with the arguments made from the
  outputs the walk has at that point; these pass the input schema of the descriptor found there, and
  the grant is bound to exactly these arguments, that implementation and that submission.  (The model
  reads the host between the turn and the run of the tool as one moment; what the host changes within
  it is not seen.)
\<close>

theorem dispatched_calls_justified:
  assumes "execute_node eng h (root (sub_plan sub)) (initial_context sub cert agent rc s) = (r, ctx)"
  shows "subseq (map (\<lambda>(g, tool, v). (gr_step g, tool)) (dispatched ctx))
      (map (\<lambda>(i, tool, args). (i, tool)) (plan_calls (root (sub_plan sub))))
    \<and> (\<forall>k < length (dispatched ctx). \<exists>i tool args c w st d v g st1 me.
        comes_to eng h (root (sub_plan sub)) (initial_context sub cert agent rc s) (i, tool, args) c
        \<and> dispatched c = take k (dispatched ctx) \<and> dispatched ctx ! k = (g, tool, v)
        \<and> wait_turn h (world c) (db c) = (w, st) \<and> revalidated eng h w st sub cert tool d
        \<and> world (snd (execute_call eng h i tool args c)) = fst (snd (run_tool h w st1 g me tool v))
        \<and> materialize (eng_pointer eng) (step_outputs c) args = Inr v
        \<and> validate_runtime_value v (input_schema d) = Inr ()
        \<and> hash_json eng (Some v) = Some (gr_arguments_hash g)
        \<and> gr_step g = i \<and> gr_implementation g = implementation_hash d \<and> gr_chain g = dispatch_chain d
        \<and> gr_submission g = sub_id sub \<and> gr_agent g = sub_agent sub \<and> gr_certificate g = cert)"
proof (intro conjI allI impI)
  let ?ctx0 = "initial_context sub cert agent rc s" and ?plan = "root (sub_plan sub)"
  have start: "dispatched ?ctx0 = []" by (simp add: initial_context_def)
  have run: "dispatches eng h (plan_calls ?plan) ?ctx0 ctx"
    using execute_dispatches(1) [of eng h ?plan ?ctx0] assms by simp
  with start show "subseq (map (\<lambda>(g, tool, v). (gr_step g, tool)) (dispatched ctx))
      (map (\<lambda>(i, tool, args). (i, tool)) (plan_calls ?plan))"
    by (auto simp: dispatches_def)
  fix k assume "k < length (dispatched ctx)"
  then obtain call c where c: "comes_to eng h ?plan ?ctx0 call c" "dispatched c = take k (dispatched ctx)"
      "dispatched_from eng h c call (dispatched ctx ! k)"
    using execute_each_from(1) [of eng h ?plan ?ctx0] assms start by (auto simp: each_from_def)
  have "submission c = sub" "held_certificate c = cert" "id_agent (who c) = sub_agent sub"
    using comes_to_fixed(1) [OF c(1)] by (simp_all add: fixed_part_def initial_context_def)
  with c show "\<exists>i tool args c w st d v g st1 me. comes_to eng h ?plan ?ctx0 (i, tool, args) c
        \<and> dispatched c = take k (dispatched ctx) \<and> dispatched ctx ! k = (g, tool, v)
        \<and> wait_turn h (world c) (db c) = (w, st) \<and> revalidated eng h w st sub cert tool d
        \<and> world (snd (execute_call eng h i tool args c)) = fst (snd (run_tool h w st1 g me tool v))
        \<and> materialize (eng_pointer eng) (step_outputs c) args = Inr v
        \<and> validate_runtime_value v (input_schema d) = Inr ()
        \<and> hash_json eng (Some v) = Some (gr_arguments_hash g)
        \<and> gr_step g = i \<and> gr_implementation g = implementation_hash d \<and> gr_chain g = dispatch_chain d
        \<and> gr_submission g = sub_id sub \<and> gr_agent g = sub_agent sub \<and> gr_certificate g = cert"
    by (elim dispatched_fromE) (metis grant_fields)
qed

theorem dispatched_calls_justified_witness:
  "\<exists>r ctx i tool args c w st d v g. execute_node trial_engine trial_host (root (sub_plan trial_submission)) trial_context = (r, ctx)
    \<and> comes_to trial_engine trial_host (root (sub_plan trial_submission)) trial_context (i, tool, args) c
    \<and> dispatched c = [] \<and> dispatched ctx ! 0 = (g, tool, v)
    \<and> wait_turn trial_host (world c) (db c) = (w, st)
    \<and> revalidated trial_engine trial_host w st trial_submission trial_certificate tool d
    \<and> hash_json trial_engine (Some v) = Some (gr_arguments_hash g)
    \<and> gr_implementation g = implementation_hash d \<and> gr_submission g = sub_id trial_submission"
proof -
  obtain r ctx where run: "execute_node trial_engine trial_host (root (sub_plan trial_submission))
      trial_context = (r, ctx)"
    by (metis surj_pair)
  then have pos: "0 < length (dispatched ctx)" using trial_dispatches by simp
  from dispatched_calls_justified [OF run [unfolded trial_context_def], THEN conjunct2, rule_format, OF pos]
  show ?thesis using run unfolding trial_context_def [symmetric] take_0 by blast
qed

text \<open>
  An execution of an accepted plan dispatches each call at most once.
\<close>

lemma calls_dispatched_once:
  assumes "decision (verify ser inp) \<noteq> Denied" and "plan inp = sub_plan sub"
    and "execute_node eng h (root (sub_plan sub)) (initial_context sub cert agent rc s) = (r, ctx)"
  shows "distinct (map (\<lambda>(g, tool, v). gr_step g) (dispatched ctx))"
proof (rule dispatched_once)
  show "dispatches eng h (plan_calls (root (sub_plan sub))) (initial_context sub cert agent rc s) ctx"
    using execute_dispatches(1) [of eng h "root (sub_plan sub)" "initial_context sub cert agent rc s"]
      assms(3) by simp
  have "valid_shape [root (sub_plan sub)]"
    using assms(1,2) by (auto simp: verify_accepts acceptable_def)
  then show "distinct (map fst (plan_calls (root (sub_plan sub))))"
    by (intro distinct_call_ids) (simp add: valid_shape_def)
qed (simp add: initial_context_def)

lemma calls_dispatched_once_witness:
  "distinct (map (\<lambda>(g, tool, v). gr_step g)
     (dispatched (snd (execute_node trial_engine trial_host (root (sub_plan trial_submission)) trial_context))))"
proof (rule calls_dispatched_once [OF sample_accepted])
  show "plan sample_input = sub_plan trial_submission"
    by (simp add: sample_input_def trial_submission_def sample_submission_def)
  show "execute_node trial_engine trial_host (root (sub_plan trial_submission))
      (initial_context trial_submission trial_certificate trial_agent (sample_receipt ''running'')
        (0, running_store)) =
    (fst (execute_node trial_engine trial_host (root (sub_plan trial_submission)) trial_context),
     snd (execute_node trial_engine trial_host (root (sub_plan trial_submission)) trial_context))"
    by (simp add: trial_context_def)
qed

text \<open>
  C12: The execution of an accepted plan always comes to an end in its result or in an error of the
  environment: it never stops because an output it refers to is missing or because two values it
  compares have no order.
\<close>

theorem accepted_plans_progress:
  assumes "decision (verify ser inp) \<noteq> Denied" and "plan inp = sub_plan sub"
  shows "case fst (execute_node eng h (root (sub_plan sub)) (initial_context sub cert agent rc s)) of
      Inl e \<Rightarrow> e \<noteq> NotOrderComparable \<and> e \<notin> range StepUnavailable
    | Inr v \<Rightarrow> True"
proof -
  obtain \<Gamma> where "node_typed (verify_env_of ser inp) Map.empty (root (sub_plan sub)) \<Gamma>"
    using assms by (auto simp: verify_accepts acceptable_def)
  from progress(1) [OF this, of "initial_context sub cert agent rc s" eng h]
  have "covers \<Gamma> (step_outputs (initial_context sub cert agent rc s))
      (execute_node eng h (root (sub_plan sub)) (initial_context sub cert agent rc s))" by simp
  then show ?thesis unfolding covers_def by (auto split: sum.split)
qed

theorem accepted_plans_progress_witness:
  "case fst (execute_node trial_engine trial_host (root (sub_plan trial_submission)) trial_context) of
      Inl e \<Rightarrow> e \<noteq> NotOrderComparable \<and> e \<notin> range StepUnavailable
    | Inr v \<Rightarrow> True"
  unfolding trial_context_def
  by (rule accepted_plans_progress [OF sample_accepted])
    (simp add: sample_input_def trial_submission_def sample_submission_def)

text \<open>
  What an execution keeps of the outputs of its steps never exceeds eight megabytes.
\<close>

lemma retained_output_bounded:
  "retained_output_bytes (snd (execute_node eng h n (initial_context sub cert agent rc s)))
     \<le> 8 * 1024 * 1024"
  using retained_bounded [of "initial_context sub cert agent rc s" eng h n]
  by (simp add: initial_context_def MAX_EXECUTION_OUTPUT_BYTES_def)

section \<open>The service\<close>

text \<open>
  C13: The requests to the service, in any number and order, with whatever else runs between their
  accesses to the store, change the store along the steps of its specification; so its invariant
  holds after them.
\<close>

theorem requests_refine_store:
  assumes "respects_store h" and "store_step\<^sup>*\<^sup>* empty_store (snd s)"
  shows "store_step\<^sup>*\<^sup>* (snd s) (snd (serve_all eng h requests s))
    \<and> keys_unique (snd (serve_all eng h requests s)) \<and> status_linked (snd (serve_all eng h requests s))"
proof -
  have run: "store_step\<^sup>*\<^sup>* (snd s) (snd (serve_all eng h requests s))"
    by (rule serve_all_runs [OF assms(1)])
  from reachable_ok [OF rtranclp_trans [OF assms(2) run]] run show ?thesis
    by (simp add: store_ok_def)
qed

theorem requests_refine_store_witness:
  "store_step\<^sup>*\<^sup>* (snd (0 :: nat, empty_store))
      (snd (serve_all trial_engine trial_host [trial_request, trial_request] (0, empty_store)))
    \<and> keys_unique (snd (serve_all trial_engine trial_host [trial_request, trial_request] (0, empty_store)))
    \<and> status_linked (snd (serve_all trial_engine trial_host [trial_request, trial_request] (0, empty_store)))"
  by (rule requests_refine_store [OF trial_respects]) simp

text \<open>
  C14: Once an execution of a submission was started, asking again under its request id only ever
  reports: no tool is called and the store is left as it is (but for what others do while the
  request waits), whatever plan the second request carries.
\<close>

theorem resubmission_only_reports:
  assumes "respects_store h" and "store_step\<^sup>*\<^sup>* empty_store (snd s)"
    and "row \<in> set (submission_rows (snd s))"
    and "srow_id row \<in> set (map rrow_submission (receipt_rows (snd s)))"
    and "hash_json eng (Some (request_json agent_id conversation request_id)) = Some (srow_key row)"
    and "valid_request_id request_id"
  shows "snd (submit eng h agent_id request_id p conversation s) \<in> {take_turn h s, take_turn h (take_turn h s)}
    \<and> (case fst (submit eng h agent_id request_id p conversation s) of
         Inl e \<Rightarrow> e \<in> {RequestIdReused, HashError}
       | Inr response \<Rightarrow> \<exists>sub r. response = SubmissionState sub r \<and> sub_status sub \<notin> {''certified'', ''approved''})"
proof -
  obtain stored where "sub_status stored \<notin> {''certified'', ''approved''}"
    and "submit eng h agent_id request_id p conversation s \<in>
      {(Inl RequestIdReused, take_turn h s), (Inl HashError, take_turn h s),
       submission_response h stored (take_turn h s)}"
    using resubmission_reports [OF assms] by metis
  then show ?thesis by (auto simp: submission_response_def Let_def)
qed

theorem resubmission_only_reports_witness:
  "snd (submit trial_engine trial_host ''agent'' ''req-1'' sample_plan None (0, keyed_store)) \<in>
      {take_turn trial_host (0, keyed_store), take_turn trial_host (take_turn trial_host (0, keyed_store))}
    \<and> (case fst (submit trial_engine trial_host ''agent'' ''req-1'' sample_plan None (0, keyed_store)) of
         Inl e \<Rightarrow> e \<in> {RequestIdReused, HashError}
       | Inr response \<Rightarrow> \<exists>sub r. response = SubmissionState sub r \<and> sub_status sub \<notin> {''certified'', ''approved''})"
proof (rule resubmission_only_reports [OF trial_respects])
  show "store_step\<^sup>*\<^sup>* empty_store (snd (0 :: nat, keyed_store))" by (simp add: keyed_reachable)
  show "keyed_row \<in> set (submission_rows (snd (0 :: nat, keyed_store)))"
    and "srow_id keyed_row \<in> set (map rrow_submission (receipt_rows (snd (0 :: nat, keyed_store))))"
    by (simp_all add: keyed_store_def keyed_row_def sample_receipt_row_def)
  show "hash_json trial_engine (Some (request_json ''agent'' None ''req-1'')) = Some (srow_key keyed_row)"
    by (simp add: trial_key keyed_row_def)
  show "valid_request_id ''req-1''" by code_simp
qed

text \<open>
  The grant of an execution that has ended authorizes no dispatch any more, then or later.
\<close>

lemma ended_grants_refused:
  assumes "store_step\<^sup>*\<^sup>* empty_store st" and "store_step\<^sup>*\<^sup>* st st'"
    and "row \<in> set (receipt_rows st)" and "rrow_submission row = gr_submission g"
    and "rrow_status row \<noteq> ''running''"
  shows "authorize_dispatch eng h w st' (Some g) agent_id tool args \<noteq> Inr ()"
  using assms by (rule ended_grant_refused)

lemma ended_grants_refused_witness:
  "authorize_dispatch trial_engine trial_host 0 finished_store
     (Some (grant_for trial_context ''list'' list_tool [])) ''agent'' ''fs'' (JObject []) \<noteq> Inr ()"
  by (rule ended_grants_refused [OF finished_reachable rtranclp.rtrancl_refl,
        where row = "sample_receipt_row ''succeeded''"])
    (simp_all add: finished_rows sample_receipt_row_def trial_context_def initial_context_def
      trial_submission_def sample_submission_def)

text \<open>
  An execution starts under a certificate that is valid at that moment for the evidence as it is
  then; the one exception is a submission a reviewer approved whose certificate has expired and
  still matches that evidence, which is issued a new one over the bindings that were approved.
\<close>

lemma executions_hold_current_certificate:
  assumes "renew_certificate eng h sub cert report revision s = (Inr (sub1, cert1), s1)"
  shows "validate_certificate (eng_cert eng) cert (bindings_from (bindings report)) revision (clock_ms h (fst s)) = Inr ()
      \<and> sub1 = sub \<and> cert1 = cert \<and> s1 = s
    \<or> sub_status sub = ''approved''
      \<and> cd_bindings (cert_data cert) = bindings_from (bindings report)
      \<and> expires_at (cert_data cert) \<le> clock_ms h (fst s)
      \<and> cd_bindings (cert_data cert1) = bindings_from (bindings (sub_report sub))
      \<and> issued_at (cert_data cert1) = clock_ms h (fst s)
      \<and> sub_status sub1 = ''approved'' \<and> sub_certificate sub1 = Some cert1
      \<and> sub_plan sub1 = sub_plan sub"
  using assms by (rule renewed_certificate)

lemma executions_hold_current_certificate_witness:
  "\<exists>(sub1 :: submission_record) (cert1 :: certificate). sub_status approved_submission = ''approved''
    \<and> cd_bindings (cert_data cert1) = bindings_from (bindings (sub_report approved_submission))
    \<and> issued_at (cert_data cert1) = 15 \<and> sub_certificate sub1 = Some cert1"
proof -
  obtain sub1 cert1 s1 where run: "renew_certificate trial_engine trial_host approved_submission
      expired_certificate trial_report [] (0, approved_store) = (Inr (sub1, cert1), s1)"
    using approved_renewed by blast
  have env: "clock_ms trial_host 0 = 15" "eng_cert trial_engine = sample_certifier"
    by (simp_all add: trial_host_def trial_engine_def)
  show ?thesis
    using executions_hold_current_certificate [OF run] certificate_expired env
    by (intro exI [of _ sub1] exI [of _ cert1]) auto
qed

text \<open>
  What a reviewer is shown of a plan holds no literal but the redaction marker, and keeps what a
  decision rests on: the ids in order, and for every call its tool and the outputs it refers to.
\<close>

lemma reviewers_see_no_literal:
  "set (node_literals (redact_review_node n)) \<subseteq> {JString CORE_REDACTION_MARKER}
    \<and> plan_ids (redact_review_node n) = plan_ids n
    \<and> map (\<lambda>(i, tool, args). (i, tool, value_references args)) (plan_calls (redact_review_node n)) =
        map (\<lambda>(i, tool, args). (i, tool, value_references args)) (plan_calls n)"
  using redacted_node redact_shape by blast

text \<open>
  A contract an operator can store counts as attested for the verifier, its resources are valid
  for the verifier's own check, and each of its bindings is one the verifier can evaluate, where
  its pointer is written without an invalid escape.
\<close>

lemma stored_contracts_usable:
  assumes "contract_refusal c = None"
  shows "attested c \<and> no_errors (check_contract_shape c i path)
    \<and> (\<forall>r \<in> set (resources c). valid_resource_identifier r)
    \<and> (\<forall>b \<in> set (resource_bindings c). \<forall>tokens args. parse_json_pointer (rb_pointer b) = Inr tokens \<longrightarrow>
         derive_resource args b \<noteq> Inl InvalidResourceBinding)"
proof -
  from contract_accepted [OF assms] have "attested c" "\<forall>r \<in> set (resources c). valid_resource_identifier r"
    and bindings: "\<forall>b \<in> set (resource_bindings c). valid_contract_binding b"
    by simp_all
  moreover have "no_errors (check_contract_shape c i path)"
    using \<open>attested c\<close> by (auto simp: attested_def check_contract_shape_def)
  ultimately show ?thesis using binding_accepted by blast
qed

lemma stored_contracts_usable_witness:
  "attested read_contract \<and> no_errors (check_contract_shape read_contract ''read'' ''$'')
    \<and> (\<forall>r \<in> set (resources read_contract). valid_resource_identifier r)
    \<and> (\<forall>b \<in> set (resource_bindings read_contract). \<forall>tokens args.
         parse_json_pointer (rb_pointer b) = Inr tokens \<longrightarrow> derive_resource args b \<noteq> Inl InvalidResourceBinding)"
  by (rule stored_contracts_usable) code_simp

section \<open>Operators and access\<close>

text \<open>
  C15: Access to a resource is granted for one of three reasons only: the caller owns it, it was
  shared with the caller and belongs to no organization or to that of this node, or it belongs to
  the organization of this node, of which the caller is a member, and is visible to the
  organization or to a team of it the caller is in.  A membership elsewhere never counts.
\<close>

theorem access_has_a_reason:
  assumes "can_access (to_caller_for_org claims node_org) owner org visibility team collaborators \<noteq> NoAccess"
  shows "owner = Some (vc_user claims)
    \<or> (\<exists>c \<in> set collaborators. co_user c = vc_user claims \<and> (org = None \<or> node_org = org))
    \<or> (org \<noteq> None \<and> node_org = org \<and> org \<in> (Some \<circ> om_id) ` set (vc_orgs claims)
        \<and> (visibility = ''org'' \<or> visibility = ''team''
             \<and> (\<exists>t \<in> set (vc_teams claims). team = Some (tm_id t) \<and> org = Some (tm_org t))))"
  using assms by (rule access_granted)

definition sample_claims :: verified_claims where
  "sample_claims =
     \<lparr>vc_user = ''u1'', vc_email = None,
      vc_orgs = [\<lparr>om_id = ''o1'', om_role = ''member,admin''\<rparr>], vc_teams = []\<rparr>"

theorem access_has_a_reason_witness:
  "Some ''u2'' = Some (vc_user sample_claims)
    \<or> (\<exists>c \<in> set ([] :: collaborator list). co_user c = vc_user sample_claims \<and> (Some ''o1'' = None \<or> Some ''o1'' = Some ''o1''))
    \<or> (Some ''o1'' \<noteq> None \<and> Some ''o1'' = Some ''o1'' \<and> Some ''o1'' \<in> (Some \<circ> om_id) ` set (vc_orgs sample_claims)
        \<and> (''org'' = ''org'' \<or> ''org'' = ''team''
             \<and> (\<exists>t \<in> set (vc_teams sample_claims). None = Some (tm_id t) \<and> Some ''o1'' = Some (tm_org t))))"
proof (rule access_has_a_reason)
  show "can_access (to_caller_for_org sample_claims (Some ''o1'')) (Some ''u2'') (Some ''o1'') ''org'' None [] \<noteq> NoAccess"
    by code_simp
qed

text \<open>
  On a node that an organization manages, an operator is a member of that organization, with a
  role of at least administrator for a change, under the user id of the verified token; a caller
  without a token is one on an unmanaged node only.
\<close>

lemma operators_are_members:
  assumes "authorize_operator caller True node_org write = Inr user"
    and "caller = map_option (\<lambda>claims. to_caller_for_org claims node_org) token"
  shows "\<exists>claims. token = Some claims \<and> user = vc_user claims
    \<and> (\<exists>m \<in> set (vc_orgs claims). Some (om_id m) = node_org \<and> (write \<longrightarrow> Admin \<le> role_from_string (om_role m)))"
proof (cases token)
  case None
  then show ?thesis using assms anonymous_operator [of True node_org "write" user] by simp
next
  case (Some claims)
  then show ?thesis using assms managed_operator [of claims node_org "write" user] by simp
qed

lemma operators_are_members_witness:
  "\<exists>claims. Some sample_claims = Some claims \<and> ''u1'' = vc_user claims
    \<and> (\<exists>m \<in> set (vc_orgs claims). Some (om_id m) = Some ''o1'' \<and> (True \<longrightarrow> Admin \<le> role_from_string (om_role m)))"
proof (rule operators_are_members)
  show "authorize_operator (map_option (\<lambda>claims. to_caller_for_org claims (Some ''o1'')) (Some sample_claims))
      True (Some ''o1'') True = Inr ''u1''"
    by code_simp
qed simp

section \<open>Permissions\<close>

text \<open>
  C16: A permission is allowed exactly when it is declared and either the most specific tier that
  mentions it (member, role, team, organization, in that order) allows it and does not deny it, or
  no tier mentions it and a role the principal holds grants it.  A tier allows what an overwrite
  aimed at the principal allows or what that entails; it denies what an overwrite denies or what
  entails it.
\<close>

theorem acl_most_specific_tier_decides:
  assumes "registry_ok r"
  shows "resolve r held p acl i = AclAllowed \<longleftrightarrow>
    i \<in> set (declared r)
    \<and> ((\<exists>before t after. [MemberTier, RoleTier, TeamTier, OrgTier] = before @ t # after
          \<and> list_all (silent r p acl i) before \<and> (tier_allows r p acl t i \<and> \<not> tier_denies r p acl t i))
       \<or> list_all (silent r p acl i) [MemberTier, RoleTier, TeamTier, OrgTier] \<and> base_grants r held p i)"
  using resolve_iff [OF assms, of held p acl i] by (simp only: TIERS_MOST_SPECIFIC_FIRST_def)

definition sample_registry :: permission_registry where
  "sample_registry = with_implication ''write'' ''read'' (new_registry [''write'', ''read''])"

lemma sample_registry_ok: "registry_ok sample_registry"
  unfolding sample_registry_def by (intro registry_ok_with registry_ok_new)

definition sample_principal :: principal where
  "sample_principal = \<lparr>p_user = ''u1'', p_org = Some ''o1'', p_teams = [], p_roles = [''editor'']\<rparr>"

definition sample_overwrites :: "overwrite list" where
  "sample_overwrites =
     [\<lparr>ow_target = ForRole ''editor'', ow_allow = [], ow_deny = [''read'']\<rparr>,
      \<lparr>ow_target = ForMember ''u1'', ow_allow = [''write''], ow_deny = []\<rparr>]"

theorem acl_most_specific_tier_decides_witness:
  "resolve sample_registry [] sample_principal sample_overwrites ''read'' = AclAllowed \<longleftrightarrow>
    ''read'' \<in> set (declared sample_registry)
    \<and> ((\<exists>before t after. [MemberTier, RoleTier, TeamTier, OrgTier] = before @ t # after
          \<and> list_all (silent sample_registry sample_principal sample_overwrites ''read'') before
          \<and> (tier_allows sample_registry sample_principal sample_overwrites t ''read''
             \<and> \<not> tier_denies sample_registry sample_principal sample_overwrites t ''read''))
       \<or> list_all (silent sample_registry sample_principal sample_overwrites ''read'')
           [MemberTier, RoleTier, TeamTier, OrgTier]
         \<and> base_grants sample_registry [] sample_principal ''read'')"
  by (rule acl_most_specific_tier_decides) (rule sample_registry_ok)

text \<open>
  C17: What a principal is allowed is closed under implication: with a permission come all it
  entails, on every resource, whatever roles and overwrites say.
\<close>

theorem acl_closed_under_implication:
  assumes "registry_ok r" and "resolve r held p acl a = AclAllowed"
    and "(a, b) \<in> (graph_of (permission_registry.implies r))\<^sup>*"
  shows "resolve r held p acl b = AclAllowed"
  by (rule resolve_entails [OF assms(1) _ assms(2)]) (simp add: entails_def assms(3))

theorem acl_closed_under_implication_witness:
  "resolve sample_registry [] sample_principal sample_overwrites ''read'' = AclAllowed"
proof (rule acl_closed_under_implication [OF sample_registry_ok])
  show "resolve sample_registry [] sample_principal sample_overwrites ''write'' = AclAllowed" by code_simp
  show "(''write'', ''read'') \<in> (graph_of (permission_registry.implies sample_registry))\<^sup>*"
    by (rule r_into_rtrancl)
      (simp add: sample_registry_def with_implication_def new_registry_def graph_add_edge)
qed

section \<open>Plugins\<close>

text \<open>
  C18: The enable order of a plugin is exactly what it transitively requires, each once, the plugin
  itself last; every edge of it was checked (installed, not to itself, at an accepted version) and
  leads to a plugin earlier in the order; and none of them is on a cycle.
\<close>

theorem enable_order_is_topological:
  assumes "resolve_enable_order sv target installed = Some (Inr os)"
  shows "distinct os \<and> last os = target \<and> set os = (depends (index installed))\<^sup>* `` {target}
    \<and> (\<forall>before x after. os = before @ x # after \<longrightarrow>
         (\<exists>m. map_of (index installed) x = Some m
            \<and> (\<forall>dep \<in> set (dependencies m).
                 check_edge sv (index installed) m dep = None \<and> ad_id dep \<in> set before)))
    \<and> (\<forall>x \<in> set os. (x, x) \<notin> (depends (index installed))\<^sup>+)"
  using resolve_order [OF assms] settled_acyclic unfolding settled_def [symmetric] by blast

theorem enable_order_is_topological_witness:
  "set [''acme.engine'', ''@ryu/rag'', ''notes'']
     = (depends (index (lower_manifests trial_semver [] trial_manifests)))\<^sup>* `` {''notes''}"
  using enable_order_is_topological [OF trial_order] by blast

text \<open>
  C19: The search for an enable order always comes to an end, on any set of manifests, cyclic ones
  included.  When it is an error, the error is of an edge that the target transitively needs, or the
  target is not installed, or the reported cycle is a closed path of the graph.
\<close>

theorem enable_order_search_ends:
  "case resolve_enable_order sv target installed of
     None \<Rightarrow> False
   | Some (Inr os) \<Rightarrow> target \<in> set os
   | Some (Inl e) \<Rightarrow>
       (e = NotInstalled target \<and> target \<notin> pm_id ` set installed)
       \<or> (\<exists>i m dep. (target, i) \<in> (depends (index installed))\<^sup>* \<and> map_of (index installed) i = Some m
            \<and> dep \<in> set (dependencies m) \<and> check_edge sv (index installed) m dep = Some e)
       \<or> (\<exists>c. e = Cycle c \<and> real_cycle (index installed) c)"
proof (cases "resolve_enable_order sv target installed")
  case None
  then show ?thesis using resolve_returns by blast
next
  case (Some r)
  then show ?thesis
    using resolve_order [of sv target installed] resolve_error [of sv target installed]
    by (cases r) (fastforce simp: justified_error_def)+
qed

text \<open>
  The disable order of a plugin always exists, also on a cyclic graph: exactly what transitively
  depends on the plugin, each once, the plugin itself last; and where the graph is acyclic nothing is
  disabled before all that depends on it.
\<close>

lemma disable_order_is_topological:
  "\<exists>os. resolve_disable_order i ms = Some os \<and> distinct os \<and> last os = i
     \<and> set os = {j. (j, i) \<in> (declares ms)\<^sup>*}
     \<and> (acyclic (declares ms) \<longrightarrow>
          (\<forall>before x after. os = before @ x # after \<longrightarrow> {y. (y, x) \<in> declares ms} \<subseteq> set before))"
  using disable_order_sound [of i ms] by (auto simp: in_order_def Image_singleton)

lemma disable_order_is_topological_witness:
  "\<exists>os. resolve_disable_order ''a'' [] = Some os \<and> set os = {''a''}"
proof -
  have "declares [] = {}" by (auto simp: declares_def)
  with disable_order_is_topological [of "''a''" "[]"] show ?thesis by auto
qed

text \<open>
  C20: In every state that the operations of \<open>lifecycle.rs\<close> lead to from an empty store (install, enable,
  disable, uninstall, update, edit of grants, in any order, with any answers of the gateway), every
  enabled plugin has what it needs: each plugin it requires is enabled at a version it accepts, and each
  capability it requires is bound over the enabled plugins.

  This is under four conditions.  The operations run one after the other; while an enable waits for
  the gateway, others may do what turns no plugin on or off.  (The code takes no lock there, and a disable in between does break it:
  \<open>overtaken_enable_breaks_needs\<close>.)  The reads and the disables of an operation do not fail.  The manifests
  and the preferences of bindings do not change.  And nothing outside \<open>lifecycle.rs\<close> writes the enabled bits, as
  the seeding at start and the migrations of ids do.
\<close>

theorem enabled_plugins_have_their_needs:
  assumes "reachable sv cfg all (st, jobs)" and "distinct (map pm_id all)"
    and "m \<in> set all" and "pm_id m \<in> enabled_ids st"
  shows "(\<forall>dep \<in> set (dependencies m). ad_id dep \<in> enabled_ids st
        \<and> check_edge sv (index (within (enabled_ids st) all)) m dep = None)
    \<and> (\<forall>req \<in> set (required_capabilities m). \<exists>b.
          resolve_capability sv cfg (within (enabled_ids st) all) req = Inr b \<and> bd_provider_id b \<in> enabled_ids st)"
proof (rule needs_met_enabled)
  show "needs_met sv cfg all (enabled_ids st) m"
    using reachable_sound [OF assms(1,2)] assms(3,4) by (simp add: all_needs_met_def)
qed

theorem enabled_plugins_have_their_needs_witness:
  "''@ryu/rag'' \<in> enabled_ids trial_enabled
   \<and> check_edge trial_semver (index (within (enabled_ids trial_enabled) trial_manifests)) trial_notes_plugin
       \<lparr>ad_id = ''@ryu/rag'', ad_min_version = Some ''2''\<rparr> = None"
  using enabled_plugins_have_their_needs [OF trial_reachable trial_ids, of trial_notes_plugin]
  by (simp add: trial_manifests_def trial_enabled_def trial_record_def trial_notes_plugin_def dependencies_def)

text \<open>
  C21: An enable that fails, at whatever point, leaves the same plugins enabled as before, as long as
  reads and the writes that undo do not fail.
\<close>

theorem failed_enable_changes_nothing:
  assumes "enable_app env m all st = (st', Inl e)" and "m \<in> set all" and "quiet (env_faults env)"
  shows "enabled_ids st' = enabled_ids st"
  using assms by (rule enable_failed_same)

theorem failed_enable_changes_nothing_witness:
  "enabled_ids (fst (enable_app trial_locked_env trial_notes_plugin trial_manifests trial_installed))
   = enabled_ids trial_installed"
proof (rule failed_enable_changes_nothing)
  show "enable_app trial_locked_env trial_notes_plugin trial_manifests trial_installed
    = (fst (enable_app trial_locked_env trial_notes_plugin trial_manifests trial_installed),
       Inl (EnableOther ''locked''))"
    by (simp only: trial_locked fst_conv)
qed (simp_all add: trial_manifests_def trial_locked_env_def quiet_def trial_faults_def)

text \<open>
  C22: An enable leaves each plugin it turned on with exactly the grants its own manifest declares: no
  grant is inherited from the plugin that asked for it, none is added by the answer of the gateway.
\<close>

theorem enabled_grants_are_declared:
  assumes "enable_app env m all st = (st', Inr out)" and "m \<in> set all" and "distinct (map pm_id all)"
    and "x \<in> set all" and "x = m \<or> pm_id x \<in> enabled_ids st' - enabled_ids st"
    and "r \<in> set st'" and "plr_id r = pm_id x"
  shows "set (plr_approved_grants r) = set (pm_permission_grants x)"
proof -
  obtain g where "grants_of (pm_id x) st' = {g}" "set g = set (pm_permission_grants x)"
    using enable_grants [OF assms(1-5)] by blast
  then show ?thesis using assms(6,7) by (auto simp: grants_of_def)
qed

theorem enabled_grants_are_declared_witness:
  "set (plr_approved_grants (last trial_enabled)) = set (pm_permission_grants trial_notes_plugin)"
  by (rule enabled_grants_are_declared [OF trial_enable _ trial_ids])
    (simp_all add: trial_manifests_def trial_enabled_def trial_record_def trial_notes_plugin_def)

text \<open>
  Planning an enable writes nothing and reports exactly what the enable then reports, when no
  statement of the store fails and Safe Mode is off.
\<close>

lemma planned_enable_is_the_enable:
  assumes "no_faults (env_faults env)" and "\<not> env_safe env" and "m \<in> set all"
  shows "plan_enable_app env m all st = (st, snd (enable_app env m all st))"
  using plan_is_enable [OF assms] by (metis prod.collapse)

lemma planned_enable_is_the_enable_witness:
  "plan_enable_app trial_env trial_notes_plugin trial_manifests trial_installed
   = (trial_installed, snd (enable_app trial_env trial_notes_plugin trial_manifests trial_installed))"
  by (rule planned_enable_is_the_enable)
    (simp_all add: trial_env_def trial_faults_def no_faults_def trial_manifests_def)

text \<open>
  C23: Whatever is asked to be disabled or uninstalled, with or without the dependents, and whatever
  fails meanwhile, a mandatory plugin that was enabled stays enabled: a disable does not turn it off,
  be it by force, and an uninstall neither turns it off nor removes it.  A load-bearing plugin stays enabled
  in the same way, unless a disable is forced; an uninstall cannot be forced.
\<close>

theorem mandatory_plugins_stay_enabled:
  assumes "j \<in> enabled_ids st"
  shows "(is_mandatory j \<or> \<not> force \<and> is_load_bearing j \<longrightarrow>
        j \<in> enabled_ids (fst (disable_app env i all cascade force st)))
    \<and> (is_mandatory j \<or> is_load_bearing j \<longrightarrow>
        j \<in> enabled_ids (fst (fst (uninstall_app_inner env undeletable dry i all cascade (st, jobs)))))"
proof -
  obtain st' jobs' res where "uninstall_app_inner env undeletable dry i all cascade (st, jobs) = ((st', jobs'), res)"
    by (metis surj_pair)
  then have "is_mandatory j \<or> is_load_bearing j \<longrightarrow>
      j \<in> enabled_ids (fst (fst (uninstall_app_inner env undeletable dry i all cascade (st, jobs))))"
    using uninstall_spares [OF _ assms, of env undeletable dry i all cascade jobs st' jobs' res] by auto
  with disable_spares [OF prod.collapse [symmetric] assms] show ?thesis by blast
qed

theorem mandatory_plugins_stay_enabled_witness:
  "''@ryu/rag'' \<in> enabled_ids (fst (disable_app trial_env ''acme.engine'' trial_manifests True True trial_enabled))
   \<and> ''@ryu/rag'' \<in> enabled_ids (fst (fst (uninstall_app_inner trial_env (\<lambda>_. False) False ''acme.engine''
        trial_manifests True (trial_enabled, []))))"
proof -
  have "''@ryu/rag'' \<in> enabled_ids trial_enabled" by (simp add: trial_enabled_def trial_record_def)
  moreover have "is_mandatory ''@ryu/rag''" by (simp add: is_mandatory_def mandatory_plugins_def)
  ultimately show ?thesis using mandatory_plugins_stay_enabled by blast
qed

section \<open>Admission to the local engine\<close>

text \<open>
  C24: However requests arrive, are woken, are cancelled and end, in whatever order their steps
  interleave, every occupied slot of the local engine has exactly one owner (a permit, a guard in a
  channel, on its way or being dropped), there are at most as many as configured, no more requests wait
  than configured, nobody waits while a slot is free, and no waiter is forgotten.
\<close>

theorem gate_never_overbooked:
  assumes "runs_to (new_gate provider m q) es w"
  shows "unat (in_flight (pg_state (gate w))) = owners w \<and> owners w \<le> unat m
    \<and> queue_len (pg_state (gate w)) \<le> unat q
    \<and> (queue_len (pg_state (gate w)) = 0 \<or> owners w = unat m)
    \<and> {i. i < length (channels w) \<and> channels w ! i = Awaiting} \<subseteq> set (waiting w)"
  using gate_facts [OF assms] by blast

theorem gate_never_overbooked_witness:
  "owners trial_world = 1 \<and> queue_len (pg_state (gate trial_world)) \<le> 3
   \<and> {i. i < length (channels trial_world) \<and> channels trial_world ! i = Awaiting} \<subseteq> {1, 2, 0}"
  using gate_never_overbooked [OF trial_runs]
  by (simp add: trial_world_def waiting_def queue_len_def owners_def)

text \<open>
  C25: A release is a run of the steps of the gate, whatever else is going on when it starts, and it does
  what the contract says: the slot goes to the first waiter that has not been cancelled, interactive ones
  before background ones and each in order of arrival; when there is none, one slot fewer is in flight and
  the queues are empty.
\<close>

theorem release_serves_in_order:
  assumes "gate_ok (w\<lparr>dropping := Suc (dropping w)\<rparr>)"
  shows "(\<exists>es. run_events gate_step es (w\<lparr>dropping := Suc (dropping w)\<rparr>) = Some (release w))
    \<and> (case live w of
         i # later \<Rightarrow> channels (release w) = (channels w)[i := Handed] \<and> live (release w) = later
           \<and> in_flight (pg_state (gate (release w))) = in_flight (pg_state (gate w))
       | [] \<Rightarrow> channels (release w) = channels w \<and> queue_len (pg_state (gate (release w))) = 0
           \<and> unat (in_flight (pg_state (gate (release w)))) = unat (in_flight (pg_state (gate w))) - 1)"
  using release_is_a_run [OF assms] release_serves [OF _ live_distinct [OF assms]] release_frees [of w]
    unat_pred [of "in_flight (pg_state (gate w))"]
  by (auto simp: queue_len_def split: list.splits)

theorem release_serves_in_order_witness:
  "channels (release (trial_world\<lparr>permits := 0\<rparr>)) = [Awaiting, Abandoned, Handed]
   \<and> live (release (trial_world\<lparr>permits := 0\<rparr>)) = [0]"
proof -
  let ?w = "trial_world\<lparr>permits := 0\<rparr>"
  have "runs_to (new_gate ''local'' 1 3) (trial_arrivals @ [Finishes]) (?w\<lparr>dropping := Suc (dropping ?w)\<rparr>)"
    by code_simp
  from reached_ok [OF this] have "gate_ok (?w\<lparr>dropping := Suc (dropping ?w)\<rparr>)" .
  note served = release_serves_in_order [OF this]
  have "live ?w = [2, 0]" by (simp add: live_def trial_world_def)
  with served have "channels (release ?w) = (channels ?w)[2 := Handed] \<and> live (release ?w) = [0]" by simp
  then show ?thesis by (simp add: trial_world_def)
qed

text \<open>
  C26: An interactive request waits for no more releases than the queue may hold waiters: after that many
  it has its slot or the slot is on its way to it (or it was cancelled), whatever arrives meanwhile.
\<close>

theorem interactive_requests_are_served:
  assumes "runs_to (new_gate provider m q) es w" and "i \<in> set (interactive (pg_state (gate w)))"
    and "run_events gate_step later w = Some w'"
    and "unat q \<le> length (filter (\<lambda>e. e = Releases) later)"
  shows "i \<in> set (transit w') \<or> channels w' ! i \<in> {Handed, Received, Abandoned}"
proof -
  have "place i (interactive (pg_state (gate w))) < length (interactive (pg_state (gate w)))"
    using assms(2) by (rule place_less)
  also have "\<dots> \<le> unat q" using gate_facts(3) [OF assms(1)] by (simp add: queue_len_def)
  also note assms(4)
  finally show ?thesis
    using interactive_reached [OF assms(3) reached_ok [OF assms(1)] assms(2)]
    by (cases "channels w' ! i") auto
qed

theorem interactive_requests_are_served_witness:
  "(2::nat) \<in> set (transit trial_served) \<or> channels trial_served ! 2 \<in> {Handed, Received, Abandoned}"
  by (rule interactive_requests_are_served [OF trial_runs _ trial_handed])
    (simp_all add: trial_world_def trial_handover_def)

section \<open>Circuits and dispatch\<close>

text \<open>
  Failures in a row are counted until they reach the threshold; the one that reaches it opens the
  circuit, at its own time, and later ones move nothing.  The counter never overflows.
\<close>

lemma circuit_opens_at_threshold:
  assumes "cb_enabled cfg" and "failure_threshold cfg \<noteq> 0" and "circuits_ok cfg cs"
    and "circuit_of cs p = Closed 0"
  shows "circuit_of (fail_all cfg p ts cs) p =
    (if length ts < unat (failure_threshold cfg) then Closed (word_of_nat (length ts))
     else Open (ts ! (unat (failure_threshold cfg) - 1)))"
  using assms by (intro fail_all_closed) (simp_all add: circuits_ok_def)

lemma circuit_opens_at_threshold_witness:
  "circuit_of (fail_all trial_breaker ''openai'' [5, 7, 9] []) ''openai'' = Open 7"
  using circuit_opens_at_threshold [of trial_breaker "[]" "''openai''" "[5, 7, 9]"]
  by (simp add: circuits_ok_empty trial_breaker_def circuit_of_def bt_get_def)

text \<open>
  C27: Of the requests that come while a circuit is open, and until one of them reports, exactly the first
  after the reset timeout is let through as the probe; all others are refused.
\<close>

theorem one_probe_at_a_time:
  assumes "cb_enabled cfg" and "circuits_ok cfg cs" and "circuit_of cs p = Open t"
  shows "ask_all cfg p nows cs =
    (let early = takeWhile (\<lambda>now. now - t < reset_timeout cfg) nows in
     map (\<lambda>_. True) early
     @ (if length early < length nows then False # map (\<lambda>_. True) (drop (Suc (length early)) nows) else []))"
  using assms ask_all_answers [of cfg cs p nows] by (simp add: circuits_ok_def answers_open)

theorem one_probe_at_a_time_witness:
  "ask_all trial_breaker ''openai'' [1, 30000000000, 30000000001] trial_open = [True, False, True]"
  by (subst one_probe_at_a_time [OF _ trial_open_ok, where t = 0])
    (simp_all add: trial_breaker_def trial_open_def circuit_of_def bt_get_def reset_timeout_def)

text \<open>
  C28: A request is answered by the first provider of its chain that is called and answers: every earlier
  place was reached and passed over, this one's region is authorized, its circuit admits, it is registered
  and admission was granted.  The answer is marked as degraded exactly when it is not the first place's.
\<close>

theorem answered_by_first_able:
  assumes "dispatch env model attempts chain b = (Inr ans, b')"
  shows "\<exists>k st provider. reaches env attempts chain b k st \<and> calls env (attempts k) (chain ! k) st
    \<and> get_provider (de_registry env) (chain ! k) = Some provider
    \<and> at_result (attempts k) = Inr (an_response ans) \<and> an_provider ans = pv_name provider
    \<and> an_degraded ans = (if k = 0 then None else Some (pv_name provider))"
  using assms by (rule dispatch_served)

theorem answered_by_first_able_witness:
  "\<exists>k st. reaches trial_dispatch trial_failover [''openai'', ''cloudflare''] [] k st
     \<and> at_result (trial_failover k) = Inr ''hello''"
  using answered_by_first_able [OF trial_failover_run] by (auto simp: trial_failover_answer_def)

text \<open>
  C29: When a provider that was called wants to be paid and the request is not answered, the caller is
  told of a payment, whatever the later providers say, as long as the region policy denies none of them
  and the local engine refuses nobody.
\<close>

theorem payment_is_reported:
  assumes "dispatch env model attempts chain b = (Inl e, b')" and "reaches env attempts chain b k st"
    and "calls env (attempts k) (chain ! k) st" and "at_result (attempts k) = Inl x" and "is_payment x"
    and "\<forall>p \<in> set (drop (Suc k) chain). may_call env p"
    and "de_kind env = Unified \<or> (\<forall>n. at_admission (attempts n) = None)"
  shows "is_payment e"
  using assms by (rule dispatch_payment)

theorem payment_is_reported_witness:
  "is_payment (ProviderPaymentRequired ''openai'' ''top up'')"
proof (rule payment_is_reported [OF trial_unpaid_run, where k = 0 and st = "fresh_chain []"
    and x = "ProviderPaymentRequired ''openai'' ''top up''"])
  show "reaches trial_dispatch trial_unpaid [''openai'', ''cloudflare''] [] 0 (fresh_chain [])"
    by (simp add: reaches_def)
  show "calls trial_dispatch (trial_unpaid 0) ([''openai'', ''cloudflare''] ! 0) (fresh_chain [])"
    by code_simp
  show "\<forall>p \<in> set (drop (Suc 0) [''openai'', ''cloudflare'']). may_call trial_dispatch p"
    by (simp add: may_call_def authorize_provider_region_def allows_region_def trial_dispatch_def
      default_effective_policy_def)
qed (simp_all add: trial_unpaid_def trial_attempt_def trial_dispatch_def)

text \<open>
  C30: A probe that ends without a report (the provider is not registered, the admission queue is full, or
  the provider is busy or wants to be paid) leaves its circuit half open for good: no later request, at
  whatever time, is answered by that provider, as long as no call admitted earlier reports on it.
\<close>

theorem lost_probe_is_never_replaced:
  assumes "attempt_provider env primary a p st = (out, st')" and "de_breaker env = builtin cfg"
    and "cb_enabled cfg" and "circuits_ok cfg (ch_circuits st)" and "may_call env p"
    and "circuit_of (ch_circuits st) p = Open t" and "reset_timeout cfg \<le> at_check a - t"
    and "spares (circuits_ok cfg) circuit_of p (at_meanwhile a)" and "unreported env a p"
    and "\<forall>(env', model, attempts, chain) \<in> set jobs.
      de_breaker env' = builtin cfg \<and> names_are_ids (de_registry env')
      \<and> (\<forall>k. spares (circuits_ok cfg) circuit_of p (at_meanwhile (attempts k)))"
    and "dispatch_all jobs (ch_circuits st') = (outs, b)"
  shows "circuit_of b p = HalfOpen True \<and> (\<forall>ans. Inr ans \<in> set outs \<longrightarrow> an_provider ans \<noteq> p)"
  using builtin_breaker.dispatch_all_shut [OF assms(11), of cfg p] probe_lost [OF assms(1-9)] assms(3,10)
  by (simp add: probing_def)

theorem lost_probe_is_never_replaced_witness:
  "circuit_of (snd (dispatch_all [trial_later] [(''openai'', HalfOpen True)])) ''openai'' = HalfOpen True"
proof -
  have "circuit_of (snd (dispatch_all [trial_later] (ch_circuits trial_half_open))) ''openai'' = HalfOpen True"
  proof (rule conjunct1 [OF lost_probe_is_never_replaced [OF trial_probe, where t = 0 and cfg = trial_breaker]])
    show "dispatch_all [trial_later] (ch_circuits trial_half_open)
        = (fst (dispatch_all [trial_later] (ch_circuits trial_half_open)),
           snd (dispatch_all [trial_later] (ch_circuits trial_half_open)))"
      by simp
    show "circuits_ok trial_breaker (ch_circuits (fresh_chain trial_open))"
      by (simp add: fresh_chain_def trial_open_ok)
    show "circuit_of (ch_circuits (fresh_chain trial_open)) ''openai'' = Open 0" by code_simp
    show "unreported trial_dispatch trial_busy ''openai''"
      by (simp add: unreported_def trial_busy_def trial_attempt_def)
    show "may_call trial_dispatch ''openai''"
      by (simp add: may_call_def authorize_provider_region_def allows_region_def trial_dispatch_def
        default_effective_policy_def)
  qed (simp_all add: trial_dispatch_def trial_breaker_def trial_busy_def trial_attempt_def spares_def
    trial_later_def trial_names reset_timeout_def)
  then show ?thesis by (simp add: trial_half_open_def)
qed

section \<open>Policies and routes of the gateway\<close>

text \<open>
  C31: A field that the node or the organization locks protects in the end no less than where it was
  locked, whatever the overlay of a narrower scope or of the request says.  For the inspector, a field
  of several parts, this holds of its switch, its mode, its limits and its action, but not of its model:
  whatever is locked, the model is that of the narrowest overlay that states an inspector, first the
  request, then the agent, then the organization, and that of the node only if none of them does.
\<close>

theorem locked_fields_hold:
  assumes "field_name f \<in> set (fc_locked_fields (re_node_base r)) \<and> broader = re_node_base r
    \<or> field_name f \<in> set (snd (org_scope r org bundle)) \<and> broader = fst (org_scope r org bundle)"
  shows "field_kept f broader (resolve_with_request r org agent bundle request)
    \<and> ic_model (fc_inspector (resolve_with_request r org agent bundle request))
        = model_after request (model_after (agent_overlay r agent bundle) (model_after (org_overlay r org bundle)
            (ic_model (fc_inspector (re_node_base r)))))"
  using assms node_locks_hold org_locks_hold inspector_model_resolved by blast

theorem locked_fields_hold_witness:
  "policy_severity Sanitize \<le> policy_severity (fc_policy (resolve_with_request trial_resolver (Some ''org'')
     (Some ''agent'') None (Some (empty_overlay\<lparr>fo_policy := Some WarnAndContinue\<rparr>))))"
  using locked_fields_hold [of LPolicy trial_resolver trial_base]
  by (simp add: trial_resolver_def set_agent_overlay_def set_org_overlay_def invalidate_cache_def new_resolver_def)
    (simp add: trial_base_def)

text \<open>
  C32: What a node asks for in the header of a request can only tighten the firewall policy that the
  request is under, but for one thing.  Every field protects as much as before, of the inspector its
  switch, mode, limits and action; evaluators and locks are as before, and a bounded number of patterns
  is added.  The exception is the model of the inspector: it is as before only when the header states
  no inspector (or its overlay is dropped), and else the one the header names, locked or not.
\<close>

theorem preferences_only_tighten:
  "field_kept f (resolved_policy r cfg org agent b None) (resolved_policy r cfg org agent b prefs)
   \<and> fc_evaluators (resolved_policy r cfg org agent b prefs) = fc_evaluators (resolved_policy r cfg org agent b None)
   \<and> fc_locked_fields (resolved_policy r cfg org agent b prefs) =
       fc_locked_fields (resolved_policy r cfg org agent b None)
   \<and> (\<exists>ps. fc_custom_patterns (resolved_policy r cfg org agent b prefs) =
         fc_custom_patterns (resolved_policy r cfg org agent b None) @ ps \<and> length ps \<le> nc_max_patterns cfg)
   \<and> ic_model (fc_inspector (resolved_policy r cfg org agent b prefs)) =
       (case Option.bind (fst (clamp_firewall prefs cfg)) fo_inspector of
          None \<Rightarrow> ic_model (fc_inspector (resolved_policy r cfg org agent b None))
        | Some i \<Rightarrow> ic_model i)"
  using prefs_only_tighten [of f r cfg org agent b prefs] prefs_model [of r cfg org agent b prefs]
  by (simp add: model_after_def)

text \<open>
  C33: The scanner that a request gets is the one compiled from the policy resolved for it, whatever
  other requests and configuration writes did to the cache before and in between, and whatever the hash
  of the cache collides on.
\<close>

theorem cached_scanner_is_current:
  fixes build :: "'o firewall_config \<Rightarrow> 'sc"
  shows "let r = others_run build hash before (new_resolver base) in
    fst (scanner_for_request build hash (others_run build hash meanwhile) org agent bundle request r)
    = build (resolve_with_request r org agent bundle request)"
proof -
  have "cache_ok build (new_resolver base)" by (rule cache_ok_empty) (simp add: new_resolver_def)
  then have "cache_ok build (others_run build hash before (new_resolver base))" by (rule others_keep_cache)
  from scanner_is_built [OF this] show ?thesis by (simp add: Let_def)
qed

text \<open>
  C34: The chain that a request is dispatched over is that of the fleet, reordered: the routed provider
  first and only there, no provider added, none dropped, none tried more often than the operator's chain lists it, and
  none moved forward that the organization cannot pay for.  When that chain lists each provider once,
  so does the chain of the request.  (Nothing in the configuration ensures that: a provider listed twice
  is tried twice, or once if the node prefers it, see \<open>repeated_provider\<close>.)
\<close>

theorem clamped_chain_permutes_fleet:
  fixes t primary
  defines "fleet \<equiv> primary # filter (\<lambda>p. p \<noteq> primary) (rt_fallback_chain t)"
  shows "set (clamped_fallback_chain t prefs cfg pool_gate primary) = set fleet
    \<and> mset (clamped_fallback_chain t prefs cfg pool_gate primary) \<subseteq># mset fleet
    \<and> (distinct (rt_fallback_chain t) \<longrightarrow> mset (clamped_fallback_chain t prefs cfg pool_gate primary) = mset fleet)
    \<and> hd (clamped_fallback_chain t prefs cfg pool_gate primary) = primary
    \<and> (fallback_chain t primary = xs @ p # ys \<and> xs \<noteq> [] \<and> \<not> pool_gate (pool_for_gateway_provider p)
       \<longrightarrow> (\<exists>us vs. clamped_fallback_chain t prefs cfg pool_gate primary = us @ p # vs \<and> set xs \<subseteq> set us))"
proof (intro conjI impI)
  have fleet: "mset (fallback_chain t primary) = mset fleet" by (simp add: fallback_chain_eq fleet_def)
  then have "set (fallback_chain t primary) = set fleet" by (rule mset_eq_setD)
  then show "set (clamped_fallback_chain t prefs cfg pool_gate primary) = set fleet"
    unfolding clamped_fallback_chain_def by (simp add: clamp_set)
  show "mset (clamped_fallback_chain t prefs cfg pool_gate primary) \<subseteq># mset fleet"
    unfolding clamped_fallback_chain_def using clamp_subset fleet by metis
  show "mset (clamped_fallback_chain t prefs cfg pool_gate primary) = mset fleet" if "distinct (rt_fallback_chain t)"
    unfolding clamped_fallback_chain_def clamp_permutes [OF fallback_chain_distinct [OF that]] by (rule fleet)
  show "hd (clamped_fallback_chain t prefs cfg pool_gate primary) = primary"
    unfolding clamped_fallback_chain_def by (subst clamp_hd) (simp_all add: fallback_chain_eq)
  assume "fallback_chain t primary = xs @ p # ys \<and> xs \<noteq> [] \<and> \<not> pool_gate (pool_for_gateway_provider p)"
  then show "\<exists>us vs. clamped_fallback_chain t prefs cfg pool_gate primary = us @ p # vs \<and> set xs \<subseteq> set us"
    unfolding clamped_fallback_chain_def using clamp_unfunded_behind by blast
qed

theorem clamped_chain_permutes_fleet_witness:
  "mset (clamped_fallback_chain trial_tables (None :: unit node_routing_prefs option) default_node_routing
     (\<lambda>_. True) ''openai'') = {#''openai'', ''local'', ''vertex'', ''cloudflare''#}"
  using clamped_chain_permutes_fleet [where t = trial_tables and primary = "''openai''"
      and prefs = "None :: unit node_routing_prefs option" and cfg = default_node_routing and pool_gate = "\<lambda>_. True"]
  by (simp add: trial_tables_def)

text \<open>
  Where a model is routed does not depend on the order in which the operator's map is iterated: the
  longest key that is a prefix of the model decides, and it is unique.
\<close>

lemma routing_ignores_map_order:
  assumes "set (rt_model_map s) = set (rt_model_map t)" and "distinct (map fst (rt_model_map s))"
    and "distinct (map fst (rt_model_map t))" and "rt_builtin_prefixes s = rt_builtin_prefixes t"
    and "rt_default_provider s = rt_default_provider t"
  shows "route s = route t
    \<and> best_key model (set (rt_model_map t)) (longest_prefix model (rt_model_map s) None)"
  using route_ignores_order [OF assms] user_prefix_best [of model s] assms(1) by simp

lemma routing_ignores_map_order_witness:
  "route (trial_tables\<lparr>rt_model_map := rev (rt_model_map trial_tables)\<rparr>) ''gpt-4o-mini-2024''
   = (''cloudflare'', ''@cf/mini'')"
proof -
  have "route (trial_tables\<lparr>rt_model_map := rev (rt_model_map trial_tables)\<rparr>) = route trial_tables"
    by (rule conjunct1 [OF routing_ignores_map_order]) (auto simp: trial_tables_def)
  then show ?thesis using trial_routes by simp
qed

section \<open>Money\<close>

text \<open>
  C35: What the budgets say of a request follows from what was charged: whatever charges were recorded, in
  whatever order, a scope speaks up exactly when the charges that its rule counts have reached its limit,
  and of the two scopes the more severe action is taken, that of the user on a tie.  The sums stay below
  the range of the counters.
\<close>

theorem budgets_follow_charges:
  assumes "spent (\<lambda>_. True) es < 2 ^ 64"
  shows "map_option bd_action (evaluate_charge (charged cfg es) user agent kind)
    = harsher (map_option rule_action (used_up (bc_users cfg) ce_user es kind user))
        (map_option rule_action (used_up (bc_agents cfg) ce_agent es kind agent))"
  using assms by (rule evaluated_by_charges)

theorem budgets_follow_charges_witness:
  "map_option bd_action (evaluate_charge (charged spend_budgets spend_history) (Some ''ann'') (Some ''coder'') ChargeModel)
   = Some BudgetStop"
  using budgets_follow_charges [OF spend_history_small, of spend_budgets "Some ''ann''" "Some ''coder''" ChargeModel]
  by (simp add: spend_used_up harsher_stops)

text \<open>
  C36: However many requests of an organization run at once, and in whatever order they reserve, give back
  and settle, what is in flight is the sum of what they hold, and it is within the largest balance that
  any of them was admitted against.
\<close>

theorem reservations_stay_within_balance:
  assumes "run_events credit_step es no_credit = Some c"
    and "\<forall>e \<in> set es. within_headroom h e" and "\<forall>org. 0 \<le> h org \<and> h org < max_i64"
  shows "in_flight_of org (cw_wallet c) = held_by org c \<and> held_by org c \<le> h org"
  using credit_reached [OF assms] by (simp add: credit_ok_def)

theorem reservations_stay_within_balance_witness:
  "in_flight_of ''acme'' (cw_wallet spend_credit) = held_by ''acme'' spend_credit \<and> held_by ''acme'' spend_credit \<le> 1000000"
  using reservations_stay_within_balance [OF spend_reserved, of "\<lambda>_. 1000000" "''acme''"]
  by (simp add: spend_events_def within_headroom_def max_i64_def)

text \<open>
  C37: What the clamp of the output ceiling leaves of a text request, by cases.  When reservations are
  switched off, or the request names no organization, or the organization's balance has no bound (it is
  not managed, or a managed tenant without a cap), the body stays as it is and nothing is reserved.  Otherwise
  let \<open>spendable\<close> be the balance in the pool less what is in flight, taken to be positive, with nothing
  negative in flight.  If it buys tokens without bound, because the model's output is not charged for, the
  body stays as it is.  If it buys no token at all, no ceiling above zero is left.  In the remaining case the request leaves with
  a ceiling above zero whose cost, markup included, is within \<open>spendable\<close>; and if moreover the model is
  not priced below the flat rate, \<open>spendable\<close> covers the floor of a reservation and the body states its ceiling under at most one
  of the two keys, then the reservation that follows does not turn the request away.
\<close>

theorem clamped_requests_are_affordable:
  fixes cfg cp ctx w pool kvs
  defines "clamped \<equiv> clamp_output_ceiling cfg cp ctx w pool Clamp (JObject kvs)"
    and "price \<equiv> output_price_per_1k cp (body_model (JObject kvs))"
  shows "(\<not> cx_reserve_enabled cfg \<or> present (rq_org ctx) = None \<or> credit_headroom ctx pool = None \<longrightarrow>
      clamped = (None, JObject kvs) \<and> maybe_reserve_credit cfg cp ctx (snd clamped) pool w = (Inr None, w))
    \<and> (\<forall>org headroom spendable affordable. cx_reserve_enabled cfg \<and> present (rq_org ctx) = Some org
        \<and> credit_headroom ctx pool = Some headroom \<and> is_i64 headroom \<and> 0 \<le> in_flight_of org w
        \<and> spendable = headroom - in_flight_of org w \<and> 0 < spendable
        \<and> affordable = affordable_output_tokens cfg cp spendable (body_model (JObject kvs)) \<longrightarrow>
      (affordable = usize_max \<longrightarrow> clamped = (None, JObject kvs))
      \<and> (affordable = 0 \<longrightarrow> stated_ceiling (snd clamped) = 0)
      \<and> (affordable \<notin> {0, usize_max} \<longrightarrow>
          0 < stated_ceiling (snd clamped)
          \<and> int (debit_amount cfg (sat_mul (stated_ceiling (snd clamped)) price div 1000)) \<le> spendable
          \<and> (cp_cost_per_1k cp \<le> price \<and> int (cx_min_reserve cfg) \<le> spendable \<and> one_ceiling (JObject kvs) \<longrightarrow>
               (\<exists>r w'. maybe_reserve_credit cfg cp ctx (snd clamped) pool w = (Inr (Some r), w')))))"
proof (intro conjI allI impI, goal_cases)
  case 1
  then show ?case unfolding clamped_def by (rule clamp_spares(1))
next
  case 2
  then show ?case by (rule clamp_spares(2))
next
  case (3 org headroom spendable affordable)
  then show ?case using spendable_in_range [of headroom org w] unfolding clamped_def by (auto intro: clamp_unmetered)
next
  case (4 org headroom spendable affordable)
  then show ?case using spendable_in_range [of headroom org w] unfolding clamped_def by (auto intro: clamp_nothing_affordable)
next
  case (5 org headroom spendable affordable)
  then show ?case using clamped_costs [of cfg ctx org pool headroom w cp kvs] spendable_in_range [of headroom org w]
    unfolding clamped_def price_def by simp
next
  case (6 org headroom spendable affordable)
  then show ?case using clamped_costs [of cfg ctx org pool headroom w cp kvs] spendable_in_range [of headroom org w]
    unfolding clamped_def price_def by simp
next
  case (7 org headroom spendable affordable)
  then show ?case using clamped_reserves [of cfg ctx org pool headroom w kvs cp] spendable_in_range [of headroom org w]
    unfolding clamped_def price_def by simp
qed

theorem clamped_requests_are_affordable_witness:
  "stated_ceiling (snd (clamp_output_ceiling spend_credits spend_prices spend_ctx new_wallet None Clamp
     (ask_for ''claude-x'' []))) = 63492
   \<and> int (debit_amount spend_credits (sat_mul 63492 15000 div 1000)) \<le> 1000000"
proof -
  have body: "ask_for ''claude-x'' [] = JObject [(''model'', JString ''claude-x'')]" by (simp add: ask_for_def)
  have ceiling: "stated_ceiling (snd (clamp_output_ceiling spend_credits spend_prices spend_ctx new_wallet None Clamp
      (JObject [(''model'', JString ''claude-x'')]))) = 63492" by code_simp
  have price: "output_price_per_1k spend_prices (body_model (JObject [(''model'', JString ''claude-x'')])) = 15000"
    by code_simp
  have idle: "in_flight_of ''acme'' new_wallet = 0" by code_simp
  have head: "credit_headroom spend_ctx None = Some 1000000" by code_simp
  have afford: "affordable_output_tokens spend_credits spend_prices (sat_i64 1000000)
      (body_model (JObject [(''model'', JString ''claude-x'')])) = 63492" by code_simp
  have org: "cx_reserve_enabled spend_credits" "present (rq_org spend_ctx) = Some ''acme''"
    and rest: "cp_cost_per_1k spend_prices \<le> 15000" "int (cx_min_reserve spend_credits) \<le> 1000000"
    by (simp_all add: spend_ctx_def spend_credits_def spend_prices_def present_def)
  have range: "is_i64 1000000" and not_max: "63492 \<notin> {0, usize_max}" by code_simp+
  have "affordable_output_tokens spend_credits spend_prices 1000000
      (body_model (JObject [(''model'', JString ''claude-x'')])) = 63492"
    using afford by (simp add: sat_i64_def max_i64_def)
  then have "int (debit_amount spend_credits (sat_mul 63492 15000 div 1000)) \<le> 1000000"
    using clamped_requests_are_affordable [of spend_credits spend_ctx None spend_prices new_wallet
        "[(''model'', JString ''claude-x'')]", THEN conjunct2, rule_format, of "''acme''" 1000000 1000000 63492]
      org head range idle not_max by (simp add: ceiling price)
  with ceiling body show ?thesis by simp
qed





text \<open>
  C40: How the gates of a managed organization close, and that requests cannot open them again.  A debit
  that is sent for a request of it closes them when it is not confirmed, if the gateway is set to fail closed, and when the balance
  that comes back is used up, if an empty wallet means stop; a positive balance opens them.  Once they are
  closed and nothing of the organization is running, they stay closed and every request of it is refused,
  also with money on its account: whatever requests come from whomever, those of the organization being of a managed tenant
  without the master key, and whatever is reported for tools and sandboxes meanwhile, unless such a report for this
  organization is answered with a positive balance (or with any balance, where an empty wallet does not mean stop).
  So only a debit that is not one of a request gets it out of there.
\<close>

theorem outage_strands_tenant:
  assumes "credits_active cfg" and "run_events (account_step cfg) es a = Some a'"
    and "blocked cfg org (ac_wallet a)" and "\<forall>r \<in> set (ac_running a). rn_org r \<noteq> Some org"
    and "\<forall>e \<in> set es. tenant_event cfg org e"
    and "se_credits env = cfg" and "\<not> rq_master ctx" and "rq_managed ctx" and "present (rq_org ctx) = Some org"
  shows "(rn_org r = Some org \<and> owes cfg r d \<and> debit_call_for cfg d \<noteq> None \<longrightarrow>
        (case confirmed_balance reply of
           None \<Rightarrow> rn_managed r \<and> cx_fail_closed cfg \<longrightarrow> blocked cfg org (debit_wallet_for_request cfg (\<lambda>_. reply) meanwhile d w)
         | Some n \<Rightarrow> if 0 < n then \<not> blocked cfg org (debit_wallet_for_request cfg (\<lambda>_. reply) meanwhile d w)
             else cx_wallet_empty_action cfg = WalletStop \<longrightarrow>
               blocked cfg org (debit_wallet_for_request cfg (\<lambda>_. reply) meanwhile d w)))
    \<and> (\<exists>e rest. enforce_budget env ctx kind ceiling id body routed (ac_wallet a') = Some (Inl e, rest))"
proof
  have "stranded cfg org a" using assms(3,4) by (simp add: stranded_def)
  then have "blocked cfg org (ac_wallet a')"
    using stranded_forever [OF assms(1) _ assms(2,5)] by (simp add: stranded_def)
  then show "\<exists>e rest. enforce_budget env ctx kind ceiling id body routed (ac_wallet a') = Some (Inl e, rest)"
    using blocked_refused [OF assms(6,1) _ assms(7-9)] by blast
  show "rn_org r = Some org \<and> owes cfg r d \<and> debit_call_for cfg d \<noteq> None \<longrightarrow>
        (case confirmed_balance reply of
           None \<Rightarrow> rn_managed r \<and> cx_fail_closed cfg \<longrightarrow> blocked cfg org (debit_wallet_for_request cfg (\<lambda>_. reply) meanwhile d w)
         | Some n \<Rightarrow> if 0 < n then \<not> blocked cfg org (debit_wallet_for_request cfg (\<lambda>_. reply) meanwhile d w)
             else cx_wallet_empty_action cfg = WalletStop \<longrightarrow>
               blocked cfg org (debit_wallet_for_request cfg (\<lambda>_. reply) meanwhile d w))"
    using request_debit_blocks [where cfg = cfg and r = r and d = d and org = org and reply = reply
        and meanwhile = meanwhile and w = w]
    by (auto split: option.split)
qed

theorem outage_strands_tenant_witness:
  "run_events (account_step spend_credits) outage_events idle_account = Some outage_account
   \<and> (\<exists>e rest. enforce_budget debit_env (spend_ctx\<lparr>rq_remaining := Some 1000000000\<rparr>) ChargeModel Clamp id
        (ask_for ''claude-x'' []) (''anthropic'', ''claude-x'') (ac_wallet outage_account) = Some (Inl e, rest))"
proof -
  have env: "se_credits debit_env = spend_credits" by (simp add: debit_env_def spend_environment_def)
  show ?thesis
    using outage_happens outage_strands_tenant [OF spend_credits_active, of "[]" outage_account outage_account "''acme''"
        debit_env "spend_ctx\<lparr>rq_remaining := Some 1000000000\<rparr>"] outage_blocks
    by (simp add: env spend_ctx_def present_def outage_account_def)
qed

end
